(* ===== verification/BHG_Prelude.thy ===== *)
theory BHG_Prelude
  imports "HOL-Library.Word" "HOL-Library.Product_Lexorder" "HOL-Library.Multiset"
begin

text \<open>
  The prelude of the development: the machine types of the code as word types, the collections
  of facts that the component proofs share, and the generic lemmas on lists and on the ordered
  maps that stand for the code's \<open>std::map\<close>.

  A \<open>std::map\<close> is an association list with strictly increasing keys (\<open>omap_inv\<close>), because the
  code iterates its maps in key order; \<open>omap_find\<close>, \<open>omap_put\<close> and \<open>omap_erase\<close> are its
  \<open>find\<close>, its \<open>emplace\<close>/\<open>operator[]\<close> and its \<open>erase\<close>. A \<open>std::set\<close> is a
  strictly increasing list, built by \<open>insort_insert\<close>.
\<close>

unbundle bit_operations_syntax

subsection \<open>Machine types\<close>

type_synonym u8 = "8 word"
type_synonym u16 = "16 word"
type_synonym u32 = "32 word"
type_synonym u64 = "64 word"

text \<open>A signed 64-bit value is held as its two's complement word; it is compared through \<open>sint\<close>.\<close>

type_synonym i64 = "64 word"
type_synonym bytes = "u8 list"

subsection \<open>Collections of facts\<close>

named_theorems codec_intros \<open>round-trip rules for encoder/decoder pairs\<close>
named_theorems decoder_safe \<open>decoders that stay within their input and keep a latched failure\<close>
named_theorems omap_simps \<open>laws of ordered maps\<close>

subsection \<open>Ordered maps\<close>

type_synonym ('k, 'v) omap = "('k \<times> 'v) list"

definition omap_inv :: "('k::linorder, 'v) omap \<Rightarrow> bool" where
  "omap_inv m \<longleftrightarrow> sorted_wrt (<) (map fst m)"

definition omap_find :: "('k, 'v) omap \<Rightarrow> 'k \<Rightarrow> 'v option" where
  "omap_find m k = map_of m k"

fun omap_put :: "('k::linorder, 'v) omap \<Rightarrow> 'k \<Rightarrow> 'v \<Rightarrow> ('k, 'v) omap" where
  "omap_put [] k v = [(k, v)]"
| "omap_put ((k', v') # m) k v =
     (if k < k' then (k, v) # (k', v') # m
      else if k = k' then (k, v) # m
      else (k', v') # omap_put m k v)"

definition omap_erase :: "('k, 'v) omap \<Rightarrow> 'k \<Rightarrow> ('k, 'v) omap" where
  "omap_erase m k = filter (\<lambda>kv. fst kv \<noteq> k) m"

lemma omap_inv_Nil [omap_simps, simp]: "omap_inv []"
  by (simp add: omap_inv_def)

lemma omap_inv_distinct: "omap_inv m \<Longrightarrow> distinct (map fst m)"
  unfolding omap_inv_def by (simp add: strict_sorted_iff)

lemma omap_inv_Cons [omap_simps, simp]:
  "omap_inv (kv # m) \<longleftrightarrow> (\<forall>k \<in> fst ` set m. fst kv < k) \<and> omap_inv m"
  by (simp add: omap_inv_def)

lemma omap_find_put [omap_simps, simp]:
  "omap_find (omap_put m k v) k' = (if k' = k then Some v else omap_find m k')"
  unfolding omap_find_def by (induction m k v rule: omap_put.induct) auto

lemma keys_omap_put [omap_simps, simp]: "fst ` set (omap_put m k v) = insert k (fst ` set m)"
  by (induction m k v rule: omap_put.induct) auto

lemma omap_inv_put [omap_simps, simp]: "omap_inv m \<Longrightarrow> omap_inv (omap_put m k v)"
  by (induction m k v rule: omap_put.induct) (auto simp: less_trans)

lemma omap_inv_erase [omap_simps, simp]: "omap_inv m \<Longrightarrow> omap_inv (omap_erase m k)"
  unfolding omap_erase_def by (induction m) auto

lemma omap_find_erase [omap_simps, simp]:
  "omap_find (omap_erase m k) k' = (if k' = k then None else omap_find m k')"
  unfolding omap_find_def omap_erase_def by (induction m) auto

lemma omap_find_Some_in: "omap_find m k = Some v \<Longrightarrow> (k, v) \<in> set m"
  unfolding omap_find_def by (rule map_of_SomeD)

lemma omap_find_iff: "omap_inv m \<Longrightarrow> omap_find m k = Some v \<longleftrightarrow> (k, v) \<in> set m"
  unfolding omap_find_def by (simp add: omap_inv_distinct)

lemma omap_find_None_iff: "omap_find m k = None \<longleftrightarrow> k \<notin> fst ` set m"
  unfolding omap_find_def by (simp add: map_of_eq_None_iff)

lemma length_omap_put_new:
  "omap_find m k = None \<Longrightarrow> length (omap_put m k v) = Suc (length m)"
  unfolding omap_find_def
  by (induction m k v rule: omap_put.induct) (auto split: if_splits)

lemma length_omap_put_old:
  "omap_inv m \<Longrightarrow> omap_find m k = Some v' \<Longrightarrow> length (omap_put m k v) = length m"
proof (induction m k v rule: omap_put.induct)
  case (1 k v)
  then show ?case by (simp add: omap_find_def)
next
  case (2 k'' v'' m k v)
  then show ?case
    by (fastforce simp: omap_find_def dest!: map_of_SomeD split: if_splits)
qed

text \<open>The values of a map as a multiset: the form in which counts over a map are updated.\<close>

definition omap_vals :: "('k, 'v) omap \<Rightarrow> 'v multiset" where
  "omap_vals m = mset (map snd m)"

lemma omap_vals_put_new:
  "omap_find m k = None \<Longrightarrow> omap_vals (omap_put m k v) = add_mset v (omap_vals m)"
  unfolding omap_find_def omap_vals_def
  by (induction m k v rule: omap_put.induct) (auto split: if_splits)

lemma omap_vals_put_old:
  "omap_inv m \<Longrightarrow> omap_find m k = Some v' \<Longrightarrow>
    add_mset v' (omap_vals (omap_put m k v)) = add_mset v (omap_vals m)"
proof (induction m k v rule: omap_put.induct)
  case (1 k v)
  then show ?case by (simp add: omap_find_def)
next
  case (2 k'' v'' m k v)
  show ?case
  proof (cases "k = k''")
    case True
    with 2 show ?thesis by (simp add: omap_find_def omap_vals_def)
  next
    case False
    with 2(3) have f: "omap_find m k = Some v'" by (simp add: omap_find_def)
    with 2(2) False have "\<not> k < k''"
      by (fastforce simp: omap_find_def dest!: map_of_SomeD)
    moreover have "omap_inv m" using 2(2) by (simp add: omap_inv_def)
    ultimately show ?thesis using 2(1) False f
      by (simp add: omap_vals_def add_mset_commute)
  qed
qed

lemma omap_vals_in: "v \<in># omap_vals m \<longleftrightarrow> (\<exists>k. (k, v) \<in> set m)"
  unfolding omap_vals_def by force

subsection \<open>Lists\<close>

lemma take_prefix_iff: "take (length bs) xs = bs \<longleftrightarrow> (\<exists>ys. xs = bs @ ys)"
  by (metis append_eq_conv_conj)

lemma length_filter_mono:
  assumes "\<And>x. x \<in> set xs \<Longrightarrow> P x \<Longrightarrow> Q x"
  shows "length (filter P xs) \<le> length (filter Q xs)"
  using assms by (induction xs) auto

end
