(* ===== verification/BHG_Core.thy ===== *)
theory BHG_Core
  imports BHG_Prelude "HOL-Library.Signed_Division"
begin

text \<open>
  The core layer (\<open>include/blackhole/core\<close>, \<open>src/core\<close>): result codes, checked arithmetic,
  bounded containers, freshness windows, the bit operations of the localizer, and path names.
  Hash functions are in \<open>BHG_Hash\<close>, the byte codec in \<open>BHG_Canonical\<close>.
\<close>

subsection \<open>Enumerations on the wire\<close>

text \<open>
  Every \<open>enum class\<close> of the code is a datatype with a function to its integer value
  (\<open>static_cast\<close> to the underlying type), a validity test on raw integers, and the cast back,
  which the code only performs on a validated raw value. The interface states what the codecs
  rely on.
\<close>

locale wire_enum =
  fixes code :: "'e \<Rightarrow> 'n::len word"
    and valid :: "'n word \<Rightarrow> bool"
    and of_code :: "'n word \<Rightarrow> 'e"
  assumes valid_code [simp]: "valid (code e)"
    and of_code_code [simp]: "of_code (code e) = e"
    and code_of_code: "valid raw \<Longrightarrow> code (of_code raw) = raw"
begin

lemma code_inject: "code a = code b \<longleftrightarrow> a = b"
  by (metis of_code_code)

lemma valid_iff: "valid raw \<longleftrightarrow> (\<exists>e. raw = code e)"
  by (metis code_of_code valid_code)

end

text \<open>
  The cast of a raw value to an enumeration: the enumerator with that value. The code casts
  validated values only, so the value for a raw integer that is no enumerator is never used.
\<close>

definition enum_cast :: "('e \<Rightarrow> 'n::len word) \<Rightarrow> 'e list \<Rightarrow> 'n word \<Rightarrow> 'e" where
  "enum_cast code es raw = (case find (\<lambda>e. code e = raw) es of Some e \<Rightarrow> e | None \<Rightarrow> hd es)"

lemma enum_cast_find:
  "\<exists>e \<in> set es. code e = raw \<Longrightarrow>
    enum_cast code es raw \<in> set es \<and> code (enum_cast code es raw) = raw"
  unfolding enum_cast_def
  by (auto simp: find_None_iff find_Some_iff split: option.splits)

lemma wire_enumI:
  assumes all: "\<And>e. e \<in> set es"
    and dist: "distinct (map code es)"
    and valid: "\<And>raw. valid raw \<longleftrightarrow> raw \<in> set (map code es)"
  shows "wire_enum code valid (enum_cast code es)"
proof
  have inj: "inj_on code (set es)" using dist by (simp add: distinct_map)
  show "valid (code e)" for e using valid all by auto
  show "enum_cast code es (code e) = e" for e
    using inj all enum_cast_find [of es code "code e"] by (auto dest: inj_onD)
  show "code (enum_cast code es raw) = raw" if "valid raw" for raw
    using that valid enum_cast_find [of es code raw] by auto
qed

text \<open>A range test on a raw value as membership in the list of its values.\<close>

lemma word_range_set:
  assumes "n < 2 ^ LENGTH('n::len)" and "m \<le> n"
  shows "of_nat m \<le> (raw::'n word) \<and> raw \<le> of_nat n \<longleftrightarrow> raw \<in> set (map of_nat [m..<Suc n])"
proof -
  have le: "of_nat m \<le> raw \<and> raw \<le> of_nat n \<longleftrightarrow> m \<le> unat raw \<and> unat raw \<le> n"
    using assms by (simp add: word_le_nat_alt unat_of_nat)
  have "raw = of_nat (unat raw)" by simp
  moreover have "unat (of_nat k :: 'n word) = k" if "k \<le> n" for k
    using that assms by (simp add: unat_of_nat)
  ultimately show ?thesis unfolding le by (auto simp: image_iff intro!: bexI [of _ "unat raw"])
qed

subsection \<open>Outcomes (outcome.hpp)\<close>

datatype outcome =
    O_Ok | O_NoEvidence | O_Unknown | O_Stale | O_Conflict | O_Indeterminate
  | O_SearchLimitReached | O_Invalid | O_Unsupported | O_Malformed | O_Oversized | O_Duplicate
  | O_Replayed | O_Regressed | O_NotFound | O_Exhausted | O_Rejected | O_Corrupt
  | O_Interrupted | O_Fenced | O_Revoked | O_Expired | O_Unavailable

primrec outcome_code :: "outcome \<Rightarrow> u8" where
  "outcome_code O_Ok = 0"
| "outcome_code O_NoEvidence = 1"
| "outcome_code O_Unknown = 2"
| "outcome_code O_Stale = 3"
| "outcome_code O_Conflict = 4"
| "outcome_code O_Indeterminate = 5"
| "outcome_code O_SearchLimitReached = 6"
| "outcome_code O_Invalid = 7"
| "outcome_code O_Unsupported = 8"
| "outcome_code O_Malformed = 9"
| "outcome_code O_Oversized = 10"
| "outcome_code O_Duplicate = 11"
| "outcome_code O_Replayed = 12"
| "outcome_code O_Regressed = 13"
| "outcome_code O_NotFound = 14"
| "outcome_code O_Exhausted = 15"
| "outcome_code O_Rejected = 16"
| "outcome_code O_Corrupt = 17"
| "outcome_code O_Interrupted = 18"
| "outcome_code O_Fenced = 19"
| "outcome_code O_Revoked = 20"
| "outcome_code O_Expired = 21"
| "outcome_code O_Unavailable = 22"

definition all_outcomes :: "outcome list" where
  "all_outcomes =
    [O_Ok, O_NoEvidence, O_Unknown, O_Stale, O_Conflict, O_Indeterminate,
     O_SearchLimitReached, O_Invalid, O_Unsupported, O_Malformed, O_Oversized, O_Duplicate,
     O_Replayed, O_Regressed, O_NotFound, O_Exhausted, O_Rejected, O_Corrupt,
     O_Interrupted, O_Fenced, O_Revoked, O_Expired, O_Unavailable]"

definition is_valid_outcome :: "u8 \<Rightarrow> bool" where
  "is_valid_outcome raw \<longleftrightarrow> raw \<le> outcome_code O_Unavailable"

definition outcome_of_code :: "u8 \<Rightarrow> outcome" where
  "outcome_of_code = enum_cast outcome_code all_outcomes"

primrec outcome_to_string :: "outcome \<Rightarrow> string" where
  "outcome_to_string O_Ok = ''Ok''"
| "outcome_to_string O_NoEvidence = ''NoEvidence''"
| "outcome_to_string O_Unknown = ''Unknown''"
| "outcome_to_string O_Stale = ''Stale''"
| "outcome_to_string O_Conflict = ''Conflict''"
| "outcome_to_string O_Indeterminate = ''Indeterminate''"
| "outcome_to_string O_SearchLimitReached = ''SearchLimitReached''"
| "outcome_to_string O_Invalid = ''Invalid''"
| "outcome_to_string O_Unsupported = ''Unsupported''"
| "outcome_to_string O_Malformed = ''Malformed''"
| "outcome_to_string O_Oversized = ''Oversized''"
| "outcome_to_string O_Duplicate = ''Duplicate''"
| "outcome_to_string O_Replayed = ''Replayed''"
| "outcome_to_string O_Regressed = ''Regressed''"
| "outcome_to_string O_NotFound = ''NotFound''"
| "outcome_to_string O_Exhausted = ''Exhausted''"
| "outcome_to_string O_Rejected = ''Rejected''"
| "outcome_to_string O_Corrupt = ''Corrupt''"
| "outcome_to_string O_Interrupted = ''Interrupted''"
| "outcome_to_string O_Fenced = ''Fenced''"
| "outcome_to_string O_Revoked = ''Revoked''"
| "outcome_to_string O_Expired = ''Expired''"
| "outcome_to_string O_Unavailable = ''Unavailable''"

definition is_affirmative :: "outcome \<Rightarrow> bool" where
  "is_affirmative oc \<longleftrightarrow> oc = O_Ok"

definition is_indeterminate :: "outcome \<Rightarrow> bool" where
  "is_indeterminate oc =
     (case oc of O_NoEvidence \<Rightarrow> True | O_Unknown \<Rightarrow> True | O_Stale \<Rightarrow> True
      | O_Conflict \<Rightarrow> True | O_Indeterminate \<Rightarrow> True | O_SearchLimitReached \<Rightarrow> True
      | _ \<Rightarrow> False)"

definition is_untrusted :: "outcome \<Rightarrow> bool" where
  "is_untrusted oc =
     (case oc of O_Invalid \<Rightarrow> True | O_Malformed \<Rightarrow> True | O_Oversized \<Rightarrow> True
      | O_Corrupt \<Rightarrow> True | O_Unsupported \<Rightarrow> True | _ \<Rightarrow> False)"

interpretation outcome_enum: wire_enum outcome_code is_valid_outcome outcome_of_code
  unfolding outcome_of_code_def
proof (rule wire_enumI)
  show "e \<in> set all_outcomes" for e by (cases e) (simp_all add: all_outcomes_def)
  show "distinct (map outcome_code all_outcomes)" by (simp add: all_outcomes_def)
  show "is_valid_outcome raw \<longleftrightarrow> raw \<in> set (map outcome_code all_outcomes)" for raw
    using word_range_set [of 22 0 raw]
    by (simp add: is_valid_outcome_def all_outcomes_def upt_rec)
qed

text \<open>The three readings of a result code never overlap: a refusal is never read as success.\<close>

lemma outcome_partition:
  "\<not> (is_affirmative oc \<and> is_indeterminate oc) \<and> \<not> (is_affirmative oc \<and> is_untrusted oc)
    \<and> \<not> (is_indeterminate oc \<and> is_untrusted oc)"
  by (cases oc) (simp_all add: is_affirmative_def is_indeterminate_def is_untrusted_def)

lemma outcome_to_string_inject: "outcome_to_string a = outcome_to_string b \<longleftrightarrow> a = b"
  by (cases a; cases b) simp_all

subsection \<open>Checked arithmetic (checked.hpp)\<close>

text \<open>Unsigned \<open>T\<close>: the largest value is the word \<open>-1\<close>.\<close>

definition checked_add_u :: "'n::len word \<Rightarrow> 'n word \<Rightarrow> 'n word option" where
  "checked_add_u a b = (if a > (- 1) - b then None else Some (a + b))"

definition checked_sub_u :: "'n::len word \<Rightarrow> 'n word \<Rightarrow> 'n word option" where
  "checked_sub_u a b = (if a < b then None else Some (a - b))"

definition checked_mul_u :: "'n::len word \<Rightarrow> 'n word \<Rightarrow> 'n word option" where
  "checked_mul_u a b =
     (if a = 0 \<or> b = 0 then Some 0
      else if a > (- 1) div b then None else Some (a * b))"

text \<open>Signed \<open>std::int64_t\<close>, the only signed instance the code uses.\<close>

definition i64_max :: i64 where "i64_max = 0x7FFFFFFFFFFFFFFF"
definition i64_min :: i64 where "i64_min = 0x8000000000000000"

definition checked_add_i64 :: "i64 \<Rightarrow> i64 \<Rightarrow> i64 option" where
  "checked_add_i64 a b =
     (if sint b > 0 \<and> sint a > sint (i64_max - b) then None
      else if sint b < 0 \<and> sint a < sint (i64_min - b) then None
      else Some (a + b))"

definition checked_sub_i64 :: "i64 \<Rightarrow> i64 \<Rightarrow> i64 option" where
  "checked_sub_i64 a b =
     (if sint b < 0 \<and> sint a > sint (i64_max + b) then None
      else if sint b > 0 \<and> sint a < sint (i64_min + b) then None
      else Some (a - b))"

text \<open>Division of the code truncates towards zero (\<open>sdiv\<close>).\<close>

definition checked_mul_i64 :: "i64 \<Rightarrow> i64 \<Rightarrow> i64 option" where
  "checked_mul_i64 a b =
     (if a = 0 \<or> b = 0 then Some 0
      else if sint a > 0 then
        (if sint b > 0 then
           (if sint a > sint i64_max sdiv sint b then None else Some (a * b))
         else (if sint b < sint i64_min sdiv sint a then None else Some (a * b)))
      else
        (if sint b > 0 then
           (if sint a < sint i64_min sdiv sint b then None else Some (a * b))
         else (if a \<noteq> 0 \<and> sint b < sint i64_max sdiv sint a then None else Some (a * b))))"

text \<open>The unsigned-to-unsigned instance (\<open>checked_cast<std::uint32_t>(std::size_t)\<close>).\<close>

definition checked_cast_u :: "nat \<Rightarrow> 'n::len word option" where
  "checked_cast_u v = (if v > unat (- 1 :: 'n word) then None else Some (of_nat v))"

definition saturating_add_u :: "'n::len word \<Rightarrow> 'n word \<Rightarrow> 'n word" where
  "saturating_add_u a b = (case checked_add_u a b of Some r \<Rightarrow> r | None \<Rightarrow> - 1)"

lemma unat_max_minus: "unat ((- 1 :: 'n::len word) - b) = 2 ^ LENGTH('n) - 1 - unat b"
  by (simp add: unat_sub unsigned_minus_1_eq_mask mask_eq_exp_minus_1)

lemma checked_add_u_exact:
  "checked_add_u a b =
     (if unat a + unat b < 2 ^ LENGTH('n) then Some (a + b) else None)"
  for a b :: "'n::len word"
proof -
  have "unat a < 2 ^ LENGTH('n)" "unat b < 2 ^ LENGTH('n)" by simp_all
  then have "a > (- 1) - b \<longleftrightarrow> \<not> unat a + unat b < 2 ^ LENGTH('n)"
    unfolding word_less_nat_alt unat_max_minus by linarith
  then show ?thesis by (simp add: checked_add_u_def)
qed

lemma checked_add_u_Some:
  "checked_add_u a b = Some c \<Longrightarrow> unat c = unat a + unat b"
  by (auto simp: checked_add_u_exact unat_word_ariths split: if_splits)

lemma checked_sub_u_Some:
  "checked_sub_u a b = Some c \<longleftrightarrow> unat b \<le> unat a \<and> c = a - b"
  by (auto simp: checked_sub_u_def word_less_nat_alt)

lemma checked_mul_u_exact:
  "checked_mul_u a b =
     (if unat a * unat b < 2 ^ LENGTH('n) then Some (a * b) else None)"
  for a b :: "'n::len word"
proof (cases "a = 0 \<or> b = 0")
  case True
  then show ?thesis by (auto simp: checked_mul_u_def)
next
  case False
  then have pos: "0 < unat b" by (simp add: unat_gt_0)
  have "a > (- 1) div b \<longleftrightarrow> unat a * unat b > 2 ^ LENGTH('n) - 1"
    using pos by (simp add: word_less_nat_alt unat_div unsigned_minus_1_eq_mask mask_eq_exp_minus_1 div_less_iff_less_mult)
  then have "a > (- 1) div b \<longleftrightarrow> \<not> unat a * unat b < 2 ^ LENGTH('n)"
    using zero_less_power [of "2::nat" "LENGTH('n)"] by arith
  with False show ?thesis by (simp add: checked_mul_u_def)
qed

text \<open>The range of a signed 64-bit value.\<close>

abbreviation in_i64 :: "int \<Rightarrow> bool" where
  "in_i64 x \<equiv> - (2 ^ 63) \<le> x \<and> x < 2 ^ 63"

lemma sint_in_i64: "in_i64 (sint (a :: i64))"
  using sint_ge [of a] sint_lt [of a] by simp

lemma sint_of_int_i64: "in_i64 x \<Longrightarrow> sint (of_int x :: i64) = x"
  by (simp add: sint_sbintrunc' signed_take_bit_int_eq_self)

lemma sint_add_i64: "in_i64 (sint a + sint b) \<Longrightarrow> sint (a + b) = sint a + sint b" for a b :: i64
  using sint_of_int_i64 [of "sint a + sint b"] by simp

lemma sint_diff_i64: "in_i64 (sint a - sint b) \<Longrightarrow> sint (a - b) = sint a - sint b" for a b :: i64
  using sint_of_int_i64 [of "sint a - sint b"] by simp

lemma sint_i64_max: "sint i64_max = 2 ^ 63 - 1" by (simp add: i64_max_def)
lemma sint_i64_min: "sint i64_min = - (2 ^ 63)" by (simp add: i64_min_def)

lemma checked_add_i64_exact:
  "checked_add_i64 a b = (if in_i64 (sint a + sint b) then Some (a + b) else None)"
  using sint_in_i64 [of a] sint_in_i64 [of b] sint_diff_i64 [of i64_max b] sint_diff_i64 [of i64_min b]
  by (auto simp: checked_add_i64_def sint_i64_max sint_i64_min)

lemma checked_sub_i64_exact:
  "checked_sub_i64 a b = (if in_i64 (sint a - sint b) then Some (a - b) else None)"
  using sint_in_i64 [of a] sint_in_i64 [of b] sint_add_i64 [of i64_max b] sint_add_i64 [of i64_min b]
  by (auto simp: checked_sub_i64_def sint_i64_max sint_i64_min)

text \<open>Truncating division by case of signs, and the comparison of a quotient.\<close>

lemma sdiv_pos_pos: "0 < x \<Longrightarrow> 0 < y \<Longrightarrow> x sdiv y = x div y" for x y :: int
  by (simp add: signed_divide_int_def)

lemma sdiv_neg_pos: "x < 0 \<Longrightarrow> 0 < y \<Longrightarrow> x sdiv y = - ((- x) div y)" for x y :: int
  by (simp add: signed_divide_int_def)

lemma sdiv_pos_neg: "0 < x \<Longrightarrow> y < 0 \<Longrightarrow> x sdiv y = - (x div (- y))" for x y :: int
  by (simp add: signed_divide_int_def)

lemma int_div_less_iff: "x div y < z \<longleftrightarrow> x < z * y" if "0 < y" for x y z :: int
proof -
  note mod = pos_mod_bound [OF that, of x] pos_mod_sign [OF that, of x] div_mult_mod_eq [of x y]
  have lo: "(x div y) * y \<le> x" using mod by linarith
  have hi: "x < (x div y + 1) * y" using mod by (simp only: distrib_right)
  show ?thesis
  proof
    assume "x div y < z"
    then have "(x div y + 1) * y \<le> z * y" using that by (intro mult_right_mono) auto
    with hi show "x < z * y" by simp
  next
    assume "x < z * y"
    show "x div y < z"
    proof (rule ccontr)
      assume "\<not> x div y < z"
      then have "z * y \<le> (x div y) * y" using that by (intro mult_right_mono) auto
      with lo \<open>x < z * y\<close> show False by simp
    qed
  qed
qed

lemma checked_mul_i64_exact:
  "checked_mul_i64 a b = (if in_i64 (sint a * sint b) then Some (a * b) else None)"
proof -
  let ?x = "sint a" and ?y = "sint b"
  have z: "c = 0 \<longleftrightarrow> sint c = 0" for c :: i64
    using signed_word_eqI [of c 0] by auto
  consider "?x = 0 \<or> ?y = 0" | "0 < ?x" "0 < ?y" | "0 < ?x" "?y < 0" | "?x < 0" "0 < ?y"
    | "?x < 0" "?y < 0" by linarith
  then show ?thesis
  proof cases
    case 1
    then have "a = 0 \<or> b = 0" by (simp add: z)
    then show ?thesis by (auto simp: checked_mul_i64_def)
  next
    case 2
    have "- (2 ^ 63) \<le> ?x * ?y"
      by (rule order_trans [OF _ less_imp_le [OF mult_pos_pos [OF 2]]]) simp
    with 2 show ?thesis
      by (auto simp: checked_mul_i64_def z sint_i64_max sdiv_pos_pos int_div_less_iff)
  next
    case 3
    have "?x * ?y < 2 ^ 63" by (rule less_trans [OF mult_pos_neg [OF 3]]) simp
    moreover have "?y < sint i64_min sdiv ?x \<longleftrightarrow> 2 ^ 63 < (- ?y) * ?x"
      using 3 int_div_less_iff [of ?x "2 ^ 63" "- ?y"]
      by (simp add: sint_i64_min sdiv_pos_pos del: mult_minus_left) linarith
    ultimately show ?thesis using 3
      by (auto simp: checked_mul_i64_def z mult.commute)
  next
    case 4
    have "?x * ?y < 2 ^ 63" by (rule less_trans [OF mult_neg_pos [OF 4]]) simp
    moreover have "?x < sint i64_min sdiv ?y \<longleftrightarrow> 2 ^ 63 < (- ?x) * ?y"
      using 4 int_div_less_iff [of ?y "2 ^ 63" "- ?x"]
      by (simp add: sint_i64_min sdiv_pos_pos del: mult_minus_left) linarith
    ultimately show ?thesis using 4
      by (auto simp: checked_mul_i64_def z)
  next
    case 5
    have "- (2 ^ 63) \<le> ?x * ?y"
      by (rule order_trans [OF _ less_imp_le [OF mult_neg_neg [OF 5]]]) simp
    moreover have "?y < sint i64_max sdiv ?x \<longleftrightarrow> 2 ^ 63 - 1 < (- ?y) * (- ?x)"
      using 5 int_div_less_iff [of "- ?x" "2 ^ 63 - 1" "- ?y"]
      by (simp add: sint_i64_max sdiv_pos_neg sdiv_pos_pos del: mult_minus_left mult_minus_right minus_mult_minus) linarith
    ultimately show ?thesis using 5
      by (auto simp: checked_mul_i64_def z mult.commute)
  qed
qed

subsection \<open>Bounded containers (bounded.hpp)\<close>

text \<open>
  The interface of a bounded log: the operations a client uses and what one push does. It is the
  contract of \<open>BoundedHistory::push\<close> and of the store's \<open>push_lineage\<close>; the laws of a whole
  sequence of pushes are proved here once.
\<close>

locale bounded_log =
  fixes push :: "'e \<Rightarrow> 's \<Rightarrow> 's"
    and items :: "'s \<Rightarrow> 'e list"
    and cap :: "'s \<Rightarrow> nat"
    and seen :: "'s \<Rightarrow> u64"
    and dropped :: "'s \<Rightarrow> u64"
  assumes items_push: "0 < cap s \<Longrightarrow>
      items (push e s) = (if cap s \<le> length (items s) then tl (items s) else items s) @ [e]"
    and cap_push: "cap (push e s) = cap s"
    and seen_push: "seen (push e s) = seen s + 1"
    and dropped_push: "0 < cap s \<Longrightarrow>
      dropped (push e s) = dropped s + (if cap s \<le> length (items s) then 1 else 0)"
begin

lemma cap_pushes: "cap (fold push es s) = cap s"
  by (induction es arbitrary: s) (simp_all add: cap_push)

lemma seen_pushes: "seen (fold push es s) = seen s + of_nat (length es)"
  by (induction es arbitrary: s) (simp_all add: seen_push)

lemma items_push_newest:
  assumes "0 < cap s" and "length (items s) \<le> cap s"
  shows "items (push e s) = drop (length (items s) + 1 - cap s) (items s @ [e])"
proof (cases "cap s \<le> length (items s)")
  case True
  with assms have "length (items s) + 1 - cap s = 1" "items s \<noteq> []" by auto
  with True assms show ?thesis by (cases "items s") (simp_all add: items_push)
qed (use assms in \<open>simp add: items_push\<close>)

text \<open>After any number of pushes the log holds exactly the newest entries, at most \<open>cap\<close> of them.\<close>

lemma items_pushes:
  assumes "0 < cap s" and "length (items s) \<le> cap s"
  shows "items (fold push es s) = drop (length (items s) + length es - cap s) (items s @ es)"
  using assms
proof (induction es arbitrary: s)
  case Nil
  then show ?case by simp
next
  case (Cons e es)
  have new: "items (push e s) = drop (length (items s) + 1 - cap s) (items s @ [e])"
    using Cons.prems by (rule items_push_newest)
  then have len: "length (items (push e s)) \<le> cap (push e s)"
    using Cons.prems by (simp add: cap_push)
  have "items (fold push es (push e s)) =
      drop (length (items (push e s)) + length es - cap s) (items (push e s) @ es)"
    using Cons.IH [of "push e s"] Cons.prems len by (simp add: cap_push)
  also have "items (push e s) @ es = drop (length (items s) + 1 - cap s) (items s @ e # es)"
    using Cons.prems by (simp add: new)
  finally show ?case using Cons.prems
    by (cases "cap s \<le> length (items s)") (simp_all add: new)
qed

lemma pushes_bounded:
  assumes "0 < cap s" and "length (items s) \<le> cap s"
  shows "length (items (fold push es s)) \<le> cap s"
  using assms by (simp add: items_pushes)

lemma closed_push:
  assumes "0 < cap s" and "seen s = of_nat (length (items s)) + dropped s"
  shows "seen (push e s) = of_nat (length (items (push e s))) + dropped (push e s)"
proof -
  have "items s \<noteq> []" if "cap s \<le> length (items s)" using that assms(1) by auto
  with assms show ?thesis
    by (cases "items s") (auto simp: seen_push dropped_push items_push)
qed

lemma closed_pushes:
  assumes "0 < cap s" and "seen s = of_nat (length (items s)) + dropped s"
  shows "seen (fold push es s) = of_nat (length (items (fold push es s))) + dropped (fold push es s)"
  using assms by (induction es arbitrary: s) (simp_all add: closed_push cap_push)

end

definition push_bounded :: "'a list \<Rightarrow> 'a \<Rightarrow> nat \<Rightarrow> outcome \<times> 'a list" where
  "push_bounded v value capacity =
     (if length v \<ge> capacity then (O_Exhausted, v) else (O_Ok, v @ [value]))"

record 'a bounded_history =
  bh_items :: "'a list"
  bh_capacity :: nat
  bh_seen :: u64
  bh_dropped :: u64

definition bh_new :: "nat \<Rightarrow> 'a bounded_history" where
  "bh_new capacity = \<lparr>bh_items = [], bh_capacity = capacity, bh_seen = 0, bh_dropped = 0\<rparr>"

definition bh_push :: "'a bounded_history \<Rightarrow> 'a \<Rightarrow> outcome \<times> 'a bounded_history" where
  "bh_push h value =
     (let h = h\<lparr>bh_seen := bh_seen h + 1\<rparr> in
      if length (bh_items h) \<ge> bh_capacity h then
        (let h = h\<lparr>bh_dropped := bh_dropped h + 1\<rparr> in
         if bh_capacity h = 0 then (O_Exhausted, h)
         else (O_Ok, h\<lparr>bh_items := tl (bh_items h) @ [value]\<rparr>))
      else (O_Ok, h\<lparr>bh_items := bh_items h @ [value]\<rparr>))"

definition bh_accounting_closed :: "'a bounded_history \<Rightarrow> bool" where
  "bh_accounting_closed h \<longleftrightarrow> bh_seen h = of_nat (length (bh_items h)) + bh_dropped h"

definition bh_clear :: "'a bounded_history \<Rightarrow> 'a bounded_history" where
  "bh_clear h = h\<lparr>bh_items := []\<rparr>"

definition truncate_bounded :: "string \<Rightarrow> nat \<Rightarrow> string" where
  "truncate_bounded s max_len =
     (if length s \<le> max_len then s
      else if max_len \<le> 3 then take max_len s
      else take (max_len - 3) s @ ''...'')"

record ('k, 'v) bounded_map =
  bm_map :: "('k, 'v) omap"
  bm_capacity :: nat
  bm_rejected :: u64

definition bm_insert ::
  "('k::linorder, 'v) bounded_map \<Rightarrow> 'k \<Rightarrow> 'v \<Rightarrow> outcome \<times> ('k, 'v) bounded_map" where
  "bm_insert m key value =
     (case omap_find (bm_map m) key of
        Some _ \<Rightarrow> (O_Ok, m\<lparr>bm_map := omap_put (bm_map m) key value\<rparr>)
      | None \<Rightarrow>
          if length (bm_map m) \<ge> bm_capacity m
          then (O_Exhausted, m\<lparr>bm_rejected := bm_rejected m + 1\<rparr>)
          else (O_Ok, m\<lparr>bm_map := omap_put (bm_map m) key value\<rparr>))"

definition bm_find :: "('k, 'v) bounded_map \<Rightarrow> 'k \<Rightarrow> 'v option" where
  "bm_find m key = omap_find (bm_map m) key"

definition bm_erase :: "('k, 'v) bounded_map \<Rightarrow> 'k \<Rightarrow> outcome \<times> ('k, 'v) bounded_map" where
  "bm_erase m key =
     (case omap_find (bm_map m) key of
        None \<Rightarrow> (O_NotFound, m)
      | Some _ \<Rightarrow> (O_Ok, m\<lparr>bm_map := omap_erase (bm_map m) key\<rparr>))"

interpretation history: bounded_log "\<lambda>e h. snd (bh_push h e)" bh_items bh_capacity bh_seen bh_dropped
  by unfold_locales (auto simp: bh_push_def Let_def)

lemma truncate_bounded_length: "length (truncate_bounded s n) \<le> n"
  by (auto simp: truncate_bounded_def)

lemma bm_insert_bounded:
  assumes "omap_inv (bm_map m)" and "length (bm_map m) \<le> bm_capacity m"
  shows "omap_inv (bm_map (snd (bm_insert m k v))) \<and>
    length (bm_map (snd (bm_insert m k v))) \<le> bm_capacity (snd (bm_insert m k v))"
  using assms
  by (auto simp: bm_insert_def length_omap_put_new length_omap_put_old split: option.splits)

lemma bm_find_insert:
  "fst (bm_insert m k v) = O_Ok \<Longrightarrow>
    bm_find (snd (bm_insert m k v)) k' = (if k' = k then Some v else bm_find m k')"
  by (auto simp: bm_insert_def bm_find_def split: option.splits if_splits)

subsection \<open>Time (time.hpp)\<close>

record freshness_window =
  fw_open :: i64
  fw_close :: i64

definition is_fresh_at :: "freshness_window \<Rightarrow> i64 \<Rightarrow> bool" where
  "is_fresh_at w t \<longleftrightarrow>
     sint (fw_open w) < sint (fw_close w) \<and> sint (fw_open w) \<le> sint t \<and> sint t < sint (fw_close w)"

definition is_degenerate :: "freshness_window \<Rightarrow> bool" where
  "is_degenerate w \<longleftrightarrow> sint (fw_open w) \<ge> sint (fw_close w)"

definition kNsPerSecond :: i64 where "kNsPerSecond = 1000000000"

definition seconds :: "i64 \<Rightarrow> i64" where "seconds n = n * kNsPerSecond"

lemma degenerate_never_fresh: "is_degenerate w \<Longrightarrow> \<not> is_fresh_at w t"
  by (simp add: is_degenerate_def is_fresh_at_def)

subsection \<open>Bit operations (bitops.hpp)\<close>

definition popcount64 :: "u64 \<Rightarrow> u32" where
  "popcount64 v = of_nat (length (filter (bit v) [0..<64]))"

definition lowest_set_bit64 :: "u64 \<Rightarrow> nat" where
  "lowest_set_bit64 v = (if v = 0 then 64 else hd (filter (bit v) [0..<64]))"

lemma lowest_set_bit64_bit:
  assumes "v \<noteq> 0"
  shows "lowest_set_bit64 v < 64 \<and> bit v (lowest_set_bit64 v)"
proof -
  from assms obtain n where "n < 64" "bit v n"
    by (auto simp: bit_eq_iff [of v 0] dest: bit_imp_le_length)
  then have ne: "filter (bit v) [0..<64] \<noteq> []" by (auto simp: filter_empty_conv)
  then have "hd (filter (bit v) [0..<64]) \<in> set (filter (bit v) [0..<64])" by (rule hd_in_set)
  with assms show ?thesis by (simp add: lowest_set_bit64_def)
qed

subsection \<open>Path names (path.cpp)\<close>

definition kMaxPathComponentBytes :: nat where "kMaxPathComponentBytes = 128"

abbreviation is_separator :: "char \<Rightarrow> bool" where
  "is_separator c \<equiv> c = CHR ''/'' \<or> c = CHR 0x5C"

definition is_safe_path_component :: "string \<Rightarrow> bool" where
  "is_safe_path_component name \<longleftrightarrow>
     name \<noteq> [] \<and> length name \<le> kMaxPathComponentBytes \<and> \<not> (name = ''.'' \<or> name = ''..'') \<and>
     list_all (\<lambda>c. c \<noteq> CHR 0x00 \<and> \<not> is_separator c \<and> c \<noteq> CHR '':'' \<and> \<not> of_char c < (0x20::nat)) name"

definition join_path :: "string \<Rightarrow> string \<Rightarrow> string" where
  "join_path dir component =
     (if dir \<noteq> [] \<and> \<not> is_separator (last dir) then dir @ ''/'' else dir) @ component"

definition parent_dir :: "string \<Rightarrow> string" where
  "parent_dir path =
     (if \<not> list_ex is_separator path then []
      else rev (tl (dropWhile (\<lambda>c. \<not> is_separator c) (rev path))))"

text \<open>A safe component never leaves the directory it is joined to.\<close>

lemma parent_dir_join_path:
  assumes "is_safe_path_component c" and "dir \<noteq> []" and "\<not> is_separator (last dir)"
  shows "parent_dir (join_path dir c) = dir"
proof -
  have "\<forall>x \<in> set (rev c). \<not> is_separator x"
    using assms(1) by (auto simp: is_safe_path_component_def list_all_iff)
  then have "dropWhile (\<lambda>c. \<not> is_separator c) (rev c @ CHR ''/'' # rev dir) = CHR ''/'' # rev dir"
    by (subst dropWhile_append2) auto
  with assms show ?thesis by (simp add: parent_dir_def join_path_def)
qed

end
