(* ===== verification/BHG_Hash.thy ===== *)
theory BHG_Hash
  imports BHG_Core
begin

text \<open>
  The hash functions (\<open>hash.hpp\<close>, \<open>hash.cpp\<close>) and the seeded nonce source
  (\<open>nonce.cpp\<close>). The table-driven CRC-32C is shown equal to the bit-serial one, to chain over
  concatenation (the convention \<open>frame_integrity\<close> relies on), and to detect every corruption
  confined to four consecutive bytes; \<open>mix64\<close> is shown injective in each argument and the
  seeded source never to repeat a nonce.
\<close>

subsection \<open>CRC-32C\<close>

text \<open>One round of the inner loop of \<open>make_crc32c_table\<close>.\<close>

definition crc_bit :: "u32 \<Rightarrow> u32" where
  "crc_bit c = (if c AND 1 \<noteq> 0 then 0x82F63B78 XOR drop_bit 1 c else drop_bit 1 c)"

definition make_crc32c_table :: "u32 list" where
  "make_crc32c_table = map (\<lambda>index. (crc_bit ^^ 8) (of_nat index)) [0..<256]"

definition crc32c_step :: "u32 \<Rightarrow> u8 \<Rightarrow> u32" where
  "crc32c_step crc b =
     (let idx = (ucast ((crc XOR ucast b) AND 0xFF) :: u8)
      in make_crc32c_table ! unat idx XOR drop_bit 8 crc)"

definition crc32c :: "bytes \<Rightarrow> u32 \<Rightarrow> u32" where
  "crc32c data seed = foldl crc32c_step (seed XOR 0xFFFFFFFF) data XOR 0xFFFFFFFF"

subsection \<open>FNV-1a and mixing\<close>

definition kFnv1a64Offset :: u64 where "kFnv1a64Offset = 1469598103934665603"
definition kFnv1a64Prime :: u64 where "kFnv1a64Prime = 1099511628211"

definition fnv1a64_seeded :: "bytes \<Rightarrow> u64 \<Rightarrow> u64" where
  "fnv1a64_seeded data seed = foldl (\<lambda>h b. (h XOR ucast b) * kFnv1a64Prime) seed data"

text \<open>The call with the default seed, the only one the program makes.\<close>

definition fnv1a64 :: "bytes \<Rightarrow> u64" where
  "fnv1a64 data = fnv1a64_seeded data kFnv1a64Offset"

definition mix64 :: "u64 \<Rightarrow> u64 \<Rightarrow> u64" where
  "mix64 a b =
     (let z = a + 0x9E3779B97F4A7C15;
          z = (z XOR drop_bit 30 z) * 0xBF58476D1CE4E5B9;
          z = (z XOR drop_bit 27 z) * 0x94D049BB133111EB;
          z = z XOR b;
          z = (z XOR drop_bit 31 z) * 0xBF58476D1CE4E5B9;
          z = (z XOR drop_bit 29 z) * 0x94D049BB133111EB
      in z XOR drop_bit 32 z)"

text \<open>\<open>SeededNonceSource::next\<close>: the new state and the nonce.\<close>

definition seeded_next :: "u64 \<Rightarrow> u64 \<times> u64" where
  "seeded_next state =
     (let state = state + 0x9E3779B97F4A7C15;
          z = state;
          z = (z XOR drop_bit 30 z) * 0xBF58476D1CE4E5B9;
          z = (z XOR drop_bit 27 z) * 0x94D049BB133111EB
      in (z XOR drop_bit 31 z, state))"

text \<open>The first \<open>n\<close> nonces drawn from a source in the given state.\<close>

fun seeded_nonces :: "nat \<Rightarrow> u64 \<Rightarrow> u64 list" where
  "seeded_nonces 0 state = []"
| "seeded_nonces (Suc n) state = (let (z, state') = seeded_next state in z # seeded_nonces n state')"

subsection \<open>The table-driven step is the bit-serial one\<close>

lemma and_1_odd: "c AND 1 \<noteq> 0 \<longleftrightarrow> bit c 0" for c :: u32
  by (simp add: and_one_eq bit_0 odd_iff_mod_2_eq_one)

lemma crc_bit_xor: "crc_bit (x XOR y) = crc_bit x XOR crc_bit y"
  unfolding crc_bit_def and_1_odd
  by (simp add: bit_xor_iff drop_bit_xor xor.assoc xor.commute xor.left_commute)

lemma crc_bits_xor: "(crc_bit ^^ n) (x XOR y) = (crc_bit ^^ n) x XOR (crc_bit ^^ n) y"
  by (induction n) (simp_all add: crc_bit_xor)

lemma crc_bits_shift: "take_bit n z = 0 \<Longrightarrow> (crc_bit ^^ n) z = drop_bit n z"
proof (induction n)
  case 0
  then show ?case by simp
next
  case (Suc n)
  have low: "\<not> bit z i" if "i < Suc n" for i
  proof -
    have "bit (take_bit (Suc n) z) i = bit z i" using that by (simp add: bit_take_bit_iff)
    with Suc.prems show ?thesis by simp
  qed
  then have "take_bit n z = 0" by (intro bit_eqI) (auto simp: bit_take_bit_iff)
  then have "(crc_bit ^^ Suc n) z = crc_bit (drop_bit n z)" using Suc.IH by simp
  also have "\<dots> = drop_bit 1 (drop_bit n z)"
    using low by (simp add: crc_bit_def and_1_odd bit_drop_bit_eq)
  finally show ?case by (simp add: drop_bit_drop_bit)
qed

lemma crc_table_nth: "i < 256 \<Longrightarrow> make_crc32c_table ! i = (crc_bit ^^ 8) (of_nat i)"
  by (simp add: make_crc32c_table_def)

lemma crc32c_step_bitwise [code]: "crc32c_step crc b = (crc_bit ^^ 8) (crc XOR ucast b)"
proof -
  let ?x = "crc XOR ucast b :: u32"
  have split: "?x = take_bit 8 ?x XOR (?x AND NOT (mask 8))"
    by (intro bit_eqI) (auto simp: bit_simps)
  have "(crc_bit ^^ 8) (?x AND NOT (mask 8)) = drop_bit 8 (?x AND NOT (mask 8))"
    by (intro crc_bits_shift bit_eqI) (auto simp: bit_simps)
  also have "\<dots> = drop_bit 8 crc"
    by (intro bit_eqI) (auto simp: bit_simps dest: bit_imp_le_length)
  finally have hi: "(crc_bit ^^ 8) (?x AND NOT (mask 8)) = drop_bit 8 crc" .
  have idx: "of_nat (unat (ucast (?x AND 0xFF) :: u8)) = take_bit 8 ?x"
  proof -
    have m: "(0xFF :: u32) = mask 8" by (simp add: mask_eq_exp_minus_1)
    show ?thesis unfolding m
      by (intro bit_eqI) (auto simp: bit_simps simp flip: take_bit_eq_mask)
  qed
  have "unat (ucast (?x AND 0xFF) :: u8) < 256"
    using unsigned_less [of "ucast (?x AND 0xFF) :: u8"] by simp
  from crc_table_nth [OF this, unfolded idx]
  have "crc32c_step crc b = (crc_bit ^^ 8) (take_bit 8 ?x) XOR drop_bit 8 crc"
    unfolding crc32c_step_def Let_def by (rule arg_cong [where f = "\<lambda>t. t XOR drop_bit 8 crc"])
  also have "\<dots> = (crc_bit ^^ 8) ?x"
    unfolding hi [symmetric] crc_bits_xor [symmetric] split [symmetric] ..
  finally show ?thesis .
qed

subsection \<open>Error detection\<close>

lemma crc_bit_31: "bit (crc_bit c) 31 \<longleftrightarrow> bit c 0"
  unfolding crc_bit_def and_1_odd using bit_imp_le_length [of c 32] by (auto simp: bit_simps)

lemma xor_cancel_left: "x XOR a = x XOR b \<longleftrightarrow> a = b" for x a b :: "'n::len word"
  by (metis xor.assoc xor_self_eq xor.left_neutral)

lemma xor_cancel_right: "a XOR x = b XOR x \<longleftrightarrow> a = b" for x a b :: "'n::len word"
  using xor_cancel_left [of x a b] by (simp only: xor.commute)

lemma crc_bit_inject: "crc_bit x = crc_bit y \<longleftrightarrow> x = y"
proof
  assume eq: "crc_bit x = crc_bit y"
  then have low: "bit x 0 = bit y 0" using crc_bit_31 [of x] crc_bit_31 [of y] by simp
  with eq have d: "drop_bit 1 x = drop_bit 1 y"
    unfolding crc_bit_def and_1_odd by (auto simp: xor_cancel_left split: if_splits)
  show "x = y"
  proof (rule bit_eqI)
    fix n
    show "bit x n = bit y n"
    proof (cases n)
      case (Suc m)
      have "bit (drop_bit 1 x) m = bit (drop_bit 1 y) m" using d by simp
      with Suc show ?thesis by (simp add: bit_drop_bit_eq)
    qed (use low in simp)
  qed
qed simp

lemma crc_bits_inject: "(crc_bit ^^ n) x = (crc_bit ^^ n) y \<longleftrightarrow> x = y"
  by (induction n) (simp_all add: crc_bit_inject)

lemma crc_state_inject: "foldl crc32c_step s xs = foldl crc32c_step t xs \<longleftrightarrow> s = t"
  by (induction xs arbitrary: s t) (simp_all add: crc32c_step_bitwise crc_bits_inject xor_cancel_right)

text \<open>The register after a run of at most four bytes is linear in the run read little-endian.\<close>

fun le_word :: "bytes \<Rightarrow> u32" where
  "le_word [] = 0"
| "le_word (b # bs) = ucast b XOR push_bit 8 (le_word bs)"

lemma le_word_bound: "length bs \<le> n \<Longrightarrow> n \<le> 4 \<Longrightarrow> take_bit (8 * n) (le_word bs) = le_word bs"
proof (induction bs arbitrary: n)
  case (Cons b bs)
  then obtain m where n: "n = Suc m" by (cases n) auto
  have "take_bit (8 * m) (le_word bs) = le_word bs" using Cons n by simp
  then have "bit (le_word bs) i \<Longrightarrow> i < 8 * m" for i by (metis bit_take_bit_iff)
  moreover have "bit b i \<Longrightarrow> i < 8" for i using bit_imp_le_length [of b i] by simp
  ultimately show ?case by (intro bit_eqI) (fastforce simp: n bit_simps)
qed simp

lemma crc_bits_push8:
  assumes "take_bit 24 w = w"
  shows "(crc_bit ^^ 8) (push_bit 8 w) = w"
proof -
  have "\<not> bit w i" if "i \<ge> 24" for i using that assms by (metis bit_take_bit_iff leD)
  then have "drop_bit 8 (push_bit 8 w) = w" by (intro bit_eqI) (auto simp: bit_simps intro: ccontr)
  moreover have "take_bit 8 (push_bit 8 w) = 0" by (intro bit_eqI) (auto simp: bit_simps)
  ultimately show ?thesis by (simp add: crc_bits_shift)
qed

lemma crc_run:
  "length xs \<le> 4 \<Longrightarrow> foldl crc32c_step s xs = (crc_bit ^^ (8 * length xs)) (s XOR le_word xs)"
proof (induction xs arbitrary: s)
  case (Cons b bs)
  let ?n = "8 * length bs"
  have "foldl crc32c_step s (b # bs) = (crc_bit ^^ ?n) ((crc_bit ^^ 8) (s XOR ucast b) XOR le_word bs)"
    using Cons by (simp add: crc32c_step_bitwise [of s b])
  also have "le_word bs = (crc_bit ^^ 8) (push_bit 8 (le_word bs))"
    using Cons.prems le_word_bound [of bs 3] crc_bits_push8 [of "le_word bs"] by simp
  also have "(crc_bit ^^ 8) (s XOR ucast b) XOR (crc_bit ^^ 8) (push_bit 8 (le_word bs))
      = (crc_bit ^^ 8) (s XOR le_word (b # bs))"
    by (simp add: xor.assoc flip: crc_bits_xor)
  also have "(crc_bit ^^ ?n) ((crc_bit ^^ 8) (s XOR le_word (b # bs)))
      = (crc_bit ^^ (?n + 8)) (s XOR le_word (b # bs))"
    by (simp only: funpow_add o_apply)
  finally show ?case by (simp add: add.commute)
qed simp

lemma le_word_inject:
  "length xs = length ys \<Longrightarrow> length xs \<le> 4 \<Longrightarrow> le_word xs = le_word ys \<longleftrightarrow> xs = ys"
proof (induction xs ys rule: list_induct2)
  case (Cons x xs y ys)
  have tail: "bit (le_word zs) i \<Longrightarrow> i < 24" if "length zs \<le> 3" for zs i
  proof -
    have "take_bit 24 (le_word zs) = le_word zs" using that le_word_bound [of zs 3] by simp
    then show "bit (le_word zs) i \<Longrightarrow> i < 24" by (metis bit_take_bit_iff)
  qed
  show ?case
  proof
    assume eq: "le_word (x # xs) = le_word (y # ys)"
    have b: "bit (le_word (x # xs)) i = bit (le_word (y # ys)) i" for i using eq by simp
    have "bit x i = bit y i" for i
      using b [of i] bit_imp_le_length [of x i] bit_imp_le_length [of y i]
      by (cases "i < 8") (auto simp: bit_simps)
    then have xy: "x = y" by (intro bit_eqI)
    have "bit (le_word xs) i = bit (le_word ys) i" for i
      using b [of "i + 8"] tail [of xs i] tail [of ys i] Cons.prems Cons.hyps
        bit_imp_le_length [of x "i + 8"] bit_imp_le_length [of y "i + 8"]
      by (cases "i < 24") (auto simp: bit_simps)
    then have "le_word xs = le_word ys" by (intro bit_eqI)
    with xy Cons show "x # xs = y # ys" by simp
  qed simp
qed simp

text \<open>Two inputs that differ only within four consecutive bytes have different checksums.\<close>

lemma crc32c_burst:
  assumes "length xs = length ys" and "length xs \<le> 4" and "xs \<noteq> ys"
  shows "crc32c (pre @ xs @ post) seed \<noteq> crc32c (pre @ ys @ post) seed"
  using assms
  by (simp add: crc32c_def xor_cancel_right crc_state_inject crc_run crc_bits_inject xor_cancel_left
      le_word_inject)

lemma crc32c_chain: "crc32c (a @ b) s = crc32c b (crc32c a s)"
  by (simp add: crc32c_def xor.assoc)

subsection \<open>Mixing is injective\<close>

lemma xorshift_inject:
  fixes x y :: u64
  assumes "0 < n"
  shows "x XOR drop_bit n x = y XOR drop_bit n y \<longleftrightarrow> x = y"
proof
  assume eq: "x XOR drop_bit n x = y XOR drop_bit n y"
  show "x = y"
  proof (rule bit_eqI)
    fix i
    show "bit x i = bit y i"
    proof (induction "64 - i" arbitrary: i rule: less_induct)
      case less
      show ?case
      proof (cases "i < 64")
        case True
        then have "bit x (i + n) = bit y (i + n)" using less [of "i + n"] assms by simp
        moreover have "bit (x XOR drop_bit n x) i = bit (y XOR drop_bit n y) i" using eq by simp
        ultimately show ?thesis by (auto simp: bit_simps add.commute)
      qed (use bit_imp_le_length [of x i] bit_imp_le_length [of y i] in auto)
    qed
  qed
qed simp

lemma unit_mult_inject:
  fixes a b u v :: u64
  assumes "u * v = 1"
  shows "a * u = b * u \<longleftrightarrow> a = b"
proof
  assume "a * u = b * u"
  then have "a * (u * v) = b * (u * v)" by (simp flip: mult.assoc)
  with assms show "a = b" by simp
qed simp

lemma mix_units:
  "a * 0xBF58476D1CE4E5B9 = b * 0xBF58476D1CE4E5B9 \<longleftrightarrow> a = b"
  "a * 0x94D049BB133111EB = b * 0x94D049BB133111EB \<longleftrightarrow> a = b"
  "a * 0x9E3779B97F4A7C15 = b * 0x9E3779B97F4A7C15 \<longleftrightarrow> a = b"
  "a * kFnv1a64Prime = b * kFnv1a64Prime \<longleftrightarrow> a = b" for a b :: u64
proof -
  have 1: "0xBF58476D1CE4E5B9 * 0x96DE1B173F119089 = (1 :: u64)" by simp
  have 2: "0x94D049BB133111EB * 0x319642B2D24D8EC3 = (1 :: u64)" by simp
  have 3: "0x9E3779B97F4A7C15 * 0xF1DE83E19937733D = (1 :: u64)" by simp
  have 4: "kFnv1a64Prime * 0xCE965057AFF6957B = 1" by (simp add: kFnv1a64Prime_def)
  show "a * 0xBF58476D1CE4E5B9 = b * 0xBF58476D1CE4E5B9 \<longleftrightarrow> a = b"
    by (rule unit_mult_inject [OF 1])
  show "a * 0x94D049BB133111EB = b * 0x94D049BB133111EB \<longleftrightarrow> a = b"
    by (rule unit_mult_inject [OF 2])
  show "a * 0x9E3779B97F4A7C15 = b * 0x9E3779B97F4A7C15 \<longleftrightarrow> a = b"
    by (rule unit_mult_inject [OF 3])
  show "a * kFnv1a64Prime = b * kFnv1a64Prime \<longleftrightarrow> a = b"
    by (rule unit_mult_inject [OF 4])
qed

lemma mix64_inject_left: "mix64 a b = mix64 a' b \<longleftrightarrow> a = a'"
  by (simp add: mix64_def Let_def xorshift_inject mix_units xor_cancel_right del: drop_bit_xor)

lemma mix64_inject_right: "mix64 a b = mix64 a b' \<longleftrightarrow> b = b'"
  by (simp add: mix64_def Let_def xorshift_inject mix_units xor_cancel_left del: drop_bit_xor)

lemma fnv1a64_state_inject:
  "foldl (\<lambda>h b. (h XOR ucast b) * kFnv1a64Prime) s xs =
   foldl (\<lambda>h b. (h XOR ucast b) * kFnv1a64Prime) t xs \<longleftrightarrow> s = t"
  by (induction xs arbitrary: s t) (simp_all add: mix_units xor_cancel_right)

text \<open>Changing one byte always changes the digest.\<close>

lemma fnv1a64_byte:
  assumes "x \<noteq> y"
  shows "fnv1a64 (pre @ x # post) \<noteq> fnv1a64 (pre @ y # post)"
proof -
  have "(ucast x :: u64) \<noteq> ucast y"
  proof
    assume eq: "(ucast x :: u64) = ucast y"
    have "(ucast (ucast x :: u64) :: u8) = ucast (ucast y :: u64)" by (simp only: eq)
    then have "x = y" by (simp add: ucast_up_ucast_id is_up)
    with assms show False by simp
  qed
  then show ?thesis by (simp add: fnv1a64_def fnv1a64_seeded_def fnv1a64_state_inject mix_units xor_cancel_left)
qed

subsection \<open>The seeded source never repeats\<close>

definition nonce_of :: "u64 \<Rightarrow> u64" where "nonce_of state = fst (seeded_next state)"

lemma nonce_of_inject: "nonce_of s = nonce_of t \<longleftrightarrow> s = t"
  by (simp add: nonce_of_def seeded_next_def Let_def xorshift_inject mix_units)

lemma seeded_nonces_conv:
  "seeded_nonces n state = map (\<lambda>i. nonce_of (state + of_nat i * 0x9E3779B97F4A7C15)) [0..<n]"
proof (induction n arbitrary: state)
  case (Suc n)
  have "seeded_nonces (Suc n) state =
      nonce_of state # seeded_nonces n (state + 0x9E3779B97F4A7C15)"
    by (simp add: nonce_of_def seeded_next_def Let_def)
  also have "\<dots> = map (\<lambda>i. nonce_of (state + of_nat i * 0x9E3779B97F4A7C15)) (0 # map Suc [0..<n])"
    by (simp add: Suc.IH algebra_simps)
  finally show ?case by (simp only: upt_conv_Cons map_Suc_upt zero_less_Suc)
qed simp

lemma seeded_nonces_distinct:
  assumes "n \<le> 2 ^ 64"
  shows "distinct (seeded_nonces n state)"
proof -
  have "inj_on (\<lambda>i. of_nat i :: u64) {0..<n}"
  proof (rule inj_onI)
    fix i j
    assume "i \<in> {0..<n}" "j \<in> {0..<n}" and eq: "of_nat i = (of_nat j :: u64)"
    then have "i < 2 ^ 64" "j < 2 ^ 64" using assms by auto
    moreover have "unat (of_nat i :: u64) = unat (of_nat j :: u64)" by (simp only: eq)
    ultimately show "i = j" by (simp add: unat_of_nat)
  qed
  then show ?thesis
    by (simp add: seeded_nonces_conv distinct_map inj_on_def nonce_of_inject mix_units)
qed

end
