(* ===== verification/BHG_Canonical.thy ===== *)
theory BHG_Canonical
  imports BHG_Hash
begin

text \<open>
  The canonical byte encoding (\<open>canonical.hpp\<close>, \<open>canonical.cpp\<close>): the bounded \<open>Writer\<close>, the
  \<open>Reader\<close> whose first failure latches, and the calculus in which every codec of the
  development is proved.

  An encoder is a function on the writer, a sequence of \<open>w.f(..); w.g(..);\<close> is \<open>wseq\<close>. A
  decoder maps the reader to a result (an outcome other than \<open>Ok\<close>, or the value) and the
  advanced reader; \<open>dbind\<close> is the pattern
  \<open>o = f(r, x); if (!is_affirmative(o)) return o;\<close> and \<open>dguard\<close> the pattern
  \<open>if (!cond) return Outcome::X;\<close>, which does not latch in the reader.

  The relation \<open>rt f d x bs\<close> says that \<open>f\<close> writes exactly \<open>bs\<close> and \<open>d\<close> reads \<open>x\<close> back from
  \<open>bs\<close>; its rules are collected in \<open>codec_intros\<close>. The predicate \<open>dsafe\<close> says that a decoder
  stays within its input and does not touch a failed reader; its rules are in \<open>decoder_safe\<close>.
\<close>

subsection \<open>Writer\<close>

definition kDefaultMaxDocumentBytes :: nat where "kDefaultMaxDocumentBytes = 2 ^ 20"

record writer =
  wbuf :: bytes
  wmax :: nat
  wok :: bool

definition writer_new :: "nat \<Rightarrow> writer" where
  "writer_new max_bytes = \<lparr>wbuf = [], wmax = max_bytes, wok = True\<rparr>"

definition w_status :: "writer \<Rightarrow> outcome" where
  "w_status w = (if wok w then O_Ok else O_Exhausted)"

definition w_put_byte :: "u8 \<Rightarrow> writer \<Rightarrow> writer" where
  "w_put_byte b w =
     (if \<not> wok w then w
      else if length (wbuf w) \<ge> wmax w then w\<lparr>wok := False\<rparr>
      else w\<lparr>wbuf := wbuf w @ [b]\<rparr>)"

text \<open>\<open>checked_add\<close> on \<open>size_t\<close> refuses a total of \<open>2 ^ 64\<close> or more.\<close>

definition w_put :: "bytes \<Rightarrow> writer \<Rightarrow> writer" where
  "w_put b w =
     (if \<not> wok w then w
      else let total = length (wbuf w) + length b in
        if total \<ge> 2 ^ 64 \<or> total > wmax w then w\<lparr>wok := False\<rparr>
        else w\<lparr>wbuf := wbuf w @ b\<rparr>)"

text \<open>The bytes of a little-endian integer, least significant first, and the loop over them.\<close>

definition le_bytes :: "nat \<Rightarrow> 'n::len word \<Rightarrow> bytes" where
  "le_bytes n v = map (\<lambda>i. ucast (drop_bit (8 * i) v AND 0xFF)) [0..<n]"

definition w_le :: "nat \<Rightarrow> 'n::len word \<Rightarrow> writer \<Rightarrow> writer" where
  "w_le n v w = fold w_put_byte (le_bytes n v) w"

definition w_u8 :: "u8 \<Rightarrow> writer \<Rightarrow> writer" where "w_u8 v = w_put_byte v"
definition w_u16 :: "u16 \<Rightarrow> writer \<Rightarrow> writer" where "w_u16 v = w_le 2 v"
definition w_u32 :: "u32 \<Rightarrow> writer \<Rightarrow> writer" where "w_u32 v = w_le 4 v"
definition w_u64 :: "u64 \<Rightarrow> writer \<Rightarrow> writer" where "w_u64 v = w_le 8 v"
definition w_i64 :: "i64 \<Rightarrow> writer \<Rightarrow> writer" where "w_i64 v = w_u64 v"

definition w_boolean :: "bool \<Rightarrow> writer \<Rightarrow> writer" where
  "w_boolean v = w_u8 (if v then 1 else 0)"

definition w_bytes :: "bytes \<Rightarrow> writer \<Rightarrow> writer" where
  "w_bytes b w =
     (if length b \<ge> 2 ^ 32 then w\<lparr>wok := False\<rparr>
      else w_put b (w_u32 (of_nat (length b)) w))"

definition w_blob :: "bytes \<Rightarrow> nat \<Rightarrow> writer \<Rightarrow> writer" where
  "w_blob b max_len w = (if length b > max_len then w\<lparr>wok := False\<rparr> else w_bytes b w)"

text \<open>Text is held as its bytes.\<close>

definition w_string :: "bytes \<Rightarrow> nat \<Rightarrow> writer \<Rightarrow> writer" where
  "w_string s max_len w = (if length s > max_len then w\<lparr>wok := False\<rparr> else w_bytes s w)"

definition w_raw :: "bytes \<Rightarrow> writer \<Rightarrow> writer" where "w_raw b = w_put b"

text \<open>Statement sequences and loops over a vector.\<close>

definition wseq :: "(writer \<Rightarrow> writer) list \<Rightarrow> writer \<Rightarrow> writer" where
  "wseq fs w = fold (\<lambda>f. f) fs w"

definition wfor :: "'a list \<Rightarrow> ('a \<Rightarrow> writer \<Rightarrow> writer) \<Rightarrow> writer \<Rightarrow> writer" where
  "wfor xs f = wseq (map f xs)"

subsection \<open>Reader\<close>

record reader =
  rd :: bytes
  rp :: nat
  rerr :: outcome

type_synonym 'a decoder = "reader \<Rightarrow> (outcome + 'a) \<times> reader"

definition reader_new :: "bytes \<Rightarrow> reader" where
  "reader_new data = \<lparr>rd = data, rp = 0, rerr = O_Ok\<rparr>"

definition r_remaining :: "reader \<Rightarrow> nat" where
  "r_remaining r = (if length (rd r) > rp r then length (rd r) - rp r else 0)"

definition r_fail :: "outcome \<Rightarrow> reader \<Rightarrow> outcome \<times> reader" where
  "r_fail oc r = (let r = (if rerr r = O_Ok then r\<lparr>rerr := oc\<rparr> else r) in (rerr r, r))"

definition r_need :: "nat \<Rightarrow> reader \<Rightarrow> outcome \<times> reader" where
  "r_need n r =
     (if rerr r \<noteq> O_Ok then (rerr r, r)
      else if n > r_remaining r then r_fail O_Malformed r
      else (O_Ok, r))"

definition dret :: "'a \<Rightarrow> 'a decoder" where "dret x r = (Inr x, r)"

definition dbind :: "'a decoder \<Rightarrow> ('a \<Rightarrow> 'b decoder) \<Rightarrow> 'b decoder" where
  "dbind d k r = (case d r of (Inl e, r') \<Rightarrow> (Inl e, r') | (Inr x, r') \<Rightarrow> k x r')"

definition dguard :: "bool \<Rightarrow> outcome \<Rightarrow> unit decoder" where
  "dguard ok e r = (if ok then (Inr (), r) else (Inl e, r))"

text \<open>A failure that latches: \<open>return fail(o)\<close>.\<close>

definition dfail_unless :: "bool \<Rightarrow> outcome \<Rightarrow> unit decoder" where
  "dfail_unless ok e r = (if ok then (Inr (), r) else let (oc, r') = r_fail e r in (Inl oc, r'))"

definition dremaining :: "nat decoder" where "dremaining r = (Inr (r_remaining r), r)"

text \<open>\<open>need(n)\<close> followed by consuming \<open>n\<close> bytes.\<close>

definition r_raw :: "nat \<Rightarrow> bytes decoder" where
  "r_raw n r =
     (let (oc, r) = r_need n r in
      if \<not> is_affirmative oc then (Inl oc, r)
      else (Inr (take n (drop (rp r) (rd r))), r\<lparr>rp := rp r + n\<rparr>))"

definition r_skip :: "nat \<Rightarrow> unit decoder" where
  "r_skip n r =
     (let (oc, r) = r_need n r in
      if \<not> is_affirmative oc then (Inl oc, r) else (Inr (), r\<lparr>rp := rp r + n\<rparr>))"

definition le_value :: "nat \<Rightarrow> bytes \<Rightarrow> 'n::len word" where
  "le_value n bs = fold (\<lambda>i acc. acc OR push_bit (8 * i) (ucast (bs ! i))) [0..<n] 0"

definition r_le :: "nat \<Rightarrow> 'n::len word decoder" where
  "r_le n r =
     (let (oc, r) = r_need n r in
      if \<not> is_affirmative oc then (Inl oc, r)
      else (Inr (le_value n (drop (rp r) (rd r))), r\<lparr>rp := rp r + n\<rparr>))"

definition r_u8 :: "u8 decoder" where
  "r_u8 r =
     (let (oc, r) = r_need 1 r in
      if \<not> is_affirmative oc then (Inl oc, r)
      else (Inr (rd r ! rp r), r\<lparr>rp := rp r + 1\<rparr>))"

definition r_u16 :: "u16 decoder" where "r_u16 = r_le 2"
definition r_u32 :: "u32 decoder" where "r_u32 = r_le 4"
definition r_u64 :: "u64 decoder" where "r_u64 = r_le 8"
definition r_i64 :: "i64 decoder" where "r_i64 = r_u64"

definition r_boolean :: "bool decoder" where
  "r_boolean = dbind r_u8 (\<lambda>raw. dbind (dfail_unless (\<not> raw > 1) O_Invalid) (\<lambda>_. dret (raw = 1)))"

definition r_blob :: "nat \<Rightarrow> bytes decoder" where
  "r_blob n = dbind r_u32 (\<lambda>len.
     dbind (dfail_unless (unat len = n) O_Malformed) (\<lambda>_. r_raw (unat len)))"

definition r_string :: "nat \<Rightarrow> bytes decoder" where
  "r_string max_len = dbind r_u32 (\<lambda>len.
     dbind (dfail_unless (\<not> unat len > max_len) O_Oversized) (\<lambda>_. r_raw (unat len)))"

definition r_finish :: "reader \<Rightarrow> outcome \<times> reader" where
  "r_finish r =
     (if rerr r \<noteq> O_Ok then (rerr r, r)
      else if rp r \<noteq> length (rd r) then r_fail O_Malformed r
      else (O_Ok, r))"

text \<open>A validated enumeration field: read the raw value, refuse it, cast it.\<close>

definition r_enum8 :: "(u8 \<Rightarrow> bool) \<Rightarrow> (u8 \<Rightarrow> 'e) \<Rightarrow> 'e decoder" where
  "r_enum8 valid of_code = dbind r_u8 (\<lambda>raw. dbind (dguard (valid raw) O_Invalid) (\<lambda>_. dret (of_code raw)))"

definition decode_enum :: "(u16 \<Rightarrow> bool) \<Rightarrow> (u16 \<Rightarrow> 'e) \<Rightarrow> 'e decoder" where
  "decode_enum valid of_code =
     dbind r_u16 (\<lambda>raw. dbind (dguard (valid raw) O_Invalid) (\<lambda>_. dret (of_code raw)))"

text \<open>Reading a vector of known length.\<close>

fun dreplicate :: "nat \<Rightarrow> 'a decoder \<Rightarrow> 'a list decoder" where
  "dreplicate 0 d = dret []"
| "dreplicate (Suc n) d = dbind d (\<lambda>x. dbind (dreplicate n d) (\<lambda>xs. dret (x # xs)))"

text \<open>Decoding a whole document: the value and no trailing bytes.\<close>

definition decode_all :: "'a decoder \<Rightarrow> bytes \<Rightarrow> outcome + 'a" where
  "decode_all d data =
     (case d (reader_new data) of
        (Inl e, _) \<Rightarrow> Inl e
      | (Inr x, r) \<Rightarrow> (let oc = fst (r_finish r) in if is_affirmative oc then Inr x else Inl oc))"

subsection \<open>Little-endian integers\<close>

lemma length_le_bytes [simp]: "length (le_bytes n v) = n"
  by (simp add: le_bytes_def)

lemma nth_le_bytes: "i < n \<Longrightarrow> le_bytes n v ! i = ucast (drop_bit (8 * i) v AND 0xFF)"
  by (simp add: le_bytes_def)

lemma bit_le_value_aux:
  "bit (fold (\<lambda>i acc. acc OR push_bit (8 * i) (ucast (bs ! i))) [0..<n] (0 :: 'n::len word)) k \<longleftrightarrow>
    k < LENGTH('n) \<and> (\<exists>i<n. 8 * i \<le> k \<and> bit (bs ! i) (k - 8 * i))" for bs :: bytes
  by (induction n) (auto simp: bit_simps less_Suc_eq)

lemma bit_le_byte: "bit (ucast (drop_bit (8 * i) v AND 0xFF) :: u8) j \<longleftrightarrow> j < 8 \<and> bit v (8 * i + j)"
  for v :: "'n::len word"
proof -
  have m: "(0xFF :: 'n word) = mask 8" by (simp add: mask_eq_exp_minus_1)
  show ?thesis unfolding m
    by (auto simp: bit_simps dest: bit_imp_le_length simp flip: take_bit_eq_mask)
qed

lemma le_value_le_bytes:
  fixes v :: "'n::len word"
  assumes "LENGTH('n) \<le> 8 * n"
  shows "le_value n (le_bytes n v @ rest) = v"
proof (rule bit_word_eqI)
  fix k
  assume "k < LENGTH('n)"
  then have k: "k div 8 < n" using assms by (simp add: less_mult_imp_div_less mult.commute)
  have byte: "bit ((le_bytes n v @ rest) ! i) j \<longleftrightarrow> j < 8 \<and> bit v (8 * i + j)" if "i < n" for i j
    using that by (simp only: nth_append length_le_bytes if_True nth_le_bytes bit_le_byte)
  have "bit (le_value n (le_bytes n v @ rest) :: 'n word) k \<longleftrightarrow>
      k < LENGTH('n) \<and> (\<exists>i<n. 8 * i \<le> k \<and> bit ((le_bytes n v @ rest) ! i) (k - 8 * i))"
    unfolding le_value_def by (rule bit_le_value_aux)
  also have "\<dots> \<longleftrightarrow> (\<exists>i<n. 8 * i \<le> k \<and> k - 8 * i < 8 \<and> bit v k)"
    using \<open>k < LENGTH('n)\<close> byte by (metis le_add_diff_inverse)
  also have "\<dots> \<longleftrightarrow> bit v k"
  proof
    assume "bit v k"
    moreover have "8 * (k div 8) \<le> k" "k - 8 * (k div 8) < 8" by linarith+
    ultimately show "\<exists>i<n. 8 * i \<le> k \<and> k - 8 * i < 8 \<and> bit v k" using k by blast
  qed blast
  finally show "bit (le_value n (le_bytes n v @ rest) :: 'n word) k = bit v k" .
qed

subsection \<open>What an encoder writes\<close>

text \<open>The limit of a writer is a \<open>size_t\<close> and the buffer never exceeds it.\<close>

definition writer_inv :: "writer \<Rightarrow> bool" where
  "writer_inv w \<longleftrightarrow> wmax w < 2 ^ 64 \<and> length (wbuf w) \<le> wmax w"

text \<open>
  The contract of every encoder: it keeps the bound and the limit, never removes what was
  written, and leaves a failed writer failed.
\<close>

definition wsafe :: "(writer \<Rightarrow> writer) \<Rightarrow> bool" where
  "wsafe f \<longleftrightarrow> (\<forall>w. writer_inv w \<longrightarrow>
     writer_inv (f w) \<and> wmax (f w) = wmax w \<and> (\<exists>bs. wbuf (f w) = wbuf w @ bs) \<and>
     (\<not> wok w \<longrightarrow> f w = w))"

text \<open>
  \<open>emits f bs\<close>: besides, a writer with room for \<open>bs\<close> gets exactly \<open>bs\<close> appended, and one
  without is failed.
\<close>

definition emits :: "(writer \<Rightarrow> writer) \<Rightarrow> bytes \<Rightarrow> bool" where
  "emits f bs \<longleftrightarrow> wsafe f \<and> (\<forall>w. writer_inv w \<longrightarrow> wok w \<longrightarrow>
     (if length (wbuf w) + length bs \<le> wmax w
      then f w = w\<lparr>wbuf := wbuf w @ bs\<rparr> else \<not> wok (f w)))"

lemma wsafe_id: "wsafe (wseq [])"
  by (simp add: wsafe_def wseq_def)

lemma wsafe_comp: "wsafe f \<Longrightarrow> wsafe g \<Longrightarrow> wsafe (\<lambda>w. g (f w))"
  unfolding wsafe_def by (metis append.assoc)

lemma wseq_Cons: "wseq (f # fs) = (\<lambda>w. wseq fs (f w))"
  by (simp add: wseq_def fun_eq_iff)

lemma wsafe_Cons: "wsafe f \<Longrightarrow> wsafe (wseq fs) \<Longrightarrow> wsafe (wseq (f # fs))"
  unfolding wseq_Cons by (rule wsafe_comp)

lemma wsafe_put_byte: "wsafe (w_put_byte b)"
  by (auto simp: wsafe_def w_put_byte_def writer_inv_def)

lemma wsafe_put: "wsafe (w_put bs)"
  by (auto simp: wsafe_def w_put_def writer_inv_def Let_def)

lemma emits_nil: "emits (wseq []) []"
  by (auto simp: emits_def wsafe_id wseq_def writer_inv_def)

lemma emits_comp:
  assumes f: "emits f b1" and g: "emits g b2"
  shows "emits (\<lambda>w. g (f w)) (b1 @ b2)"
proof -
  have "if length (wbuf w) + length (b1 @ b2) \<le> wmax w
      then g (f w) = w\<lparr>wbuf := wbuf w @ b1 @ b2\<rparr> else \<not> wok (g (f w))"
    if w: "writer_inv w" "wok w" for w
  proof (cases "length (wbuf w) + length b1 \<le> wmax w")
    case True
    then have fw: "f w = w\<lparr>wbuf := wbuf w @ b1\<rparr>" using f w by (simp add: emits_def)
    moreover have "writer_inv (f w)" using True w by (simp add: fw writer_inv_def)
    ultimately show ?thesis using g w by (simp add: emits_def add.assoc)
  next
    case False
    then have "\<not> wok (f w)" "writer_inv (f w)" using f w by (auto simp: emits_def wsafe_def)
    then have "\<not> wok (g (f w))" using g by (auto simp: emits_def wsafe_def)
    with False show ?thesis by simp
  qed
  moreover have "wsafe (\<lambda>w. g (f w))" using f g by (simp add: emits_def wsafe_comp)
  ultimately show ?thesis unfolding emits_def by blast
qed

lemma emits_Cons: "emits f b1 \<Longrightarrow> emits (wseq fs) b2 \<Longrightarrow> emits (wseq (f # fs)) (b1 @ b2)"
  unfolding wseq_Cons by (rule emits_comp)

lemma emits_put_byte: "emits (w_put_byte b) [b]"
  using wsafe_put_byte by (auto simp: emits_def w_put_byte_def)

lemma emits_put: "emits (w_put bs) bs"
  using wsafe_put by (auto simp: emits_def w_put_def Let_def writer_inv_def)

lemma emits_put_bytes: "emits (fold w_put_byte bs) bs"
proof (induction bs)
  case Nil
  have "fold w_put_byte [] = wseq []" by (simp add: wseq_def fun_eq_iff)
  then show ?case using emits_nil by (simp only:)
next
  case (Cons b bs)
  have "emits (\<lambda>w. fold w_put_byte bs (w_put_byte b w)) ([b] @ bs)"
    by (rule emits_comp [OF emits_put_byte Cons.IH])
  then show ?case by (simp add: comp_def)
qed

lemma emits_le: "emits (w_le n v) (le_bytes n v)"
  using emits_put_bytes [of "le_bytes n v"] by (simp add: w_le_def [abs_def])

lemma emits_wfor: "(\<And>x. x \<in> set xs \<Longrightarrow> emits (f x) (g x)) \<Longrightarrow> emits (wfor xs f) (concat (map g xs))"
  by (induction xs) (simp_all add: wfor_def emits_nil emits_Cons)

lemma emits_bytes:
  assumes "length bs < 2 ^ 32"
  shows "emits (w_bytes bs) (le_bytes 4 (of_nat (length bs) :: u32) @ bs)"
proof -
  have "w_bytes bs = (\<lambda>w. w_put bs (w_u32 (of_nat (length bs)) w))"
    using assms by (simp add: w_bytes_def fun_eq_iff)
  then show ?thesis unfolding w_u32_def by (simp add: emits_comp emits_le emits_put)
qed

lemma emits_fresh:
  assumes "emits f bs" and "m < 2 ^ 64"
  shows "wok (f (writer_new m)) \<longleftrightarrow> length bs \<le> m"
    and "length bs \<le> m \<Longrightarrow> wbuf (f (writer_new m)) = bs"
proof -
  have "writer_inv (writer_new m)" "wok (writer_new m)"
    using assms(2) by (simp_all add: writer_inv_def writer_new_def)
  then have "if length (wbuf (writer_new m)) + length bs \<le> wmax (writer_new m)
      then f (writer_new m) = (writer_new m)\<lparr>wbuf := wbuf (writer_new m) @ bs\<rparr>
      else \<not> wok (f (writer_new m))"
    using assms(1) unfolding emits_def by blast
  then show "wok (f (writer_new m)) \<longleftrightarrow> length bs \<le> m"
    and "length bs \<le> m \<Longrightarrow> wbuf (f (writer_new m)) = bs"
    by (auto simp: writer_new_def split: if_splits)
qed

subsection \<open>What a decoder reads\<close>

text \<open>\<open>parses d bs x\<close>: wherever \<open>bs\<close> stands in the input, the decoder consumes it and returns \<open>x\<close>.\<close>

definition parses :: "'a decoder \<Rightarrow> bytes \<Rightarrow> 'a \<Rightarrow> bool" where
  "parses d bs x \<longleftrightarrow> (\<forall>pre post.
     d \<lparr>rd = pre @ bs @ post, rp = length pre, rerr = O_Ok\<rparr> =
     (Inr x, \<lparr>rd = pre @ bs @ post, rp = length pre + length bs, rerr = O_Ok\<rparr>))"

lemma parses_dbind:
  assumes "parses d b1 v" and "parses (k v) b2 x"
  shows "parses (dbind d k) (b1 @ b2) x"
  unfolding parses_def
proof (intro allI)
  fix pre post
  have "d \<lparr>rd = pre @ b1 @ (b2 @ post), rp = length pre, rerr = O_Ok\<rparr> =
      (Inr v, \<lparr>rd = pre @ b1 @ (b2 @ post), rp = length pre + length b1, rerr = O_Ok\<rparr>)"
    using assms(1) by (simp add: parses_def)
  moreover have "k v \<lparr>rd = (pre @ b1) @ b2 @ post, rp = length (pre @ b1), rerr = O_Ok\<rparr> =
      (Inr x, \<lparr>rd = (pre @ b1) @ b2 @ post, rp = length (pre @ b1) + length b2, rerr = O_Ok\<rparr>)"
    using assms(2) unfolding parses_def by blast
  ultimately show "dbind d k \<lparr>rd = pre @ (b1 @ b2) @ post, rp = length pre, rerr = O_Ok\<rparr> =
      (Inr x, \<lparr>rd = pre @ (b1 @ b2) @ post, rp = length pre + length (b1 @ b2), rerr = O_Ok\<rparr>)"
    by (simp add: dbind_def add.assoc)
qed

lemma parses_dret: "parses (dret x) [] x"
  by (simp add: parses_def dret_def)

lemma parses_dguard: "P \<Longrightarrow> parses (dguard P e) [] ()"
  by (simp add: parses_def dguard_def)

lemma parses_dfail_unless: "P \<Longrightarrow> parses (dfail_unless P e) [] ()"
  by (simp add: parses_def dfail_unless_def)

lemma parses_bind_guard: "P \<Longrightarrow> parses (k ()) b x \<Longrightarrow> parses (dbind (dguard P e) k) b x"
  using parses_dbind [OF parses_dguard, of P k b x e] by simp

lemma parses_bind_fail: "P \<Longrightarrow> parses (k ()) b x \<Longrightarrow> parses (dbind (dfail_unless P e) k) b x"
  using parses_dbind [OF parses_dfail_unless, of P k b x e] by simp

lemma parses_u8: "parses r_u8 [v] v"
  by (simp add: parses_def r_u8_def r_need_def r_remaining_def is_affirmative_def)

lemma parses_raw: "parses (r_raw (length bs)) bs bs"
  by (simp add: parses_def r_raw_def r_need_def r_remaining_def is_affirmative_def)

lemma parses_le: "LENGTH('n::len) \<le> 8 * n \<Longrightarrow> parses (r_le n) (le_bytes n v) (v :: 'n word)"
  by (simp add: parses_def r_le_def r_need_def r_remaining_def is_affirmative_def le_value_le_bytes)

lemma parses_dreplicate:
  "(\<And>x. x \<in> set xs \<Longrightarrow> parses d (g x) x) \<Longrightarrow> parses (dreplicate (length xs) d) (concat (map g xs)) xs"
proof (induction xs)
  case (Cons x xs)
  have "parses (dreplicate (length xs) d) (concat (map g xs)) xs" using Cons by auto
  from parses_dbind [OF this parses_dret, of "\<lambda>xs. x # xs"]
  have "parses (dbind (dreplicate (length xs) d) (\<lambda>xs. dret (x # xs))) (concat (map g xs)) (x # xs)"
    by simp
  then show ?case using Cons.prems by (auto intro: parses_dbind)
qed (simp add: parses_dret)

subsection \<open>Round trips\<close>

definition rt :: "(writer \<Rightarrow> writer) \<Rightarrow> 'a decoder \<Rightarrow> 'a \<Rightarrow> bytes \<Rightarrow> bool" where
  "rt f d x bs \<longleftrightarrow> emits f bs \<and> parses d bs x"

lemma rt_bind [codec_intros]:
  "rt f d v b1 \<Longrightarrow> rt (wseq fs) (k v) x b2 \<Longrightarrow> rt (wseq (f # fs)) (dbind d k) x (b1 @ b2)"
  by (auto simp: rt_def intro: emits_Cons parses_dbind)

lemma rt_last [codec_intros]: "rt f d x b \<Longrightarrow> rt (wseq [f]) d x b"
  using emits_Cons [of f b "[]" "[]"] emits_nil by (simp add: rt_def)

lemma rt_ret [codec_intros]: "x = y \<Longrightarrow> rt (wseq []) (dret x) y []"
  by (simp add: rt_def emits_nil parses_dret)

lemma rt_guard [codec_intros]:
  "P \<Longrightarrow> rt F (k ()) x b \<Longrightarrow> rt F (dbind (dguard P e) k) x b"
  by (simp add: rt_def parses_bind_guard)

lemma rt_fail_unless [codec_intros]:
  "P \<Longrightarrow> rt F (k ()) x b \<Longrightarrow> rt F (dbind (dfail_unless P e) k) x b"
  by (simp add: rt_def parses_bind_fail)

text \<open>
  A check against \<open>remaining()\<close> before a variable-length part passes because the part is still
  to be read: whatever the amount that remains, it is at least what the encoder wrote.
\<close>

lemma rt_remaining:
  assumes "\<And>m. length b \<le> m \<Longrightarrow> rt F (k m) x b"
  shows "rt F (dbind dremaining k) x b"
proof -
  have "parses (dbind dremaining k) b x"
    unfolding parses_def dbind_def dremaining_def
    using assms by (auto simp: r_remaining_def rt_def parses_def split: if_splits)
  moreover have "emits F b" using assms [of "length b"] by (simp add: rt_def)
  ultimately show ?thesis by (simp add: rt_def)
qed

lemma rt_u8 [codec_intros]: "rt (w_u8 v) r_u8 v [v]"
  by (simp add: rt_def w_u8_def emits_put_byte parses_u8)

lemma rt_u16 [codec_intros]: "rt (w_u16 v) r_u16 v (le_bytes 2 v)"
  by (simp add: rt_def w_u16_def r_u16_def emits_le parses_le)

lemma rt_u32 [codec_intros]: "rt (w_u32 v) r_u32 v (le_bytes 4 v)"
  by (simp add: rt_def w_u32_def r_u32_def emits_le parses_le)

lemma rt_u64 [codec_intros]: "rt (w_u64 v) r_u64 v (le_bytes 8 v)"
  by (simp add: rt_def w_u64_def r_u64_def emits_le parses_le)

lemma rt_i64 [codec_intros]: "rt (w_i64 v) r_i64 v (le_bytes 8 v)"
  by (simp add: w_i64_def r_i64_def rt_u64)

lemma rt_boolean [codec_intros]: "rt (w_boolean v) r_boolean v [if v then 1 else 0]"
proof -
  have "parses r_boolean ([if v then 1 else 0] @ []) v"
    unfolding r_boolean_def
    by (rule parses_dbind [OF parses_u8], rule parses_bind_fail) (auto simp: parses_def dret_def)
  then show ?thesis by (simp add: rt_def w_boolean_def w_u8_def emits_put_byte)
qed

lemma rt_string [codec_intros]:
  assumes "length s \<le> m" and "m < 2 ^ 32"
  shows "rt (w_string s m) (r_string m) s (le_bytes 4 (of_nat (length s) :: u32) @ s)"
proof -
  have n: "unat (of_nat (length s) :: u32) = length s" using assms by (simp add: unat_of_nat)
  have "parses r_u32 (le_bytes 4 (of_nat (length s) :: u32)) (of_nat (length s))"
    by (simp add: r_u32_def parses_le)
  then have "parses (r_string m) (le_bytes 4 (of_nat (length s) :: u32) @ s) s"
    unfolding r_string_def
    by (rule parses_dbind, intro parses_bind_fail) (use assms(1) n parses_raw [of s] in simp_all)
  moreover have "w_string s m = w_bytes s" using assms by (simp add: w_string_def fun_eq_iff)
  ultimately show ?thesis using assms by (simp add: rt_def emits_bytes)
qed

lemma rt_enum8 [codec_intros]:
  assumes "wire_enum code valid of_code"
  shows "rt (w_u8 (code e)) (r_enum8 valid of_code) e [code e]"
proof -
  have v: "valid (code e)" "of_code (code e) = e" using assms by (auto simp: wire_enum_def)
  have "parses (r_enum8 valid of_code) ([code e] @ []) e"
    unfolding r_enum8_def
    by (rule parses_dbind [OF parses_u8], rule parses_bind_guard) (simp_all add: v parses_dret)
  then show ?thesis by (simp add: rt_def w_u8_def emits_put_byte)
qed

lemma rt_enum16 [codec_intros]:
  assumes "wire_enum code valid of_code"
  shows "rt (w_u16 (code e)) (decode_enum valid of_code) e (le_bytes 2 (code e))"
proof -
  have v: "valid (code e)" "of_code (code e) = e" using assms by (auto simp: wire_enum_def)
  have u: "parses r_u16 (le_bytes 2 (code e)) (code e)" by (simp add: r_u16_def parses_le)
  have "parses (decode_enum valid of_code) (le_bytes 2 (code e) @ []) e"
    unfolding decode_enum_def
    by (rule parses_dbind [OF u], rule parses_bind_guard) (simp_all add: v parses_dret)
  then show ?thesis by (simp add: rt_def w_u16_def emits_le)
qed

lemma rt_vector:
  assumes "\<And>x. x \<in> set xs \<Longrightarrow> rt (f x) d x (g x)"
  shows "rt (wfor xs f) (dreplicate (length xs) d) xs (concat (map g xs))"
  using assms by (simp add: rt_def emits_wfor parses_dreplicate)

subsection \<open>Decoders stay within their input\<close>

definition dsafe :: "'a decoder \<Rightarrow> bool" where
  "dsafe d \<longleftrightarrow> (\<forall>r. let r' = snd (d r) in
     rd r' = rd r \<and> rp r \<le> rp r' \<and> (rp r \<le> length (rd r) \<longrightarrow> rp r' \<le> length (rd r)) \<and>
     (rerr r \<noteq> O_Ok \<longrightarrow> r' = r) \<and> fst (d r) \<noteq> Inl O_Ok)"

lemma dsafe_dret [decoder_safe]: "dsafe (dret x)"
  by (simp add: dsafe_def dret_def)

lemma dsafe_dguard [decoder_safe]: "e \<noteq> O_Ok \<Longrightarrow> dsafe (dguard P e)"
  by (simp add: dsafe_def dguard_def)

lemma dsafe_dfail_unless [decoder_safe]: "e \<noteq> O_Ok \<Longrightarrow> dsafe (dfail_unless P e)"
  by (simp add: dsafe_def dfail_unless_def r_fail_def Let_def)

lemma dsafe_dremaining [decoder_safe]: "dsafe dremaining"
  by (simp add: dsafe_def dremaining_def)

lemma dsafe_dbind [decoder_safe]:
  assumes "dsafe d" and "\<And>x. dsafe (k x)"
  shows "dsafe (dbind d k)"
  unfolding dsafe_def Let_def
proof (intro allI)
  fix r
  show "rd (snd (dbind d k r)) = rd r \<and> rp r \<le> rp (snd (dbind d k r)) \<and>
      (rp r \<le> length (rd r) \<longrightarrow> rp (snd (dbind d k r)) \<le> length (rd r)) \<and>
      (rerr r \<noteq> O_Ok \<longrightarrow> snd (dbind d k r) = r) \<and> fst (dbind d k r) \<noteq> Inl O_Ok"
  proof (cases "d r")
    case (Pair res r')
    have d: "rd r' = rd r" "rp r \<le> rp r'" "rp r \<le> length (rd r) \<Longrightarrow> rp r' \<le> length (rd r)"
        "rerr r \<noteq> O_Ok \<Longrightarrow> r' = r" "res \<noteq> Inl O_Ok"
      using assms(1) Pair unfolding dsafe_def Let_def by (metis fst_conv snd_conv)+
    show ?thesis
    proof (cases res)
      case (Inl e)
      with Pair d show ?thesis by (auto simp: dbind_def)
    next
      case (Inr x)
      have "rd (snd (k x r')) = rd r'" "rp r' \<le> rp (snd (k x r'))"
          "rp r' \<le> length (rd r') \<Longrightarrow> rp (snd (k x r')) \<le> length (rd r')"
          "rerr r' \<noteq> O_Ok \<Longrightarrow> snd (k x r') = r'" "fst (k x r') \<noteq> Inl O_Ok"
        using assms(2) [of x] unfolding dsafe_def Let_def by blast+
      with Pair d Inr show ?thesis by (auto simp: dbind_def)
    qed
  qed
qed

lemma dsafe_u8 [decoder_safe]: "dsafe r_u8"
  by (auto simp: dsafe_def r_u8_def r_need_def r_fail_def r_remaining_def is_affirmative_def Let_def)

lemma dsafe_le [decoder_safe]: "dsafe (r_le n)"
  by (auto simp: dsafe_def r_le_def r_need_def r_fail_def r_remaining_def is_affirmative_def Let_def)

lemma dsafe_raw [decoder_safe]: "dsafe (r_raw n)"
  by (auto simp: dsafe_def r_raw_def r_need_def r_fail_def r_remaining_def is_affirmative_def Let_def)

lemma dsafe_skip [decoder_safe]: "dsafe (r_skip n)"
  by (auto simp: dsafe_def r_skip_def r_need_def r_fail_def r_remaining_def is_affirmative_def Let_def)

lemma dsafe_ints [decoder_safe]: "dsafe r_u16" "dsafe r_u32" "dsafe r_u64" "dsafe r_i64"
  by (simp_all add: r_u16_def r_u32_def r_u64_def r_i64_def dsafe_le)

lemma dsafe_boolean [decoder_safe]: "dsafe r_boolean"
  unfolding r_boolean_def by (intro decoder_safe) simp_all

lemma dsafe_string [decoder_safe]: "dsafe (r_string m)"
  unfolding r_string_def by (intro decoder_safe) simp_all

lemma dsafe_blob [decoder_safe]: "dsafe (r_blob m)"
  unfolding r_blob_def by (intro decoder_safe) simp_all

lemma dsafe_enum8 [decoder_safe]: "dsafe (r_enum8 valid of_code)"
  unfolding r_enum8_def by (intro decoder_safe) simp_all

lemma dsafe_enum16 [decoder_safe]: "dsafe (decode_enum valid of_code)"
  unfolding decode_enum_def by (intro decoder_safe) simp_all

lemma dsafe_dreplicate [decoder_safe]: "dsafe d \<Longrightarrow> dsafe (dreplicate n d)"
  by (induction n) (simp_all add: dsafe_dret dsafe_dbind)

subsection \<open>The interface of a codec\<close>

text \<open>
  What a client of an \<open>encode\<close>/\<open>decode\<close> pair relies on: on admissible values the decoder reads
  back what the encoder writes, and the decoder is safe on every input.
\<close>

locale codec =
  fixes enc :: "'a \<Rightarrow> writer \<Rightarrow> writer"
    and dec :: "'a decoder"
    and admissible :: "'a \<Rightarrow> bool"
  assumes round_trip: "admissible x \<Longrightarrow> \<exists>bs. rt (enc x) dec x bs"
    and dec_safe: "dsafe dec"
begin

lemma decode_document:
  assumes "admissible x" and "m < 2 ^ 64" and "wok (enc x (writer_new m))"
  shows "decode_all dec (wbuf (enc x (writer_new m))) = Inr x"
proof -
  obtain bs where "rt (enc x) dec x bs" using round_trip assms(1) by blast
  then have e: "emits (enc x) bs" and p: "parses dec bs x" by (simp_all add: rt_def)
  have "wbuf (enc x (writer_new m)) = bs" using emits_fresh [OF e assms(2)] assms(3) by simp
  moreover have "dec \<lparr>rd = [] @ bs @ [], rp = length ([] :: bytes), rerr = O_Ok\<rparr> =
      (Inr x, \<lparr>rd = [] @ bs @ [], rp = length ([] :: bytes) + length bs, rerr = O_Ok\<rparr>)"
    using p unfolding parses_def by blast
  ultimately show ?thesis by (simp add: decode_all_def reader_new_def r_finish_def is_affirmative_def)
qed

lemma encode_inject:
  assumes "admissible x" "admissible y" and "m < 2 ^ 64"
    and "wok (enc x (writer_new m))" "wok (enc y (writer_new m))"
    and "wbuf (enc x (writer_new m)) = wbuf (enc y (writer_new m))"
  shows "x = y"
proof -
  have "Inr x = decode_all dec (wbuf (enc x (writer_new m)))"
    by (rule decode_document [OF assms(1,3,4), symmetric])
  also have "\<dots> = Inr y"
    unfolding assms(6) by (rule decode_document [OF assms(2,3,5)])
  finally show "x = y" by (rule sum.inject(2) [THEN iffD1])
qed

end

text \<open>Decoding is total: a value, or an outcome other than \<open>Ok\<close>.\<close>

lemma decode_all_total:
  assumes "dsafe d"
  shows "decode_all d data \<noteq> Inl O_Ok"
proof -
  have ne: "fst (d (reader_new data)) \<noteq> Inl O_Ok"
    using assms by (simp add: dsafe_def Let_def)
  obtain res r where d: "d (reader_new data) = (res, r)" by (rule prod.exhaust)
  show ?thesis
  proof (cases res)
    case (Inl e)
    with d ne show ?thesis by (simp add: decode_all_def)
  next
    case (Inr x)
    with d show ?thesis by (simp add: decode_all_def is_affirmative_def Let_def)
  qed
qed

end
