(* ===== verification/BHG_Domain.thy ===== *)
theory BHG_Domain
  imports BHG_Canonical
begin

text \<open>
  The domain layer (\<open>include/blackhole/domain\<close>, \<open>src/domain\<close>): classifications, reason
  codes, generation vectors, source references, scopes, delivery evidence, the fence policy and
  path structures, each with its codec. Identifiers, generations and sequences are the strong
  64-bit types of \<open>ids.hpp\<close>; a value is nil when it is zero.

  The ordering of a record is the lexicographic ordering of the code's \<open>operator<=>\<close>, given as
  a \<open>linorder\<close> instance so that the records serve as map keys.
\<close>

type_synonym evidence_source_id = u64
type_synonym path_id = u64
type_synonym node_id = u64
type_synonym link_id = u64

subsection \<open>Classification (classification.hpp)\<close>

datatype classification =
    C_Healthy | C_NoEvidence | C_Unknown | C_Lossy | C_Congested | C_Partitioned
  | C_Blackhole

primrec classification_code :: "classification \<Rightarrow> u16" where
  "classification_code C_Healthy = 0"
| "classification_code C_NoEvidence = 1"
| "classification_code C_Unknown = 2"
| "classification_code C_Lossy = 3"
| "classification_code C_Congested = 4"
| "classification_code C_Partitioned = 5"
| "classification_code C_Blackhole = 6"

definition all_classification :: "classification list" where
  "all_classification =
    [C_Healthy, C_NoEvidence, C_Unknown, C_Lossy, C_Congested, C_Partitioned, C_Blackhole]"

definition is_valid_classification :: "u16 \<Rightarrow> bool" where
  "is_valid_classification raw \<longleftrightarrow> raw \<le> 6"

definition classification_of_code :: "u16 \<Rightarrow> classification" where
  "classification_of_code = enum_cast classification_code all_classification"

primrec classification_to_string :: "classification \<Rightarrow> string" where
  "classification_to_string C_Healthy = ''HEALTHY''"
| "classification_to_string C_NoEvidence = ''NO_EVIDENCE''"
| "classification_to_string C_Unknown = ''UNKNOWN''"
| "classification_to_string C_Lossy = ''LOSSY''"
| "classification_to_string C_Congested = ''CONGESTED''"
| "classification_to_string C_Partitioned = ''PARTITIONED''"
| "classification_to_string C_Blackhole = ''BLACKHOLE''"

interpretation classification_enum: wire_enum classification_code is_valid_classification classification_of_code
  unfolding classification_of_code_def
proof (rule wire_enumI)
  show "e \<in> set all_classification" for e by (cases e) (simp_all add: all_classification_def)
  show "distinct (map classification_code all_classification)" by (simp add: all_classification_def)
  show "is_valid_classification raw \<longleftrightarrow> raw \<in> set (map classification_code all_classification)" for raw
    using word_range_set [of 6 0 raw]
    by (simp add: is_valid_classification_def all_classification_def upt_rec)
qed

definition may_authorize_fence :: "classification \<Rightarrow> bool" where
  "may_authorize_fence c \<longleftrightarrow> c = C_Blackhole"

subsection \<open>Evidence vocabulary (evidence.hpp)\<close>

datatype evidence_kind =
    K_DeliverySuccess | K_DeliveryFailure | K_LossMeasurement | K_CongestionSignal
  | K_PartitionSignal | K_StructuralWithdrawal

primrec evidence_kind_code :: "evidence_kind \<Rightarrow> u16" where
  "evidence_kind_code K_DeliverySuccess = 1"
| "evidence_kind_code K_DeliveryFailure = 2"
| "evidence_kind_code K_LossMeasurement = 3"
| "evidence_kind_code K_CongestionSignal = 4"
| "evidence_kind_code K_PartitionSignal = 5"
| "evidence_kind_code K_StructuralWithdrawal = 6"

definition all_evidence_kind :: "evidence_kind list" where
  "all_evidence_kind =
    [K_DeliverySuccess, K_DeliveryFailure, K_LossMeasurement, K_CongestionSignal,
     K_PartitionSignal, K_StructuralWithdrawal]"

definition is_valid_evidence_kind :: "u16 \<Rightarrow> bool" where
  "is_valid_evidence_kind raw \<longleftrightarrow> raw \<ge> 1 \<and> raw \<le> 6"

definition evidence_kind_of_code :: "u16 \<Rightarrow> evidence_kind" where
  "evidence_kind_of_code = enum_cast evidence_kind_code all_evidence_kind"

primrec evidence_kind_to_string :: "evidence_kind \<Rightarrow> string" where
  "evidence_kind_to_string K_DeliverySuccess = ''DeliverySuccess''"
| "evidence_kind_to_string K_DeliveryFailure = ''DeliveryFailure''"
| "evidence_kind_to_string K_LossMeasurement = ''LossMeasurement''"
| "evidence_kind_to_string K_CongestionSignal = ''CongestionSignal''"
| "evidence_kind_to_string K_PartitionSignal = ''PartitionSignal''"
| "evidence_kind_to_string K_StructuralWithdrawal = ''StructuralWithdrawal''"

interpretation evidence_kind_enum: wire_enum evidence_kind_code is_valid_evidence_kind evidence_kind_of_code
  unfolding evidence_kind_of_code_def
proof (rule wire_enumI)
  show "e \<in> set all_evidence_kind" for e by (cases e) (simp_all add: all_evidence_kind_def)
  show "distinct (map evidence_kind_code all_evidence_kind)" by (simp add: all_evidence_kind_def)
  show "is_valid_evidence_kind raw \<longleftrightarrow> raw \<in> set (map evidence_kind_code all_evidence_kind)" for raw
    using word_range_set [of 6 1 raw]
    by (simp add: is_valid_evidence_kind_def all_evidence_kind_def upt_rec)
qed

datatype evidence_quality =
    Q_Exact | Q_Sampled | Q_Approximate

primrec evidence_quality_code :: "evidence_quality \<Rightarrow> u8" where
  "evidence_quality_code Q_Exact = 0"
| "evidence_quality_code Q_Sampled = 1"
| "evidence_quality_code Q_Approximate = 2"

definition all_evidence_quality :: "evidence_quality list" where
  "all_evidence_quality =
    [Q_Exact, Q_Sampled, Q_Approximate]"

definition is_valid_quality :: "u8 \<Rightarrow> bool" where
  "is_valid_quality raw \<longleftrightarrow> raw \<le> 2"

definition evidence_quality_of_code :: "u8 \<Rightarrow> evidence_quality" where
  "evidence_quality_of_code = enum_cast evidence_quality_code all_evidence_quality"

primrec evidence_quality_to_string :: "evidence_quality \<Rightarrow> string" where
  "evidence_quality_to_string Q_Exact = ''Exact''"
| "evidence_quality_to_string Q_Sampled = ''Sampled''"
| "evidence_quality_to_string Q_Approximate = ''Approximate''"

interpretation evidence_quality_enum: wire_enum evidence_quality_code is_valid_quality evidence_quality_of_code
  unfolding evidence_quality_of_code_def
proof (rule wire_enumI)
  show "e \<in> set all_evidence_quality" for e by (cases e) (simp_all add: all_evidence_quality_def)
  show "distinct (map evidence_quality_code all_evidence_quality)" by (simp add: all_evidence_quality_def)
  show "is_valid_quality raw \<longleftrightarrow> raw \<in> set (map evidence_quality_code all_evidence_quality)" for raw
    using word_range_set [of 2 0 raw]
    by (simp add: is_valid_quality_def all_evidence_quality_def upt_rec)
qed

datatype provenance =
    P_Real | P_Synthetic | P_Unsupported

primrec provenance_code :: "provenance \<Rightarrow> u8" where
  "provenance_code P_Real = 0"
| "provenance_code P_Synthetic = 1"
| "provenance_code P_Unsupported = 2"

definition all_provenance :: "provenance list" where
  "all_provenance =
    [P_Real, P_Synthetic, P_Unsupported]"

definition is_valid_provenance :: "u8 \<Rightarrow> bool" where
  "is_valid_provenance raw \<longleftrightarrow> raw \<le> 2"

definition provenance_of_code :: "u8 \<Rightarrow> provenance" where
  "provenance_of_code = enum_cast provenance_code all_provenance"

primrec provenance_to_string :: "provenance \<Rightarrow> string" where
  "provenance_to_string P_Real = ''REAL''"
| "provenance_to_string P_Synthetic = ''SYNTHETIC''"
| "provenance_to_string P_Unsupported = ''UNSUPPORTED''"

interpretation provenance_enum: wire_enum provenance_code is_valid_provenance provenance_of_code
  unfolding provenance_of_code_def
proof (rule wire_enumI)
  show "e \<in> set all_provenance" for e by (cases e) (simp_all add: all_provenance_def)
  show "distinct (map provenance_code all_provenance)" by (simp add: all_provenance_def)
  show "is_valid_provenance raw \<longleftrightarrow> raw \<in> set (map provenance_code all_provenance)" for raw
    using word_range_set [of 2 0 raw]
    by (simp add: is_valid_provenance_def all_provenance_def upt_rec)
qed

datatype reason_code =
    R_None | R_NoEvidenceObserved | R_OnlyStaleEvidence | R_GenerationMismatch
  | R_SourceIncarnationChanged | R_FreshnessWindowExpired | R_ConflictingEvidence
  | R_InvalidEvidenceRejected | R_ReplayedSequence | R_RegressedSequence
  | R_SequenceRollover | R_DuplicateEvidence | R_WindowViolation | R_ClockSkewExceeded
  | R_CompleteDeliveryFailure | R_PartialLossObserved | R_SevereLossObserved
  | R_CongestionExplainsLoss | R_PartitionExplainsLoss | R_StructurallyWithdrawn
  | R_QualityBelowPolicy | R_CorroborationInsufficient | R_CorroborationSatisfied
  | R_SourcesInsufficient | R_IncarnationsInsufficient | R_AttemptsInsufficient
  | R_PolicyRefused | R_FenceIntentIssued | R_FenceIntentRevoked | R_FenceExpired
  | R_FenceAcknowledged | R_FenceEffectVerified | R_FenceEffectUnverified
  | R_RestartFencedPriorAuthority | R_DependencyGenerationChanged
  | R_RestorationEvidenceFresh | R_RestorationCorroborated
  | R_RestorationRefusedNoEvidence | R_RestorationRefusedStale
  | R_RestorationRefusedConflict | R_RestorationRefusedInsufficient
  | R_LocalizationResolved | R_LocalizationAmbiguous | R_LocalizationInfeasible
  | R_LocalizationSearchLimit | R_LocalizationInvalid | R_BudgetExhausted
  | R_UnsupportedInput | R_InternalInvariantViolation

primrec reason_code_code :: "reason_code \<Rightarrow> u16" where
  "reason_code_code R_None = 0"
| "reason_code_code R_NoEvidenceObserved = 1"
| "reason_code_code R_OnlyStaleEvidence = 2"
| "reason_code_code R_GenerationMismatch = 3"
| "reason_code_code R_SourceIncarnationChanged = 4"
| "reason_code_code R_FreshnessWindowExpired = 5"
| "reason_code_code R_ConflictingEvidence = 6"
| "reason_code_code R_InvalidEvidenceRejected = 7"
| "reason_code_code R_ReplayedSequence = 8"
| "reason_code_code R_RegressedSequence = 9"
| "reason_code_code R_SequenceRollover = 10"
| "reason_code_code R_DuplicateEvidence = 11"
| "reason_code_code R_WindowViolation = 12"
| "reason_code_code R_ClockSkewExceeded = 13"
| "reason_code_code R_CompleteDeliveryFailure = 20"
| "reason_code_code R_PartialLossObserved = 21"
| "reason_code_code R_SevereLossObserved = 22"
| "reason_code_code R_CongestionExplainsLoss = 23"
| "reason_code_code R_PartitionExplainsLoss = 24"
| "reason_code_code R_StructurallyWithdrawn = 25"
| "reason_code_code R_QualityBelowPolicy = 26"
| "reason_code_code R_CorroborationInsufficient = 40"
| "reason_code_code R_CorroborationSatisfied = 41"
| "reason_code_code R_SourcesInsufficient = 42"
| "reason_code_code R_IncarnationsInsufficient = 43"
| "reason_code_code R_AttemptsInsufficient = 44"
| "reason_code_code R_PolicyRefused = 45"
| "reason_code_code R_FenceIntentIssued = 60"
| "reason_code_code R_FenceIntentRevoked = 61"
| "reason_code_code R_FenceExpired = 62"
| "reason_code_code R_FenceAcknowledged = 63"
| "reason_code_code R_FenceEffectVerified = 64"
| "reason_code_code R_FenceEffectUnverified = 65"
| "reason_code_code R_RestartFencedPriorAuthority = 66"
| "reason_code_code R_DependencyGenerationChanged = 67"
| "reason_code_code R_RestorationEvidenceFresh = 80"
| "reason_code_code R_RestorationCorroborated = 81"
| "reason_code_code R_RestorationRefusedNoEvidence = 82"
| "reason_code_code R_RestorationRefusedStale = 83"
| "reason_code_code R_RestorationRefusedConflict = 84"
| "reason_code_code R_RestorationRefusedInsufficient = 85"
| "reason_code_code R_LocalizationResolved = 100"
| "reason_code_code R_LocalizationAmbiguous = 101"
| "reason_code_code R_LocalizationInfeasible = 102"
| "reason_code_code R_LocalizationSearchLimit = 103"
| "reason_code_code R_LocalizationInvalid = 104"
| "reason_code_code R_BudgetExhausted = 120"
| "reason_code_code R_UnsupportedInput = 121"
| "reason_code_code R_InternalInvariantViolation = 122"

definition all_reason_code :: "reason_code list" where
  "all_reason_code =
    [R_None, R_NoEvidenceObserved, R_OnlyStaleEvidence, R_GenerationMismatch,
     R_SourceIncarnationChanged, R_FreshnessWindowExpired, R_ConflictingEvidence,
     R_InvalidEvidenceRejected, R_ReplayedSequence, R_RegressedSequence,
     R_SequenceRollover, R_DuplicateEvidence, R_WindowViolation, R_ClockSkewExceeded,
     R_CompleteDeliveryFailure, R_PartialLossObserved, R_SevereLossObserved,
     R_CongestionExplainsLoss, R_PartitionExplainsLoss, R_StructurallyWithdrawn,
     R_QualityBelowPolicy, R_CorroborationInsufficient, R_CorroborationSatisfied,
     R_SourcesInsufficient, R_IncarnationsInsufficient, R_AttemptsInsufficient,
     R_PolicyRefused, R_FenceIntentIssued, R_FenceIntentRevoked, R_FenceExpired,
     R_FenceAcknowledged, R_FenceEffectVerified, R_FenceEffectUnverified,
     R_RestartFencedPriorAuthority, R_DependencyGenerationChanged,
     R_RestorationEvidenceFresh, R_RestorationCorroborated, R_RestorationRefusedNoEvidence,
     R_RestorationRefusedStale, R_RestorationRefusedConflict,
     R_RestorationRefusedInsufficient, R_LocalizationResolved, R_LocalizationAmbiguous,
     R_LocalizationInfeasible, R_LocalizationSearchLimit, R_LocalizationInvalid,
     R_BudgetExhausted, R_UnsupportedInput, R_InternalInvariantViolation]"

definition is_valid_reason_code :: "u16 \<Rightarrow> bool" where
  "is_valid_reason_code raw \<longleftrightarrow> raw \<in> set
    [0, 1, 2, 3, 4, 5, 6, 7, 8, 9, 10, 11, 12, 13, 20, 21, 22, 23, 24, 25, 26, 40,
     41, 42, 43, 44, 45, 60, 61, 62, 63, 64, 65, 66, 67, 80, 81, 82, 83, 84, 85,
     100, 101, 102, 103, 104, 120, 121, 122]"

definition reason_code_of_code :: "u16 \<Rightarrow> reason_code" where
  "reason_code_of_code = enum_cast reason_code_code all_reason_code"

primrec reason_code_to_string :: "reason_code \<Rightarrow> string" where
  "reason_code_to_string R_None = ''NONE''"
| "reason_code_to_string R_NoEvidenceObserved = ''NO_EVIDENCE_OBSERVED''"
| "reason_code_to_string R_OnlyStaleEvidence = ''ONLY_STALE_EVIDENCE''"
| "reason_code_to_string R_GenerationMismatch = ''GENERATION_MISMATCH''"
| "reason_code_to_string R_SourceIncarnationChanged = ''SOURCE_INCARNATION_CHANGED''"
| "reason_code_to_string R_FreshnessWindowExpired = ''FRESHNESS_WINDOW_EXPIRED''"
| "reason_code_to_string R_ConflictingEvidence = ''CONFLICTING_EVIDENCE''"
| "reason_code_to_string R_InvalidEvidenceRejected = ''INVALID_EVIDENCE_REJECTED''"
| "reason_code_to_string R_ReplayedSequence = ''REPLAYED_SEQUENCE''"
| "reason_code_to_string R_RegressedSequence = ''REGRESSED_SEQUENCE''"
| "reason_code_to_string R_SequenceRollover = ''SEQUENCE_ROLLOVER''"
| "reason_code_to_string R_DuplicateEvidence = ''DUPLICATE_EVIDENCE''"
| "reason_code_to_string R_WindowViolation = ''WINDOW_VIOLATION''"
| "reason_code_to_string R_ClockSkewExceeded = ''CLOCK_SKEW_EXCEEDED''"
| "reason_code_to_string R_CompleteDeliveryFailure = ''COMPLETE_DELIVERY_FAILURE''"
| "reason_code_to_string R_PartialLossObserved = ''PARTIAL_LOSS_OBSERVED''"
| "reason_code_to_string R_SevereLossObserved = ''SEVERE_LOSS_OBSERVED''"
| "reason_code_to_string R_CongestionExplainsLoss = ''CONGESTION_EXPLAINS_LOSS''"
| "reason_code_to_string R_PartitionExplainsLoss = ''PARTITION_EXPLAINS_LOSS''"
| "reason_code_to_string R_StructurallyWithdrawn = ''STRUCTURALLY_WITHDRAWN''"
| "reason_code_to_string R_QualityBelowPolicy = ''QUALITY_BELOW_POLICY''"
| "reason_code_to_string R_CorroborationInsufficient = ''CORROBORATION_INSUFFICIENT''"
| "reason_code_to_string R_CorroborationSatisfied = ''CORROBORATION_SATISFIED''"
| "reason_code_to_string R_SourcesInsufficient = ''SOURCES_INSUFFICIENT''"
| "reason_code_to_string R_IncarnationsInsufficient = ''INCARNATIONS_INSUFFICIENT''"
| "reason_code_to_string R_AttemptsInsufficient = ''ATTEMPTS_INSUFFICIENT''"
| "reason_code_to_string R_PolicyRefused = ''POLICY_REFUSED''"
| "reason_code_to_string R_FenceIntentIssued = ''FENCE_INTENT_ISSUED''"
| "reason_code_to_string R_FenceIntentRevoked = ''FENCE_INTENT_REVOKED''"
| "reason_code_to_string R_FenceExpired = ''FENCE_EXPIRED''"
| "reason_code_to_string R_FenceAcknowledged = ''FENCE_ACKNOWLEDGED''"
| "reason_code_to_string R_FenceEffectVerified = ''FENCE_EFFECT_VERIFIED''"
| "reason_code_to_string R_FenceEffectUnverified = ''FENCE_EFFECT_UNVERIFIED''"
| "reason_code_to_string R_RestartFencedPriorAuthority = ''RESTART_FENCED_PRIOR_AUTHORITY''"
| "reason_code_to_string R_DependencyGenerationChanged = ''DEPENDENCY_GENERATION_CHANGED''"
| "reason_code_to_string R_RestorationEvidenceFresh = ''RESTORATION_EVIDENCE_FRESH''"
| "reason_code_to_string R_RestorationCorroborated = ''RESTORATION_CORROBORATED''"
| "reason_code_to_string R_RestorationRefusedNoEvidence = ''RESTORATION_REFUSED_NO_EVIDENCE''"
| "reason_code_to_string R_RestorationRefusedStale = ''RESTORATION_REFUSED_STALE''"
| "reason_code_to_string R_RestorationRefusedConflict = ''RESTORATION_REFUSED_CONFLICT''"
| "reason_code_to_string R_RestorationRefusedInsufficient = ''RESTORATION_REFUSED_INSUFFICIENT''"
| "reason_code_to_string R_LocalizationResolved = ''LOCALIZATION_RESOLVED''"
| "reason_code_to_string R_LocalizationAmbiguous = ''LOCALIZATION_AMBIGUOUS''"
| "reason_code_to_string R_LocalizationInfeasible = ''LOCALIZATION_INFEASIBLE''"
| "reason_code_to_string R_LocalizationSearchLimit = ''LOCALIZATION_SEARCH_LIMIT''"
| "reason_code_to_string R_LocalizationInvalid = ''LOCALIZATION_INVALID''"
| "reason_code_to_string R_BudgetExhausted = ''BUDGET_EXHAUSTED''"
| "reason_code_to_string R_UnsupportedInput = ''UNSUPPORTED_INPUT''"
| "reason_code_to_string R_InternalInvariantViolation = ''INTERNAL_INVARIANT_VIOLATION''"

interpretation reason_code_enum: wire_enum reason_code_code is_valid_reason_code reason_code_of_code
  unfolding reason_code_of_code_def
proof (rule wire_enumI)
  show "e \<in> set all_reason_code" for e by (cases e) (simp_all add: all_reason_code_def)
  show "distinct (map reason_code_code all_reason_code)" by (simp add: all_reason_code_def)
  show "is_valid_reason_code raw \<longleftrightarrow> raw \<in> set (map reason_code_code all_reason_code)" for raw
    by (simp add: is_valid_reason_code_def all_reason_code_def)
qed

lemma reason_code_to_string_inject: "reason_code_to_string a = reason_code_to_string b \<longleftrightarrow> a = b"
proof -
  have "distinct (map reason_code_to_string all_reason_code)"
    by (simp add: all_reason_code_def)
  moreover have "c \<in> set all_reason_code" for c by (cases c) (simp_all add: all_reason_code_def)
  ultimately show ?thesis by (auto simp: distinct_map dest: inj_onD)
qed

definition kLossTotalPpm :: u32 where "kLossTotalPpm = 1000000"

subsection \<open>Generations and sources (generation.hpp)\<close>

record generation_vector =
  gv_path :: u64
  gv_topology :: u64
  gv_link_state :: u64
  gv_epoch :: u64

definition gv_is_complete :: "generation_vector \<Rightarrow> bool" where
  "gv_is_complete v \<longleftrightarrow> gv_path v \<noteq> 0 \<and> gv_topology v \<noteq> 0 \<and> gv_link_state v \<noteq> 0 \<and> gv_epoch v \<noteq> 0"

datatype gen_mismatch =
    G_None | G_Path | G_Topology | G_LinkState | G_Epoch | G_Multiple

primrec gen_mismatch_code :: "gen_mismatch \<Rightarrow> u8" where
  "gen_mismatch_code G_None = 0"
| "gen_mismatch_code G_Path = 1"
| "gen_mismatch_code G_Topology = 2"
| "gen_mismatch_code G_LinkState = 3"
| "gen_mismatch_code G_Epoch = 4"
| "gen_mismatch_code G_Multiple = 5"

definition all_gen_mismatch :: "gen_mismatch list" where
  "all_gen_mismatch =
    [G_None, G_Path, G_Topology, G_LinkState, G_Epoch, G_Multiple]"

definition is_valid_gen_mismatch :: "u8 \<Rightarrow> bool" where
  "is_valid_gen_mismatch raw \<longleftrightarrow> raw \<le> 5"

definition gen_mismatch_of_code :: "u8 \<Rightarrow> gen_mismatch" where
  "gen_mismatch_of_code = enum_cast gen_mismatch_code all_gen_mismatch"

primrec gen_mismatch_to_string :: "gen_mismatch \<Rightarrow> string" where
  "gen_mismatch_to_string G_None = ''None''"
| "gen_mismatch_to_string G_Path = ''Path''"
| "gen_mismatch_to_string G_Topology = ''Topology''"
| "gen_mismatch_to_string G_LinkState = ''LinkState''"
| "gen_mismatch_to_string G_Epoch = ''Epoch''"
| "gen_mismatch_to_string G_Multiple = ''Multiple''"

interpretation gen_mismatch_enum: wire_enum gen_mismatch_code is_valid_gen_mismatch gen_mismatch_of_code
  unfolding gen_mismatch_of_code_def
proof (rule wire_enumI)
  show "e \<in> set all_gen_mismatch" for e by (cases e) (simp_all add: all_gen_mismatch_def)
  show "distinct (map gen_mismatch_code all_gen_mismatch)" by (simp add: all_gen_mismatch_def)
  show "is_valid_gen_mismatch raw \<longleftrightarrow> raw \<in> set (map gen_mismatch_code all_gen_mismatch)" for raw
    using word_range_set [of 5 0 raw]
    by (simp add: is_valid_gen_mismatch_def all_gen_mismatch_def upt_rec)
qed

definition classify_mismatch :: "generation_vector \<Rightarrow> generation_vector \<Rightarrow> gen_mismatch" where
  "classify_mismatch a b =
     (let n = of_bool (gv_path a \<noteq> gv_path b) + of_bool (gv_topology a \<noteq> gv_topology b)
            + of_bool (gv_link_state a \<noteq> gv_link_state b) + of_bool (gv_epoch a \<noteq> gv_epoch b) :: int
      in if n = 0 then G_None
         else if n > 1 then G_Multiple
         else if gv_path a \<noteq> gv_path b then G_Path
         else if gv_topology a \<noteq> gv_topology b then G_Topology
         else if gv_link_state a \<noteq> gv_link_state b then G_LinkState
         else G_Epoch)"

record source_ref =
  sr_source :: u64
  sr_boot :: u64
  sr_incarnation :: u64
  sr_epoch :: u64

definition sr_is_valid :: "source_ref \<Rightarrow> bool" where
  "sr_is_valid s \<longleftrightarrow> sr_source s \<noteq> 0 \<and> sr_boot s \<noteq> 0 \<and> sr_incarnation s \<noteq> 0"

definition encode_generation_vector :: "generation_vector \<Rightarrow> writer \<Rightarrow> writer" where
  "encode_generation_vector v =
     wseq [w_u64 (gv_path v), w_u64 (gv_topology v), w_u64 (gv_link_state v), w_u64 (gv_epoch v)]"

definition decode_generation_vector :: "generation_vector decoder" where
  "decode_generation_vector =
     dbind r_u64 (\<lambda>path. dbind r_u64 (\<lambda>topology. dbind r_u64 (\<lambda>link_state. dbind r_u64 (\<lambda>epoch.
     dret \<lparr>gv_path = path, gv_topology = topology, gv_link_state = link_state, gv_epoch = epoch\<rparr>))))"

definition encode_source_ref :: "source_ref \<Rightarrow> writer \<Rightarrow> writer" where
  "encode_source_ref v =
     wseq [w_u64 (sr_source v), w_u64 (sr_boot v), w_u64 (sr_incarnation v), w_u64 (sr_epoch v)]"

definition decode_source_ref :: "source_ref decoder" where
  "decode_source_ref =
     dbind r_u64 (\<lambda>source. dbind r_u64 (\<lambda>boot. dbind r_u64 (\<lambda>incarnation. dbind r_u64 (\<lambda>epoch.
     dret \<lparr>sr_source = source, sr_boot = boot, sr_incarnation = incarnation, sr_epoch = epoch\<rparr>))))"

subsection \<open>Scopes (scope.hpp)\<close>

datatype scope_kind =
    SK_Node | SK_Link | SK_Path | SK_Segment

primrec scope_kind_code :: "scope_kind \<Rightarrow> u16" where
  "scope_kind_code SK_Node = 1"
| "scope_kind_code SK_Link = 2"
| "scope_kind_code SK_Path = 3"
| "scope_kind_code SK_Segment = 4"

definition all_scope_kind :: "scope_kind list" where
  "all_scope_kind =
    [SK_Node, SK_Link, SK_Path, SK_Segment]"

definition is_valid_scope_kind :: "u16 \<Rightarrow> bool" where
  "is_valid_scope_kind raw \<longleftrightarrow> raw \<ge> 1 \<and> raw \<le> 4"

definition scope_kind_of_code :: "u16 \<Rightarrow> scope_kind" where
  "scope_kind_of_code = enum_cast scope_kind_code all_scope_kind"

primrec scope_kind_to_string :: "scope_kind \<Rightarrow> string" where
  "scope_kind_to_string SK_Node = ''Node''"
| "scope_kind_to_string SK_Link = ''Link''"
| "scope_kind_to_string SK_Path = ''Path''"
| "scope_kind_to_string SK_Segment = ''Segment''"

interpretation scope_kind_enum: wire_enum scope_kind_code is_valid_scope_kind scope_kind_of_code
  unfolding scope_kind_of_code_def
proof (rule wire_enumI)
  show "e \<in> set all_scope_kind" for e by (cases e) (simp_all add: all_scope_kind_def)
  show "distinct (map scope_kind_code all_scope_kind)" by (simp add: all_scope_kind_def)
  show "is_valid_scope_kind raw \<longleftrightarrow> raw \<in> set (map scope_kind_code all_scope_kind)" for raw
    using word_range_set [of 4 1 raw]
    by (simp add: is_valid_scope_kind_def all_scope_kind_def upt_rec)
qed

record scope =
  sc_kind :: scope_kind
  sc_path :: path_id
  sc_node :: node_id
  sc_link :: link_id
  sc_begin_hop :: u32
  sc_end_hop :: u32

definition sc_is_valid :: "scope \<Rightarrow> bool" where
  "sc_is_valid s =
     (case sc_kind s of
        SK_Path \<Rightarrow> sc_path s \<noteq> 0
      | SK_Node \<Rightarrow> sc_path s \<noteq> 0 \<and> sc_node s \<noteq> 0
      | SK_Link \<Rightarrow> sc_path s \<noteq> 0 \<and> sc_link s \<noteq> 0
      | SK_Segment \<Rightarrow> sc_path s \<noteq> 0 \<and> sc_end_hop s > sc_begin_hop s)"

definition scopes_overlap :: "scope \<Rightarrow> scope \<Rightarrow> bool" where
  "scopes_overlap a b =
     (if sc_path a \<noteq> sc_path b then False
      else if sc_kind a = SK_Path \<or> sc_kind b = SK_Path then True
      else if sc_kind a = SK_Node then sc_kind b = SK_Node \<and> sc_node a = sc_node b
      else if sc_kind a = SK_Link then sc_kind b = SK_Link \<and> sc_link a = sc_link b
      else if sc_kind a = SK_Segment \<and> sc_kind b = SK_Segment
        then sc_begin_hop a < sc_end_hop b \<and> sc_begin_hop b < sc_end_hop a
      else False)"

definition encode_scope :: "scope \<Rightarrow> writer \<Rightarrow> writer" where
  "encode_scope s =
     wseq [w_u16 (scope_kind_code (sc_kind s)), w_u64 (sc_path s), w_u64 (sc_node s), w_u64 (sc_link s),
       w_u32 (sc_begin_hop s), w_u32 (sc_end_hop s)]"

definition decode_scope :: "scope decoder" where
  "decode_scope =
     dbind (decode_enum is_valid_scope_kind scope_kind_of_code) (\<lambda>kind.
     dbind r_u64 (\<lambda>path. dbind r_u64 (\<lambda>node. dbind r_u64 (\<lambda>link.
     dbind r_u32 (\<lambda>begin_hop. dbind r_u32 (\<lambda>end_hop.
     dret \<lparr>sc_kind = kind, sc_path = path, sc_node = node, sc_link = link,
       sc_begin_hop = begin_hop, sc_end_hop = end_hop\<rparr>))))))"

subsection \<open>Orderings of keys\<close>

definition source_ref_key :: "'a source_ref_scheme \<Rightarrow> u64 \<times> u64 \<times> u64 \<times> u64 \<times> 'a" where
  "source_ref_key s = (sr_source s, sr_boot s, sr_incarnation s, sr_epoch s, source_ref.more s)"

lemma source_ref_key_inject: "source_ref_key a = source_ref_key b \<longleftrightarrow> a = b"
  by (cases a; cases b) (simp add: source_ref_key_def)

instantiation source_ref_ext :: (linorder) linorder
begin

definition less_eq_source_ref_ext :: "'a source_ref_scheme \<Rightarrow> 'a source_ref_scheme \<Rightarrow> bool" where
  "a \<le> b \<longleftrightarrow> source_ref_key a \<le> source_ref_key b"

definition less_source_ref_ext :: "'a source_ref_scheme \<Rightarrow> 'a source_ref_scheme \<Rightarrow> bool" where
  "a < b \<longleftrightarrow> source_ref_key a < source_ref_key b"

instance
  by standard (auto simp: less_eq_source_ref_ext_def less_source_ref_ext_def source_ref_key_inject
      dest: antisym)

end

definition scope_key :: "'a scope_scheme \<Rightarrow> u16 \<times> u64 \<times> u64 \<times> u64 \<times> u32 \<times> u32 \<times> 'a" where
  "scope_key s = (scope_kind_code (sc_kind s), sc_path s, sc_node s, sc_link s,
     sc_begin_hop s, sc_end_hop s, scope.more s)"

lemma scope_key_inject: "scope_key a = scope_key b \<longleftrightarrow> a = b"
  by (cases a; cases b) (simp add: scope_key_def scope_kind_enum.code_inject)

instantiation scope_ext :: (linorder) linorder
begin

definition less_eq_scope_ext :: "'a scope_scheme \<Rightarrow> 'a scope_scheme \<Rightarrow> bool" where
  "a \<le> b \<longleftrightarrow> scope_key a \<le> scope_key b"

definition less_scope_ext :: "'a scope_scheme \<Rightarrow> 'a scope_scheme \<Rightarrow> bool" where
  "a < b \<longleftrightarrow> scope_key a < scope_key b"

instance
  by standard (auto simp: less_eq_scope_ext_def less_scope_ext_def scope_key_inject dest: antisym)

end

subsection \<open>Delivery evidence (evidence.hpp, evidence.cpp)\<close>

text \<open>The first failing check of a validation function, as the text it reports.\<close>

fun first_defect :: "(bool \<times> string) list \<Rightarrow> string option" where
  "first_defect [] = None"
| "first_defect ((bad, why) # cs) = (if bad then Some why else first_defect cs)"

lemma first_defect_None: "first_defect cs = None \<longleftrightarrow> (\<forall>c \<in> set cs. \<not> fst c)"
  by (induction cs rule: first_defect.induct) auto

record delivery_evidence =
  ev_id :: u64
  ev_source :: source_ref
  ev_scope :: scope
  ev_gens :: generation_vector
  ev_seq :: u64
  ev_attempt :: u64
  ev_kind :: evidence_kind
  ev_quality :: evidence_quality
  ev_provenance :: provenance
  ev_attempts :: u64
  ev_failures :: u64
  ev_loss_ppm :: u32
  ev_rtt_us :: u32
  ev_observed_at :: i64
  ev_fresh :: freshness_window
  ev_external_owner :: u64

definition evidence_defect :: "delivery_evidence \<Rightarrow> string option" where
  "evidence_defect e = first_defect
     [(ev_id e = 0, ''evidence id must be non-zero''),
      (\<not> sr_is_valid (ev_source e), ''source reference incomplete''),
      (\<not> sc_is_valid (ev_scope e), ''scope invalid for its kind''),
      (\<not> gv_is_complete (ev_gens e), ''generation vector incomplete''),
      (ev_seq e = 0, ''sequence must be non-zero''),
      (\<not> is_valid_evidence_kind (evidence_kind_code (ev_kind e)), ''evidence kind''),
      (\<not> is_valid_quality (evidence_quality_code (ev_quality e)), ''quality''),
      (\<not> is_valid_provenance (provenance_code (ev_provenance e)), ''provenance''),
      (ev_loss_ppm e > kLossTotalPpm, ''loss_ppm out of range''),
      (ev_failures e > ev_attempts e, ''failures exceed attempts''),
      (ev_observed_at e = 0, ''observed_at is zero''),
      (is_degenerate (ev_fresh e), ''freshness window degenerate''),
      (sint (fw_close (ev_fresh e)) \<le> sint (ev_observed_at e),
        ''freshness window closes at or before observation''),
      ((ev_kind e = K_DeliverySuccess \<or> ev_kind e = K_DeliveryFailure) \<and> ev_attempts e = 0,
        ''delivery evidence must summarize at least one attempt''),
      (ev_kind e = K_LossMeasurement \<and> ev_attempts e = 0,
        ''loss measurement must summarize at least one sample''),
      ((ev_kind e = K_CongestionSignal \<or> ev_kind e = K_PartitionSignal) \<and> ev_external_owner e = 0,
        ''external owner reference required'')]"

definition structurally_valid :: "delivery_evidence \<Rightarrow> bool" where
  "structurally_valid e \<longleftrightarrow> evidence_defect e = None"

definition is_complete_delivery_failure :: "delivery_evidence \<Rightarrow> bool" where
  "is_complete_delivery_failure e \<longleftrightarrow>
     ev_failures e > 0 \<and> ev_failures e = ev_attempts e \<and> ev_loss_ppm e \<ge> kLossTotalPpm"

definition is_clean_delivery_success :: "delivery_evidence \<Rightarrow> bool" where
  "is_clean_delivery_success e \<longleftrightarrow>
     ev_kind e = K_DeliverySuccess \<and> ev_failures e = 0 \<and> ev_attempts e > 0 \<and> ev_loss_ppm e = 0"

definition ev_is_fresh_at :: "delivery_evidence \<Rightarrow> i64 \<Rightarrow> bool" where
  "ev_is_fresh_at e t = is_fresh_at (ev_fresh e) t"

definition encode_freshness_window :: "freshness_window \<Rightarrow> writer \<Rightarrow> writer" where
  "encode_freshness_window v = wseq [w_i64 (fw_open v), w_i64 (fw_close v)]"

definition decode_freshness_window :: "freshness_window decoder" where
  "decode_freshness_window =
     dbind r_i64 (\<lambda>open. dbind r_i64 (\<lambda>close. dret \<lparr>fw_open = open, fw_close = close\<rparr>))"

definition encode_evidence :: "delivery_evidence \<Rightarrow> writer \<Rightarrow> writer" where
  "encode_evidence e =
     wseq [w_u64 (ev_id e), encode_source_ref (ev_source e), encode_scope (ev_scope e),
       encode_generation_vector (ev_gens e), w_u64 (ev_seq e), w_u64 (ev_attempt e),
       w_u16 (evidence_kind_code (ev_kind e)), w_u8 (evidence_quality_code (ev_quality e)),
       w_u8 (provenance_code (ev_provenance e)), w_u64 (ev_attempts e), w_u64 (ev_failures e),
       w_u32 (ev_loss_ppm e), w_u32 (ev_rtt_us e), w_i64 (ev_observed_at e),
       encode_freshness_window (ev_fresh e), w_u64 (ev_external_owner e)]"

definition decode_evidence :: "delivery_evidence decoder" where
  "decode_evidence =
     dbind r_u64 (\<lambda>id. dbind decode_source_ref (\<lambda>source. dbind decode_scope (\<lambda>scope.
     dbind decode_generation_vector (\<lambda>gens. dbind r_u64 (\<lambda>seq. dbind r_u64 (\<lambda>attempt.
     dbind (decode_enum is_valid_evidence_kind evidence_kind_of_code) (\<lambda>kind.
     dbind (r_enum8 is_valid_quality evidence_quality_of_code) (\<lambda>quality.
     dbind (r_enum8 is_valid_provenance provenance_of_code) (\<lambda>prov.
     dbind r_u64 (\<lambda>attempts. dbind r_u64 (\<lambda>failures. dbind r_u32 (\<lambda>loss_ppm. dbind r_u32 (\<lambda>rtt_us.
     dbind r_i64 (\<lambda>observed_at. dbind decode_freshness_window (\<lambda>fresh. dbind r_u64 (\<lambda>external_owner.
     let out = \<lparr>ev_id = id, ev_source = source, ev_scope = scope, ev_gens = gens, ev_seq = seq,
       ev_attempt = attempt, ev_kind = kind, ev_quality = quality, ev_provenance = prov,
       ev_attempts = attempts, ev_failures = failures, ev_loss_ppm = loss_ppm, ev_rtt_us = rtt_us,
       ev_observed_at = observed_at, ev_fresh = fresh, ev_external_owner = external_owner\<rparr> in
     dbind (dguard (structurally_valid out) O_Invalid) (\<lambda>_. dret out)))))))))))))))))"

definition derive_evidence_id :: "delivery_evidence \<Rightarrow> u64" where
  "derive_evidence_id e =
     (let copy = e\<lparr>ev_id := 0\<rparr>; w = encode_evidence copy (writer_new 1024)
      in if \<not> wok w then 0 else fnv1a64 (wbuf w))"

subsection \<open>Policy (policy.hpp, policy.cpp)\<close>

record fence_policy =
  pol_version :: u64
  pol_generation :: u64
  pol_freshness :: i64
  pol_max_clock_skew :: i64
  pol_min_corroborating_sources :: u32
  pol_min_distinct_incarnations :: u32
  pol_min_attempts_per_source :: u32
  pol_min_total_attempts :: u64
  pol_require_exact_quality :: bool
  pol_require_full_generation_agreement :: bool
  pol_complete_failure_ppm :: u32
  pol_severe_loss_ppm :: u32
  pol_restore_min_sources :: u32
  pol_restore_min_incarnations :: u32
  pol_restore_min_successes :: u64
  pol_restore_consecutive_clean :: u32
  pol_fence_ttl :: i64
  pol_max_evidence_per_scope :: u32
  pol_max_tracked_scopes :: u32
  pol_max_sources_per_scope :: u32
  pol_max_fences :: u32
  pol_max_lineage_records :: u32
  pol_max_reasons_per_decision :: u32
  pol_max_journal_records :: u32
  pol_max_journal_bytes :: u64
  pol_max_localization_elements :: u32
  pol_max_localization_search_nodes :: u32
  pol_max_path_hops :: u32
  pol_max_localization_solutions :: u32
  pol_max_explanation_elements :: u32
  pol_max_sessions :: u32
  pol_max_inflight_per_session :: u32
  pol_max_frame_bytes :: u32
  pol_max_concurrent_connections :: u32
  pol_log_capacity :: u32

definition default_policy :: fence_policy where
  "default_policy = \<lparr>
     pol_version = 1,
     pol_generation = 1,
     pol_freshness = seconds 30,
     pol_max_clock_skew = seconds 2,
     pol_min_corroborating_sources = 2,
     pol_min_distinct_incarnations = 2,
     pol_min_attempts_per_source = 16,
     pol_min_total_attempts = 32,
     pol_require_exact_quality = True,
     pol_require_full_generation_agreement = True,
     pol_complete_failure_ppm = 1000000,
     pol_severe_loss_ppm = 500000,
     pol_restore_min_sources = 2,
     pol_restore_min_incarnations = 2,
     pol_restore_min_successes = 16,
     pol_restore_consecutive_clean = 2,
     pol_fence_ttl = seconds 60,
     pol_max_evidence_per_scope = 256,
     pol_max_tracked_scopes = 4096,
     pol_max_sources_per_scope = 64,
     pol_max_fences = 1024,
     pol_max_lineage_records = 4096,
     pol_max_reasons_per_decision = 16,
     pol_max_journal_records = 65536,
     pol_max_journal_bytes = 64 * 1024 * 1024,
     pol_max_localization_elements = 256,
     pol_max_localization_search_nodes = 200000,
     pol_max_path_hops = 64,
     pol_max_localization_solutions = 64,
     pol_max_explanation_elements = 32,
     pol_max_sessions = 64,
     pol_max_inflight_per_session = 1,
     pol_max_frame_bytes = 2 ^ 20,
     pol_max_concurrent_connections = 64,
     pol_log_capacity = 4096\<rparr>"

definition policy_defect :: "fence_policy \<Rightarrow> string option" where
  "policy_defect p = first_defect
     [(pol_version p = 0, ''policy version must be non-zero''),
      (\<not> sint (pol_freshness p) > 0, ''freshness must be positive''),
      (sint (pol_max_clock_skew p) < 0, ''max_clock_skew must be non-negative''),
      (pol_min_corroborating_sources p < 2, ''min_corroborating_sources must be >= 2''),
      (pol_min_distinct_incarnations p < 2, ''min_distinct_incarnations must be >= 2''),
      (pol_min_distinct_incarnations p > pol_min_corroborating_sources p,
        ''min_distinct_incarnations cannot exceed min_corroborating_sources''),
      (pol_min_attempts_per_source p = 0, ''min_attempts_per_source must be > 0''),
      (pol_min_total_attempts p < ucast (pol_min_attempts_per_source p),
        ''min_total_attempts must be >= min_attempts_per_source''),
      (pol_complete_failure_ppm p = 0 \<or> pol_complete_failure_ppm p > kLossTotalPpm,
        ''complete_failure_ppm out of range''),
      (pol_severe_loss_ppm p = 0 \<or> pol_severe_loss_ppm p \<ge> pol_complete_failure_ppm p,
        ''severe_loss_ppm must be > 0 and < complete_failure_ppm''),
      (pol_restore_min_sources p < 1, ''restore_min_sources must be >= 1''),
      (pol_restore_min_incarnations p < 1, ''restore_min_incarnations must be >= 1''),
      (pol_restore_min_successes p = 0, ''restore_min_successes must be > 0''),
      (pol_restore_consecutive_clean p = 0, ''restore_consecutive_clean must be > 0''),
      (\<not> sint (pol_fence_ttl p) > 0, ''fence_ttl must be positive''),
      (pol_max_evidence_per_scope p = 0, ''max_evidence_per_scope must be > 0''),
      (pol_max_tracked_scopes p = 0, ''max_tracked_scopes must be > 0''),
      (pol_max_sources_per_scope p = 0, ''max_sources_per_scope must be > 0''),
      (pol_max_fences p = 0, ''max_fences must be > 0''),
      (pol_max_lineage_records p = 0, ''max_lineage_records must be > 0''),
      (pol_max_reasons_per_decision p = 0, ''max_reasons_per_decision must be > 0''),
      (pol_max_journal_records p = 0, ''max_journal_records must be > 0''),
      (pol_max_journal_bytes p = 0, ''max_journal_bytes must be > 0''),
      (pol_max_localization_elements p = 0, ''max_localization_elements must be > 0''),
      (pol_max_localization_search_nodes p = 0, ''max_localization_search_nodes must be > 0''),
      (pol_max_path_hops p = 0, ''max_path_hops must be > 0''),
      (pol_max_path_hops p > pol_max_localization_elements p,
        ''max_path_hops cannot exceed max_localization_elements''),
      (pol_max_localization_solutions p = 0, ''max_localization_solutions must be > 0''),
      (pol_max_explanation_elements p = 0, ''max_explanation_elements must be > 0''),
      (pol_max_sessions p = 0, ''max_sessions must be > 0''),
      (pol_max_frame_bytes p < 64, ''max_frame_bytes must be >= 64''),
      (pol_max_concurrent_connections p = 0, ''max_concurrent_connections must be > 0''),
      (pol_log_capacity p = 0, ''log_capacity must be > 0''),
      (case checked_mul_i64 2 (pol_max_clock_skew p) of
         None \<Rightarrow> True | Some need \<Rightarrow> sint (pol_freshness p) \<le> sint need,
        ''freshness must exceed twice max_clock_skew'')]"

definition validate_policy :: "fence_policy \<Rightarrow> outcome" where
  "validate_policy p = (if policy_defect p = None then O_Ok else O_Invalid)"

definition encode_policy :: "fence_policy \<Rightarrow> writer \<Rightarrow> writer" where
  "encode_policy p =
     wseq [w_u64 (pol_version p), w_u64 (pol_generation p), w_i64 (pol_freshness p),
       w_i64 (pol_max_clock_skew p), w_u32 (pol_min_corroborating_sources p),
       w_u32 (pol_min_distinct_incarnations p), w_u32 (pol_min_attempts_per_source p),
       w_u64 (pol_min_total_attempts p), w_boolean (pol_require_exact_quality p),
       w_boolean (pol_require_full_generation_agreement p), w_u32 (pol_complete_failure_ppm p),
       w_u32 (pol_severe_loss_ppm p), w_u32 (pol_restore_min_sources p),
       w_u32 (pol_restore_min_incarnations p), w_u64 (pol_restore_min_successes p),
       w_u32 (pol_restore_consecutive_clean p), w_i64 (pol_fence_ttl p),
       w_u32 (pol_max_evidence_per_scope p), w_u32 (pol_max_tracked_scopes p),
       w_u32 (pol_max_sources_per_scope p), w_u32 (pol_max_fences p),
       w_u32 (pol_max_lineage_records p), w_u32 (pol_max_reasons_per_decision p),
       w_u32 (pol_max_journal_records p), w_u64 (pol_max_journal_bytes p),
       w_u32 (pol_max_localization_elements p), w_u32 (pol_max_localization_search_nodes p),
       w_u32 (pol_max_path_hops p), w_u32 (pol_max_localization_solutions p),
       w_u32 (pol_max_explanation_elements p), w_u32 (pol_max_sessions p),
       w_u32 (pol_max_inflight_per_session p), w_u32 (pol_max_frame_bytes p),
       w_u32 (pol_max_concurrent_connections p), w_u32 (pol_log_capacity p)]"

definition decode_policy :: "fence_policy decoder" where
  "decode_policy =
     dbind r_u64 (\<lambda>version. dbind r_u64 (\<lambda>generation.
     dbind r_i64 (\<lambda>freshness. dbind r_i64 (\<lambda>max_clock_skew.
     dbind r_u32 (\<lambda>min_corroborating_sources.
     dbind r_u32 (\<lambda>min_distinct_incarnations.
     dbind r_u32 (\<lambda>min_attempts_per_source. dbind r_u64 (\<lambda>min_total_attempts.
     dbind r_boolean (\<lambda>require_exact_quality.
     dbind r_boolean (\<lambda>require_full_generation_agreement.
     dbind r_u32 (\<lambda>complete_failure_ppm. dbind r_u32 (\<lambda>severe_loss_ppm.
     dbind r_u32 (\<lambda>restore_min_sources. dbind r_u32 (\<lambda>restore_min_incarnations.
     dbind r_u64 (\<lambda>restore_min_successes. dbind r_u32 (\<lambda>restore_consecutive_clean.
     dbind r_i64 (\<lambda>fence_ttl. dbind r_u32 (\<lambda>max_evidence_per_scope.
     dbind r_u32 (\<lambda>max_tracked_scopes. dbind r_u32 (\<lambda>max_sources_per_scope.
     dbind r_u32 (\<lambda>max_fences. dbind r_u32 (\<lambda>max_lineage_records.
     dbind r_u32 (\<lambda>max_reasons_per_decision. dbind r_u32 (\<lambda>max_journal_records.
     dbind r_u64 (\<lambda>max_journal_bytes. dbind r_u32 (\<lambda>max_localization_elements.
     dbind r_u32 (\<lambda>max_localization_search_nodes. dbind r_u32 (\<lambda>max_path_hops.
     dbind r_u32 (\<lambda>max_localization_solutions.
     dbind r_u32 (\<lambda>max_explanation_elements. dbind r_u32 (\<lambda>max_sessions.
     dbind r_u32 (\<lambda>max_inflight_per_session. dbind r_u32 (\<lambda>max_frame_bytes.
     dbind r_u32 (\<lambda>max_concurrent_connections. dbind r_u32 (\<lambda>log_capacity.
     let out = \<lparr>pol_version = version, pol_generation = generation,
       pol_freshness = freshness, pol_max_clock_skew = max_clock_skew,
       pol_min_corroborating_sources = min_corroborating_sources,
       pol_min_distinct_incarnations = min_distinct_incarnations,
       pol_min_attempts_per_source = min_attempts_per_source,
       pol_min_total_attempts = min_total_attempts,
       pol_require_exact_quality = require_exact_quality,
       pol_require_full_generation_agreement = require_full_generation_agreement,
       pol_complete_failure_ppm = complete_failure_ppm, pol_severe_loss_ppm = severe_loss_ppm,
       pol_restore_min_sources = restore_min_sources,
       pol_restore_min_incarnations = restore_min_incarnations,
       pol_restore_min_successes = restore_min_successes,
       pol_restore_consecutive_clean = restore_consecutive_clean, pol_fence_ttl = fence_ttl,
       pol_max_evidence_per_scope = max_evidence_per_scope,
       pol_max_tracked_scopes = max_tracked_scopes,
       pol_max_sources_per_scope = max_sources_per_scope, pol_max_fences = max_fences,
       pol_max_lineage_records = max_lineage_records,
       pol_max_reasons_per_decision = max_reasons_per_decision,
       pol_max_journal_records = max_journal_records, pol_max_journal_bytes = max_journal_bytes,
       pol_max_localization_elements = max_localization_elements,
       pol_max_localization_search_nodes = max_localization_search_nodes,
       pol_max_path_hops = max_path_hops,
       pol_max_localization_solutions = max_localization_solutions,
       pol_max_explanation_elements = max_explanation_elements, pol_max_sessions = max_sessions,
       pol_max_inflight_per_session = max_inflight_per_session,
       pol_max_frame_bytes = max_frame_bytes,
       pol_max_concurrent_connections = max_concurrent_connections,
       pol_log_capacity = log_capacity\<rparr> in
     dbind (dguard (is_affirmative (validate_policy out)) (validate_policy out)) (\<lambda>_. dret out))))))))))))))))))))))))))))))))))))"

definition policy_fingerprint :: "fence_policy \<Rightarrow> u64" where
  "policy_fingerprint p =
     (let w = encode_policy p (writer_new 4096) in if \<not> wok w then 0 else fnv1a64 (wbuf w))"

subsection \<open>Path structure (policy.hpp, policy.cpp)\<close>

record path_structure =
  ps_path :: path_id
  ps_nodes :: "node_id list"
  ps_links :: "link_id list"

definition hop_count :: "path_structure \<Rightarrow> u32" where
  "hop_count p = of_nat (length (ps_links p))"

definition ps_is_valid :: "path_structure \<Rightarrow> bool" where
  "ps_is_valid p \<longleftrightarrow> ps_path p \<noteq> 0 \<and> ps_nodes p \<noteq> [] \<and> length (ps_nodes p) = length (ps_links p) + 1"

definition encode_path_structure :: "u32 \<Rightarrow> path_structure \<Rightarrow> writer \<Rightarrow> writer" where
  "encode_path_structure max_hops p =
     (let n = length (ps_links p) in
      if n > unat max_hops then wseq [w_u64 (ps_path p), w_u32 0xFFFFFFFF]
      else wseq [w_u64 (ps_path p), w_u32 (of_nat n), wfor (ps_nodes p) w_u64, wfor (ps_links p) w_u64])"

definition decode_path_structure :: "u32 \<Rightarrow> path_structure decoder" where
  "decode_path_structure max_hops =
     dbind r_u64 (\<lambda>path. dbind r_u32 (\<lambda>hops.
     dbind (dguard (\<not> hops > max_hops) O_Oversized) (\<lambda>_.
     let node_count = unat hops + 1; needed = (node_count + unat hops) * 8 in
     dbind dremaining (\<lambda>remaining. dbind (dguard (\<not> remaining < needed) O_Malformed) (\<lambda>_.
     dbind (dreplicate node_count r_u64) (\<lambda>nodes. dbind (dreplicate (unat hops) r_u64) (\<lambda>links.
     let out = \<lparr>ps_path = path, ps_nodes = nodes, ps_links = links\<rparr> in
     dbind (dguard (ps_is_valid out) O_Invalid) (\<lambda>_. dret out))))))))"

subsection \<open>Wire formats and codecs\<close>

text \<open>
  The layout of each encoded record, and that its encoder writes it and its decoder reads it
  back. The layouts fix the lengths that the code's limits are compared with.
\<close>

definition wire_generation_vector :: "generation_vector \<Rightarrow> bytes" where
  "wire_generation_vector v = concat
    [le_bytes 8 (gv_path v), le_bytes 8 (gv_topology v), le_bytes 8 (gv_link_state v),
     le_bytes 8 (gv_epoch v)]"

definition wire_source_ref :: "source_ref \<Rightarrow> bytes" where
  "wire_source_ref v = concat
    [le_bytes 8 (sr_source v), le_bytes 8 (sr_boot v), le_bytes 8 (sr_incarnation v),
     le_bytes 8 (sr_epoch v)]"

definition wire_scope :: "scope \<Rightarrow> bytes" where
  "wire_scope s = concat
    [le_bytes 2 (scope_kind_code (sc_kind s)), le_bytes 8 (sc_path s), le_bytes 8 (sc_node s),
     le_bytes 8 (sc_link s), le_bytes 4 (sc_begin_hop s), le_bytes 4 (sc_end_hop s)]"

definition wire_freshness_window :: "freshness_window \<Rightarrow> bytes" where
  "wire_freshness_window v = concat [le_bytes 8 (fw_open v), le_bytes 8 (fw_close v)]"

definition wire_evidence :: "delivery_evidence \<Rightarrow> bytes" where
  "wire_evidence e = concat
    [le_bytes 8 (ev_id e), wire_source_ref (ev_source e), wire_scope (ev_scope e),
     wire_generation_vector (ev_gens e), le_bytes 8 (ev_seq e), le_bytes 8 (ev_attempt e),
     le_bytes 2 (evidence_kind_code (ev_kind e)), [evidence_quality_code (ev_quality e)],
     [provenance_code (ev_provenance e)], le_bytes 8 (ev_attempts e), le_bytes 8 (ev_failures e),
     le_bytes 4 (ev_loss_ppm e), le_bytes 4 (ev_rtt_us e), le_bytes 8 (ev_observed_at e),
     wire_freshness_window (ev_fresh e), le_bytes 8 (ev_external_owner e)]"

definition wire_policy :: "fence_policy \<Rightarrow> bytes" where
  "wire_policy p = concat
    [le_bytes 8 (pol_version p), le_bytes 8 (pol_generation p), le_bytes 8 (pol_freshness p),
     le_bytes 8 (pol_max_clock_skew p), le_bytes 4 (pol_min_corroborating_sources p),
     le_bytes 4 (pol_min_distinct_incarnations p), le_bytes 4 (pol_min_attempts_per_source p),
     le_bytes 8 (pol_min_total_attempts p), [if pol_require_exact_quality p then 1 else 0],
     [if pol_require_full_generation_agreement p then 1 else 0],
     le_bytes 4 (pol_complete_failure_ppm p), le_bytes 4 (pol_severe_loss_ppm p),
     le_bytes 4 (pol_restore_min_sources p), le_bytes 4 (pol_restore_min_incarnations p),
     le_bytes 8 (pol_restore_min_successes p), le_bytes 4 (pol_restore_consecutive_clean p),
     le_bytes 8 (pol_fence_ttl p), le_bytes 4 (pol_max_evidence_per_scope p),
     le_bytes 4 (pol_max_tracked_scopes p), le_bytes 4 (pol_max_sources_per_scope p),
     le_bytes 4 (pol_max_fences p), le_bytes 4 (pol_max_lineage_records p),
     le_bytes 4 (pol_max_reasons_per_decision p), le_bytes 4 (pol_max_journal_records p),
     le_bytes 8 (pol_max_journal_bytes p), le_bytes 4 (pol_max_localization_elements p),
     le_bytes 4 (pol_max_localization_search_nodes p), le_bytes 4 (pol_max_path_hops p),
     le_bytes 4 (pol_max_localization_solutions p),
     le_bytes 4 (pol_max_explanation_elements p), le_bytes 4 (pol_max_sessions p),
     le_bytes 4 (pol_max_inflight_per_session p), le_bytes 4 (pol_max_frame_bytes p),
     le_bytes 4 (pol_max_concurrent_connections p), le_bytes 4 (pol_log_capacity p)]"

definition wire_path_structure :: "path_structure \<Rightarrow> bytes" where
  "wire_path_structure p = concat
    [le_bytes 8 (ps_path p), le_bytes 4 (hop_count p), concat (map (le_bytes 8) (ps_nodes p)),
     concat (map (le_bytes 8) (ps_links p))]"

lemma length_wire [simp]:
  "length (wire_generation_vector v) = 32" "length (wire_source_ref s) = 32"
  "length (wire_scope c) = 34" "length (wire_freshness_window f) = 16"
  by (simp_all add: wire_generation_vector_def wire_source_ref_def wire_scope_def
      wire_freshness_window_def)

lemma length_wire_evidence [simp]: "length (wire_evidence e) = 182"
  by (simp add: wire_evidence_def)

lemma length_wire_policy [simp]: "length (wire_policy p) = 166"
  by (simp add: wire_policy_def)

lemma rt_eq: "rt f d x b \<Longrightarrow> b = b' \<Longrightarrow> rt f d x b'"
  by simp

lemmas domain_enums =
  classification_enum.wire_enum_axioms evidence_kind_enum.wire_enum_axioms
  evidence_quality_enum.wire_enum_axioms provenance_enum.wire_enum_axioms
  reason_code_enum.wire_enum_axioms gen_mismatch_enum.wire_enum_axioms
  scope_kind_enum.wire_enum_axioms outcome_enum.wire_enum_axioms

lemma rt_generation_vector [codec_intros]:
  "rt (encode_generation_vector v) decode_generation_vector v (wire_generation_vector v)"
  unfolding encode_generation_vector_def decode_generation_vector_def wire_generation_vector_def
  by (rule rt_eq) ((rule codec_intros | simp)+)

lemma rt_source_ref [codec_intros]:
  "rt (encode_source_ref v) decode_source_ref v (wire_source_ref v)"
  unfolding encode_source_ref_def decode_source_ref_def wire_source_ref_def
  by (rule rt_eq) ((rule codec_intros | simp)+)

lemma rt_scope [codec_intros]: "rt (encode_scope s) decode_scope s (wire_scope s)"
  unfolding encode_scope_def decode_scope_def wire_scope_def
  by (rule rt_eq) ((rule codec_intros domain_enums | simp)+)

lemma rt_freshness_window [codec_intros]:
  "rt (encode_freshness_window v) decode_freshness_window v (wire_freshness_window v)"
  unfolding encode_freshness_window_def decode_freshness_window_def wire_freshness_window_def
  by (rule rt_eq) ((rule codec_intros | simp)+)

text \<open>The record rebuilt from its own fields: the form in which a decoder returns it.\<close>

lemma evidence_eta:
  "\<lparr>ev_id = ev_id e, ev_source = ev_source e, ev_scope = ev_scope e, ev_gens = ev_gens e,
    ev_seq = ev_seq e, ev_attempt = ev_attempt e, ev_kind = ev_kind e, ev_quality = ev_quality e,
    ev_provenance = ev_provenance e, ev_attempts = ev_attempts e, ev_failures = ev_failures e,
    ev_loss_ppm = ev_loss_ppm e, ev_rtt_us = ev_rtt_us e, ev_observed_at = ev_observed_at e,
    ev_fresh = ev_fresh e, ev_external_owner = ev_external_owner e\<rparr> = e"
  by simp

lemma policy_eta:
  "\<lparr>pol_version = pol_version p, pol_generation = pol_generation p,
    pol_freshness = pol_freshness p, pol_max_clock_skew = pol_max_clock_skew p,
    pol_min_corroborating_sources = pol_min_corroborating_sources p,
    pol_min_distinct_incarnations = pol_min_distinct_incarnations p,
    pol_min_attempts_per_source = pol_min_attempts_per_source p,
    pol_min_total_attempts = pol_min_total_attempts p,
    pol_require_exact_quality = pol_require_exact_quality p,
    pol_require_full_generation_agreement = pol_require_full_generation_agreement p,
    pol_complete_failure_ppm = pol_complete_failure_ppm p,
    pol_severe_loss_ppm = pol_severe_loss_ppm p,
    pol_restore_min_sources = pol_restore_min_sources p,
    pol_restore_min_incarnations = pol_restore_min_incarnations p,
    pol_restore_min_successes = pol_restore_min_successes p,
    pol_restore_consecutive_clean = pol_restore_consecutive_clean p,
    pol_fence_ttl = pol_fence_ttl p, pol_max_evidence_per_scope = pol_max_evidence_per_scope p,
    pol_max_tracked_scopes = pol_max_tracked_scopes p,
    pol_max_sources_per_scope = pol_max_sources_per_scope p, pol_max_fences = pol_max_fences p,
    pol_max_lineage_records = pol_max_lineage_records p,
    pol_max_reasons_per_decision = pol_max_reasons_per_decision p,
    pol_max_journal_records = pol_max_journal_records p,
    pol_max_journal_bytes = pol_max_journal_bytes p,
    pol_max_localization_elements = pol_max_localization_elements p,
    pol_max_localization_search_nodes = pol_max_localization_search_nodes p,
    pol_max_path_hops = pol_max_path_hops p,
    pol_max_localization_solutions = pol_max_localization_solutions p,
    pol_max_explanation_elements = pol_max_explanation_elements p,
    pol_max_sessions = pol_max_sessions p,
    pol_max_inflight_per_session = pol_max_inflight_per_session p,
    pol_max_frame_bytes = pol_max_frame_bytes p,
    pol_max_concurrent_connections = pol_max_concurrent_connections p,
    pol_log_capacity = pol_log_capacity p\<rparr> = p"
  by simp

lemma path_eta: "\<lparr>ps_path = ps_path p, ps_nodes = ps_nodes p, ps_links = ps_links p\<rparr> = p"
  by simp

lemma rt_evidence [codec_intros]:
  "structurally_valid e \<Longrightarrow> rt (encode_evidence e) decode_evidence e (wire_evidence e)"
  unfolding encode_evidence_def decode_evidence_def wire_evidence_def Let_def
  by (rule rt_eq) ((rule codec_intros domain_enums | simp add: evidence_eta)+)

lemma validate_policy_ok: "is_affirmative (validate_policy p) \<longleftrightarrow> policy_defect p = None"
  by (simp add: is_affirmative_def validate_policy_def)

lemma rt_policy [codec_intros]:
  "validate_policy p = O_Ok \<Longrightarrow> rt (encode_policy p) decode_policy p (wire_policy p)"
  unfolding encode_policy_def decode_policy_def wire_policy_def Let_def
  by (rule rt_eq) ((rule codec_intros | simp add: is_affirmative_def policy_eta)+)

lemma length_le_concat [simp]: "length (concat (map (le_bytes n) xs)) = length xs * n"
  by (induction xs) simp_all

lemma rt_u64_vector [codec_intros]:
  "n = length xs \<Longrightarrow> rt (wfor xs w_u64) (dreplicate n r_u64) xs (concat (map (le_bytes 8) xs))"
  by (simp add: rt_vector rt_u64)

lemma rt_path_structure [codec_intros]:
  assumes "ps_is_valid p" and "length (ps_links p) \<le> unat max_hops"
  shows "rt (encode_path_structure max_hops p) (decode_path_structure max_hops) p (wire_path_structure p)"
proof -
  have n: "unat (hop_count p) = length (ps_links p)" "\<not> hop_count p > max_hops"
    using assms(2) le_less_trans [OF assms(2) unsigned_less [of max_hops]]
    by (simp_all add: hop_count_def unat_of_nat word_less_nat_alt)
  have e: "encode_path_structure max_hops p =
      wseq [w_u64 (ps_path p), w_u32 (hop_count p), wfor (ps_nodes p) w_u64, wfor (ps_links p) w_u64]"
    using assms(2) by (simp add: encode_path_structure_def hop_count_def Let_def)
  have "length (ps_nodes p) = Suc (length (ps_links p))" using assms(1) by (simp add: ps_is_valid_def)
  then show ?thesis
    unfolding e decode_path_structure_def wire_path_structure_def Let_def
    by - (rule rt_eq, rule rt_bind [OF rt_u64], rule rt_bind [OF rt_u32], rule rt_guard, use n in simp,
        rule rt_remaining [where b = "concat (map (le_bytes 8) (ps_nodes p)) @
          concat (map (le_bytes 8) (ps_links p)) @ []"],
        (rule rt_guard codec_intros | simp add: n assms path_eta)+)
qed

lemma dsafe_domain [decoder_safe]:
  "dsafe decode_generation_vector" "dsafe decode_source_ref" "dsafe decode_scope"
  "dsafe decode_freshness_window"
  unfolding decode_generation_vector_def decode_source_ref_def decode_scope_def
    decode_freshness_window_def
  by (intro decoder_safe; simp)+

lemma dsafe_evidence [decoder_safe]: "dsafe decode_evidence"
  unfolding decode_evidence_def Let_def by (intro decoder_safe; simp)

lemma dsafe_policy [decoder_safe]: "dsafe decode_policy"
proof -
  have "dsafe (dguard (is_affirmative (validate_policy p)) (validate_policy p))" for p
    by (simp add: dsafe_def dguard_def is_affirmative_def)
  then show ?thesis 
    unfolding decode_policy_def Let_def by (intro dsafe_dbind dsafe_ints dsafe_boolean dsafe_dret)
qed

lemma dsafe_path_structure [decoder_safe]: "dsafe (decode_path_structure max_hops)"
  unfolding decode_path_structure_def Let_def by (intro decoder_safe; simp)

interpretation scope_codec: codec encode_scope decode_scope "\<lambda>_. True"
  by unfold_locales (use rt_scope in blast, rule decoder_safe)

interpretation evidence_codec: codec encode_evidence decode_evidence structurally_valid
  by unfold_locales (use rt_evidence in blast, rule decoder_safe)

interpretation policy_codec: codec encode_policy decode_policy "\<lambda>p. validate_policy p = O_Ok"
  by unfold_locales (use rt_policy in blast, rule decoder_safe)

interpretation path_codec: codec "encode_path_structure max_hops" "decode_path_structure max_hops"
  "\<lambda>p. ps_is_valid p \<and> length (ps_links p) \<le> unat max_hops" for max_hops
  by unfold_locales (use rt_path_structure in blast, rule decoder_safe)

lemma default_policy_valid: "validate_policy default_policy = O_Ok"
  by (simp add: validate_policy_def policy_defect_def default_policy_def seconds_def kNsPerSecond_def
      kLossTotalPpm_def checked_mul_i64_exact)

subsection \<open>Facts about the domain\<close>

lemma classify_mismatch_None: "classify_mismatch a b = G_None \<longleftrightarrow> a = b"
  by (auto simp: classify_mismatch_def Let_def split: if_splits)

lemma scopes_overlap_sym: "scopes_overlap a b = scopes_overlap b a"
  by (cases "sc_kind a"; cases "sc_kind b") (auto simp: scopes_overlap_def)

lemma scopes_overlap_refl: "sc_is_valid s \<Longrightarrow> scopes_overlap s s"
  by (cases "sc_kind s") (auto simp: scopes_overlap_def sc_is_valid_def)

lemma structurally_valid_iff:
  "structurally_valid e \<longleftrightarrow>
     ev_id e \<noteq> 0 \<and> sr_is_valid (ev_source e) \<and> sc_is_valid (ev_scope e) \<and> gv_is_complete (ev_gens e) \<and>
     ev_seq e \<noteq> 0 \<and> ev_loss_ppm e \<le> kLossTotalPpm \<and> ev_failures e \<le> ev_attempts e \<and>
     ev_observed_at e \<noteq> 0 \<and> sint (fw_open (ev_fresh e)) < sint (fw_close (ev_fresh e)) \<and>
     sint (ev_observed_at e) < sint (fw_close (ev_fresh e)) \<and>
     (ev_kind e \<in> {K_DeliverySuccess, K_DeliveryFailure, K_LossMeasurement} \<longrightarrow> ev_attempts e \<noteq> 0) \<and>
     (ev_kind e \<in> {K_CongestionSignal, K_PartitionSignal} \<longrightarrow> ev_external_owner e \<noteq> 0)"
  by (cases "ev_kind e")
    (auto simp: structurally_valid_def evidence_defect_def first_defect_None is_degenerate_def
      is_valid_evidence_kind_def)

text \<open>A derived identifier does not depend on the identifier field, and never fails for size.\<close>

lemma derive_evidence_id_eq: "derive_evidence_id e = fnv1a64 (wire_evidence (e\<lparr>ev_id := 0\<rparr>))"
proof -
  have "emits (encode_evidence x) (wire_evidence x)" for x
    unfolding encode_evidence_def wire_evidence_def
    using rt_source_ref rt_scope rt_generation_vector rt_freshness_window rt_u64 rt_i64 rt_u32 rt_u16 rt_u8
    unfolding rt_def concat.simps by (intro emits_Cons emits_nil) blast+
  from emits_fresh [OF this, of 1024] show ?thesis
    by (simp add: derive_evidence_id_def Let_def)
qed

subsection \<open>A sample observation\<close>

text \<open>A complete delivery failure on path 1, used by the witnesses of the development.\<close>

definition sample_scope :: scope where
  "sample_scope = \<lparr>sc_kind = SK_Path, sc_path = 1, sc_node = 0, sc_link = 0, sc_begin_hop = 0, sc_end_hop = 0\<rparr>"

definition sample_gens :: generation_vector where
  "sample_gens = \<lparr>gv_path = 1, gv_topology = 1, gv_link_state = 1, gv_epoch = 1\<rparr>"

definition sample_source :: source_ref where
  "sample_source = \<lparr>sr_source = 1, sr_boot = 1, sr_incarnation = 1, sr_epoch = 1\<rparr>"

definition sample_evidence :: delivery_evidence where
  "sample_evidence = \<lparr>ev_id = 1, ev_source = sample_source, ev_scope = sample_scope,
     ev_gens = sample_gens, ev_seq = 1, ev_attempt = 1, ev_kind = K_DeliveryFailure,
     ev_quality = Q_Exact, ev_provenance = P_Synthetic, ev_attempts = 32, ev_failures = 32,
     ev_loss_ppm = 1000000, ev_rtt_us = 0, ev_observed_at = 1,
     ev_fresh = \<lparr>fw_open = 1, fw_close = 1000\<rparr>, ev_external_owner = 0\<rparr>"

end
