(* ===== verification/BHG_Ledger.thy ===== *)
theory BHG_Ledger
  imports BHG_Domain
begin

text \<open>
  The evidence ledger (\<open>ledger.hpp\<close>, \<open>ledger.cpp\<close>): live observations per scope, with one
  sequencing cursor per source instance. \<open>admit\<close> is the whole of \<open>EvidenceLedger::admit\<close>, split
  where the code looks up the scope (\<open>admit_scope\<close>), the cursor (\<open>admit_cursor\<close>) and stores the
  observation (\<open>admit_store\<close>).

  The bound \<open>now + max_clock_skew\<close> is computed in 64 bits; where C++ leaves the overflow of the
  signed sum undefined the model wraps around.
\<close>

subsection \<open>Admission results\<close>

datatype admission =
    A_Accepted | A_DuplicateAttempt | A_Replayed | A_Regressed | A_RolloverAccepted
  | A_StructurallyInvalid | A_OutOfFreshnessWindow | A_ClockSkewExceeded
  | A_CapacityExhausted

primrec admission_code :: "admission \<Rightarrow> u8" where
  "admission_code A_Accepted = 0"
| "admission_code A_DuplicateAttempt = 1"
| "admission_code A_Replayed = 2"
| "admission_code A_Regressed = 3"
| "admission_code A_RolloverAccepted = 4"
| "admission_code A_StructurallyInvalid = 5"
| "admission_code A_OutOfFreshnessWindow = 6"
| "admission_code A_ClockSkewExceeded = 7"
| "admission_code A_CapacityExhausted = 8"

definition all_admission :: "admission list" where
  "all_admission =
    [A_Accepted, A_DuplicateAttempt, A_Replayed, A_Regressed, A_RolloverAccepted,
     A_StructurallyInvalid, A_OutOfFreshnessWindow, A_ClockSkewExceeded,
     A_CapacityExhausted]"

definition is_valid_admission :: "u8 \<Rightarrow> bool" where
  "is_valid_admission raw \<longleftrightarrow> raw \<le> 8"

definition admission_of_code :: "u8 \<Rightarrow> admission" where
  "admission_of_code = enum_cast admission_code all_admission"

primrec admission_to_string :: "admission \<Rightarrow> string" where
  "admission_to_string A_Accepted = ''Accepted''"
| "admission_to_string A_DuplicateAttempt = ''DuplicateAttempt''"
| "admission_to_string A_Replayed = ''Replayed''"
| "admission_to_string A_Regressed = ''Regressed''"
| "admission_to_string A_RolloverAccepted = ''RolloverAccepted''"
| "admission_to_string A_StructurallyInvalid = ''StructurallyInvalid''"
| "admission_to_string A_OutOfFreshnessWindow = ''OutOfFreshnessWindow''"
| "admission_to_string A_ClockSkewExceeded = ''ClockSkewExceeded''"
| "admission_to_string A_CapacityExhausted = ''CapacityExhausted''"

interpretation admission_enum: wire_enum admission_code is_valid_admission admission_of_code
  unfolding admission_of_code_def
proof (rule wire_enumI)
  show "e \<in> set all_admission" for e by (cases e) (simp_all add: all_admission_def)
  show "distinct (map admission_code all_admission)" by (simp add: all_admission_def)
  show "is_valid_admission raw \<longleftrightarrow> raw \<in> set (map admission_code all_admission)" for raw
    using word_range_set [of 8 0 raw]
    by (simp add: is_valid_admission_def all_admission_def upt_rec)
qed

definition kSequenceHalfSpace :: u64 where "kSequenceHalfSpace = 2 ^ 63"
definition kMaxRolloversPerSource :: u32 where "kMaxRolloversPerSource = 4"

definition is_admitted :: "admission \<Rightarrow> bool" where
  "is_admitted a \<longleftrightarrow> a = A_Accepted \<or> a = A_RolloverAccepted"

subsection \<open>State\<close>

record source_cursor =
  cu_source :: source_ref
  cu_last_seq :: u64
  cu_last_attempt :: u64
  cu_rollovers :: u32
  cu_last_observed :: i64
  cu_observed :: u64
  cu_accepted :: u64
  cu_rejected :: u64
  cu_duplicates :: u64
  cu_regressed :: u64

definition cursor_new :: "source_ref \<Rightarrow> source_cursor" where
  "cursor_new s = \<lparr>cu_source = s, cu_last_seq = 0, cu_last_attempt = 0, cu_rollovers = 0,
     cu_last_observed = 0, cu_observed = 0, cu_accepted = 0, cu_rejected = 0, cu_duplicates = 0,
     cu_regressed = 0\<rparr>"

definition cursor_accounting_closed :: "source_cursor \<Rightarrow> bool" where
  "cursor_accounting_closed c \<longleftrightarrow> cu_observed c = cu_accepted c + cu_rejected c"

record scope_state =
  ss_items :: "delivery_evidence list"
  ss_cursors :: "(source_ref, source_cursor) omap"
  ss_evictions :: u64

definition scope_state_new :: scope_state where
  "scope_state_new = \<lparr>ss_items = [], ss_cursors = [], ss_evictions = 0\<rparr>"

record ledger =
  lg_policy :: fence_policy
  lg_scopes :: "(scope, scope_state) omap"
  lg_retained :: u64
  lg_seen :: u64
  lg_dropped :: u64
  lg_admitted :: u64
  lg_rejected :: u64

definition ledger_new :: "fence_policy \<Rightarrow> ledger" where
  "ledger_new policy = \<lparr>lg_policy = policy, lg_scopes = [], lg_retained = 0, lg_seen = 0,
     lg_dropped = 0, lg_admitted = 0, lg_rejected = 0\<rparr>"

definition ledger_reset :: "ledger \<Rightarrow> ledger" where
  "ledger_reset l = l\<lparr>lg_scopes := [], lg_retained := 0, lg_seen := 0, lg_dropped := 0,
     lg_admitted := 0, lg_rejected := 0\<rparr>"

definition ledger_accounting_closed :: "ledger \<Rightarrow> bool" where
  "ledger_accounting_closed l \<longleftrightarrow>
     lg_seen l = lg_admitted l + lg_rejected l \<and> lg_admitted l = lg_retained l + lg_dropped l"

subsection \<open>Admission\<close>

type_synonym admission_result = "(admission \<times> reason_code) \<times> ledger"

definition ledger_reject :: "admission \<Rightarrow> reason_code \<Rightarrow> ledger \<Rightarrow> admission_result" where
  "ledger_reject a reason l = ((a, reason), l\<lparr>lg_rejected := lg_rejected l + 1\<rparr>)"

text \<open>Bounded retention: the index of the oldest observation, ties broken by sequence.\<close>

definition older :: "delivery_evidence \<Rightarrow> delivery_evidence \<Rightarrow> bool" where
  "older a b \<longleftrightarrow> sint (ev_observed_at a) < sint (ev_observed_at b) \<or>
     (ev_observed_at a = ev_observed_at b \<and> ev_seq a < ev_seq b)"

definition oldest_index :: "delivery_evidence list \<Rightarrow> nat" where
  "oldest_index items =
     fold (\<lambda>i victim. if older (items ! i) (items ! victim) then i else victim) [1..<length items] 0"

definition erase_at :: "nat \<Rightarrow> 'a list \<Rightarrow> 'a list" where
  "erase_at i xs = take i xs @ drop (Suc i) xs"

text \<open>The end of \<open>admit\<close>: make room, store, advance the cursor.\<close>

definition admit_store ::
  "delivery_evidence \<Rightarrow> scope_state \<Rightarrow> source_cursor \<Rightarrow> admission \<times> reason_code \<Rightarrow> ledger
   \<Rightarrow> admission_result" where
  "admit_store e st cursor res l =
     (let (st, l) =
        (if length (ss_items st) \<ge> unat (pol_max_evidence_per_scope (lg_policy l)) then
           (st\<lparr>ss_items := erase_at (oldest_index (ss_items st)) (ss_items st),
               ss_evictions := ss_evictions st + 1\<rparr>,
            l\<lparr>lg_retained := lg_retained l - 1, lg_dropped := lg_dropped l + 1\<rparr>)
         else (st, l));
        st = st\<lparr>ss_items := ss_items st @ [e]\<rparr>;
        l = l\<lparr>lg_retained := lg_retained l + 1, lg_admitted := lg_admitted l + 1\<rparr>;
        cursor = cursor\<lparr>cu_last_seq := ev_seq e,
          cu_last_attempt := (if ev_attempt e \<noteq> 0 then ev_attempt e else cu_last_attempt cursor),
          cu_last_observed := ev_observed_at e, cu_accepted := cu_accepted cursor + 1\<rparr>;
        st = st\<lparr>ss_cursors := omap_put (ss_cursors st) (ev_source e) cursor\<rparr>
      in (res, l\<lparr>lg_scopes := omap_put (lg_scopes l) (ev_scope e) st\<rparr>))"

text \<open>The sequencing decision on the source's cursor.\<close>

definition admit_cursor ::
  "delivery_evidence \<Rightarrow> scope_state \<Rightarrow> source_cursor \<Rightarrow> ledger \<Rightarrow> admission_result" where
  "admit_cursor e st cursor l =
     (let cursor = cursor\<lparr>cu_observed := cu_observed cursor + 1\<rparr>;
          refuse = (\<lambda>a reason c.
            let st = st\<lparr>ss_cursors := omap_put (ss_cursors st) (ev_source e)
                  (c\<lparr>cu_rejected := cu_rejected c + 1\<rparr>)\<rparr>
            in ledger_reject a reason (l\<lparr>lg_scopes := omap_put (lg_scopes l) (ev_scope e) st\<rparr>))
      in if cu_accepted cursor > 0 then
           if ev_seq e = cu_last_seq cursor \<or>
              (ev_attempt e \<noteq> 0 \<and> ev_attempt e = cu_last_attempt cursor)
           then refuse A_DuplicateAttempt R_DuplicateEvidence
             (cursor\<lparr>cu_duplicates := cu_duplicates cursor + 1\<rparr>)
           else if ev_seq e < cu_last_seq cursor then
             (let looks_like_wrap = cu_last_seq cursor \<ge> kSequenceHalfSpace \<and>
                    ev_seq e < kSequenceHalfSpace
              in if looks_like_wrap \<and> cu_rollovers cursor < kMaxRolloversPerSource
                 then admit_store e st (cursor\<lparr>cu_rollovers := cu_rollovers cursor + 1\<rparr>)
                   (A_RolloverAccepted, R_SequenceRollover) l
                 else refuse A_Regressed R_RegressedSequence
                   (cursor\<lparr>cu_regressed := cu_regressed cursor + 1\<rparr>))
           else admit_store e st cursor (A_Accepted, R_None) l
         else admit_store e st cursor (A_Accepted, R_None) l)"

definition admit_scope :: "delivery_evidence \<Rightarrow> scope_state \<Rightarrow> ledger \<Rightarrow> admission_result" where
  "admit_scope e st l =
     (case omap_find (ss_cursors st) (ev_source e) of
        None \<Rightarrow>
          if length (ss_cursors st) \<ge> unat (pol_max_sources_per_scope (lg_policy l))
          then ledger_reject A_CapacityExhausted R_BudgetExhausted l
          else admit_cursor e st (cursor_new (ev_source e)) l
      | Some cursor \<Rightarrow> admit_cursor e st cursor l)"

definition admit :: "delivery_evidence \<Rightarrow> i64 \<Rightarrow> ledger \<Rightarrow> admission_result" where
  "admit e now l0 =
     (let l = l0\<lparr>lg_seen := lg_seen l0 + 1\<rparr>; policy = lg_policy l in
      if \<not> structurally_valid e then ledger_reject A_StructurallyInvalid R_InvalidEvidenceRejected l
      else if sint (ev_observed_at e) > sint (now + pol_max_clock_skew policy)
        then ledger_reject A_ClockSkewExceeded R_ClockSkewExceeded l
      else if \<not> is_fresh_at (ev_fresh e) now
        then ledger_reject A_OutOfFreshnessWindow R_FreshnessWindowExpired l
      else case omap_find (lg_scopes l) (ev_scope e) of
          None \<Rightarrow>
            if length (lg_scopes l) \<ge> unat (pol_max_tracked_scopes policy)
            then ledger_reject A_CapacityExhausted R_BudgetExhausted l
            else admit_scope e scope_state_new
              (l\<lparr>lg_scopes := omap_put (lg_scopes l) (ev_scope e) scope_state_new\<rparr>)
        | Some st \<Rightarrow> admit_scope e st l)"

text \<open>
  \<open>evidence_for\<close>: the retained observations in the order of the comparator. \<open>std::sort\<close> leaves
  the order of equal keys open; the model takes the stable one, and \<open>classify\<close>, the only
  consumer, is shown below not to depend on the order at all.
\<close>

definition evidence_order :: "delivery_evidence \<Rightarrow> int \<times> source_ref \<times> u64" where
  "evidence_order e = (sint (ev_observed_at e), ev_source e, ev_seq e)"

definition evidence_for :: "ledger \<Rightarrow> scope \<Rightarrow> delivery_evidence list" where
  "evidence_for l scope =
     (case omap_find (lg_scopes l) scope of
        None \<Rightarrow> []
      | Some st \<Rightarrow> sort_key evidence_order (ss_items st))"

subsection \<open>The invariant\<close>

definition scope_inv :: "fence_policy \<Rightarrow> scope \<Rightarrow> scope_state \<Rightarrow> bool" where
  "scope_inv policy s st \<longleftrightarrow>
     omap_inv (ss_cursors st) \<and>
     length (ss_cursors st) \<le> unat (pol_max_sources_per_scope policy) \<and>
     length (ss_items st) \<le> unat (pol_max_evidence_per_scope policy) \<and>
     (\<forall>e \<in> set (ss_items st). structurally_valid e \<and> ev_scope e = s \<and>
        ev_source e \<in> fst ` set (ss_cursors st)) \<and>
     (\<forall>k c. omap_find (ss_cursors st) k = Some c \<longrightarrow> cu_source c = k \<and> cursor_accounting_closed c)"

definition retained_items :: "ledger \<Rightarrow> nat" where
  "retained_items l = sum_mset (image_mset (\<lambda>st. length (ss_items st)) (omap_vals (lg_scopes l)))"

text \<open>The structure of a ledger: bounds, ordering, and what is retained per scope.\<close>

definition ledger_wf :: "ledger \<Rightarrow> bool" where
  "ledger_wf l \<longleftrightarrow>
     omap_inv (lg_scopes l) \<and>
     0 < unat (pol_max_evidence_per_scope (lg_policy l)) \<and>
     length (lg_scopes l) \<le> unat (pol_max_tracked_scopes (lg_policy l)) \<and>
     (\<forall>s st. omap_find (lg_scopes l) s = Some st \<longrightarrow> scope_inv (lg_policy l) s st) \<and>
     lg_retained l = of_nat (retained_items l)"

lemma ledger_wf_seen [simp]:
  "ledger_wf (l\<lparr>lg_seen := n\<rparr>) = ledger_wf l"
  "ledger_wf (l\<lparr>lg_seen := n, lg_scopes := m\<rparr>) = ledger_wf (l\<lparr>lg_scopes := m\<rparr>)"
  by (simp_all add: ledger_wf_def retained_items_def)

definition ledger_inv :: "ledger \<Rightarrow> bool" where
  "ledger_inv l \<longleftrightarrow> ledger_wf l \<and> ledger_accounting_closed l"

lemma oldest_index_less: "items \<noteq> [] \<Longrightarrow> oldest_index items < length items"
proof -
  assume ne: "items \<noteq> []"
  have "fold (\<lambda>i victim. if older (items ! i) (items ! victim) then i else victim) is v < length items"
    if "\<forall>i \<in> set is. i < length items" "v < length items" for "is" v
    using that by (induction "is" arbitrary: v) auto
  then show ?thesis unfolding oldest_index_def using ne by simp
qed

text \<open>The victim is minimal: nothing retained is older.\<close>

lemma older_iff:
  "older a b \<longleftrightarrow> (sint (ev_observed_at a), ev_seq a) < (sint (ev_observed_at b), ev_seq b)"
proof -
  have "ev_observed_at a = ev_observed_at b \<longleftrightarrow> sint (ev_observed_at a) = sint (ev_observed_at b)"
    using signed_word_eqI by auto
  then show ?thesis by (auto simp: older_def less_prod_simp)
qed

lemma oldest_index_minimal:
  assumes "j < length items"
  shows "\<not> older (items ! j) (items ! oldest_index items)"
proof -
  let ?f = "\<lambda>i victim. if older (items ! i) (items ! victim) then i else victim"
  have "\<forall>j < n. \<not> older (items ! j) (items ! fold ?f [1..<n] 0)" if "0 < n" for n
    using that
  proof (induction n)
    case (Suc n)
    show ?case
    proof (cases "n = 0")
      case True
      then show ?thesis by (simp add: older_iff)
    next
      case False
      let ?v = "fold ?f [1..<n] 0"
      have IH: "\<not> older (items ! j) (items ! ?v)" if "j < n" for j using Suc False that by simp
      have v: "fold ?f [1..<Suc n] 0 = ?f n ?v" using False by simp
      show ?thesis unfolding v
      proof (intro allI impI)
        fix j
        assume "j < Suc n"
        then consider "j < n" | "j = n" by linarith
        then show "\<not> older (items ! j) (items ! ?f n ?v)"
          by cases (use IH [of j] in \<open>auto simp: older_iff simp del: less_prod_simp intro: less_trans\<close>)
      qed
    qed
  qed simp
  moreover have "0 < length items" using assms by linarith
  ultimately show ?thesis using assms unfolding oldest_index_def by blast
qed

lemma erase_at_props:
  assumes "i < length xs"
  shows "length (erase_at i xs) = length xs - 1" and "set (erase_at i xs) \<subseteq> set xs"
  using assms by (auto simp: erase_at_def dest: in_set_takeD in_set_dropD)

lemma retained_put:
  assumes "omap_inv (lg_scopes l)" and "omap_find (lg_scopes l) s = Some st"
  shows "sum_mset (image_mset (\<lambda>st. length (ss_items st)) (omap_vals (omap_put (lg_scopes l) s st')))
      + length (ss_items st) = retained_items l + length (ss_items st')"
proof -
  have "add_mset st (omap_vals (omap_put (lg_scopes l) s st')) = add_mset st' (omap_vals (lg_scopes l))"
    using assms by (rule omap_vals_put_old)
  from arg_cong [OF this, of "\<lambda>M. sum_mset (image_mset (\<lambda>st. length (ss_items st)) M)"]
  show ?thesis by (simp add: retained_items_def add.commute)
qed

lemma retained_put_new:
  "omap_find (lg_scopes l) s = None \<Longrightarrow> ss_items st = [] \<Longrightarrow>
    sum_mset (image_mset (\<lambda>st. length (ss_items st)) (omap_vals (omap_put (lg_scopes l) s st))) =
    retained_items l"
  by (simp add: omap_vals_put_new retained_items_def)

text \<open>Replacing the state of a tracked scope keeps the structure when the new state is good.\<close>

lemma ledger_wf_put:
  assumes "ledger_wf l" and "omap_find (lg_scopes l) s = Some st" and "scope_inv (lg_policy l) s st'"
    and "lg_scopes l' = omap_put (lg_scopes l) s st'" and "lg_policy l' = lg_policy l"
    and "lg_retained l' + of_nat (length (ss_items st)) = lg_retained l + of_nat (length (ss_items st'))"
  shows "ledger_wf l'"
proof -
  have "retained_items l' + length (ss_items st) = retained_items l + length (ss_items st')"
    using assms(1,2) retained_put [of l s st st'] assms(4)
    by (simp add: ledger_wf_def retained_items_def)
  then have "of_nat (retained_items l' + length (ss_items st)) =
      (of_nat (retained_items l + length (ss_items st')) :: u64)" by (rule arg_cong)
  then have "lg_retained l' + of_nat (length (ss_items st)) =
      of_nat (retained_items l') + of_nat (length (ss_items st))"
    using assms(1,6) by (simp add: ledger_wf_def)
  then have "lg_retained l' = of_nat (retained_items l')" by (rule add_right_imp_eq)
  with assms show ?thesis
    by (auto simp: ledger_wf_def length_omap_put_old split: if_splits)
qed

lemma scope_inv_new: "scope_inv policy s scope_state_new"
  by (simp add: scope_inv_def scope_state_new_def omap_find_def)

lemma ledger_wf_new_scope:
  assumes "ledger_wf l" and "omap_find (lg_scopes l) s = None"
    and "length (lg_scopes l) < unat (pol_max_tracked_scopes (lg_policy l))"
  shows "ledger_wf (l\<lparr>lg_scopes := omap_put (lg_scopes l) s scope_state_new\<rparr>)"
proof -
  have "retained_items (l\<lparr>lg_scopes := omap_put (lg_scopes l) s scope_state_new\<rparr>) = retained_items l"
    using retained_put_new [OF assms(2), of scope_state_new]
    by (simp add: retained_items_def scope_state_new_def)
  with assms show ?thesis
    by (auto simp: ledger_wf_def length_omap_put_new scope_inv_new split: if_splits)
qed

text \<open>Writing back a cursor, and storing an observation, keep a scope good.\<close>

lemma scope_inv_cursor:
  assumes "scope_inv policy s st" and "cu_source c = k" and "cursor_accounting_closed c"
    and "omap_find (ss_cursors st) k \<noteq> None \<or>
      length (ss_cursors st) < unat (pol_max_sources_per_scope policy)"
  shows "scope_inv policy s (st\<lparr>ss_cursors := omap_put (ss_cursors st) k c\<rparr>)"
proof -
  have "length (omap_put (ss_cursors st) k c) \<le> unat (pol_max_sources_per_scope policy)"
    using assms by (cases "omap_find (ss_cursors st) k")
      (auto simp: scope_inv_def length_omap_put_new length_omap_put_old)
  with assms show ?thesis by (auto simp: scope_inv_def)
qed

lemma scope_inv_items:
  assumes "scope_inv policy s st" and "length xs \<le> unat (pol_max_evidence_per_scope policy)"
    and "\<forall>x \<in> set xs. x \<in> set (ss_items st) \<or>
      (structurally_valid x \<and> ev_scope x = s \<and> ev_source x \<in> fst ` set (ss_cursors st))"
  shows "scope_inv policy s (st\<lparr>ss_items := xs, ss_evictions := n\<rparr>)"
  using assms by (auto simp: scope_inv_def)

subsection \<open>Every admission keeps the invariant\<close>

text \<open>A cursor between the increments of \<open>observed\<close> and of \<open>accepted\<close> or \<open>rejected\<close>.\<close>

definition cursor_pending :: "source_cursor \<Rightarrow> bool" where
  "cursor_pending c \<longleftrightarrow> cu_observed c = cu_accepted c + cu_rejected c + 1"

definition ledger_pending :: "ledger \<Rightarrow> bool" where
  "ledger_pending l \<longleftrightarrow> ledger_wf l \<and> lg_seen l = lg_admitted l + lg_rejected l + 1 \<and>
     lg_admitted l = lg_retained l + lg_dropped l"

text \<open>Where \<open>e\<close> is to be stored: its scope's state and the cursor the code holds a reference to.\<close>

definition cursor_slot :: "delivery_evidence \<Rightarrow> scope_state \<Rightarrow> ledger \<Rightarrow> bool" where
  "cursor_slot e st l \<longleftrightarrow> omap_find (lg_scopes l) (ev_scope e) = Some st \<and>
     (omap_find (ss_cursors st) (ev_source e) \<noteq> None \<or>
      length (ss_cursors st) < unat (pol_max_sources_per_scope (lg_policy l)))"

lemma ledger_reject_inv:
  "ledger_pending l \<Longrightarrow> ledger_inv (snd (ledger_reject a reason l))"
  by (auto simp: ledger_pending_def ledger_inv_def ledger_accounting_closed_def ledger_reject_def
      ledger_wf_def retained_items_def)

definition make_room :: "fence_policy \<Rightarrow> scope_state \<Rightarrow> scope_state" where
  "make_room policy st =
     (if length (ss_items st) \<ge> unat (pol_max_evidence_per_scope policy)
      then st\<lparr>ss_items := erase_at (oldest_index (ss_items st)) (ss_items st),
              ss_evictions := ss_evictions st + 1\<rparr>
      else st)"

lemma make_room_inv:
  assumes "scope_inv policy s st" and "0 < unat (pol_max_evidence_per_scope policy)"
  shows "scope_inv policy s (make_room policy st)"
    and "length (ss_items (make_room policy st)) < unat (pol_max_evidence_per_scope policy)"
    and "ss_cursors (make_room policy st) = ss_cursors st"
    and "of_nat (length (ss_items (make_room policy st))) +
      (if length (ss_items st) \<ge> unat (pol_max_evidence_per_scope policy) then 1 else 0 :: u64) =
      of_nat (length (ss_items st))"
proof -
  let ?i = "oldest_index (ss_items st)"
  have i: "?i < length (ss_items st)" if "length (ss_items st) \<ge> unat (pol_max_evidence_per_scope policy)"
    using that assms(2) by (intro oldest_index_less) auto
  show "scope_inv policy s (make_room policy st)"
    using assms(1) i erase_at_props [OF i]
    by (auto simp: make_room_def intro!: scope_inv_items) (auto simp: scope_inv_def)
  show "length (ss_items (make_room policy st)) < unat (pol_max_evidence_per_scope policy)"
    using assms i erase_at_props(1) [OF i] by (auto simp: make_room_def scope_inv_def)
  show "ss_cursors (make_room policy st) = ss_cursors st" by (simp add: make_room_def)
  show "of_nat (length (ss_items (make_room policy st))) +
      (if length (ss_items st) \<ge> unat (pol_max_evidence_per_scope policy) then 1 else 0 :: u64) =
      of_nat (length (ss_items st))"
  proof (cases "length (ss_items st) \<ge> unat (pol_max_evidence_per_scope policy)")
    case True
    then have "length (erase_at ?i (ss_items st)) + 1 = length (ss_items st)"
      using erase_at_props(1) [OF i] i by simp
    then have "of_nat (length (erase_at ?i (ss_items st)) + 1) = (of_nat (length (ss_items st)) :: u64)"
      by (rule arg_cong)
    with True show ?thesis by (simp add: make_room_def add.commute)
  qed (simp add: make_room_def)
qed

text \<open>What \<open>admit_store\<close> leaves behind, field by field.\<close>

definition stored_cursor :: "delivery_evidence \<Rightarrow> source_cursor \<Rightarrow> source_cursor" where
  "stored_cursor e c = c\<lparr>cu_last_seq := ev_seq e,
     cu_last_attempt := (if ev_attempt e \<noteq> 0 then ev_attempt e else cu_last_attempt c),
     cu_last_observed := ev_observed_at e, cu_accepted := cu_accepted c + 1\<rparr>"

definition stored_state :: "fence_policy \<Rightarrow> delivery_evidence \<Rightarrow> source_cursor \<Rightarrow> scope_state \<Rightarrow> scope_state" where
  "stored_state policy e c st =
     (let st = make_room policy st in
      st\<lparr>ss_items := ss_items st @ [e], ss_cursors := omap_put (ss_cursors st) (ev_source e) (stored_cursor e c)\<rparr>)"

lemma admit_store_fields:
  "fst (admit_store e st c res l) = res"
  "lg_policy (snd (admit_store e st c res l)) = lg_policy l"
  "lg_scopes (snd (admit_store e st c res l)) =
     omap_put (lg_scopes l) (ev_scope e) (stored_state (lg_policy l) e c st)"
  "lg_seen (snd (admit_store e st c res l)) = lg_seen l"
  "lg_admitted (snd (admit_store e st c res l)) = lg_admitted l + 1"
  "lg_rejected (snd (admit_store e st c res l)) = lg_rejected l"
  "lg_dropped (snd (admit_store e st c res l)) = lg_dropped l +
     (if length (ss_items st) \<ge> unat (pol_max_evidence_per_scope (lg_policy l)) then 1 else 0)"
  "lg_retained (snd (admit_store e st c res l)) = lg_retained l + 1 -
     (if length (ss_items st) \<ge> unat (pol_max_evidence_per_scope (lg_policy l)) then 1 else 0)"
  by (simp_all add: admit_store_def make_room_def stored_state_def stored_cursor_def Let_def split: prod.splits)

lemma scope_inv_stored:
  assumes "scope_inv policy s st" and "0 < unat (pol_max_evidence_per_scope policy)"
    and "structurally_valid e" and "ev_scope e = s"
    and "cu_source c = ev_source e" and "cursor_pending c"
    and "omap_find (ss_cursors st) (ev_source e) \<noteq> None \<or>
      length (ss_cursors st) < unat (pol_max_sources_per_scope policy)"
  shows "scope_inv policy s (stored_state policy e c st)"
proof -
  let ?r = "make_room policy st"
  have "scope_inv policy s (?r\<lparr>ss_cursors := omap_put (ss_cursors ?r) (ev_source e) (stored_cursor e c)\<rparr>)"
    using assms make_room_inv [OF assms(1,2)]
    by (intro scope_inv_cursor)
      (auto simp: stored_cursor_def cursor_pending_def cursor_accounting_closed_def)
  from scope_inv_items [OF this, of "ss_items ?r @ [e]" "ss_evictions ?r"]
  have "scope_inv policy s (?r\<lparr>ss_cursors := omap_put (ss_cursors ?r) (ev_source e) (stored_cursor e c),
      ss_items := ss_items ?r @ [e]\<rparr>)"
    using assms(3,4) make_room_inv(2) [OF assms(1,2)] by simp
  moreover have "stored_state policy e c st = ?r\<lparr>ss_cursors :=
      omap_put (ss_cursors ?r) (ev_source e) (stored_cursor e c), ss_items := ss_items ?r @ [e]\<rparr>"
    by (cases ?r) (simp add: stored_state_def Let_def)
  ultimately show ?thesis by simp
qed

lemma admit_store_inv:
  assumes "ledger_pending l" and "cursor_slot e st l" and "structurally_valid e"
    and "cu_source c = ev_source e" and "cursor_pending c"
  shows "ledger_inv (snd (admit_store e st c res l))"
proof -
  let ?l' = "snd (admit_store e st c res l)" and ?st' = "stored_state (lg_policy l) e c st"
  have st: "scope_inv (lg_policy l) (ev_scope e) st" and pos: "0 < unat (pol_max_evidence_per_scope (lg_policy l))"
    using assms(1,2) by (auto simp: ledger_pending_def ledger_wf_def cursor_slot_def)
  have st': "scope_inv (lg_policy l) (ev_scope e) ?st'"
    using assms(2) by (intro scope_inv_stored st pos assms(3-5)) (auto simp: cursor_slot_def)
  have "lg_retained ?l' + of_nat (length (ss_items st)) = lg_retained l + of_nat (length (ss_items ?st'))"
    using make_room_inv(4) [OF st pos]
    by (simp add: admit_store_fields stored_state_def Let_def algebra_simps)
  then have "ledger_wf ?l'"
    using assms(1,2) st'
    by (intro ledger_wf_put [of l "ev_scope e" st ?st' ?l'])
      (auto simp: ledger_pending_def cursor_slot_def admit_store_fields)
  with assms(1) show ?thesis
    by (simp add: ledger_inv_def ledger_accounting_closed_def ledger_pending_def admit_store_fields)
qed

lemma cursor_refuse_inv:
  assumes "ledger_pending l" and "cursor_slot e st l"
    and "cu_source c = ev_source e" and "cursor_accounting_closed c"
  shows "ledger_inv (snd (ledger_reject a reason
    (l\<lparr>lg_scopes := omap_put (lg_scopes l) (ev_scope e)
      (st\<lparr>ss_cursors := omap_put (ss_cursors st) (ev_source e) c\<rparr>)\<rparr>)))"
proof (rule ledger_reject_inv)
  have "scope_inv (lg_policy l) (ev_scope e) (st\<lparr>ss_cursors := omap_put (ss_cursors st) (ev_source e) c\<rparr>)"
    using assms by (intro scope_inv_cursor) (auto simp: ledger_pending_def ledger_wf_def cursor_slot_def)
  then show "ledger_pending (l\<lparr>lg_scopes := omap_put (lg_scopes l) (ev_scope e)
      (st\<lparr>ss_cursors := omap_put (ss_cursors st) (ev_source e) c\<rparr>)\<rparr>)"
    using assms ledger_wf_put [of l "ev_scope e" st] by (auto simp: ledger_pending_def cursor_slot_def)
qed

lemma admit_cursor_inv:
  assumes "ledger_pending l" and "cursor_slot e st l" and "structurally_valid e"
    and "cu_source c = ev_source e" and "cursor_accounting_closed c"
  shows "ledger_inv (snd (admit_cursor e st c l))"
  using assms
  by (auto simp: admit_cursor_def Let_def cursor_accounting_closed_def cursor_pending_def
      intro!: cursor_refuse_inv admit_store_inv)

lemma admit_scope_inv:
  assumes "ledger_pending l" and "omap_find (lg_scopes l) (ev_scope e) = Some st"
    and "structurally_valid e"
  shows "ledger_inv (snd (admit_scope e st l))"
proof -
  have "scope_inv (lg_policy l) (ev_scope e) st"
    using assms by (auto simp: ledger_pending_def ledger_wf_def)
  with assms show ?thesis
    by (auto simp: admit_scope_def cursor_slot_def scope_inv_def cursor_new_def
        cursor_accounting_closed_def split: option.splits
        intro!: ledger_reject_inv admit_cursor_inv)
qed

lemma admit_inv:
  assumes "ledger_inv l"
  shows "ledger_inv (snd (admit e now l))"
proof -
  let ?l = "l\<lparr>lg_seen := lg_seen l + 1\<rparr>"
  have p: "ledger_pending ?l"
    using assms by (simp add: ledger_inv_def ledger_pending_def ledger_wf_def
        ledger_accounting_closed_def retained_items_def)
  have new: "ledger_pending (?l\<lparr>lg_scopes := omap_put (lg_scopes ?l) (ev_scope e) scope_state_new\<rparr>)"
    if "omap_find (lg_scopes l) (ev_scope e) = None"
      "\<not> unat (pol_max_tracked_scopes (lg_policy l)) \<le> length (lg_scopes l)"
    using p ledger_wf_new_scope [of l "ev_scope e"] that by (simp add: ledger_pending_def)
  show ?thesis
    using p new
    by (auto simp: admit_def Let_def split: option.splits intro!: ledger_reject_inv admit_scope_inv)
qed

lemma ledger_new_inv:
  "validate_policy policy = O_Ok \<Longrightarrow> ledger_inv (ledger_new policy)"
  by (auto simp: ledger_inv_def ledger_wf_def ledger_new_def ledger_accounting_closed_def
      retained_items_def omap_vals_def omap_find_def validate_policy_def policy_defect_def
      first_defect_None unat_gt_0 split: if_splits)

lemma ledger_reset_inv: "ledger_inv l \<Longrightarrow> ledger_inv (ledger_reset l)"
  by (auto simp: ledger_inv_def ledger_wf_def ledger_reset_def ledger_accounting_closed_def
      retained_items_def omap_vals_def omap_find_def)

subsection \<open>Sequences of operations\<close>

datatype ledger_op = Op_Admit delivery_evidence i64 | Op_Reset

fun ledger_step :: "ledger_op \<Rightarrow> ledger \<Rightarrow> ledger" where
  "ledger_step (Op_Admit e now) l = snd (admit e now l)"
| "ledger_step Op_Reset l = ledger_reset l"

lemma ledger_step_inv: "ledger_inv l \<Longrightarrow> ledger_inv (ledger_step op l)"
  by (cases op) (simp_all add: admit_inv ledger_reset_inv)

lemma ledger_steps_inv: "ledger_inv l \<Longrightarrow> ledger_inv (fold ledger_step ops l)"
  by (induction ops arbitrary: l) (simp_all add: ledger_step_inv)

text \<open>One admission touches no other scope and never the policy.\<close>

lemma ledger_reject_fields [simp]:
  "lg_scopes (snd (ledger_reject a reason l)) = lg_scopes l"
  "lg_policy (snd (ledger_reject a reason l)) = lg_policy l"
  by (simp_all add: ledger_reject_def)

lemma admit_cursor_frame:
  "s \<noteq> ev_scope e \<Longrightarrow>
    omap_find (lg_scopes (snd (admit_cursor e st c l))) s = omap_find (lg_scopes l) s"
  "lg_policy (snd (admit_cursor e st c l)) = lg_policy l"
  by (simp_all add: admit_cursor_def Let_def admit_store_fields)

lemma admit_scope_frame:
  "s \<noteq> ev_scope e \<Longrightarrow>
    omap_find (lg_scopes (snd (admit_scope e st l))) s = omap_find (lg_scopes l) s"
  "lg_policy (snd (admit_scope e st l)) = lg_policy l"
  by (simp_all add: admit_scope_def admit_cursor_frame split: option.split)

lemma admit_frame:
  "s \<noteq> ev_scope e \<Longrightarrow>
    omap_find (lg_scopes (snd (admit e now l))) s = omap_find (lg_scopes l) s"
  "lg_policy (snd (admit e now l)) = lg_policy l"
  by (simp_all add: admit_def Let_def admit_scope_frame split: option.split)

subsection \<open>When an observation is admitted\<close>

lemma is_admitted_simps [simp]:
  "is_admitted A_Accepted" "is_admitted A_RolloverAccepted" "\<not> is_admitted A_StructurallyInvalid"
  "\<not> is_admitted A_ClockSkewExceeded" "\<not> is_admitted A_OutOfFreshnessWindow"
  "\<not> is_admitted A_CapacityExhausted" "\<not> is_admitted A_DuplicateAttempt" "\<not> is_admitted A_Regressed"
  by (simp_all add: is_admitted_def)

lemma fst_ledger_reject [simp]: "fst (ledger_reject a reason l) = (a, reason)"
  by (simp add: ledger_reject_def)

text \<open>The tests before the cursor is looked at.\<close>

definition admissible_observation :: "delivery_evidence \<Rightarrow> i64 \<Rightarrow> ledger \<Rightarrow> bool" where
  "admissible_observation e now l \<longleftrightarrow>
     structurally_valid e \<and>
     sint (ev_observed_at e) \<le> sint (now + pol_max_clock_skew (lg_policy l)) \<and>
     is_fresh_at (ev_fresh e) now"

text \<open>The state and the cursor the observation meets, when the capacity limits allow one.\<close>

definition scope_slot :: "delivery_evidence \<Rightarrow> ledger \<Rightarrow> scope_state option" where
  "scope_slot e l =
     (case omap_find (lg_scopes l) (ev_scope e) of
        Some st \<Rightarrow> Some st
      | None \<Rightarrow> if length (lg_scopes l) \<ge> unat (pol_max_tracked_scopes (lg_policy l)) then None
                else Some scope_state_new)"

definition source_slot :: "delivery_evidence \<Rightarrow> ledger \<Rightarrow> scope_state \<Rightarrow> source_cursor option" where
  "source_slot e l st =
     (case omap_find (ss_cursors st) (ev_source e) of
        Some c \<Rightarrow> Some c
      | None \<Rightarrow> if length (ss_cursors st) \<ge> unat (pol_max_sources_per_scope (lg_policy l)) then None
                else Some (cursor_new (ev_source e)))"

text \<open>The sequencing rule: a first observation, a later sequence, or a believable wrap.\<close>

definition sequence_admissible :: "delivery_evidence \<Rightarrow> source_cursor \<Rightarrow> bool" where
  "sequence_admissible e c \<longleftrightarrow>
     cu_accepted c = 0 \<or>
     \<not> (ev_attempt e \<noteq> 0 \<and> ev_attempt e = cu_last_attempt c) \<and>
     (cu_last_seq c < ev_seq e \<or>
      ev_seq e < kSequenceHalfSpace \<and> kSequenceHalfSpace \<le> cu_last_seq c \<and>
      cu_rollovers c < kMaxRolloversPerSource)"

lemma admit_cursor_admitted:
  "is_admitted (fst (fst (admit_cursor e st c l))) \<longleftrightarrow> sequence_admissible e c"
  by (auto simp: admit_cursor_def sequence_admissible_def Let_def admit_store_fields word_gt_0)

lemma admit_scope_admitted:
  "is_admitted (fst (fst (admit_scope e st l))) \<longleftrightarrow>
     (\<exists>c. source_slot e l st = Some c \<and> sequence_admissible e c)"
  by (auto simp: admit_scope_def source_slot_def admit_cursor_admitted split: option.splits)

lemma admit_scope_slot: "source_slot e l st = Some c \<Longrightarrow> admit_scope e st l = admit_cursor e st c l"
  by (auto simp: admit_scope_def source_slot_def split: option.splits if_splits)

lemma source_slot_scopes [simp]:
  "source_slot e (l\<lparr>lg_seen := n\<rparr>) st = source_slot e l st"
  "source_slot e (l\<lparr>lg_seen := n, lg_scopes := m\<rparr>) st = source_slot e l st"
  by (simp_all add: source_slot_def)

lemma admit_admitted_iff:
  "is_admitted (fst (fst (admit e now l))) \<longleftrightarrow>
     admissible_observation e now l \<and>
     (\<exists>st c. scope_slot e l = Some st \<and> source_slot e l st = Some c \<and> sequence_admissible e c)"
  by (auto simp: admit_def Let_def admissible_observation_def scope_slot_def admit_scope_admitted
      split: option.splits)

lemma admit_cursor_stores:
  assumes "is_admitted (fst (fst (admit_cursor e st c l)))"
  shows "\<exists>c'. lg_scopes (snd (admit_cursor e st c l)) =
    omap_put (lg_scopes l) (ev_scope e) (stored_state (lg_policy l) e c' st)"
  using assms
  by (auto simp: admit_cursor_def Let_def admit_store_fields split: if_splits)

text \<open>After an admission the scope's newest item is the observation and its source's cursor names it.\<close>

definition admitted_state :: "delivery_evidence \<Rightarrow> ledger \<Rightarrow> scope_state \<Rightarrow> bool" where
  "admitted_state e l st \<longleftrightarrow>
     ss_items st = ss_items (make_room (lg_policy l)
       (case omap_find (lg_scopes l) (ev_scope e) of Some st0 \<Rightarrow> st0 | None \<Rightarrow> scope_state_new)) @ [e] \<and>
     (\<exists>c. omap_find (ss_cursors st) (ev_source e) = Some c \<and> cu_last_seq c = ev_seq e \<and>
       (ev_attempt e \<noteq> 0 \<longrightarrow> cu_last_attempt c = ev_attempt e))"

lemma admit_cursor_state:
  assumes "is_admitted (fst (fst (admit_cursor e st c l)))"
  shows "\<exists>st'. omap_find (lg_scopes (snd (admit_cursor e st c l))) (ev_scope e) = Some st' \<and>
    ss_items st' = ss_items (make_room (lg_policy l) st) @ [e] \<and>
    (\<exists>c'. omap_find (ss_cursors st') (ev_source e) = Some c' \<and> cu_last_seq c' = ev_seq e \<and>
       (ev_attempt e \<noteq> 0 \<longrightarrow> cu_last_attempt c' = ev_attempt e))"
  using admit_cursor_stores [OF assms]
  by (auto simp: stored_state_def Let_def) (auto simp: stored_cursor_def)

lemma admit_state:
  assumes "is_admitted (fst (fst (admit e now l)))"
  shows "\<exists>st. omap_find (lg_scopes (snd (admit e now l))) (ev_scope e) = Some st \<and> admitted_state e l st"
proof -
  obtain st c where s: "admissible_observation e now l" "scope_slot e l = Some st"
      "source_slot e l st = Some c" "sequence_admissible e c"
    using assms admit_admitted_iff by blast
  have st: "st = (case omap_find (lg_scopes l) (ev_scope e) of Some st0 \<Rightarrow> st0 | None \<Rightarrow> scope_state_new)"
    using s(2) by (auto simp: scope_slot_def split: option.splits if_splits)
  define l' where "l' = (if omap_find (lg_scopes l) (ev_scope e) = None
      then l\<lparr>lg_seen := lg_seen l + 1, lg_scopes := omap_put (lg_scopes l) (ev_scope e) scope_state_new\<rparr>
      else l\<lparr>lg_seen := lg_seen l + 1\<rparr>)"
  have l': "lg_policy l' = lg_policy l" by (simp add: l'_def)
  have eq: "snd (admit e now l) = snd (admit_cursor e st c l')"
    using s by (cases "omap_find (lg_scopes l) (ev_scope e)")
      (simp_all add: admit_def Let_def admissible_observation_def scope_slot_def admit_scope_slot
        l'_def split: if_splits)
  have "is_admitted (fst (fst (admit_cursor e st c l')))" using s(4) by (simp add: admit_cursor_admitted)
  from admit_cursor_state [OF this] show ?thesis unfolding eq l' admitted_state_def by (simp flip: st)
qed

lemma evidence_for_admitted:
  assumes "is_admitted (fst (fst (admit e now l)))"
  shows "e \<in> set (evidence_for (snd (admit e now l)) (ev_scope e))"
  using admit_state [OF assms] by (auto simp: evidence_for_def admitted_state_def)

definition cursor_of :: "ledger \<Rightarrow> scope \<Rightarrow> source_ref \<Rightarrow> source_cursor option" where
  "cursor_of l scope source =
     (case omap_find (lg_scopes l) scope of
        None \<Rightarrow> None | Some st \<Rightarrow> omap_find (ss_cursors st) source)"

lemma cursor_of_admitted:
  assumes "is_admitted (fst (fst (admit e now l)))"
  shows "\<exists>c. cursor_of (snd (admit e now l)) (ev_scope e) (ev_source e) = Some c \<and>
    cu_last_seq c = ev_seq e \<and> (ev_attempt e \<noteq> 0 \<longrightarrow> cu_last_attempt c = ev_attempt e)"
  using admit_state [OF assms] by (auto simp: cursor_of_def admitted_state_def)

subsection \<open>The cursor of a source only moves forward\<close>

text \<open>What an observation does to the cursor of its source: nothing, or one step forward.\<close>

definition same_place :: "source_cursor \<Rightarrow> source_cursor \<Rightarrow> bool" where
  "same_place c c' \<longleftrightarrow> cu_last_seq c' = cu_last_seq c \<and> cu_last_attempt c' = cu_last_attempt c \<and>
     cu_rollovers c' = cu_rollovers c \<and> cu_accepted c' = cu_accepted c"

definition cursor_moved :: "delivery_evidence \<Rightarrow> source_cursor \<Rightarrow> source_cursor \<Rightarrow> bool" where
  "cursor_moved e c c' \<longleftrightarrow> cu_last_seq c' = ev_seq e \<and> cu_accepted c' = cu_accepted c + 1 \<and>
     (ev_attempt e \<noteq> 0 \<longrightarrow> cu_last_attempt c' = ev_attempt e) \<and>
     (if cu_accepted c = 0 \<or> cu_last_seq c < ev_seq e then cu_rollovers c' = cu_rollovers c
      else cu_rollovers c < kMaxRolloversPerSource \<and> cu_rollovers c' = cu_rollovers c + 1)"

definition attempt_repeated :: "delivery_evidence \<Rightarrow> source_cursor \<Rightarrow> bool" where
  "attempt_repeated e c \<longleftrightarrow> cu_accepted c \<noteq> 0 \<and> ev_attempt e \<noteq> 0 \<and> ev_attempt e = cu_last_attempt c"

definition cursor_step :: "delivery_evidence \<Rightarrow> bool \<Rightarrow> source_cursor \<Rightarrow> source_cursor \<Rightarrow> bool" where
  "cursor_step e ok c c' \<longleftrightarrow> (if ok then cursor_moved e c c' \<and> \<not> attempt_repeated e c else same_place c c')"

lemma cursor_of_put [simp]:
  "cursor_of (l\<lparr>lg_scopes := omap_put m scope st\<rparr>) scope source = omap_find (ss_cursors st) source"
  by (simp add: cursor_of_def)

lemma cursor_of_reject [simp]: "cursor_of (snd (ledger_reject a reason l)) = cursor_of l"
  by (simp add: ledger_reject_def cursor_of_def fun_eq_iff)

lemma cursor_of_store:
  "cursor_of (snd (admit_store e st c res l)) (ev_scope e) source =
     (if source = ev_source e then Some (stored_cursor e c) else omap_find (ss_cursors st) source)"
  by (simp add: cursor_of_def admit_store_fields stored_state_def make_room_def Let_def)

lemma admit_cursor_step:
  "\<exists>c'. cursor_of (snd (admit_cursor e st c l)) (ev_scope e) (ev_source e) = Some c' \<and>
     cursor_step e (is_admitted (fst (fst (admit_cursor e st c l)))) c c'"
proof -
  consider (first) "cu_accepted c = 0"
    | (dup) "cu_accepted c \<noteq> 0" "ev_seq e = cu_last_seq c \<or> (ev_attempt e \<noteq> 0 \<and> ev_attempt e = cu_last_attempt c)"
    | (wrap) "cu_accepted c \<noteq> 0" "ev_seq e \<noteq> cu_last_seq c" "\<not> (ev_attempt e \<noteq> 0 \<and> ev_attempt e = cu_last_attempt c)"
        "ev_seq e < cu_last_seq c" "cu_last_seq c \<ge> kSequenceHalfSpace \<and> ev_seq e < kSequenceHalfSpace"
        "cu_rollovers c < kMaxRolloversPerSource"
    | (behind) "cu_accepted c \<noteq> 0" "ev_seq e \<noteq> cu_last_seq c" "\<not> (ev_attempt e \<noteq> 0 \<and> ev_attempt e = cu_last_attempt c)"
        "ev_seq e < cu_last_seq c" "\<not> (cu_last_seq c \<ge> kSequenceHalfSpace \<and> ev_seq e < kSequenceHalfSpace \<and>
          cu_rollovers c < kMaxRolloversPerSource)"
    | (later) "cu_accepted c \<noteq> 0" "ev_seq e \<noteq> cu_last_seq c" "\<not> (ev_attempt e \<noteq> 0 \<and> ev_attempt e = cu_last_attempt c)"
        "\<not> ev_seq e < cu_last_seq c"
    by blast
  then show ?thesis
  proof cases
    case first
    then show ?thesis
      by (simp add: admit_cursor_def Let_def cursor_of_store admit_store_fields cursor_step_def cursor_moved_def
          attempt_repeated_def stored_cursor_def)
  next
    case dup
    then show ?thesis
      by (simp add: admit_cursor_def Let_def cursor_step_def same_place_def word_gt_0)
  next
    case wrap
    then have "\<not> cu_last_seq c < ev_seq e" by auto
    with wrap show ?thesis
      by (auto simp add: admit_cursor_def Let_def cursor_of_store admit_store_fields cursor_step_def cursor_moved_def
          attempt_repeated_def stored_cursor_def word_gt_0)
  next
    case behind
    then show ?thesis
      by (auto simp: admit_cursor_def Let_def cursor_step_def same_place_def word_gt_0)
  next
    case later
    then have "cu_last_seq c < ev_seq e" by auto
    with later show ?thesis
      by (auto simp: admit_cursor_def Let_def cursor_of_store admit_store_fields cursor_step_def cursor_moved_def
          attempt_repeated_def stored_cursor_def word_gt_0)
  qed
qed

lemma admit_cursor_others:
  "source \<noteq> ev_source e \<Longrightarrow>
    cursor_of (snd (admit_cursor e st c l)) (ev_scope e) source = omap_find (ss_cursors st) source"
  by (simp add: admit_cursor_def Let_def cursor_of_store)

lemma admit_scope_step:
  assumes "omap_find (lg_scopes l) (ev_scope e) = Some st"
  shows "(case omap_find (ss_cursors st) (ev_source e) of
      None \<Rightarrow> if is_admitted (fst (fst (admit_scope e st l)))
        then \<exists>c'. cursor_of (snd (admit_scope e st l)) (ev_scope e) (ev_source e) = Some c' \<and>
          cursor_step e True (cursor_new (ev_source e)) c'
        else cursor_of (snd (admit_scope e st l)) (ev_scope e) (ev_source e) = None
    | Some c \<Rightarrow> \<exists>c'. cursor_of (snd (admit_scope e st l)) (ev_scope e) (ev_source e) = Some c' \<and>
        cursor_step e (is_admitted (fst (fst (admit_scope e st l)))) c c')"
proof (cases "omap_find (ss_cursors st) (ev_source e)")
  case None
  have "is_admitted (fst (fst (admit_cursor e st (cursor_new (ev_source e)) l)))"
    by (simp add: admit_cursor_admitted sequence_admissible_def cursor_new_def)
  with None assms admit_cursor_step [of e st "cursor_new (ev_source e)" l] show ?thesis
    by (simp add: admit_scope_def cursor_of_def)
next
  case (Some c)
  with admit_cursor_step [of e st c l] show ?thesis by (simp add: admit_scope_def)
qed

text \<open>One admission on the cursors of a ledger.\<close>

lemma admit_step:
  "case cursor_of l (ev_scope e) (ev_source e) of
     None \<Rightarrow> if is_admitted (fst (fst (admit e now l)))
       then \<exists>c'. cursor_of (snd (admit e now l)) (ev_scope e) (ev_source e) = Some c' \<and>
         cursor_step e True (cursor_new (ev_source e)) c'
       else cursor_of (snd (admit e now l)) (ev_scope e) (ev_source e) = None
   | Some c \<Rightarrow> \<exists>c'. cursor_of (snd (admit e now l)) (ev_scope e) (ev_source e) = Some c' \<and>
       cursor_step e (is_admitted (fst (fst (admit e now l)))) c c'"
proof (cases "admissible_observation e now l \<and> scope_slot e l \<noteq> None")
  case False
  then have "is_admitted (fst (fst (admit e now l))) = False"
    by (auto simp: admit_admitted_iff)
  moreover have "lg_scopes (snd (admit e now l)) = lg_scopes l"
    using False by (auto simp: admit_def Let_def admissible_observation_def scope_slot_def split: option.splits)
  then have "cursor_of (snd (admit e now l)) = cursor_of l" by (simp add: cursor_of_def fun_eq_iff)
  ultimately show ?thesis by (auto simp: cursor_step_def same_place_def split: option.split)
next
  case True
  then obtain st where slot: "scope_slot e l = Some st" by blast
  define l' where "l' = (if omap_find (lg_scopes l) (ev_scope e) = None
      then l\<lparr>lg_seen := lg_seen l + 1, lg_scopes := omap_put (lg_scopes l) (ev_scope e) scope_state_new\<rparr>
      else l\<lparr>lg_seen := lg_seen l + 1\<rparr>)"
  have eq: "admit e now l = admit_scope e st l'" and st: "omap_find (lg_scopes l') (ev_scope e) = Some st"
    using True slot
    by (auto simp: admit_def Let_def admissible_observation_def scope_slot_def l'_def split: option.splits if_splits)
  have "cursor_of l (ev_scope e) (ev_source e) = omap_find (ss_cursors st) (ev_source e)"
    using slot by (auto simp: cursor_of_def scope_slot_def scope_state_new_def omap_find_def [of "[]"]
        split: option.splits if_splits)
  with admit_scope_step [OF st] show ?thesis unfolding eq by simp
qed

lemma admit_scope_others:
  assumes "source \<noteq> ev_source e" and "omap_find (lg_scopes l) (ev_scope e) = Some st"
  shows "cursor_of (snd (admit_scope e st l)) (ev_scope e) source = omap_find (ss_cursors st) source"
proof -
  have "cursor_of l (ev_scope e) source = omap_find (ss_cursors st) source"
    using assms(2) by (simp add: cursor_of_def)
  with assms(1) show ?thesis by (simp add: admit_scope_def admit_cursor_others split: option.split)
qed

lemma admit_others:
  assumes "scope \<noteq> ev_scope e \<or> source \<noteq> ev_source e"
  shows "cursor_of (snd (admit e now l)) scope source = cursor_of l scope source"
proof (cases "scope = ev_scope e")
  case False
  then show ?thesis by (simp add: cursor_of_def admit_frame)
next
  case True
  with assms show ?thesis
    by (auto simp: admit_def Let_def admit_scope_others scope_state_new_def omap_find_def [of "[]"]
        cursor_of_def [of l] cursor_of_def [of "l\<lparr>lg_seen := n\<rparr>" for n] split: option.split)
qed

text \<open>
  In a ledger that has seen at most \<open>n\<close> operations every cursor has accepted something, at most
  \<open>n\<close> times, and has used at most the allowed number of rollovers.
\<close>

definition cursors_ok :: "nat \<Rightarrow> ledger \<Rightarrow> bool" where
  "cursors_ok n l \<longleftrightarrow> (\<forall>scope source c. cursor_of l scope source = Some c \<longrightarrow>
     0 < unat (cu_accepted c) \<and> unat (cu_accepted c) \<le> n \<and> cu_rollovers c \<le> kMaxRolloversPerSource)"

lemma cursor_step_ok:
  assumes "cursor_step e ok c c'" and "unat (cu_accepted c) \<le> n" and "n + 1 < 2 ^ 64"
    and "cu_rollovers c \<le> kMaxRolloversPerSource" and "ok \<or> 0 < unat (cu_accepted c)"
  shows "0 < unat (cu_accepted c') \<and> unat (cu_accepted c') \<le> n + 1 \<and> cu_rollovers c' \<le> kMaxRolloversPerSource"
proof (cases ok)
  case True
  have "unat (cu_accepted c + 1) = unat (cu_accepted c) + 1"
    using assms(2,3) by (simp add: unat_word_ariths)
  moreover have "cu_rollovers c < kMaxRolloversPerSource \<Longrightarrow> cu_rollovers c + 1 \<le> kMaxRolloversPerSource"
    by (rule inc_le)
  ultimately show ?thesis
    using assms True by (auto simp: cursor_step_def cursor_moved_def split: if_splits)
next
  case False
  with assms show ?thesis by (simp add: cursor_step_def same_place_def)
qed

lemma cursors_ok_step:
  assumes "cursors_ok n l" and "n + 1 < 2 ^ 64"
  shows "cursors_ok (n + 1) (ledger_step op l)"
proof (cases op)
  case (Op_Admit e now)
  have own: "0 < unat (cu_accepted c') \<and> unat (cu_accepted c') \<le> n + 1 \<and> cu_rollovers c' \<le> kMaxRolloversPerSource"
    if c': "cursor_of (snd (admit e now l)) (ev_scope e) (ev_source e) = Some c'" for c'
  proof (cases "cursor_of l (ev_scope e) (ev_source e)")
    case None
    with admit_step [of e now l] c' have "cursor_step e True (cursor_new (ev_source e)) c'"
      by (auto split: if_splits)
    from cursor_step_ok [OF this, of n] assms(2) show ?thesis by (simp add: cursor_new_def)
  next
    case (Some c)
    with admit_step [of e now l] c' have "cursor_step e (is_admitted (fst (fst (admit e now l)))) c c'" by auto
    with assms(1) [unfolded cursors_ok_def, rule_format, OF Some] show ?thesis
      by (intro cursor_step_ok [OF _ _ assms(2)]) auto
  qed
  show ?thesis
    unfolding cursors_ok_def
  proof (intro allI impI)
    fix scope source c'
    assume c': "cursor_of (ledger_step op l) scope source = Some c'"
    show "0 < unat (cu_accepted c') \<and> unat (cu_accepted c') \<le> n + 1 \<and> cu_rollovers c' \<le> kMaxRolloversPerSource"
    proof (cases "scope = ev_scope e \<and> source = ev_source e")
      case True
      with c' own show ?thesis by (simp add: Op_Admit)
    next
      case False
      with c' admit_others [of scope e source now l] assms(1) show ?thesis
        unfolding cursors_ok_def by (fastforce simp: Op_Admit)
    qed
  qed
qed (simp add: cursors_ok_def ledger_reset_def cursor_of_def omap_find_def)

lemma cursors_ok_steps:
  assumes "cursors_ok n l" and "n + length ops < 2 ^ 64"
  shows "cursors_ok (n + length ops) (fold ledger_step ops l)"
  using assms
proof (induction ops arbitrary: n l)
  case (Cons op ops)
  from Cons.IH [OF cursors_ok_step [OF Cons.prems(1)]] Cons.prems(2) show ?case by simp
qed simp

lemma cursors_ok_new: "cursors_ok 0 (ledger_new policy)"
  by (simp add: cursors_ok_def ledger_new_def cursor_of_def omap_find_def)

definition cursor_ahead :: "source_cursor \<Rightarrow> source_cursor \<Rightarrow> bool" where
  "cursor_ahead c c' \<longleftrightarrow> cu_rollovers c < cu_rollovers c' \<or>
     cu_rollovers c = cu_rollovers c' \<and> cu_last_seq c \<le> cu_last_seq c'"

lemma cursor_ahead_refl: "cursor_ahead c c" by (simp add: cursor_ahead_def)

lemma cursor_ahead_trans: "cursor_ahead c c' \<Longrightarrow> cursor_ahead c' c'' \<Longrightarrow> cursor_ahead c c''"
  by (auto simp: cursor_ahead_def)

lemma cursor_advances:
  assumes "cursor_moved e c c'" and "cu_accepted c \<noteq> 0"
  shows "cursor_ahead c c'" and "ev_seq e \<le> cu_last_seq c \<Longrightarrow> cu_rollovers c < cu_rollovers c'"
proof -
  have less: "cu_rollovers c < cu_rollovers c + 1" if "cu_rollovers c < kMaxRolloversPerSource"
    using that by (simp add: kMaxRolloversPerSource_def word_less_nat_alt unat_word_ariths)
  show "cursor_ahead c c'" "ev_seq e \<le> cu_last_seq c \<Longrightarrow> cu_rollovers c < cu_rollovers c'"
    using assms less by (auto simp: cursor_moved_def cursor_ahead_def split: if_splits)
qed

lemma ledger_step_cursor:
  assumes "cursors_ok n l" and "cursor_of l scope source = Some c" and "op \<noteq> Op_Reset"
  shows "\<exists>c'. cursor_of (ledger_step op l) scope source = Some c' \<and> cursor_ahead c c'"
proof (cases op)
  case (Op_Admit e now)
  have acc: "cu_accepted c \<noteq> 0" using assms(1,2) unfolding cursors_ok_def unat_gt_0 by blast
  show ?thesis
  proof (cases "scope = ev_scope e \<and> source = ev_source e")
    case True
    with admit_step [of e now l] assms(2) obtain c' where
      "cursor_of (snd (admit e now l)) scope source = Some c'" "cursor_step e (is_admitted (fst (fst (admit e now l)))) c c'"
      by auto
    then show ?thesis
      using cursor_advances(1) [OF _ acc] by (auto simp: Op_Admit cursor_step_def same_place_def cursor_ahead_def split: if_splits)
  next
    case False
    with admit_others [of scope e source now l] assms(2) show ?thesis by (auto simp: Op_Admit cursor_ahead_refl)
  qed
qed (use assms in simp)

lemma ledger_steps_cursor:
  assumes "cursors_ok n l" and "n + length ops < 2 ^ 64"
    and "cursor_of l scope source = Some c" and "Op_Reset \<notin> set ops"
  shows "\<exists>c'. cursor_of (fold ledger_step ops l) scope source = Some c' \<and> cursor_ahead c c'"
  using assms
proof (induction ops arbitrary: n l c)
  case Nil
  then show ?case by (simp add: cursor_ahead_refl)
next
  case (Cons op ops)
  obtain c1 where c1: "cursor_of (ledger_step op l) scope source = Some c1" "cursor_ahead c c1"
    using ledger_step_cursor [OF Cons.prems(1,3), of op] Cons.prems(4) by auto
  obtain c2 where "cursor_of (fold ledger_step ops (ledger_step op l)) scope source = Some c2" "cursor_ahead c1 c2"
    using Cons.IH [OF cursors_ok_step [OF Cons.prems(1)] _ c1(1)] Cons.prems(2,4) by auto
  with c1(2) show ?case by (auto intro: cursor_ahead_trans)
qed

lemma ledger_steps_others:
  assumes "list_all (\<lambda>op. case op of Op_Admit e now \<Rightarrow> scope \<noteq> ev_scope e \<or> source \<noteq> ev_source e | Op_Reset \<Rightarrow> False) ops"
  shows "cursor_of (fold ledger_step ops l) scope source = cursor_of l scope source"
  using assms
  by (induction ops arbitrary: l) (auto simp: admit_others split: ledger_op.splits)

subsection \<open>Properties\<close>

text \<open>
  C24. Whatever sequence of observations and resets a ledger built from a validated policy goes
  through, its accounting closes exactly (seen = admitted + rejected, admitted = retained +
  dropped, retained = what the scopes hold), every table stays within the policy's bounds, and
  each scope retains only structurally valid observations of that scope whose source has a
  cursor with closed accounting.
\<close>

theorem ledger_accounting_and_bounds:
  assumes "validate_policy policy = O_Ok"
  shows "ledger_inv (fold ledger_step ops (ledger_new policy))"
  by (rule ledger_steps_inv [OF ledger_new_inv [OF assms]])

theorem ledger_accounting_and_bounds_witness:
  "ledger_inv (fold ledger_step [Op_Admit sample_evidence 1, Op_Reset] (ledger_new default_policy))"
  by (rule ledger_accounting_and_bounds [OF default_policy_valid])


text \<open>
  An admitted observation becomes the newest item of its scope. When the scope was full the
  item that made room was one that no retained item is older than, and no other item is lost;
  no other scope changes.
\<close>

theorem admission_evicts_oldest:
  assumes "is_admitted (fst (fst (admit e now l)))"
    and "omap_find (lg_scopes l) (ev_scope e) = Some st"
    and "length (ss_items st) \<ge> unat (pol_max_evidence_per_scope (lg_policy l))"
    and "ss_items st \<noteq> []"
  shows "\<exists>st' pre victim post. omap_find (lg_scopes (snd (admit e now l))) (ev_scope e) = Some st' \<and>
      ss_items st = pre @ victim # post \<and> ss_items st' = pre @ post @ [e] \<and>
      (\<forall>x \<in> set (ss_items st). \<not> older x victim) \<and>
      (\<forall>s. s \<noteq> ev_scope e \<longrightarrow> evidence_for (snd (admit e now l)) s = evidence_for l s)"
proof -
  let ?i = "oldest_index (ss_items st)"
  obtain st' where st': "omap_find (lg_scopes (snd (admit e now l))) (ev_scope e) = Some st'"
      "admitted_state e l st'"
    using admit_state [OF assms(1)] by blast
  have i: "?i < length (ss_items st)" using assms(4) by (rule oldest_index_less)
  have "ss_items st' = take ?i (ss_items st) @ drop (Suc ?i) (ss_items st) @ [e]"
    using st'(2) assms(2,3) by (simp add: admitted_state_def make_room_def erase_at_def)
  moreover have "ss_items st = take ?i (ss_items st) @ ss_items st ! ?i # drop (Suc ?i) (ss_items st)"
    using i by (rule id_take_nth_drop)
  moreover have "\<forall>x \<in> set (ss_items st). \<not> older x (ss_items st ! ?i)"
    using oldest_index_minimal by (auto simp: in_set_conv_nth)
  moreover have "\<forall>s. s \<noteq> ev_scope e \<longrightarrow> evidence_for (snd (admit e now l)) s = evidence_for l s"
    by (simp add: evidence_for_def admit_frame)
  ultimately show ?thesis using st'(1) by blast
qed

text \<open>A policy that keeps one observation per scope, so that the second admission evicts.\<close>

definition tight_ledger :: ledger where
  "tight_ledger = snd (admit sample_evidence 1
     (ledger_new (default_policy\<lparr>pol_max_evidence_per_scope := 1\<rparr>)))"

definition tight_state :: scope_state where
  "tight_state = \<lparr>ss_items = [sample_evidence],
     ss_cursors = [(ev_source sample_evidence, \<lparr>cu_source = ev_source sample_evidence, cu_last_seq = 1,
       cu_last_attempt = 1, cu_rollovers = 0, cu_last_observed = 1, cu_observed = 1, cu_accepted = 1,
       cu_rejected = 0, cu_duplicates = 0, cu_regressed = 0\<rparr>)], ss_evictions = 0\<rparr>"

lemmas sample_simps = sample_evidence_def sample_scope_def sample_source_def sample_gens_def
  structurally_valid_iff sr_is_valid_def sc_is_valid_def gv_is_complete_def kLossTotalPpm_def

lemmas ledger_eval = admit_def admit_scope_def admit_cursor_def admit_store_def ledger_new_def
  scope_state_new_def cursor_new_def omap_find_def is_fresh_at_def default_policy_def seconds_def
  kNsPerSecond_def Let_def sample_simps

lemma tight_ledger_state:
  "omap_find (lg_scopes tight_ledger) sample_scope = Some tight_state"
  "lg_policy tight_ledger = default_policy\<lparr>pol_max_evidence_per_scope := 1\<rparr>"
  by (simp_all add: tight_ledger_def tight_state_def ledger_eval)

theorem admission_evicts_oldest_witness:
  "\<exists>st' pre victim post.
      omap_find (lg_scopes (snd (admit (sample_evidence\<lparr>ev_seq := 2, ev_attempt := 2\<rparr>) 1 tight_ledger)))
        sample_scope = Some st' \<and>
      [sample_evidence] = pre @ victim # post \<and>
      ss_items st' = pre @ post @ [sample_evidence\<lparr>ev_seq := 2, ev_attempt := 2\<rparr>] \<and>
      (\<forall>x \<in> {sample_evidence}. \<not> older x victim)"
proof -
  let ?e = "sample_evidence\<lparr>ev_seq := 2, ev_attempt := 2\<rparr>"
  have "admissible_observation ?e 1 tight_ledger"
    by (simp add: admissible_observation_def tight_ledger_state ledger_eval)
  moreover have "scope_slot ?e tight_ledger = Some tight_state"
    using tight_ledger_state(1) by (simp add: scope_slot_def sample_evidence_def)
  moreover have "source_slot ?e tight_ledger tight_state = Some (snd (hd (ss_cursors tight_state)))"
    by (simp add: source_slot_def tight_state_def omap_find_def)
  moreover have "sequence_admissible ?e (snd (hd (ss_cursors tight_state)))"
    by (simp add: sequence_admissible_def tight_state_def)
  ultimately have "is_admitted (fst (fst (admit ?e 1 tight_ledger)))"
    using admit_admitted_iff by blast
  from admission_evicts_oldest [OF this, of tight_state] show ?thesis
    using tight_ledger_state by (auto simp: tight_state_def sample_evidence_def)
qed

text \<open>
  C25. A replay gets through only behind a counted rollover. Take a ledger after any operations from
  its creation, an observation that it admits, any further operations without a reset (fewer than
  \<open>2 ^ 64\<close> operations in all, so that the acceptance counters do not wrap), and an observation of the
  same source instance and scope whose sequence number is the same or a lower one. If this one is
  admitted then the cursor of the source has counted a rollover since, and it never counts more than
  \<open>kMaxRolloversPerSource\<close>. And while no other observation of the source in that scope is presented,
  one that repeats the attempt id is refused under any sequence number (the cursor keeps the last
  accepted attempt id only, so nothing is claimed once others were accepted).
\<close>

theorem replay_only_after_rollover:
  assumes "length before + length between + 2 < 2 ^ 64"
    and "is_admitted (fst (fst (admit e now (fold ledger_step before (ledger_new policy)))))"
    and "Op_Reset \<notin> set between"
    and "ev_scope e' = ev_scope e" and "ev_source e' = ev_source e"
  defines "l1 \<equiv> snd (admit e now (fold ledger_step before (ledger_new policy)))"
  defines "l2 \<equiv> fold ledger_step between l1"
  shows "\<exists>c1 c3. cursor_of l1 (ev_scope e) (ev_source e) = Some c1 \<and>
      cursor_of (snd (admit e' now' l2)) (ev_scope e) (ev_source e) = Some c3 \<and>
      cu_rollovers c3 \<le> kMaxRolloversPerSource \<and>
      (is_admitted (fst (fst (admit e' now' l2))) \<and> ev_seq e' \<le> ev_seq e \<longrightarrow>
        cu_rollovers c1 < cu_rollovers c3) \<and>
      (list_all (\<lambda>op. case op of Op_Admit x t \<Rightarrow> ev_scope e \<noteq> ev_scope x \<or> ev_source e \<noteq> ev_source x
          | Op_Reset \<Rightarrow> False) between \<and> ev_attempt e' \<noteq> 0 \<and> ev_attempt e' = ev_attempt e \<longrightarrow>
        \<not> is_admitted (fst (fst (admit e' now' l2))))"
proof -
  let ?n = "length before" and ?src = "ev_source e" and ?sc = "ev_scope e"
  have "cursors_ok ?n (fold ledger_step before (ledger_new policy))"
    using cursors_ok_steps [OF cursors_ok_new, of before policy] assms(1) by simp
  from cursors_ok_step [OF this, of "Op_Admit e now"] assms(1)
  have ok1: "cursors_ok (?n + 1) l1" by (simp add: l1_def)
  have ok2: "cursors_ok (?n + 1 + length between) l2"
    unfolding l2_def using ok1 assms(1) by (intro cursors_ok_steps) simp_all
  obtain c1 where c1: "cursor_of l1 ?sc ?src = Some c1" "cu_last_seq c1 = ev_seq e"
      "ev_attempt e \<noteq> 0 \<longrightarrow> cu_last_attempt c1 = ev_attempt e"
    using cursor_of_admitted [OF assms(2)] unfolding l1_def by blast
  obtain c2 where c2: "cursor_of l2 ?sc ?src = Some c2" "cursor_ahead c1 c2"
    using ledger_steps_cursor [OF ok1 _ c1(1) assms(3)] assms(1) unfolding l2_def by auto
  have acc: "cu_accepted c2 \<noteq> 0" using ok2 c2(1) unfolding cursors_ok_def unat_gt_0 by blast
  obtain c3 where c3: "cursor_of (snd (admit e' now' l2)) ?sc ?src = Some c3"
      "cursor_step e' (is_admitted (fst (fst (admit e' now' l2)))) c2 c3"
    using admit_step [of e' now' l2] c2(1) assms(4,5) by auto
  have "cu_rollovers c3 \<le> kMaxRolloversPerSource"
    using cursors_ok_step [OF ok2, of "Op_Admit e' now'"] assms(1) c3(1) by (auto simp: cursors_ok_def)
  moreover have "cu_rollovers c1 < cu_rollovers c3"
    if "is_admitted (fst (fst (admit e' now' l2)))" "ev_seq e' \<le> ev_seq e"
  proof -
    have adv: "cursor_moved e' c2 c3" using c3(2) that(1) by (simp add: cursor_step_def)
    have le: "cu_rollovers c2 \<le> cu_rollovers c3" using cursor_advances(1) [OF adv acc] by (auto simp: cursor_ahead_def)
    show ?thesis
    proof (cases "cu_rollovers c1 < cu_rollovers c2")
      case True
      then show ?thesis using le by (rule less_le_trans)
    next
      case False
      with c2(2) have eq: "cu_rollovers c1 = cu_rollovers c2" "cu_last_seq c1 \<le> cu_last_seq c2"
        by (auto simp: cursor_ahead_def)
      have "ev_seq e' \<le> cu_last_seq c2" using that(2) eq(2) unfolding c1(2) by (rule order_trans)
      from cursor_advances(2) [OF adv acc this] show ?thesis by (simp add: eq(1))
    qed
  qed
  moreover have "\<not> is_admitted (fst (fst (admit e' now' l2)))"
    if "list_all (\<lambda>op. case op of Op_Admit x t \<Rightarrow> ?sc \<noteq> ev_scope x \<or> ?src \<noteq> ev_source x
          | Op_Reset \<Rightarrow> False) between" "ev_attempt e' \<noteq> 0" "ev_attempt e' = ev_attempt e"
  proof -
    have "c2 = c1" using ledger_steps_others [OF that(1), of l1] c1(1) c2(1) by (simp add: l2_def)
    then have "attempt_repeated e' c2" using that c1(3) acc by (simp add: attempt_repeated_def)
    then show ?thesis using c3(2) by (auto simp: cursor_step_def split: if_splits)
  qed
  ultimately show ?thesis using c1(1) c3(1) by blast
qed

theorem replay_only_after_rollover_witness:
  "is_admitted (fst (fst (admit sample_evidence 1 (ledger_new default_policy)))) \<and>
   \<not> is_admitted (fst (fst (admit sample_evidence 2
      (snd (admit sample_evidence 1 (ledger_new default_policy))))))"
proof -
  have ok: "is_admitted (fst (fst (admit sample_evidence 1 (ledger_new default_policy))))"
    by (simp add: ledger_eval)
  then have start: "is_admitted (fst (fst (admit sample_evidence 1 (fold ledger_step [] (ledger_new default_policy)))))"
    by simp
  have "ev_attempt sample_evidence \<noteq> 0" by (simp add: sample_evidence_def)
  with replay_only_after_rollover [OF _ start, of "[]" sample_evidence 2] ok show ?thesis by auto
qed

end
