(* ===== verification/BHG_Classifier.thy ===== *)
theory BHG_Classifier
  imports BHG_Ledger
begin

text \<open>
  The classifier (\<open>classifier.hpp\<close>, \<open>classifier.cpp\<close>). \<open>census_step\<close> is the body of the loop
  over the observations, \<open>classify\<close> the whole function with its nine rules in order. The sets
  of sources are strictly increasing lists, as a \<open>std::set\<close> is iterated. A null policy pointer
  is \<open>None\<close>.
\<close>

subsection \<open>Census and diagnosis\<close>

record census =
  ce_total :: u32
  ce_fresh_current :: u32
  ce_stale :: u32
  ce_generation_mismatch :: u32
  ce_quality_rejected :: u32
  ce_invalid :: u32
  ce_complete_failures :: u32
  ce_clean_successes :: u32
  ce_congestion_signals :: u32
  ce_partition_signals :: u32
  ce_withdrawals :: u32
  ce_failure_sources :: u32
  ce_failure_incarnations :: u32
  ce_success_sources :: u32
  ce_success_incarnations :: u32
  ce_failure_attempts :: u64
  ce_failure_losses :: u64
  ce_success_attempts :: u64
  ce_min_loss_ppm :: u32
  ce_max_loss_ppm :: u32
  ce_mismatch :: gen_mismatch

definition census_new :: census where
  "census_new = \<lparr>ce_total = 0, ce_fresh_current = 0, ce_stale = 0, ce_generation_mismatch = 0,
     ce_quality_rejected = 0, ce_invalid = 0, ce_complete_failures = 0, ce_clean_successes = 0,
     ce_congestion_signals = 0, ce_partition_signals = 0, ce_withdrawals = 0,
     ce_failure_sources = 0, ce_failure_incarnations = 0, ce_success_sources = 0,
     ce_success_incarnations = 0, ce_failure_attempts = 0, ce_failure_losses = 0,
     ce_success_attempts = 0, ce_min_loss_ppm = 0, ce_max_loss_ppm = 0, ce_mismatch = G_None\<rparr>"

record diagnosis =
  di_outcome :: outcome
  di_classification :: classification
  di_primary_reason :: reason_code
  di_reasons :: "reason_code list"
  di_scope :: scope
  di_gens :: generation_vector
  di_census :: census
  di_decided_at :: i64
  di_corroborated :: bool
  di_corroboration_reason :: reason_code
  di_confidence_ppm :: u32
  di_failure_sources :: "source_ref list"
  di_success_sources :: "source_ref list"

record classify_request =
  rq_scope :: scope
  rq_current :: generation_vector
  rq_now :: i64
  rq_policy :: "fence_policy option"
  rq_evidence :: "delivery_evidence list"

definition diagnosis_new :: "classify_request \<Rightarrow> diagnosis" where
  "diagnosis_new req = \<lparr>di_outcome = O_NoEvidence, di_classification = C_NoEvidence,
     di_primary_reason = R_NoEvidenceObserved, di_reasons = [], di_scope = rq_scope req,
     di_gens = rq_current req, di_census = census_new, di_decided_at = rq_now req,
     di_corroborated = False, di_corroboration_reason = R_CorroborationInsufficient,
     di_confidence_ppm = 0, di_failure_sources = [], di_success_sources = []\<rparr>"

definition add_reason :: "reason_code \<Rightarrow> u32 \<Rightarrow> diagnosis \<Rightarrow> diagnosis" where
  "add_reason c max_reasons d =
     (if length (di_reasons d) \<ge> unat max_reasons then d
      else if c \<in> set (di_reasons d) then d
      else d\<lparr>di_reasons := di_reasons d @ [c]\<rparr>)"

definition is_loss_kind :: "evidence_kind \<Rightarrow> bool" where
  "is_loss_kind k \<longleftrightarrow> k = K_DeliverySuccess \<or> k = K_DeliveryFailure \<or> k = K_LossMeasurement"

subsection \<open>The loop over the observations\<close>

record census_state =
  cs_census :: census
  cs_failure_sources :: "source_ref list"
  cs_success_sources :: "source_ref list"
  cs_attempts_by_source :: "(source_ref, u64) omap"
  cs_any_quality_rejected :: bool
  cs_any_invalid :: bool
  cs_worst_mismatch :: gen_mismatch

definition census_start :: census_state where
  "census_start = \<lparr>cs_census = census_new\<lparr>ce_min_loss_ppm := kLossTotalPpm, ce_max_loss_ppm := 0\<rparr>,
     cs_failure_sources = [], cs_success_sources = [], cs_attempts_by_source = [],
     cs_any_quality_rejected = False, cs_any_invalid = False, cs_worst_mismatch = G_None\<rparr>"

definition merge_mismatch :: "gen_mismatch \<Rightarrow> gen_mismatch \<Rightarrow> gen_mismatch" where
  "merge_mismatch worst m =
     (if worst = G_None then m else if worst \<noteq> m then G_Multiple else worst)"

definition complete_failure :: "fence_policy \<Rightarrow> delivery_evidence \<Rightarrow> bool" where
  "complete_failure policy e \<longleftrightarrow>
     ev_loss_ppm e \<ge> pol_complete_failure_ppm policy \<and> ev_failures e > 0 \<and>
     ev_failures e = ev_attempts e"

definition clean_success :: "delivery_evidence \<Rightarrow> bool" where
  "clean_success e \<longleftrightarrow> ev_failures e = 0 \<and> ev_attempts e > 0 \<and> ev_loss_ppm e = 0"

text \<open>The case of the switch shared by the three kinds that measure delivery.\<close>

definition census_loss :: "fence_policy \<Rightarrow> delivery_evidence \<Rightarrow> census_state \<Rightarrow> census_state" where
  "census_loss policy e s =
     (let c = cs_census s;
          c = c\<lparr>ce_min_loss_ppm := min (ce_min_loss_ppm c) (ev_loss_ppm e),
                ce_max_loss_ppm := max (ce_max_loss_ppm c) (ev_loss_ppm e)\<rparr>
      in if complete_failure policy e then
           s\<lparr>cs_census := c\<lparr>ce_complete_failures := ce_complete_failures c + 1,
               ce_failure_attempts := ce_failure_attempts c + ev_attempts e,
               ce_failure_losses := ce_failure_losses c + ev_failures e\<rparr>,
             cs_failure_sources := insort_insert (ev_source e) (cs_failure_sources s),
             cs_attempts_by_source := omap_put (cs_attempts_by_source s) (ev_source e)
               ((case omap_find (cs_attempts_by_source s) (ev_source e) of None \<Rightarrow> 0 | Some n \<Rightarrow> n)
                + ev_attempts e)\<rparr>
         else if clean_success e then
           s\<lparr>cs_census := c\<lparr>ce_clean_successes := ce_clean_successes c + 1,
               ce_success_attempts := ce_success_attempts c + ev_attempts e\<rparr>,
             cs_success_sources := insort_insert (ev_source e) (cs_success_sources s)\<rparr>
         else s\<lparr>cs_census := c\<rparr>)"

definition census_step ::
  "fence_policy \<Rightarrow> generation_vector \<Rightarrow> i64 \<Rightarrow> delivery_evidence \<Rightarrow> census_state \<Rightarrow> census_state" where
  "census_step policy current now e s =
     (let c = (cs_census s)\<lparr>ce_total := ce_total (cs_census s) + 1\<rparr> in
      if \<not> structurally_valid e then
        s\<lparr>cs_census := c\<lparr>ce_invalid := ce_invalid c + 1\<rparr>, cs_any_invalid := True\<rparr>
      else if ev_gens e \<noteq> current then
        s\<lparr>cs_census := c\<lparr>ce_generation_mismatch := ce_generation_mismatch c + 1\<rparr>,
          cs_worst_mismatch := merge_mismatch (cs_worst_mismatch s) (classify_mismatch (ev_gens e) current)\<rparr>
      else if \<not> is_fresh_at (ev_fresh e) now then
        s\<lparr>cs_census := c\<lparr>ce_stale := ce_stale c + 1\<rparr>\<rparr>
      else if pol_require_exact_quality policy \<and> ev_quality e \<noteq> Q_Exact then
        s\<lparr>cs_census := c\<lparr>ce_quality_rejected := ce_quality_rejected c + 1\<rparr>,
          cs_any_quality_rejected := True\<rparr>
      else
        (let c = c\<lparr>ce_fresh_current := ce_fresh_current c + 1\<rparr> in
         case ev_kind e of
           K_StructuralWithdrawal \<Rightarrow> s\<lparr>cs_census := c\<lparr>ce_withdrawals := ce_withdrawals c + 1\<rparr>\<rparr>
         | K_CongestionSignal \<Rightarrow>
             s\<lparr>cs_census := c\<lparr>ce_congestion_signals := ce_congestion_signals c + 1\<rparr>\<rparr>
         | K_PartitionSignal \<Rightarrow>
             s\<lparr>cs_census := c\<lparr>ce_partition_signals := ce_partition_signals c + 1\<rparr>\<rparr>
         | _ \<Rightarrow> census_loss policy e (s\<lparr>cs_census := c\<rparr>)))"

definition distinct_incarnations :: "source_ref list \<Rightarrow> u64 list" where
  "distinct_incarnations ss = fold (\<lambda>s incs. insort_insert (sr_incarnation s) incs) ss []"

text \<open>The loop and the assignments after it.\<close>

definition take_census ::
  "fence_policy \<Rightarrow> generation_vector \<Rightarrow> i64 \<Rightarrow> delivery_evidence list \<Rightarrow> census_state" where
  "take_census policy current now es =
     (let s = fold (census_step policy current now) es census_start in
      s\<lparr>cs_census := (cs_census s)\<lparr>ce_mismatch := cs_worst_mismatch s,
          ce_failure_sources := of_nat (length (cs_failure_sources s)),
          ce_success_sources := of_nat (length (cs_success_sources s)),
          ce_failure_incarnations := of_nat (length (distinct_incarnations (cs_failure_sources s))),
          ce_success_incarnations := of_nat (length (distinct_incarnations (cs_success_sources s)))\<rparr>\<rparr>)"

subsection \<open>Corroboration and the rules\<close>

definition evaluate_corroboration :: "diagnosis \<Rightarrow> fence_policy \<Rightarrow> bool \<times> reason_code" where
  "evaluate_corroboration d policy =
     (if di_classification d \<noteq> C_Blackhole then (False, R_PolicyRefused)
      else if di_outcome d \<noteq> O_Ok then (False, R_PolicyRefused)
      else if ce_failure_sources (di_census d) < pol_min_corroborating_sources policy
        then (False, R_SourcesInsufficient)
      else if ce_failure_incarnations (di_census d) < pol_min_distinct_incarnations policy
        then (False, R_IncarnationsInsufficient)
      else if ce_failure_attempts (di_census d) < pol_min_total_attempts policy
        then (False, R_AttemptsInsufficient)
      else if pol_require_full_generation_agreement policy \<and> ce_generation_mismatch (di_census d) > 0
        then (False, R_GenerationMismatch)
      else (True, R_CorroborationSatisfied))"

definition verdict :: "outcome \<Rightarrow> classification \<Rightarrow> reason_code \<Rightarrow> u32 \<Rightarrow> diagnosis \<Rightarrow> diagnosis" where
  "verdict oc c reason max_reasons d =
     add_reason reason max_reasons
       (d\<lparr>di_outcome := oc, di_classification := c, di_primary_reason := reason\<rparr>)"

text \<open>Rule 2: nothing usable under the current generation.\<close>

definition nothing_usable :: "u32 \<Rightarrow> census_state \<Rightarrow> diagnosis \<Rightarrow> diagnosis" where
  "nothing_usable max_reasons s out =
     (let c = di_census out; out = out\<lparr>di_classification := C_Unknown\<rparr>;
          out =
            (if ce_stale c > 0 \<and> ce_generation_mismatch c = 0 then
               add_reason R_FreshnessWindowExpired max_reasons
                 (add_reason R_OnlyStaleEvidence max_reasons
                   (out\<lparr>di_outcome := O_Stale, di_primary_reason := R_OnlyStaleEvidence\<rparr>))
             else if ce_generation_mismatch c > 0 then
               add_reason R_GenerationMismatch max_reasons
                 (out\<lparr>di_outcome := O_Stale, di_primary_reason := R_GenerationMismatch\<rparr>)
             else if ce_quality_rejected c > 0 then
               add_reason R_QualityBelowPolicy max_reasons
                 (out\<lparr>di_outcome := O_Unknown, di_primary_reason := R_QualityBelowPolicy\<rparr>)
             else
               add_reason (if cs_any_invalid s then R_InvalidEvidenceRejected else R_OnlyStaleEvidence)
                 max_reasons
                 (out\<lparr>di_outcome := O_Unknown, di_primary_reason := R_InvalidEvidenceRejected\<rparr>))
      in if cs_any_quality_rejected s then add_reason R_QualityBelowPolicy max_reasons out else out)"

text \<open>Rule 7: a complete delivery failure with no competing explanation.\<close>

definition declare_blackhole :: "fence_policy \<Rightarrow> u32 \<Rightarrow> diagnosis \<Rightarrow> diagnosis" where
  "declare_blackhole policy max_reasons d =
     (let out = verdict O_Ok C_Blackhole R_CompleteDeliveryFailure max_reasons d;
          (ok, reason) = evaluate_corroboration out policy;
          out = out\<lparr>di_corroborated := ok, di_corroboration_reason := reason\<rparr>;
          out = add_reason reason max_reasons out;
          src = ce_failure_sources (di_census out);
          need = pol_min_corroborating_sources policy
      in out\<lparr>di_confidence_ppm :=
           (if src \<ge> need then kLossTotalPpm
            else ucast ((ucast src * ucast kLossTotalPpm :: u64) div ucast need))\<rparr>)"

text \<open>The nine rules, in the order of the code, on a diagnosis that holds the census.\<close>

definition apply_rules :: "fence_policy \<Rightarrow> census_state \<Rightarrow> diagnosis \<Rightarrow> diagnosis" where
  "apply_rules policy s out =
     (let c = di_census out; max_reasons = pol_max_reasons_per_decision policy in
      if ce_total c = 0 then verdict O_NoEvidence C_NoEvidence R_NoEvidenceObserved max_reasons out
      else if ce_fresh_current c = 0 then nothing_usable max_reasons s out
      else if ce_withdrawals c > 0 \<and> ce_clean_successes c = 0 then
        verdict O_Unsupported C_Unknown R_StructurallyWithdrawn max_reasons out
      else if ce_partition_signals c > 0 then
        verdict O_Ok C_Partitioned R_PartitionExplainsLoss max_reasons out
      else if ce_congestion_signals c > 0 then
        verdict O_Ok C_Congested R_CongestionExplainsLoss max_reasons out
      else if ce_complete_failures c > 0 \<and> ce_clean_successes c > 0 then
        verdict O_Conflict C_Unknown R_ConflictingEvidence max_reasons out
      else if ce_complete_failures c > 0 then declare_blackhole policy max_reasons out
      else if ce_max_loss_ppm c > 0 then
        (verdict O_Ok C_Lossy
          (if ce_max_loss_ppm c \<ge> pol_severe_loss_ppm policy then R_SevereLossObserved
           else R_PartialLossObserved) max_reasons out)
          \<lparr>di_confidence_ppm := ce_max_loss_ppm c\<rparr>
      else (verdict O_Ok C_Healthy R_RestorationEvidenceFresh max_reasons out)
          \<lparr>di_confidence_ppm := kLossTotalPpm\<rparr>)"

definition refuse_input :: "u32 \<Rightarrow> diagnosis \<Rightarrow> diagnosis" where
  "refuse_input max_reasons out = verdict O_Invalid C_Unknown R_UnsupportedInput max_reasons out"

text \<open>\<open>classify\<close> returns the outcome it stores in the diagnosis.\<close>

definition classify :: "classify_request \<Rightarrow> diagnosis" where
  "classify req =
     (let out = diagnosis_new req in
      case rq_policy req of
        None \<Rightarrow> refuse_input 8 out
      | Some policy \<Rightarrow>
          if \<not> sc_is_valid (rq_scope req) \<or> \<not> gv_is_complete (rq_current req)
          then refuse_input (pol_max_reasons_per_decision policy) out
          else
            (let s = take_census policy (rq_current req) (rq_now req) (rq_evidence req) in
             apply_rules policy s
               (out\<lparr>di_census := cs_census s, di_failure_sources := cs_failure_sources s,
                    di_success_sources := cs_success_sources s\<rparr>)))"

definition diagnosis_fingerprint :: "diagnosis \<Rightarrow> u64" where
  "diagnosis_fingerprint d =
     (let c = di_census d;
          w = wseq [w_u8 (outcome_code (di_outcome d)), w_u16 (classification_code (di_classification d)),
            w_u16 (reason_code_code (di_primary_reason d)), encode_scope (di_scope d),
            encode_generation_vector (di_gens d), w_u32 (ce_total c), w_u32 (ce_fresh_current c),
            w_u32 (ce_complete_failures c), w_u32 (ce_clean_successes c), w_u32 (ce_congestion_signals c),
            w_u32 (ce_partition_signals c), w_u32 (ce_withdrawals c), w_u32 (ce_failure_sources c),
            w_u32 (ce_failure_incarnations c), w_u64 (ce_failure_attempts c),
            wfor (di_failure_sources d) encode_source_ref] (writer_new 1024)
      in if \<not> wok w then 0 else fnv1a64 (wbuf w))"


subsection \<open>What the loop computes\<close>

definition usable :: "fence_policy \<Rightarrow> generation_vector \<Rightarrow> i64 \<Rightarrow> delivery_evidence \<Rightarrow> bool" where
  "usable policy current now e \<longleftrightarrow>
     structurally_valid e \<and> ev_gens e = current \<and> is_fresh_at (ev_fresh e) now \<and>
     (pol_require_exact_quality policy \<longrightarrow> ev_quality e = Q_Exact)"

definition usable_failure :: "fence_policy \<Rightarrow> generation_vector \<Rightarrow> i64 \<Rightarrow> delivery_evidence \<Rightarrow> bool" where
  "usable_failure policy current now e \<longleftrightarrow>
     usable policy current now e \<and> is_loss_kind (ev_kind e) \<and> complete_failure policy e"

definition usable_success :: "fence_policy \<Rightarrow> generation_vector \<Rightarrow> i64 \<Rightarrow> delivery_evidence \<Rightarrow> bool" where
  "usable_success policy current now e \<longleftrightarrow>
     usable policy current now e \<and> is_loss_kind (ev_kind e) \<and> \<not> complete_failure policy e \<and>
     clean_success e"

abbreviation mismatched :: "generation_vector \<Rightarrow> delivery_evidence \<Rightarrow> bool" where
  "mismatched current e \<equiv> structurally_valid e \<and> ev_gens e \<noteq> current"

abbreviation outdated :: "generation_vector \<Rightarrow> i64 \<Rightarrow> delivery_evidence \<Rightarrow> bool" where
  "outdated current now e \<equiv>
     structurally_valid e \<and> ev_gens e = current \<and> \<not> is_fresh_at (ev_fresh e) now"

abbreviation low_quality :: "fence_policy \<Rightarrow> generation_vector \<Rightarrow> i64 \<Rightarrow> delivery_evidence \<Rightarrow> bool" where
  "low_quality policy current now e \<equiv>
     structurally_valid e \<and> ev_gens e = current \<and> is_fresh_at (ev_fresh e) now \<and>
     pol_require_exact_quality policy \<and> ev_quality e \<noteq> Q_Exact"

lemmas usable_defs = usable_def usable_failure_def usable_success_def is_loss_kind_def

text \<open>The effect of one iteration on each field.\<close>

lemma census_step_counts:
  fixes e s policy current now
  defines "t \<equiv> cs_census (census_step policy current now e s)" and "c \<equiv> cs_census s"
  shows
  "ce_total t = ce_total c + 1"
  "ce_invalid t = ce_invalid c + of_bool (\<not> structurally_valid e)"
  "ce_generation_mismatch t = ce_generation_mismatch c + of_bool (mismatched current e)"
  "ce_stale t = ce_stale c + of_bool (outdated current now e)"
  "ce_quality_rejected t = ce_quality_rejected c + of_bool (low_quality policy current now e)"
  "ce_fresh_current t = ce_fresh_current c + of_bool (usable policy current now e)"
  "ce_withdrawals t = ce_withdrawals c +
     of_bool (usable policy current now e \<and> ev_kind e = K_StructuralWithdrawal)"
  "ce_congestion_signals t = ce_congestion_signals c +
     of_bool (usable policy current now e \<and> ev_kind e = K_CongestionSignal)"
  "ce_partition_signals t = ce_partition_signals c +
     of_bool (usable policy current now e \<and> ev_kind e = K_PartitionSignal)"
  "ce_complete_failures t = ce_complete_failures c + of_bool (usable_failure policy current now e)"
  "ce_clean_successes t = ce_clean_successes c + of_bool (usable_success policy current now e)"
  unfolding t_def c_def
  by (cases "ev_kind e"; simp add: census_step_def census_loss_def Let_def usable_defs; fail)+

lemma census_step_amounts:
  fixes e s policy current now
  defines "t \<equiv> cs_census (census_step policy current now e s)" and "c \<equiv> cs_census s"
  shows
  "ce_failure_attempts t = ce_failure_attempts c +
     (if usable_failure policy current now e then ev_attempts e else 0)"
  "ce_failure_losses t = ce_failure_losses c +
     (if usable_failure policy current now e then ev_failures e else 0)"
  "ce_success_attempts t = ce_success_attempts c +
     (if usable_success policy current now e then ev_attempts e else 0)"
  "ce_min_loss_ppm t = (if usable policy current now e \<and> is_loss_kind (ev_kind e)
     then min (ce_min_loss_ppm c) (ev_loss_ppm e) else ce_min_loss_ppm c)"
  "ce_max_loss_ppm t = (if usable policy current now e \<and> is_loss_kind (ev_kind e)
     then max (ce_max_loss_ppm c) (ev_loss_ppm e) else ce_max_loss_ppm c)"
  unfolding t_def c_def
  by (cases "ev_kind e"; simp add: census_step_def census_loss_def Let_def usable_defs; fail)+

lemma census_step_sources:
  fixes e s policy current now
  defines "t \<equiv> census_step policy current now e s"
  shows
  "cs_failure_sources t = (if usable_failure policy current now e
     then insort_insert (ev_source e) (cs_failure_sources s) else cs_failure_sources s)"
  "cs_success_sources t = (if usable_success policy current now e
     then insort_insert (ev_source e) (cs_success_sources s) else cs_success_sources s)"
  "cs_any_quality_rejected t \<longleftrightarrow> cs_any_quality_rejected s \<or> low_quality policy current now e"
  "cs_any_invalid t \<longleftrightarrow> cs_any_invalid s \<or> \<not> structurally_valid e"
  "cs_worst_mismatch t = (if mismatched current e
     then merge_mismatch (cs_worst_mismatch s) (classify_mismatch (ev_gens e) current)
     else cs_worst_mismatch s)"
  unfolding t_def
  by (cases "ev_kind e"; auto simp: census_step_def census_loss_def Let_def usable_defs; fail)+

text \<open>
  The census as a function of the collection of observations alone: counts, sums, extrema and
  sets, with no order left in it.
\<close>

abbreviation count_of :: "('a \<Rightarrow> bool) \<Rightarrow> 'a list \<Rightarrow> 'n::len word" where
  "count_of P xs \<equiv> of_nat (length (filter P xs))"

definition worst_of :: "gen_mismatch set \<Rightarrow> gen_mismatch" where
  "worst_of S = (if S = {} then G_None else if \<exists>m. S = {m} then the_elem S else G_Multiple)"

lemma merge_mismatch_worst:
  assumes "m \<noteq> G_None" and "G_None \<notin> S"
  shows "merge_mismatch (worst_of S) m = worst_of (insert m S)"
proof (cases "\<exists>a. S = {a}")
  case True
  then obtain a where a: "S = {a}" by blast
  show ?thesis
  proof (cases "a = m")
    case False
    then have "\<nexists>b. insert m {a} = {b}" by auto
    with a assms False show ?thesis by (auto simp: worst_of_def merge_mismatch_def)
  qed (use a assms in \<open>auto simp: worst_of_def merge_mismatch_def\<close>)
next
  case False
  show ?thesis
  proof (cases "S = {}")
    case empty: False
    have "\<nexists>b. insert m S = {b}"
      using False empty by (metis insert_not_empty subset_insertI subset_singleton_iff)
    with False empty show ?thesis by (auto simp: worst_of_def merge_mismatch_def)
  qed (simp add: worst_of_def merge_mismatch_def)
qed

lemma fold_census_snoc:
  "fold (census_step policy current now) (es @ [e]) s =
   census_step policy current now e (fold (census_step policy current now) es s)"
  by simp

lemma census_counts:
  fixes policy current now es
  defines "c \<equiv> cs_census (fold (census_step policy current now) es census_start)"
  shows
  "ce_total c = of_nat (length es)"
  "ce_invalid c = count_of (\<lambda>e. \<not> structurally_valid e) es"
  "ce_generation_mismatch c = count_of (mismatched current) es"
  "ce_stale c = count_of (outdated current now) es"
  "ce_quality_rejected c = count_of (low_quality policy current now) es"
  "ce_fresh_current c = count_of (usable policy current now) es"
  "ce_withdrawals c = count_of (\<lambda>e. usable policy current now e \<and> ev_kind e = K_StructuralWithdrawal) es"
  "ce_congestion_signals c =
     count_of (\<lambda>e. usable policy current now e \<and> ev_kind e = K_CongestionSignal) es"
  "ce_partition_signals c =
     count_of (\<lambda>e. usable policy current now e \<and> ev_kind e = K_PartitionSignal) es"
  "ce_complete_failures c = count_of (usable_failure policy current now) es"
  "ce_clean_successes c = count_of (usable_success policy current now) es"
  unfolding c_def
  by (induction es rule: rev_induct;
      simp add: census_start_def census_new_def census_step_counts add.commute; fail)+

lemma census_amounts:
  fixes policy current now es
  defines "c \<equiv> cs_census (fold (census_step policy current now) es census_start)"
  shows
  "ce_failure_attempts c = sum_list (map ev_attempts (filter (usable_failure policy current now) es))"
  "ce_failure_losses c = sum_list (map ev_failures (filter (usable_failure policy current now) es))"
  "ce_success_attempts c = sum_list (map ev_attempts (filter (usable_success policy current now) es))"
  "ce_min_loss_ppm c = Min (insert kLossTotalPpm (ev_loss_ppm `
     {e \<in> set es. usable policy current now e \<and> is_loss_kind (ev_kind e)}))"
  "ce_max_loss_ppm c = Max (insert 0 (ev_loss_ppm `
     {e \<in> set es. usable policy current now e \<and> is_loss_kind (ev_kind e)}))"
proof -
  let ?L = "\<lambda>es. {e \<in> set es. usable policy current now e \<and> is_loss_kind (ev_kind e)}"
  have L: "?L (es @ [e]) = (if usable policy current now e \<and> is_loss_kind (ev_kind e)
      then insert e (?L es) else ?L es)" for es e by auto
  show "ce_failure_attempts c = sum_list (map ev_attempts (filter (usable_failure policy current now) es))"
    "ce_failure_losses c = sum_list (map ev_failures (filter (usable_failure policy current now) es))"
    "ce_success_attempts c = sum_list (map ev_attempts (filter (usable_success policy current now) es))"
    unfolding c_def
    by (induction es rule: rev_induct;
        simp add: census_start_def census_new_def census_step_amounts; fail)+
  show "ce_min_loss_ppm c = Min (insert kLossTotalPpm (ev_loss_ppm ` ?L es))" unfolding c_def
  proof (induction es rule: rev_induct)
    case (snoc e es)
    then show ?case
      by (simp add: census_step_amounts L insert_commute [of kLossTotalPpm "ev_loss_ppm e"] min.commute
          del: set_append)
  qed (simp add: census_start_def census_new_def)
  show "ce_max_loss_ppm c = Max (insert 0 (ev_loss_ppm ` ?L es))" unfolding c_def
  proof (induction es rule: rev_induct)
    case (snoc e es)
    then show ?case
      by (simp add: census_step_amounts L insert_commute [of 0 "ev_loss_ppm e"] max.commute
          del: set_append)
  qed (simp add: census_start_def census_new_def)
qed

text \<open>A \<open>std::set\<close> built by insertions is the sorted list of what was inserted.\<close>

lemma insort_insert_sorted_list:
  "finite S \<Longrightarrow> insort_insert x (sorted_list_of_set S) = sorted_list_of_set (insert x S)"
  by (cases "x \<in> S") (simp_all add: insort_insert_key_def insert_absorb)

lemma census_sets:
  fixes policy current now es
  defines "s \<equiv> fold (census_step policy current now) es census_start"
  shows
  "cs_failure_sources s =
     sorted_list_of_set (ev_source ` {e \<in> set es. usable_failure policy current now e})"
  "cs_success_sources s =
     sorted_list_of_set (ev_source ` {e \<in> set es. usable_success policy current now e})"
  "cs_any_quality_rejected s \<longleftrightarrow> (\<exists>e \<in> set es. low_quality policy current now e)"
  "cs_any_invalid s \<longleftrightarrow> (\<exists>e \<in> set es. \<not> structurally_valid e)"
  "cs_worst_mismatch s =
     worst_of ((\<lambda>e. classify_mismatch (ev_gens e) current) ` {e \<in> set es. mismatched current e})"
proof -
  have grow: "{x \<in> set (es @ [e]). P x} = (if P e then insert e {x \<in> set es. P x} else {x \<in> set es. P x})"
    for es e and P :: "delivery_evidence \<Rightarrow> bool" by auto
  show "cs_failure_sources s =
      sorted_list_of_set (ev_source ` {e \<in> set es. usable_failure policy current now e})"
    "cs_success_sources s =
      sorted_list_of_set (ev_source ` {e \<in> set es. usable_success policy current now e})"
    unfolding s_def
    by (induction es rule: rev_induct;
        simp add: census_start_def census_step_sources insort_insert_sorted_list grow
          del: set_append sorted_list_of_set_insert_remove; fail)+
  show "cs_any_quality_rejected s \<longleftrightarrow> (\<exists>e \<in> set es. low_quality policy current now e)"
    unfolding s_def
    by (induction es rule: rev_induct) (auto simp: census_start_def census_step_sources)
  show "cs_any_invalid s \<longleftrightarrow> (\<exists>e \<in> set es. \<not> structurally_valid e)"
    unfolding s_def
    by (induction es rule: rev_induct) (auto simp: census_start_def census_step_sources)
  show "cs_worst_mismatch s =
      worst_of ((\<lambda>e. classify_mismatch (ev_gens e) current) ` {e \<in> set es. mismatched current e})"
    unfolding s_def
  proof (induction es rule: rev_induct)
    case (snoc e es)
    have "G_None \<notin> (\<lambda>e. classify_mismatch (ev_gens e) current) ` {e \<in> set es. mismatched current e}"
      by (auto simp: classify_mismatch_None dest: sym)
    moreover have "mismatched current e \<Longrightarrow> classify_mismatch (ev_gens e) current \<noteq> G_None"
      by (simp add: classify_mismatch_None)
    ultimately show ?case
      using snoc merge_mismatch_worst
      by (simp add: census_step_sources grow del: set_append)
  qed (simp add: census_start_def worst_of_def)
qed

subsection \<open>The order of the observations does not matter\<close>

lemma length_filter_perm: "mset xs = mset ys \<Longrightarrow> length (filter P xs) = length (filter P ys)"
  by (metis mset_filter size_mset)

lemma sum_filter_perm:
  "mset xs = mset ys \<Longrightarrow> sum_list (map f (filter P xs)) = sum_list (map f (filter P ys))"
  for f :: "'a \<Rightarrow> 'b::comm_monoid_add"
  by (metis mset_filter mset_map sum_mset_sum_list)

lemma take_census_perm:
  assumes "mset es = mset es'"
  shows "cs_census (take_census policy current now es) = cs_census (take_census policy current now es')"
    and "cs_failure_sources (take_census policy current now es) =
      cs_failure_sources (take_census policy current now es')"
    and "cs_success_sources (take_census policy current now es) =
      cs_success_sources (take_census policy current now es')"
    and "cs_any_quality_rejected (take_census policy current now es) =
      cs_any_quality_rejected (take_census policy current now es')"
    and "cs_any_invalid (take_census policy current now es) =
      cs_any_invalid (take_census policy current now es')"
proof -
  have set: "set es = set es'" and len: "length es = length es'"
    using assms by (auto dest: mset_eq_setD mset_eq_length)
  note perm = length_filter_perm [OF assms] sum_filter_perm [OF assms] set len
  show "cs_census (take_census policy current now es) = cs_census (take_census policy current now es')"
    by (rule census.equality)
      (simp_all add: take_census_def Let_def census_counts census_amounts census_sets perm)
  show "cs_failure_sources (take_census policy current now es) =
      cs_failure_sources (take_census policy current now es')"
    "cs_success_sources (take_census policy current now es) =
      cs_success_sources (take_census policy current now es')"
    "cs_any_quality_rejected (take_census policy current now es) =
      cs_any_quality_rejected (take_census policy current now es')"
    "cs_any_invalid (take_census policy current now es) =
      cs_any_invalid (take_census policy current now es')"
    by (simp_all add: take_census_def Let_def census_sets set)
qed

lemma apply_rules_cong:
  "cs_any_quality_rejected s = cs_any_quality_rejected t \<Longrightarrow> cs_any_invalid s = cs_any_invalid t \<Longrightarrow>
    apply_rules policy s d = apply_rules policy t d"
  by (simp add: apply_rules_def nothing_usable_def Let_def)

lemma classify_perm:
  assumes "mset es = mset (rq_evidence req)"
  shows "classify (req\<lparr>rq_evidence := es\<rparr>) = classify req"
proof (cases "rq_policy req")
  case (Some policy)
  note p = take_census_perm [OF assms, of policy "rq_current req" "rq_now req"]
  show ?thesis
    using Some apply_rules_cong [OF p(4,5)]
    by (simp add: classify_def Let_def diagnosis_new_def p(1,2,3))
qed (simp add: classify_def diagnosis_new_def)

subsection \<open>Counts as existence\<close>

lemma count_zero:
  "length xs < 2 ^ 32 \<Longrightarrow> (count_of P xs :: u32) = 0 \<longleftrightarrow> (\<forall>x \<in> set xs. \<not> P x)"
proof -
  assume "length xs < 2 ^ 32"
  then have "length (filter P xs) < 2 ^ 32" by (rule le_less_trans [OF length_filter_le])
  then have "(count_of P xs :: u32) = 0 \<longleftrightarrow> length (filter P xs) = 0"
    by (simp add: word_unat_eq_iff unat_of_nat)
  then show ?thesis by (simp add: filter_empty_conv)
qed


lemma count_pos:
  "length xs < 2 ^ 32 \<Longrightarrow> 0 < (count_of P xs :: u32) \<longleftrightarrow> (\<exists>x \<in> set xs. P x)"
  by (simp add: word_gt_0 count_zero)

lemma max_loss_pos:
  "0 < Max (insert 0 (f ` {e \<in> set es. P e})) \<longleftrightarrow> (\<exists>e \<in> set es. P e \<and> 0 < f e)"
  for f :: "'a \<Rightarrow> u32"
  by (auto simp: Max_gr_iff)

lemma add_reason_fields [simp]:
  "di_outcome (add_reason r m d) = di_outcome d"
  "di_classification (add_reason r m d) = di_classification d"
  "di_primary_reason (add_reason r m d) = di_primary_reason d"
  "di_census (add_reason r m d) = di_census d"
  "di_corroborated (add_reason r m d) = di_corroborated d"
  "di_scope (add_reason r m d) = di_scope d"
  "di_gens (add_reason r m d) = di_gens d"
  "di_decided_at (add_reason r m d) = di_decided_at d"
  "di_confidence_ppm (add_reason r m d) = di_confidence_ppm d"
  "di_failure_sources (add_reason r m d) = di_failure_sources d"
  "di_success_sources (add_reason r m d) = di_success_sources d"
  by (simp_all add: add_reason_def)

lemma verdict_fields [simp]:
  "di_outcome (verdict oc c r m d) = oc"
  "di_classification (verdict oc c r m d) = c"
  "di_primary_reason (verdict oc c r m d) = r"
  "di_census (verdict oc c r m d) = di_census d"
  "di_corroborated (verdict oc c r m d) = di_corroborated d"
  "di_scope (verdict oc c r m d) = di_scope d"
  "di_gens (verdict oc c r m d) = di_gens d"
  "di_decided_at (verdict oc c r m d) = di_decided_at d"
  "di_confidence_ppm (verdict oc c r m d) = di_confidence_ppm d"
  "di_failure_sources (verdict oc c r m d) = di_failure_sources d"
  by (simp_all add: verdict_def)

lemma declare_blackhole_fields [simp]:
  "di_outcome (declare_blackhole p m d) = O_Ok"
  "di_classification (declare_blackhole p m d) = C_Blackhole"
  "di_primary_reason (declare_blackhole p m d) = R_CompleteDeliveryFailure"
  "di_census (declare_blackhole p m d) = di_census d"
  "di_scope (declare_blackhole p m d) = di_scope d"
  "di_gens (declare_blackhole p m d) = di_gens d"
  "di_decided_at (declare_blackhole p m d) = di_decided_at d"
  "di_failure_sources (declare_blackhole p m d) = di_failure_sources d"
  by (simp_all add: declare_blackhole_def Let_def split: prod.split)

lemma nothing_usable_fields [simp]:
  "di_classification (nothing_usable m s d) = C_Unknown"
  "di_corroborated (nothing_usable m s d) = di_corroborated d"
  "di_census (nothing_usable m s d) = di_census d"
  "di_scope (nothing_usable m s d) = di_scope d"
  "di_gens (nothing_usable m s d) = di_gens d"
  "di_decided_at (nothing_usable m s d) = di_decided_at d"
  "di_failure_sources (nothing_usable m s d) = di_failure_sources d"
  by (simp_all add: nothing_usable_def Let_def)

text \<open>The nine rules over the observations themselves, with the conditions of the code.\<close>

definition coded_rules ::
  "fence_policy \<Rightarrow> generation_vector \<Rightarrow> i64 \<Rightarrow> delivery_evidence list \<Rightarrow> classification" where
  "coded_rules policy current now es =
     (let some = (\<lambda>P. list_ex (\<lambda>e. usable policy current now e \<and> P e) es) in
      if es = [] then C_NoEvidence
      else if \<not> some (\<lambda>_. True) then C_Unknown
      else if some (\<lambda>e. ev_kind e = K_StructuralWithdrawal) \<and>
        \<not> list_ex (usable_success policy current now) es then C_Unknown
      else if some (\<lambda>e. ev_kind e = K_PartitionSignal) then C_Partitioned
      else if some (\<lambda>e. ev_kind e = K_CongestionSignal) then C_Congested
      else if list_ex (usable_failure policy current now) es \<and>
        list_ex (usable_success policy current now) es then C_Unknown
      else if list_ex (usable_failure policy current now) es then C_Blackhole
      else if some (\<lambda>e. is_loss_kind (ev_kind e) \<and> ev_loss_ppm e > 0) then C_Lossy
      else C_Healthy)"




lemma take_census_counts:
  fixes policy current now es
  defines "c \<equiv> cs_census (take_census policy current now es)"
  assumes "length es < 2 ^ 32"
  shows "ce_total c = 0 \<longleftrightarrow> es = []"
    and "ce_fresh_current c = 0 \<longleftrightarrow> (\<forall>e \<in> set es. \<not> usable policy current now e)"
    and "0 < ce_withdrawals c \<longleftrightarrow> (\<exists>e \<in> set es. usable policy current now e \<and> ev_kind e = K_StructuralWithdrawal)"
    and "0 < ce_partition_signals c \<longleftrightarrow> (\<exists>e \<in> set es. usable policy current now e \<and> ev_kind e = K_PartitionSignal)"
    and "0 < ce_congestion_signals c \<longleftrightarrow> (\<exists>e \<in> set es. usable policy current now e \<and> ev_kind e = K_CongestionSignal)"
    and "0 < ce_complete_failures c \<longleftrightarrow> (\<exists>e \<in> set es. usable_failure policy current now e)"
    and "ce_clean_successes c = 0 \<longleftrightarrow> (\<forall>e \<in> set es. \<not> usable_success policy current now e)"
    and "0 < ce_clean_successes c \<longleftrightarrow> (\<exists>e \<in> set es. usable_success policy current now e)"
    and "0 < ce_generation_mismatch c \<longleftrightarrow> (\<exists>e \<in> set es. mismatched current e)"
    and "0 < ce_max_loss_ppm c \<longleftrightarrow>
      (\<exists>e \<in> set es. (usable policy current now e \<and> is_loss_kind (ev_kind e)) \<and> 0 < ev_loss_ppm e)"
proof -
  show "ce_total c = 0 \<longleftrightarrow> es = []"
    using count_zero [OF assms(2), of "\<lambda>_. True"]
    by (auto simp: c_def take_census_def Let_def census_counts neq_Nil_conv)
  show "0 < ce_max_loss_ppm c \<longleftrightarrow>
      (\<exists>e \<in> set es. (usable policy current now e \<and> is_loss_kind (ev_kind e)) \<and> 0 < ev_loss_ppm e)"
    using max_loss_pos [of ev_loss_ppm es "\<lambda>e. usable policy current now e \<and> is_loss_kind (ev_kind e)"]
    by (simp add: c_def take_census_def Let_def census_amounts)
qed (simp_all add: c_def take_census_def Let_def census_counts count_zero [OF assms(2)] count_pos [OF assms(2)])

text \<open>A request that reaches the loop.\<close>

definition request_ok :: "classify_request \<Rightarrow> fence_policy \<Rightarrow> bool" where
  "request_ok req policy \<longleftrightarrow>
     rq_policy req = Some policy \<and> sc_is_valid (rq_scope req) \<and> gv_is_complete (rq_current req)"

lemma classify_ok:
  assumes "request_ok req policy"
  shows "classify req =
    (let s = take_census policy (rq_current req) (rq_now req) (rq_evidence req) in
     apply_rules policy s ((diagnosis_new req)\<lparr>di_census := cs_census s,
       di_failure_sources := cs_failure_sources s, di_success_sources := cs_success_sources s\<rparr>))"
  using assms by (simp add: classify_def request_ok_def)

lemma classify_not_ok:
  assumes "\<nexists>policy. request_ok req policy"
  shows "di_classification (classify req) = C_Unknown" and "di_outcome (classify req) = O_Invalid"
    and "\<not> di_corroborated (classify req)"
  using assms
  by (auto simp: classify_def request_ok_def refuse_input_def diagnosis_new_def Let_def split: option.splits)

lemma apply_rules_classification:
  "di_classification (apply_rules policy s d) =
     (let c = di_census d in
      if ce_total c = 0 then C_NoEvidence
      else if ce_fresh_current c = 0 then C_Unknown
      else if ce_withdrawals c > 0 \<and> ce_clean_successes c = 0 then C_Unknown
      else if ce_partition_signals c > 0 then C_Partitioned
      else if ce_congestion_signals c > 0 then C_Congested
      else if ce_complete_failures c > 0 \<and> ce_clean_successes c > 0 then C_Unknown
      else if ce_complete_failures c > 0 then C_Blackhole
      else if ce_max_loss_ppm c > 0 then C_Lossy
      else C_Healthy)"
  by (simp add: apply_rules_def Let_def)

lemma classify_rules:
  assumes "request_ok req policy" and "length (rq_evidence req) < 2 ^ 32"
  shows "di_classification (classify req) =
    coded_rules policy (rq_current req) (rq_now req) (rq_evidence req)"
proof -
  note counts = take_census_counts [OF assms(2), of policy "rq_current req" "rq_now req"]
  show ?thesis
    by (simp add: classify_ok [OF assms(1)] Let_def apply_rules_classification coded_rules_def
        counts list_ex_iff cong: if_cong)
qed

lemma corroborated_blackhole:
  "di_corroborated (classify req) \<Longrightarrow> di_classification (classify req) = C_Blackhole \<and> di_outcome (classify req) = O_Ok"
  by (auto simp: classify_def refuse_input_def diagnosis_new_def apply_rules_def Let_def
      split: option.splits if_splits)

subsection \<open>Corroboration\<close>

abbreviation failing_sources ::
  "fence_policy \<Rightarrow> generation_vector \<Rightarrow> i64 \<Rightarrow> delivery_evidence list \<Rightarrow> source_ref set" where
  "failing_sources policy current now es \<equiv>
     ev_source ` {e \<in> set es. usable_failure policy current now e}"

lemma distinct_incarnations_conv:
  "distinct_incarnations ss = sorted_list_of_set (sr_incarnation ` set ss)"
proof -
  have "fold (\<lambda>s incs. insort_insert (sr_incarnation s) incs) ss (sorted_list_of_set A) =
      sorted_list_of_set (sr_incarnation ` set ss \<union> A)" if "finite A" for A
    using that
    by (induction ss arbitrary: A)
      (simp_all add: insort_insert_sorted_list del: sorted_list_of_set_insert_remove)
  from this [of "{}"] show ?thesis by (simp add: distinct_incarnations_def)
qed

lemma of_nat_card_le:
  assumes "card S < 2 ^ 32"
  shows "(m :: u32) \<le> of_nat (card S) \<longleftrightarrow> unat m \<le> card S"
  using assms by (simp add: word_le_nat_alt unat_of_nat)

lemma card_sources_bound:
  assumes "length es < 2 ^ 32"
  shows "card (failing_sources policy current now es) < 2 ^ 32"
    and "card (sr_incarnation ` failing_sources policy current now es) < 2 ^ 32"
proof -
  have "card (failing_sources policy current now es) \<le> card (set es)"
    by (rule surj_card_le [where f = ev_source and A = "set es", THEN order_trans]) auto
  also have "\<dots> \<le> length es" by (rule card_length)
  finally have le: "card (failing_sources policy current now es) \<le> length es" .
  with assms show "card (failing_sources policy current now es) < 2 ^ 32" by simp
  have "card (sr_incarnation ` failing_sources policy current now es) \<le> card (failing_sources policy current now es)"
    by (rule card_image_le) simp
  with le assms show "card (sr_incarnation ` failing_sources policy current now es) < 2 ^ 32" by simp
qed

lemma declare_blackhole_corroborated:
  "di_corroborated (declare_blackhole p m d) \<longleftrightarrow>
     pol_min_corroborating_sources p \<le> ce_failure_sources (di_census d) \<and>
     pol_min_distinct_incarnations p \<le> ce_failure_incarnations (di_census d) \<and>
     pol_min_total_attempts p \<le> ce_failure_attempts (di_census d) \<and>
     \<not> (pol_require_full_generation_agreement p \<and> ce_generation_mismatch (di_census d) > 0)"
  by (auto simp: declare_blackhole_def Let_def evaluate_corroboration_def split: prod.split)

lemma apply_rules_corroborated:
  "\<not> di_corroborated d \<Longrightarrow> di_corroborated (apply_rules policy s d) \<longleftrightarrow>
     di_classification (apply_rules policy s d) = C_Blackhole \<and>
     pol_min_corroborating_sources policy \<le> ce_failure_sources (di_census d) \<and>
     pol_min_distinct_incarnations policy \<le> ce_failure_incarnations (di_census d) \<and>
     pol_min_total_attempts policy \<le> ce_failure_attempts (di_census d) \<and>
     \<not> (pol_require_full_generation_agreement policy \<and> ce_generation_mismatch (di_census d) > 0)"
  by (simp add: apply_rules_def Let_def declare_blackhole_corroborated)

lemma classify_corroborated:
  assumes "request_ok req policy" and "length (rq_evidence req) < 2 ^ 32"
  shows "di_corroborated (classify req) \<longleftrightarrow>
    di_classification (classify req) = C_Blackhole \<and>
    unat (pol_min_corroborating_sources policy) \<le>
      card (failing_sources policy (rq_current req) (rq_now req) (rq_evidence req)) \<and>
    unat (pol_min_distinct_incarnations policy) \<le>
      card (sr_incarnation ` failing_sources policy (rq_current req) (rq_now req) (rq_evidence req)) \<and>
    pol_min_total_attempts policy \<le> sum_list (map ev_attempts
      (filter (usable_failure policy (rq_current req) (rq_now req)) (rq_evidence req))) \<and>
    (pol_require_full_generation_agreement policy \<longrightarrow>
      (\<forall>e \<in> set (rq_evidence req). \<not> mismatched (rq_current req) e))"
proof -
  let ?s = "take_census policy (rq_current req) (rq_now req) (rq_evidence req)"
  let ?S = "failing_sources policy (rq_current req) (rq_now req) (rq_evidence req)"
  note bound = card_sources_bound [OF assms(2), of policy "rq_current req" "rq_now req"]
  note counts = take_census_counts [OF assms(2), of policy "rq_current req" "rq_now req"]
  have src: "ce_failure_sources (cs_census ?s) = of_nat (card ?S)"
    by (simp add: take_census_def Let_def census_sets)
  have inc: "ce_failure_incarnations (cs_census ?s) = of_nat (card (sr_incarnation ` ?S))"
    by (simp add: take_census_def Let_def census_sets distinct_incarnations_conv)
  have att: "ce_failure_attempts (cs_census ?s) = sum_list (map ev_attempts
      (filter (usable_failure policy (rq_current req) (rq_now req)) (rq_evidence req)))"
    by (simp add: take_census_def Let_def census_amounts)
  show ?thesis
    unfolding classify_ok [OF assms(1)] Let_def
    by (subst apply_rules_corroborated)
      (simp_all add: diagnosis_new_def src inc att of_nat_card_le [OF bound(1)] of_nat_card_le [OF bound(2)]
        counts)
qed

lemma two_distinct: "2 \<le> card S \<Longrightarrow> \<exists>a \<in> S. \<exists>b \<in> S. a \<noteq> b"
  by (metis card_le_Suc0_iff_eq card.infinite not_less_eq_eq numeral_2_eq_2 zero_neq_numeral le_zero_eq)

subsection \<open>Properties\<close>

text \<open>
  C15. A subject is classified as a blackhole exactly when the request is well formed, some
  usable observation (structurally valid, of the current generation vector, fresh, of accepted
  quality) shows complete delivery failure, and no usable observation is a clean success, a
  structural withdrawal, a partition signal or a congestion signal. Stale, mismatched, invalid
  or low-quality observations never contribute.
\<close>

theorem blackhole_exact:
  assumes "length (rq_evidence req) < 2 ^ 32"
  shows "di_classification (classify req) = C_Blackhole \<longleftrightarrow>
    (\<exists>policy. request_ok req policy \<and>
      (\<exists>e \<in> set (rq_evidence req). usable_failure policy (rq_current req) (rq_now req) e) \<and>
      (\<forall>e \<in> set (rq_evidence req). usable policy (rq_current req) (rq_now req) e \<longrightarrow>
         \<not> usable_success policy (rq_current req) (rq_now req) e \<and>
         ev_kind e \<notin> {K_StructuralWithdrawal, K_PartitionSignal, K_CongestionSignal}))"
proof (cases "\<exists>policy. request_ok req policy")
  case True
  then obtain policy where ok: "request_ok req policy" by blast
  then have uniq: "request_ok req p \<longleftrightarrow> p = policy" for p by (auto simp: request_ok_def)
  have success: "usable_success policy c n e \<Longrightarrow> usable policy c n e"
    and failure: "usable_failure policy c n e \<Longrightarrow> usable policy c n e" for c n e
    by (simp_all add: usable_success_def usable_failure_def)
  show ?thesis
    unfolding uniq classify_rules [OF ok assms]
    by (auto simp: coded_rules_def list_ex_iff split: if_splits dest: success failure)
next
  case False
  then show ?thesis using classify_not_ok(1) [OF False] by simp
qed

text \<open>Two sources that both saw every attempt on path 1 fail.\<close>

definition second_evidence :: delivery_evidence where
  "second_evidence = sample_evidence\<lparr>ev_id := 2, ev_source := \<lparr>sr_source = 2, sr_boot = 2,
     sr_incarnation = 2, sr_epoch = 1\<rparr>\<rparr>"

definition sample_request :: classify_request where
  "sample_request = \<lparr>rq_scope = sample_scope, rq_current = sample_gens, rq_now = 1,
     rq_policy = Some default_policy, rq_evidence = [sample_evidence, second_evidence]\<rparr>"

lemma sample_request_ok: "request_ok sample_request default_policy"
  by (simp add: request_ok_def sample_request_def sample_simps)

lemma sample_failures:
  "usable_failure default_policy sample_gens 1 sample_evidence"
  "usable_failure default_policy sample_gens 1 second_evidence"
  "\<not> usable_success default_policy sample_gens 1 sample_evidence"
  "\<not> usable_success default_policy sample_gens 1 second_evidence"
  by (simp_all add: usable_defs complete_failure_def clean_success_def second_evidence_def sample_simps
      is_fresh_at_def default_policy_def)

lemma sample_kinds: "ev_kind sample_evidence = K_DeliveryFailure" "ev_kind second_evidence = K_DeliveryFailure"
  by (simp_all add: sample_evidence_def second_evidence_def)

theorem blackhole_exact_witness: "di_classification (classify sample_request) = C_Blackhole"
proof -
  have "length (rq_evidence sample_request) < 2 ^ 32" by (simp add: sample_request_def)
  from blackhole_exact [OF this] show ?thesis
    using sample_request_ok sample_failures sample_kinds
    by (auto simp: sample_request_def intro!: exI [of _ default_policy])
qed

lemma card_image_finer:
  assumes "finite S" and "\<And>x. f x = h (g x)"
  shows "card (f ` S) \<le> card (g ` S)"
proof -
  have "f ` S = h ` g ` S" by (simp add: image_image assms(2))
  then show ?thesis using assms(1) by (simp add: card_image_le)
qed

text \<open>
  C16. Corroboration lies between two readings of the policy's minima. A corroborated diagnosis is a
  blackhole whose usable complete failures come from at least \<open>min_corroborating_sources\<close> distinct
  source instances and at least \<open>min_distinct_incarnations\<close> distinct incarnations (so also that many
  pairs of boot and incarnation), whose attempts sum in 64 bits to at least \<open>min_total_attempts\<close>,
  and, where the policy asks for it, no structurally valid observation has another generation vector.
  Conversely a blackhole is corroborated when these minima hold with the sources counted by their
  \<open>EvidenceSourceId\<close> and each of them summarising at least \<open>min_attempts_per_source\<close> attempts, as
  the policy documents it. Between the two the code departs from the documentation: it counts source
  instances and does not enforce the minimum per source.
\<close>

theorem corroboration_between:
  assumes "request_ok req policy" and "length (rq_evidence req) < 2 ^ 32"
  defines "failures \<equiv> filter (usable_failure policy (rq_current req) (rq_now req)) (rq_evidence req)"
  defines "minima \<equiv> di_classification (classify req) = C_Blackhole \<and>
    unat (pol_min_distinct_incarnations policy) \<le> card ((\<lambda>e. sr_incarnation (ev_source e)) ` set failures) \<and>
    pol_min_total_attempts policy \<le> sum_list (map ev_attempts failures) \<and>
    (pol_require_full_generation_agreement policy \<longrightarrow>
      (\<forall>e \<in> set (rq_evidence req). \<not> (structurally_valid e \<and> ev_gens e \<noteq> rq_current req)))"
  shows "(di_corroborated (classify req) \<longrightarrow> minima \<and>
      unat (pol_min_corroborating_sources policy) \<le> card (ev_source ` set failures) \<and>
      unat (pol_min_distinct_incarnations policy) \<le>
        card ((\<lambda>e. (sr_boot (ev_source e), sr_incarnation (ev_source e))) ` set failures)) \<and>
    (minima \<and>
      unat (pol_min_corroborating_sources policy) \<le> card ((\<lambda>e. sr_source (ev_source e)) ` set failures) \<and>
      (\<forall>e \<in> set failures. unat (pol_min_attempts_per_source policy) \<le>
         sum_list (map (\<lambda>e'. unat (ev_attempts e'))
           (filter (\<lambda>e'. sr_source (ev_source e') = sr_source (ev_source e)) failures)))
     \<longrightarrow> di_corroborated (classify req))"
proof -
  have set: "{e \<in> set (rq_evidence req). usable_failure policy (rq_current req) (rq_now req) e} = set failures"
    by (auto simp: failures_def)
  note exact = classify_corroborated [OF assms(1,2), unfolded set image_image, folded failures_def]
  have pairs: "card ((\<lambda>e. sr_incarnation (ev_source e)) ` set failures) \<le>
      card ((\<lambda>e. (sr_boot (ev_source e), sr_incarnation (ev_source e))) ` set failures)"
    by (rule card_image_finer [where h = snd]) simp_all
  have sources: "card ((\<lambda>e. sr_source (ev_source e)) ` set failures) \<le> card (ev_source ` set failures)"
    by (rule card_image_finer [where h = sr_source]) simp_all
  show ?thesis
    unfolding exact minima_def using pairs sources by (auto dest: order_trans)
qed

lemma sample_failing_sources:
  "failing_sources default_policy sample_gens 1 [sample_evidence, second_evidence] =
     {ev_source sample_evidence, ev_source second_evidence}"
  using sample_failures by auto

lemma sample_request_corroborated: "di_corroborated (classify sample_request)"
proof -
  have bh: "di_classification (classify sample_request) = C_Blackhole"
    using classify_rules [OF sample_request_ok] sample_failures sample_kinds
    by (simp add: sample_request_def coded_rules_def usable_failure_def)
  have len: "length (rq_evidence sample_request) < 2 ^ 32" by (simp add: sample_request_def)
  show ?thesis
    unfolding classify_corroborated [OF sample_request_ok len]
    using bh sample_failing_sources sample_failures
    by (simp add: sample_request_def sample_simps second_evidence_def default_policy_def)
qed

theorem corroboration_between_witness: "di_corroborated (classify sample_request)"
proof -
  have bh: "di_classification (classify sample_request) = C_Blackhole"
    using sample_request_corroborated by (simp add: corroborated_blackhole)
  have len: "length (rq_evidence sample_request) < 2 ^ 32" by (simp add: sample_request_def)
  let ?es = "[sample_evidence, second_evidence]"
  have rq: "rq_evidence sample_request = ?es" "rq_current sample_request = sample_gens" "rq_now sample_request = 1"
    by (simp_all add: sample_request_def)
  have evs: "ev_source sample_evidence = sample_source" "ev_source second_evidence =
      \<lparr>sr_source = 2, sr_boot = 2, sr_incarnation = 2, sr_epoch = 1\<rparr>"
    "ev_gens sample_evidence = sample_gens" "ev_gens second_evidence = sample_gens"
    "ev_attempts sample_evidence = 32" "ev_attempts second_evidence = 32"
    by (simp_all add: sample_evidence_def second_evidence_def)
  have pol: "pol_min_corroborating_sources default_policy = 2" "pol_min_distinct_incarnations default_policy = 2"
    "pol_min_attempts_per_source default_policy = 16" "pol_min_total_attempts default_policy = 32"
    by (simp_all add: default_policy_def)
  have src: "sr_source sample_source = 1" "sr_incarnation sample_source = 1"
    by (simp_all add: sample_source_def)
  show ?thesis
    using corroboration_between [OF sample_request_ok len, unfolded rq] bh sample_failures
    by (simp add: evs pol src)
qed

lemma two_failing_incarnations:
  assumes "request_ok req policy" and "length (rq_evidence req) < 2 ^ 32"
    and "validate_policy policy = O_Ok" and "di_corroborated (classify req)"
  shows "\<exists>e1 \<in> set (rq_evidence req). \<exists>e2 \<in> set (rq_evidence req).
    usable_failure policy (rq_current req) (rq_now req) e1 \<and>
    usable_failure policy (rq_current req) (rq_now req) e2 \<and>
    sr_incarnation (ev_source e1) \<noteq> sr_incarnation (ev_source e2)"
proof -
  have "\<not> pol_min_distinct_incarnations policy < 2"
    using assms(3) by (auto simp: validate_policy_def policy_defect_def first_defect_None split: if_splits)
  then have "2 \<le> unat (pol_min_distinct_incarnations policy)" by (simp add: word_less_nat_alt)
  moreover have "unat (pol_min_distinct_incarnations policy) \<le>
      card (sr_incarnation ` failing_sources policy (rq_current req) (rq_now req) (rq_evidence req))"
    using assms(4) unfolding classify_corroborated [OF assms(1,2)] by blast
  ultimately have "2 \<le> card (sr_incarnation ` failing_sources policy (rq_current req) (rq_now req) (rq_evidence req))"
    by (rule order_trans)
  from two_distinct [OF this] show ?thesis by blast
qed

text \<open>
  Under a validated policy a corroborated blackhole rests on complete failures reported by
  two source instances with different incarnations: no single source instance can bring it about.
\<close>

theorem corroboration_needs_two_incarnations:
  assumes "request_ok req policy" and "length (rq_evidence req) < 2 ^ 32"
    and "validate_policy policy = O_Ok" and "di_corroborated (classify req)"
  shows "\<exists>e1 \<in> set (rq_evidence req). \<exists>e2 \<in> set (rq_evidence req).
    usable_failure policy (rq_current req) (rq_now req) e1 \<and>
    usable_failure policy (rq_current req) (rq_now req) e2 \<and>
    sr_incarnation (ev_source e1) \<noteq> sr_incarnation (ev_source e2)"
  using assms by (rule two_failing_incarnations)

theorem corroboration_needs_two_incarnations_witness:
  "\<exists>e1 \<in> {sample_evidence, second_evidence}. \<exists>e2 \<in> {sample_evidence, second_evidence}.
    usable_failure default_policy sample_gens 1 e1 \<and> usable_failure default_policy sample_gens 1 e2 \<and>
    sr_incarnation (ev_source e1) \<noteq> sr_incarnation (ev_source e2)"
proof -
  have len: "length (rq_evidence sample_request) < 2 ^ 32" by (simp add: sample_request_def)
  from corroboration_needs_two_incarnations [OF sample_request_ok len default_policy_valid sample_request_corroborated]
  show ?thesis by (simp add: sample_request_def)
qed

text \<open>
  The diagnosis does not depend on the order in which the observations are presented.
\<close>

theorem classify_order_independent:
  assumes "mset es = mset (rq_evidence req)"
  shows "classify (req\<lparr>rq_evidence := es\<rparr>) = classify req"
  by (rule classify_perm [OF assms])

theorem classify_order_independent_witness:
  "classify (sample_request\<lparr>rq_evidence := [second_evidence, sample_evidence]\<rparr>) = classify sample_request"
  by (rule classify_order_independent) (simp add: sample_request_def)



text \<open>
  The census accounts for every observation: the total is the sum of the invalid, the
  mismatched, the stale, the refused for quality and the usable ones, and the reported source
  counts are those of the reported source lists.
\<close>

theorem census_closed:
  "let s = take_census policy current now es in
    ce_total (cs_census s) = ce_invalid (cs_census s) + ce_generation_mismatch (cs_census s) +
      ce_stale (cs_census s) + ce_quality_rejected (cs_census s) + ce_fresh_current (cs_census s) \<and>
    ce_failure_sources (cs_census s) = of_nat (length (cs_failure_sources s)) \<and>
    sorted_wrt (<) (cs_failure_sources s) \<and>
    set (cs_failure_sources s) = failing_sources policy current now es"
proof -
  have "length es = length (filter (\<lambda>e. \<not> structurally_valid e) es) + length (filter (mismatched current) es)
      + length (filter (outdated current now) es) + length (filter (low_quality policy current now) es)
      + length (filter (usable policy current now) es)"
    by (induction es) (auto simp: usable_def)
  then have "(of_nat (length es) :: u32) = of_nat (length (filter (\<lambda>e. \<not> structurally_valid e) es)
      + length (filter (mismatched current) es) + length (filter (outdated current now) es)
      + length (filter (low_quality policy current now) es) + length (filter (usable policy current now) es))"
    by (rule arg_cong)
  then show ?thesis
    by (simp add: take_census_def Let_def census_counts census_sets)
qed

text \<open>
  The classifier reports a path as healthy with full confidence although every reported
  attempt failed, when the observation carries a loss rate of zero: nothing ties \<open>loss_ppm\<close> to
  \<open>failures\<close>, and the last rule needs no clean success.
\<close>

theorem all_failed_reported_healthy:
  "\<exists>req e. rq_evidence req = [e] \<and> request_ok req default_policy \<and>
     usable default_policy (rq_current req) (rq_now req) e \<and> ev_kind e = K_DeliveryFailure \<and>
     ev_failures e = ev_attempts e \<and> ev_attempts e > 0 \<and>
     di_classification (classify req) = C_Healthy \<and> di_confidence_ppm (classify req) = kLossTotalPpm"
proof -
  let ?e = "sample_evidence\<lparr>ev_loss_ppm := 0\<rparr>"
  let ?req = "sample_request\<lparr>rq_evidence := [?e]\<rparr>"
  have ok: "request_ok ?req default_policy" using sample_request_ok by (simp add: request_ok_def)
  have u: "usable default_policy sample_gens 1 ?e"
    by (simp add: usable_def sample_simps is_fresh_at_def default_policy_def)
  have bh: "di_classification (classify ?req) = C_Healthy"
    using classify_rules [OF ok] u
    by (simp add: sample_request_def coded_rules_def usable_failure_def usable_success_def
        complete_failure_def clean_success_def is_loss_kind_def sample_simps default_policy_def)
  moreover have "di_confidence_ppm (classify ?req) = kLossTotalPpm"
    using bh unfolding classify_ok [OF ok] apply_rules_def
    by (auto simp: Let_def split: if_splits)
  ultimately show ?thesis
    using ok u by (intro exI [of _ ?req] exI [of _ ?e]) (simp add: sample_request_def sample_evidence_def)
qed

text \<open>
  A source corroborates itself by restarting: the count of corroborating sources is the
  count of source instances, so two boots of one and the same evidence source satisfy the
  default policy.
\<close>

theorem restarted_source_corroborates_itself:
  "\<exists>req. request_ok req default_policy \<and> di_corroborated (classify req) \<and>
     list_all (\<lambda>e. sr_source (ev_source e) = 1) (rq_evidence req)"
proof -
  let ?e = "second_evidence\<lparr>ev_source := \<lparr>sr_source = 1, sr_boot = 2, sr_incarnation = 2, sr_epoch = 1\<rparr>\<rparr>"
  let ?req = "sample_request\<lparr>rq_evidence := [sample_evidence, ?e]\<rparr>"
  have ok: "request_ok ?req default_policy" using sample_request_ok by (simp add: request_ok_def)
  have u: "usable_failure default_policy sample_gens 1 ?e" "\<not> usable_success default_policy sample_gens 1 ?e"
    by (simp_all add: usable_defs complete_failure_def second_evidence_def sample_simps
        is_fresh_at_def default_policy_def)
  have bh: "di_classification (classify ?req) = C_Blackhole"
    using classify_rules [OF ok] u sample_failures sample_kinds
    by (simp add: sample_request_def coded_rules_def usable_failure_def)
  have "{e \<in> set [sample_evidence, ?e]. usable_failure default_policy sample_gens 1 e} = {sample_evidence, ?e}"
    using sample_failures(1) u(1) by auto
  then have set: "failing_sources default_policy sample_gens 1 [sample_evidence, ?e] =
      {ev_source sample_evidence, ev_source ?e}"
    by simp
  have "di_corroborated (classify ?req)"
    using classify_corroborated [OF ok] bh set sample_failures u
    by (simp add: sample_request_def sample_simps second_evidence_def default_policy_def)
  then show ?thesis
    using ok by (intro exI [of _ ?req]) (simp add: sample_simps)
qed

end
