(* ===== verification/BHG_Fences.thy ===== *)
theory BHG_Fences
  imports BHG_Classifier
begin

text \<open>
  Authority (\<open>authority.hpp\<close>, \<open>authority.cpp\<close>): the authority ladder, fencing intents and
  their lifecycle, the bounded registry of intents with its accounting, and the restoration
  gate. Every operation of \<open>FenceRegistry\<close> is a function on the registry record; the two loops
  over the records are recursive functions on the ordered map.
\<close>

subsection \<open>The authority ladder\<close>

datatype authority_stage =
    S_None | S_Observation | S_Eligibility | S_Authorization | S_Intent | S_Acknowledgement
  | S_VerifiedEffect

primrec authority_stage_code :: "authority_stage \<Rightarrow> u8" where
  "authority_stage_code S_None = 0"
| "authority_stage_code S_Observation = 1"
| "authority_stage_code S_Eligibility = 2"
| "authority_stage_code S_Authorization = 3"
| "authority_stage_code S_Intent = 4"
| "authority_stage_code S_Acknowledgement = 5"
| "authority_stage_code S_VerifiedEffect = 6"

definition all_authority_stage :: "authority_stage list" where
  "all_authority_stage =
    [S_None, S_Observation, S_Eligibility, S_Authorization, S_Intent, S_Acknowledgement,
     S_VerifiedEffect]"

definition is_valid_authority_stage :: "u8 \<Rightarrow> bool" where
  "is_valid_authority_stage raw \<longleftrightarrow> raw \<le> 6"

definition authority_stage_of_code :: "u8 \<Rightarrow> authority_stage" where
  "authority_stage_of_code = enum_cast authority_stage_code all_authority_stage"

primrec authority_stage_to_string :: "authority_stage \<Rightarrow> string" where
  "authority_stage_to_string S_None = ''NONE''"
| "authority_stage_to_string S_Observation = ''OBSERVATION''"
| "authority_stage_to_string S_Eligibility = ''ELIGIBILITY''"
| "authority_stage_to_string S_Authorization = ''AUTHORIZATION''"
| "authority_stage_to_string S_Intent = ''INTENT''"
| "authority_stage_to_string S_Acknowledgement = ''ACKNOWLEDGEMENT''"
| "authority_stage_to_string S_VerifiedEffect = ''VERIFIED_EFFECT''"

interpretation authority_stage_enum: wire_enum authority_stage_code is_valid_authority_stage authority_stage_of_code
  unfolding authority_stage_of_code_def
proof (rule wire_enumI)
  show "e \<in> set all_authority_stage" for e by (cases e) (simp_all add: all_authority_stage_def)
  show "distinct (map authority_stage_code all_authority_stage)" by (simp add: all_authority_stage_def)
  show "is_valid_authority_stage raw \<longleftrightarrow> raw \<in> set (map authority_stage_code all_authority_stage)" for raw
    using word_range_set [of 6 0 raw]
    by (simp add: is_valid_authority_stage_def all_authority_stage_def upt_rec)
qed

record authority_vector =
  av_stage :: authority_stage
  av_decision :: u64
  av_fence :: u64
  av_gens :: generation_vector
  av_boot :: u64
  av_incarnation :: u64
  av_policy :: u64
  av_issued_at :: i64
  av_expires_at :: i64
  av_revoked :: bool
  av_revoke_reason :: reason_code
  av_provenance :: provenance

definition av_is_positive :: "authority_vector \<Rightarrow> bool" where
  "av_is_positive v \<longleftrightarrow>
     authority_stage_code (av_stage v) \<ge> authority_stage_code S_Authorization \<and> \<not> av_revoked v"

definition is_binding_at ::
  "authority_vector \<Rightarrow> generation_vector \<Rightarrow> u64 \<Rightarrow> u64 \<Rightarrow> i64 \<Rightarrow> bool" where
  "is_binding_at v current current_boot current_incarnation now =
     (if \<not> av_is_positive v then False
      else if av_gens v \<noteq> current then False
      else if av_boot v \<noteq> current_boot then False
      else if av_incarnation v \<noteq> current_incarnation then False
      else av_expires_at v = 0 \<or> sint now < sint (av_expires_at v))"

subsection \<open>Intents and records\<close>

record fence_intent =
  fi_id :: u64
  fi_decision :: u64
  fi_scope :: scope
  fi_gens :: generation_vector
  fi_boot :: u64
  fi_incarnation :: u64
  fi_policy :: u64
  fi_provenance :: provenance
  fi_reason :: reason_code
  fi_issued_at :: i64
  fi_expires_at :: i64

definition scope_nil :: scope where
  "scope_nil = \<lparr>sc_kind = SK_Path, sc_path = 0, sc_node = 0, sc_link = 0, sc_begin_hop = 0, sc_end_hop = 0\<rparr>"

definition gens_nil :: generation_vector where
  "gens_nil = \<lparr>gv_path = 0, gv_topology = 0, gv_link_state = 0, gv_epoch = 0\<rparr>"

definition intent_nil :: fence_intent where
  "intent_nil = \<lparr>fi_id = 0, fi_decision = 0, fi_scope = scope_nil, fi_gens = gens_nil, fi_boot = 0,
     fi_incarnation = 0, fi_policy = 0, fi_provenance = P_Synthetic, fi_reason = R_None,
     fi_issued_at = 0, fi_expires_at = 0\<rparr>"

definition fi_is_valid :: "fence_intent \<Rightarrow> bool" where
  "fi_is_valid f \<longleftrightarrow>
     fi_id f \<noteq> 0 \<and> fi_decision f \<noteq> 0 \<and> sc_is_valid (fi_scope f) \<and> gv_is_complete (fi_gens f) \<and>
     fi_boot f \<noteq> 0 \<and> fi_incarnation f \<noteq> 0 \<and> sint (fi_expires_at f) > sint (fi_issued_at f)"

datatype fence_lifecycle =
    L_Intent | L_Acknowledged | L_EffectReported | L_Revoked | L_Expired | L_FencedByRestart

primrec fence_lifecycle_code :: "fence_lifecycle \<Rightarrow> u8" where
  "fence_lifecycle_code L_Intent = 0"
| "fence_lifecycle_code L_Acknowledged = 1"
| "fence_lifecycle_code L_EffectReported = 2"
| "fence_lifecycle_code L_Revoked = 3"
| "fence_lifecycle_code L_Expired = 4"
| "fence_lifecycle_code L_FencedByRestart = 5"

definition all_fence_lifecycle :: "fence_lifecycle list" where
  "all_fence_lifecycle =
    [L_Intent, L_Acknowledged, L_EffectReported, L_Revoked, L_Expired, L_FencedByRestart]"

definition is_valid_fence_lifecycle :: "u8 \<Rightarrow> bool" where
  "is_valid_fence_lifecycle raw \<longleftrightarrow> raw \<le> 5"

definition fence_lifecycle_of_code :: "u8 \<Rightarrow> fence_lifecycle" where
  "fence_lifecycle_of_code = enum_cast fence_lifecycle_code all_fence_lifecycle"

primrec fence_lifecycle_to_string :: "fence_lifecycle \<Rightarrow> string" where
  "fence_lifecycle_to_string L_Intent = ''INTENT''"
| "fence_lifecycle_to_string L_Acknowledged = ''ACKNOWLEDGED''"
| "fence_lifecycle_to_string L_EffectReported = ''EFFECT_REPORTED''"
| "fence_lifecycle_to_string L_Revoked = ''REVOKED''"
| "fence_lifecycle_to_string L_Expired = ''EXPIRED''"
| "fence_lifecycle_to_string L_FencedByRestart = ''FENCED_BY_RESTART''"

interpretation fence_lifecycle_enum: wire_enum fence_lifecycle_code is_valid_fence_lifecycle fence_lifecycle_of_code
  unfolding fence_lifecycle_of_code_def
proof (rule wire_enumI)
  show "e \<in> set all_fence_lifecycle" for e by (cases e) (simp_all add: all_fence_lifecycle_def)
  show "distinct (map fence_lifecycle_code all_fence_lifecycle)" by (simp add: all_fence_lifecycle_def)
  show "is_valid_fence_lifecycle raw \<longleftrightarrow> raw \<in> set (map fence_lifecycle_code all_fence_lifecycle)" for raw
    using word_range_set [of 5 0 raw]
    by (simp add: is_valid_fence_lifecycle_def all_fence_lifecycle_def upt_rec)
qed

record fence_record =
  rc_intent :: fence_intent
  rc_lifecycle :: fence_lifecycle
  rc_effect_verified :: bool
  rc_ack_owner :: u64
  rc_acked_at :: i64
  rc_effect_owner :: u64
  rc_effected_at :: i64
  rc_terminal_reason :: reason_code

definition record_new :: "fence_intent \<Rightarrow> fence_record" where
  "record_new intent = \<lparr>rc_intent = intent, rc_lifecycle = L_Intent, rc_effect_verified = False,
     rc_ack_owner = 0, rc_acked_at = 0, rc_effect_owner = 0, rc_effected_at = 0,
     rc_terminal_reason = R_None\<rparr>"

definition rc_is_open :: "fence_record \<Rightarrow> bool" where
  "rc_is_open r \<longleftrightarrow>
     rc_lifecycle r = L_Intent \<or> rc_lifecycle r = L_Acknowledged \<or> rc_lifecycle r = L_EffectReported"

record fence_stats =
  fs_issue_attempts :: u64
  fs_issued :: u64
  fs_open :: u64
  fs_acknowledged :: u64
  fs_effects_reported :: u64
  fs_effects_verified :: u64
  fs_revoked :: u64
  fs_expired :: u64
  fs_fenced_by_restart :: u64
  fs_duplicates_refused :: u64
  fs_capacity_refused :: u64
  fs_unknown_id_refused :: u64

definition stats_new :: fence_stats where
  "stats_new = \<lparr>fs_issue_attempts = 0, fs_issued = 0, fs_open = 0, fs_acknowledged = 0,
     fs_effects_reported = 0, fs_effects_verified = 0, fs_revoked = 0, fs_expired = 0,
     fs_fenced_by_restart = 0, fs_duplicates_refused = 0, fs_capacity_refused = 0,
     fs_unknown_id_refused = 0\<rparr>"

definition fs_accounting_closed :: "fence_stats \<Rightarrow> bool" where
  "fs_accounting_closed s \<longleftrightarrow>
     fs_issue_attempts s = fs_issued s + fs_duplicates_refused s + fs_capacity_refused s \<and>
     fs_issued s = fs_open s + fs_revoked s + fs_expired s + fs_fenced_by_restart s"

record fence_registry =
  fr_policy :: fence_policy
  fr_records :: "(u64, fence_record) omap"
  fr_stats :: fence_stats

definition registry_new :: "fence_policy \<Rightarrow> fence_registry" where
  "registry_new policy = \<lparr>fr_policy = policy, fr_records = [], fr_stats = stats_new\<rparr>"

definition registry_clear :: "fence_registry \<Rightarrow> fence_registry" where
  "registry_clear g = g\<lparr>fr_records := []\<rparr>"

subsection \<open>Issuing\<close>

record issue_args =
  ia_scope :: scope
  ia_gens :: generation_vector
  ia_boot :: u64
  ia_incarnation :: u64
  ia_provenance :: provenance
  ia_reason :: reason_code
  ia_now :: i64

text \<open>The first open record for the same subject under the same generation vector.\<close>

definition open_duplicate ::
  "(u64, fence_record) omap \<Rightarrow> scope \<Rightarrow> generation_vector \<Rightarrow> fence_record option" where
  "open_duplicate records scope gens =
     find (\<lambda>r. rc_is_open r \<and> fi_scope (rc_intent r) = scope \<and> fi_gens (rc_intent r) = gens)
       (map snd records)"

definition issue_input_ok :: "issue_args \<Rightarrow> bool" where
  "issue_input_ok a \<longleftrightarrow>
     sc_is_valid (ia_scope a) \<and> gv_is_complete (ia_gens a) \<and> ia_boot a \<noteq> 0 \<and> ia_incarnation a \<noteq> 0"

text \<open>The intent minted for admissible arguments, or the outcome that refuses it.\<close>

definition mint_intent :: "fence_policy \<Rightarrow> u64 \<Rightarrow> issue_args \<Rightarrow> (outcome \<times> reason_code) + fence_intent" where
  "mint_intent policy issue_attempts a =
     (let expires = checked_add_i64 (ia_now a) (pol_fence_ttl policy);
          expires_at = (case expires of Some t \<Rightarrow> t | None \<Rightarrow> ia_now a)
      in if expires = None \<or> sint expires_at \<le> sint (ia_now a) then Inl (O_Invalid, R_UnsupportedInput)
         else
           (let w = wseq [encode_scope (ia_scope a), encode_generation_vector (ia_gens a),
                  w_u64 (ia_boot a), w_u64 (ia_incarnation a), w_i64 (ia_now a), w_u64 issue_attempts]
                (writer_new 512)
            in if \<not> wok w then Inl (O_Exhausted, R_BudgetExhausted)
               else
                 (let fid = fnv1a64 (wbuf w) in
                  Inr \<lparr>fi_id = fid, fi_decision = mix64 fid 0x5EED1234, fi_scope = ia_scope a,
                    fi_gens = ia_gens a, fi_boot = ia_boot a, fi_incarnation = ia_incarnation a,
                    fi_policy = pol_version policy, fi_provenance = ia_provenance a,
                    fi_reason = ia_reason a, fi_issued_at = ia_now a, fi_expires_at = expires_at\<rparr>)))"

text \<open>\<open>issue\<close>: the outcome, the reason and the id it reports.\<close>

definition issue :: "issue_args \<Rightarrow> fence_registry \<Rightarrow> (outcome \<times> reason_code \<times> u64) \<times> fence_registry" where
  "issue a g0 =
     (let s = (fr_stats g0)\<lparr>fs_issue_attempts := fs_issue_attempts (fr_stats g0) + 1\<rparr>;
          g = g0\<lparr>fr_stats := s\<rparr>
      in if \<not> issue_input_ok a then ((O_Invalid, R_UnsupportedInput, 0), g)
         else case open_duplicate (fr_records g) (ia_scope a) (ia_gens a) of
           Some r \<Rightarrow> ((O_Duplicate, R_FenceIntentIssued, fi_id (rc_intent r)),
             g\<lparr>fr_stats := s\<lparr>fs_duplicates_refused := fs_duplicates_refused s + 1\<rparr>\<rparr>)
         | None \<Rightarrow>
           if length (fr_records g) \<ge> unat (pol_max_fences (fr_policy g)) then
             ((O_Exhausted, R_BudgetExhausted, 0),
              g\<lparr>fr_stats := s\<lparr>fs_capacity_refused := fs_capacity_refused s + 1\<rparr>\<rparr>)
           else case mint_intent (fr_policy g) (fs_issue_attempts s) a of
             Inl (oc, reason) \<Rightarrow> ((oc, reason, 0), g)
           | Inr intent \<Rightarrow>
             if omap_find (fr_records g) (fi_id intent) \<noteq> None then
               ((O_Duplicate, R_DuplicateEvidence, 0),
                g\<lparr>fr_stats := s\<lparr>fs_duplicates_refused := fs_duplicates_refused s + 1\<rparr>\<rparr>)
             else
               ((O_Ok, R_FenceIntentIssued, fi_id intent),
                g\<lparr>fr_records := omap_put (fr_records g) (fi_id intent) (record_new intent),
                  fr_stats := s\<lparr>fs_issued := fs_issued s + 1, fs_open := fs_open s + 1\<rparr>\<rparr>))"

definition stage :: "issue_args \<Rightarrow> fence_registry \<Rightarrow> (outcome \<times> reason_code \<times> fence_intent) \<times> fence_registry" where
  "stage a g0 =
     (let s = (fr_stats g0)\<lparr>fs_issue_attempts := fs_issue_attempts (fr_stats g0) + 1\<rparr>;
          g = g0\<lparr>fr_stats := s\<rparr>
      in if \<not> issue_input_ok a then ((O_Invalid, R_UnsupportedInput, intent_nil), g)
         else if open_duplicate (fr_records g) (ia_scope a) (ia_gens a) \<noteq> None then
           ((O_Duplicate, R_FenceIntentIssued, intent_nil),
            g\<lparr>fr_stats := s\<lparr>fs_duplicates_refused := fs_duplicates_refused s + 1\<rparr>\<rparr>)
         else if length (fr_records g) \<ge> unat (pol_max_fences (fr_policy g)) then
           ((O_Exhausted, R_BudgetExhausted, intent_nil),
            g\<lparr>fr_stats := s\<lparr>fs_capacity_refused := fs_capacity_refused s + 1\<rparr>\<rparr>)
         else case mint_intent (fr_policy g) (fs_issue_attempts s) a of
             Inl (oc, reason) \<Rightarrow> ((oc, reason, intent_nil), g)
           | Inr intent \<Rightarrow> ((O_Ok, R_None, intent), g))"

definition commit_staged :: "fence_intent \<Rightarrow> fence_registry \<Rightarrow> outcome \<times> fence_registry" where
  "commit_staged intent g =
     (if \<not> fi_is_valid intent then (O_Invalid, g)
      else if omap_find (fr_records g) (fi_id intent) \<noteq> None then (O_Duplicate, g)
      else if open_duplicate (fr_records g) (fi_scope intent) (fi_gens intent) \<noteq> None then (O_Duplicate, g)
      else if length (fr_records g) \<ge> unat (pol_max_fences (fr_policy g)) then (O_Exhausted, g)
      else
        (O_Ok, g\<lparr>fr_records := omap_put (fr_records g) (fi_id intent) (record_new intent),
           fr_stats := (fr_stats g)\<lparr>fs_issued := fs_issued (fr_stats g) + 1,
             fs_open := fs_open (fr_stats g) + 1\<rparr>\<rparr>))"

subsection \<open>Acknowledgement, effect, revocation\<close>

definition closed_reason :: "fence_record \<Rightarrow> reason_code" where
  "closed_reason r =
     (if rc_terminal_reason r \<noteq> R_None then rc_terminal_reason r else R_FenceIntentRevoked)"

definition expire :: "u64 \<Rightarrow> fence_record \<Rightarrow> fence_registry \<Rightarrow> fence_registry" where
  "expire fid r g =
     g\<lparr>fr_records := omap_put (fr_records g) fid
         (r\<lparr>rc_lifecycle := L_Expired, rc_terminal_reason := R_FenceExpired\<rparr>),
       fr_stats := (fr_stats g)\<lparr>fs_open := fs_open (fr_stats g) - 1,
         fs_expired := fs_expired (fr_stats g) + 1\<rparr>\<rparr>"

definition unknown_id :: "fence_registry \<Rightarrow> fence_registry" where
  "unknown_id g =
     g\<lparr>fr_stats := (fr_stats g)\<lparr>fs_unknown_id_refused := fs_unknown_id_refused (fr_stats g) + 1\<rparr>\<rparr>"

definition acknowledge ::
  "u64 \<Rightarrow> u64 \<Rightarrow> i64 \<Rightarrow> fence_registry \<Rightarrow> (outcome \<times> reason_code) \<times> fence_registry" where
  "acknowledge fid downstream now g =
     (case omap_find (fr_records g) fid of
        None \<Rightarrow> ((O_NotFound, R_PolicyRefused), unknown_id g)
      | Some r \<Rightarrow>
          if \<not> rc_is_open r then ((O_Fenced, closed_reason r), g)
          else if sint now \<ge> sint (fi_expires_at (rc_intent r)) then
            ((O_Expired, R_FenceExpired), expire fid r g)
          else
            (let (r, s) =
               (if rc_lifecycle r = L_Intent
                then (r\<lparr>rc_lifecycle := L_Acknowledged\<rparr>,
                      (fr_stats g)\<lparr>fs_acknowledged := fs_acknowledged (fr_stats g) + 1\<rparr>)
                else (r, fr_stats g));
               r = r\<lparr>rc_ack_owner := downstream, rc_acked_at := now\<rparr>
             in ((O_Ok, R_FenceAcknowledged),
                 g\<lparr>fr_records := omap_put (fr_records g) fid r, fr_stats := s\<rparr>)))"

definition report_effect ::
  "u64 \<Rightarrow> u64 \<Rightarrow> bool \<Rightarrow> i64 \<Rightarrow> fence_registry \<Rightarrow> (outcome \<times> reason_code) \<times> fence_registry" where
  "report_effect fid downstream verified now g =
     (case omap_find (fr_records g) fid of
        None \<Rightarrow> ((O_NotFound, R_PolicyRefused), unknown_id g)
      | Some r \<Rightarrow>
          if \<not> rc_is_open r then ((O_Fenced, closed_reason r), g)
          else if sint now \<ge> sint (fi_expires_at (rc_intent r)) then
            ((O_Expired, R_FenceExpired), expire fid r g)
          else
            (let r = r\<lparr>rc_lifecycle := L_EffectReported, rc_effect_owner := downstream,
                   rc_effected_at := now, rc_effect_verified := verified\<rparr>;
                 s = fr_stats g;
                 s = s\<lparr>fs_effects_reported := fs_effects_reported s + 1\<rparr>;
                 s = (if verified then s\<lparr>fs_effects_verified := fs_effects_verified s + 1\<rparr> else s)
             in ((O_Ok, if verified then R_FenceEffectVerified else R_FenceEffectUnverified),
                 g\<lparr>fr_records := omap_put (fr_records g) fid r, fr_stats := s\<rparr>)))"

definition revoke :: "u64 \<Rightarrow> reason_code \<Rightarrow> i64 \<Rightarrow> fence_registry \<Rightarrow> outcome \<times> fence_registry" where
  "revoke fid reason now g =
     (case omap_find (fr_records g) fid of
        None \<Rightarrow> (O_NotFound, unknown_id g)
      | Some r \<Rightarrow>
          if \<not> rc_is_open r then (O_Fenced, g)
          else
            (O_Ok, g\<lparr>fr_records := omap_put (fr_records g) fid
                (r\<lparr>rc_lifecycle := L_Revoked, rc_terminal_reason := reason, rc_effected_at := now\<rparr>),
              fr_stats := (fr_stats g)\<lparr>fs_open := fs_open (fr_stats g) - 1,
                fs_revoked := fs_revoked (fr_stats g) + 1\<rparr>\<rparr>))"

text \<open>The loops of \<open>revalidate\<close> and \<open>fence_all\<close>: the records, the counters and the ids closed.\<close>

fun revalidate_loop ::
  "i64 \<Rightarrow> generation_vector \<Rightarrow> (u64, fence_record) omap \<Rightarrow> fence_stats
   \<Rightarrow> (u64, fence_record) omap \<times> fence_stats \<times> u64 list" where
  "revalidate_loop now current [] s = ([], s, [])"
| "revalidate_loop now current ((k, r) # rs) s =
     (if \<not> rc_is_open r then
        (let (rs', s', out) = revalidate_loop now current rs s in ((k, r) # rs', s', out))
      else if sint now \<ge> sint (fi_expires_at (rc_intent r)) then
        (let r' = r\<lparr>rc_lifecycle := L_Expired, rc_terminal_reason := R_FenceExpired\<rparr>;
             (rs', s', out) = revalidate_loop now current rs
               (s\<lparr>fs_open := fs_open s - 1, fs_expired := fs_expired s + 1\<rparr>)
         in ((k, r') # rs', s', k # out))
      else if fi_gens (rc_intent r) \<noteq> current then
        (let r' = r\<lparr>rc_lifecycle := L_Revoked, rc_terminal_reason := R_DependencyGenerationChanged\<rparr>;
             (rs', s', out) = revalidate_loop now current rs
               (s\<lparr>fs_open := fs_open s - 1, fs_revoked := fs_revoked s + 1\<rparr>)
         in ((k, r') # rs', s', k # out))
      else
        (let (rs', s', out) = revalidate_loop now current rs s in ((k, r) # rs', s', out)))"

definition revalidate :: "i64 \<Rightarrow> generation_vector \<Rightarrow> fence_registry \<Rightarrow> u64 list \<times> fence_registry" where
  "revalidate now current g =
     (let (rs, s, out) = revalidate_loop now current (fr_records g) (fr_stats g)
      in (sort out, g\<lparr>fr_records := rs, fr_stats := s\<rparr>))"

fun fence_all_loop ::
  "reason_code \<Rightarrow> i64 \<Rightarrow> (u64, fence_record) omap \<Rightarrow> fence_stats
   \<Rightarrow> (u64, fence_record) omap \<times> fence_stats \<times> u64 list" where
  "fence_all_loop reason now [] s = ([], s, [])"
| "fence_all_loop reason now ((k, r) # rs) s =
     (if \<not> rc_is_open r then
        (let (rs', s', out) = fence_all_loop reason now rs s in ((k, r) # rs', s', out))
      else
        (let r' = r\<lparr>rc_lifecycle := L_FencedByRestart, rc_terminal_reason := reason,
               rc_effected_at := now\<rparr>;
             (rs', s', out) = fence_all_loop reason now rs
               (s\<lparr>fs_open := fs_open s - 1, fs_fenced_by_restart := fs_fenced_by_restart s + 1\<rparr>)
         in ((k, r') # rs', s', k # out)))"

definition fence_all :: "reason_code \<Rightarrow> i64 \<Rightarrow> fence_registry \<Rightarrow> u64 list \<times> fence_registry" where
  "fence_all reason now g =
     (let (rs, s, out) = fence_all_loop reason now (fr_records g) (fr_stats g)
      in (sort out, g\<lparr>fr_records := rs, fr_stats := s\<rparr>))"

definition registry_find :: "fence_registry \<Rightarrow> u64 \<Rightarrow> fence_record option" where
  "registry_find g fid = omap_find (fr_records g) fid"

definition open_for :: "fence_registry \<Rightarrow> scope \<Rightarrow> fence_record option" where
  "open_for g scope =
     find (\<lambda>r. rc_is_open r \<and> fi_scope (rc_intent r) = scope) (map snd (fr_records g))"

definition registry_all :: "fence_registry \<Rightarrow> fence_record list" where
  "registry_all g = map snd (fr_records g)"

subsection \<open>The restoration gate\<close>

record restoration_decision =
  rs_outcome :: outcome
  rs_id :: u64
  rs_authorized :: bool
  rs_reason :: reason_code
  rs_scope :: scope
  rs_gens :: generation_vector
  rs_sources :: "source_ref list"
  rs_distinct_incarnations :: u32
  rs_success_attempts :: u64
  rs_had_open_fence :: bool
  rs_revoked_fence :: u64
  rs_decided_at :: i64

definition evaluate_restoration ::
  "diagnosis \<Rightarrow> fence_policy \<Rightarrow> fence_record option \<Rightarrow> i64 \<Rightarrow> restoration_decision" where
  "evaluate_restoration diagnosis policy open_fence now =
     (let d = \<lparr>rs_outcome = O_NoEvidence, rs_id = 0, rs_authorized = False,
            rs_reason = R_RestorationRefusedNoEvidence, rs_scope = di_scope diagnosis,
            rs_gens = di_gens diagnosis, rs_sources = di_success_sources diagnosis,
            rs_distinct_incarnations = ce_success_incarnations (di_census diagnosis),
            rs_success_attempts = ce_success_attempts (di_census diagnosis),
            rs_had_open_fence = (open_fence \<noteq> None),
            rs_revoked_fence = (case open_fence of None \<Rightarrow> 0 | Some r \<Rightarrow> fi_id (rc_intent r)),
            rs_decided_at = now\<rparr>
      in if di_outcome diagnosis \<noteq> O_Ok \<or> di_classification diagnosis \<noteq> C_Healthy then
           (case di_outcome diagnosis of
              O_NoEvidence \<Rightarrow> d\<lparr>rs_outcome := O_NoEvidence, rs_reason := R_RestorationRefusedNoEvidence\<rparr>
            | O_Stale \<Rightarrow> d\<lparr>rs_outcome := O_Stale, rs_reason := R_RestorationRefusedStale\<rparr>
            | O_Conflict \<Rightarrow> d\<lparr>rs_outcome := O_Conflict, rs_reason := R_RestorationRefusedConflict\<rparr>
            | _ \<Rightarrow> d\<lparr>rs_outcome := O_Unknown, rs_reason := R_RestorationRefusedInsufficient\<rparr>)
         else if ce_success_sources (di_census diagnosis) < pol_restore_min_sources policy then
           d\<lparr>rs_outcome := O_Ok, rs_reason := R_SourcesInsufficient\<rparr>
         else if ce_success_incarnations (di_census diagnosis) < pol_restore_min_incarnations policy then
           d\<lparr>rs_outcome := O_Ok, rs_reason := R_IncarnationsInsufficient\<rparr>
         else if ce_success_attempts (di_census diagnosis) < pol_restore_min_successes policy then
           d\<lparr>rs_outcome := O_Ok, rs_reason := R_AttemptsInsufficient\<rparr>
         else d\<lparr>rs_outcome := O_Ok, rs_authorized := True, rs_reason := R_RestorationCorroborated\<rparr>)"

subsection \<open>The loops as maps over the records\<close>

abbreviation omap_map :: "('v \<Rightarrow> 'w) \<Rightarrow> ('k, 'v) omap \<Rightarrow> ('k, 'w) omap" where
  "omap_map f m \<equiv> map (\<lambda>(k, v). (k, f v)) m"

lemma omap_map_laws [simp]:
  "omap_find (omap_map f m) k = map_option f (omap_find m k)"
  "omap_inv (omap_map f m) = omap_inv m"
proof -
  show "omap_find (omap_map f m) k = map_option f (omap_find m k)"
    by (simp add: omap_find_def map_of_map)
  have "map fst (omap_map f m) = map fst m" by (induction m) auto
  then show "omap_inv (omap_map f m) = omap_inv m" by (simp only: omap_inv_def)
qed

definition lapsed :: "i64 \<Rightarrow> generation_vector \<Rightarrow> fence_record \<Rightarrow> bool" where
  "lapsed now current r \<longleftrightarrow> rc_is_open r \<and>
     (sint now \<ge> sint (fi_expires_at (rc_intent r)) \<or> fi_gens (rc_intent r) \<noteq> current)"

definition revalidated :: "i64 \<Rightarrow> generation_vector \<Rightarrow> fence_record \<Rightarrow> fence_record" where
  "revalidated now current r =
     (if \<not> lapsed now current r then r
      else if sint now \<ge> sint (fi_expires_at (rc_intent r))
        then r\<lparr>rc_lifecycle := L_Expired, rc_terminal_reason := R_FenceExpired\<rparr>
      else r\<lparr>rc_lifecycle := L_Revoked, rc_terminal_reason := R_DependencyGenerationChanged\<rparr>)"

definition fenced :: "reason_code \<Rightarrow> i64 \<Rightarrow> fence_record \<Rightarrow> fence_record" where
  "fenced reason now r =
     (if rc_is_open r
      then r\<lparr>rc_lifecycle := L_FencedByRestart, rc_terminal_reason := reason, rc_effected_at := now\<rparr>
      else r)"

lemma closed_not_open [simp]:
  "\<not> rc_is_open (r\<lparr>rc_lifecycle := L_Expired, rc_terminal_reason := x\<rparr>)"
  "\<not> rc_is_open (r\<lparr>rc_lifecycle := L_Revoked, rc_terminal_reason := x\<rparr>)"
  "\<not> rc_is_open (r\<lparr>rc_lifecycle := L_Revoked, rc_terminal_reason := x, rc_effected_at := t\<rparr>)"
  "\<not> rc_is_open (r\<lparr>rc_lifecycle := L_FencedByRestart, rc_terminal_reason := x, rc_effected_at := t\<rparr>)"
  by (simp_all add: rc_is_open_def)

abbreviation run_out :: "i64 \<Rightarrow> fence_record \<Rightarrow> bool" where
  "run_out now r \<equiv> rc_is_open r \<and> sint now \<ge> sint (fi_expires_at (rc_intent r))"

abbreviation moved_on :: "i64 \<Rightarrow> generation_vector \<Rightarrow> fence_record \<Rightarrow> bool" where
  "moved_on now current r \<equiv> rc_is_open r \<and> \<not> sint now \<ge> sint (fi_expires_at (rc_intent r)) \<and>
     fi_gens (rc_intent r) \<noteq> current"

abbreviation num :: "(fence_record \<Rightarrow> bool) \<Rightarrow> (u64, fence_record) omap \<Rightarrow> u64" where
  "num P rs \<equiv> of_nat (length (filter (\<lambda>kr. P (snd kr)) rs))"

lemma revalidate_loop_eq:
  "revalidate_loop now current rs s =
    (omap_map (revalidated now current) rs,
     s\<lparr>fs_open := fs_open s - num (run_out now) rs - num (moved_on now current) rs,
       fs_revoked := fs_revoked s + num (moved_on now current) rs,
       fs_expired := fs_expired s + num (run_out now) rs\<rparr>,
     map fst (filter (\<lambda>kr. lapsed now current (snd kr)) rs))"
  by (induction now current rs s rule: revalidate_loop.induct)
    (simp_all add: revalidated_def lapsed_def Let_def algebra_simps)

lemma fence_all_loop_eq:
  "fence_all_loop reason now rs s =
    (omap_map (fenced reason now) rs,
     s\<lparr>fs_open := fs_open s - num rc_is_open rs,
       fs_fenced_by_restart := fs_fenced_by_restart s + num rc_is_open rs\<rparr>,
     map fst (filter (\<lambda>kr. rc_is_open (snd kr)) rs))"
  by (induction reason now rs s rule: fence_all_loop.induct)
    (simp_all add: fenced_def Let_def algebra_simps)

lemma revalidated_open: "rc_is_open (revalidated now current r) \<longleftrightarrow> rc_is_open r \<and> \<not> lapsed now current r"
  by (simp add: revalidated_def lapsed_def)

lemma revalidated_intent: "rc_intent (revalidated now current r) = rc_intent r"
  by (simp add: revalidated_def)

lemma fenced_open: "\<not> rc_is_open (fenced reason now r)" "rc_intent (fenced reason now r) = rc_intent r"
  by (simp_all add: fenced_def)

subsection \<open>The registry invariant\<close>

definition registry_wf :: "fence_registry \<Rightarrow> bool" where
  "registry_wf g \<longleftrightarrow>
     omap_inv (fr_records g) \<and>
     length (fr_records g) \<le> unat (pol_max_fences (fr_policy g)) \<and>
     (\<forall>k r. omap_find (fr_records g) k = Some r \<longrightarrow> fi_id (rc_intent r) = k) \<and>
     (\<forall>k r k' r'. omap_find (fr_records g) k = Some r \<longrightarrow> omap_find (fr_records g) k' = Some r' \<longrightarrow>
        rc_is_open r \<longrightarrow> rc_is_open r' \<longrightarrow> fi_scope (rc_intent r) = fi_scope (rc_intent r') \<longrightarrow>
        fi_gens (rc_intent r) = fi_gens (rc_intent r') \<longrightarrow> k = k')"

text \<open>
  The accounts. \<open>tallies s M\<close> says that the counters are those of the records in \<open>M\<close>: how many
  there are, how many of them are open, and how many were closed in each of the three ways. The
  registry keeps every record until \<open>clear\<close>, which drops the records and not the counters; the
  accounts are therefore over the records present and a bag \<open>D\<close> of records that were dropped.
\<close>

definition in_state :: "fence_lifecycle \<Rightarrow> fence_record multiset \<Rightarrow> u64" where
  "in_state l M = of_nat (size (filter_mset (\<lambda>r. rc_lifecycle r = l) M))"

definition tallies :: "fence_stats \<Rightarrow> fence_record multiset \<Rightarrow> bool" where
  "tallies s M \<longleftrightarrow>
     fs_issued s = of_nat (size M) \<and>
     fs_open s = of_nat (size (filter_mset rc_is_open M)) \<and>
     fs_revoked s = in_state L_Revoked M \<and>
     fs_expired s = in_state L_Expired M \<and>
     fs_fenced_by_restart s = in_state L_FencedByRestart M"

definition registry_inv :: "fence_record multiset \<Rightarrow> fence_registry \<Rightarrow> bool" where
  "registry_inv D g \<longleftrightarrow> registry_wf g \<and> tallies (fr_stats g) (omap_vals (fr_records g) + D)"

lemma in_state_simps [simp]:
  "in_state l {#} = 0" "in_state l (add_mset r M) = in_state l M + of_bool (rc_lifecycle r = l)"
  by (simp_all add: in_state_def)

lemma tallies_empty: "tallies stats_new {#}"
  by (simp add: tallies_def stats_new_def)

text \<open>One record replaced by another: each counter moves with the state of the record.\<close>

lemma tallies_replace:
  assumes "tallies s (add_mset r M)" and "rc_is_open r"
    and "fs_issued s' = fs_issued s" and "fs_open s' = fs_open s - 1 + of_bool (rc_is_open r')"
    and "fs_revoked s' = fs_revoked s + of_bool (rc_lifecycle r' = L_Revoked)"
    and "fs_expired s' = fs_expired s + of_bool (rc_lifecycle r' = L_Expired)"
    and "fs_fenced_by_restart s' = fs_fenced_by_restart s + of_bool (rc_lifecycle r' = L_FencedByRestart)"
  shows "tallies s' (add_mset r' M)"
proof -
  have "rc_lifecycle r \<notin> {L_Revoked, L_Expired, L_FencedByRestart}"
    using assms(2) by (auto simp: rc_is_open_def)
  with assms show ?thesis unfolding tallies_def by simp
qed

lemma tallies_add:
  assumes "tallies s M" and "rc_lifecycle r = L_Intent"
    and "fs_issued s' = fs_issued s + 1" and "fs_open s' = fs_open s + 1" and "fs_revoked s' = fs_revoked s"
    and "fs_expired s' = fs_expired s" and "fs_fenced_by_restart s' = fs_fenced_by_restart s"
  shows "tallies s' (add_mset r M)"
  using assms unfolding tallies_def by (simp add: rc_is_open_def)

text \<open>Every record is open or closed in one of the three ways, so the second account closes.\<close>

lemma states_partition:
  "of_nat (size M) = of_nat (size (filter_mset rc_is_open M)) + in_state L_Revoked M + in_state L_Expired M
    + in_state L_FencedByRestart M"
proof (induction M)
  case empty
  then show ?case by simp
next
  case (add r M)
  then show ?case by (cases "rc_lifecycle r") (simp_all add: rc_is_open_def)
qed

lemma tallies_closed:
  "tallies s M \<Longrightarrow> fs_issued s = fs_open s + fs_revoked s + fs_expired s + fs_fenced_by_restart s"
  unfolding tallies_def using states_partition [of M] by simp

lemma size_filter_omap: "size (filter_mset P (omap_vals rs)) = length (filter (\<lambda>kr. P (snd kr)) rs)"
  by (induction rs) (auto simp: omap_vals_def)

lemma omap_vals_Cons: "omap_vals ((k, r) # rs) + D = omap_vals rs + add_mset r D"
  by (simp add: omap_vals_def)

lemma revalidate_loop_tallies:
  "tallies s (omap_vals rs + D) \<Longrightarrow>
    tallies (fst (snd (revalidate_loop now current rs s))) (omap_vals (fst (revalidate_loop now current rs s)) + D)"
proof (induction now current rs s arbitrary: D rule: revalidate_loop.induct)
  case (1 now current s)
  then show ?case by simp
next
  case (2 now current k r rs s)
  note prem = "2.prems" [unfolded omap_vals_Cons]
  let ?E = "r\<lparr>rc_lifecycle := L_Expired, rc_terminal_reason := R_FenceExpired\<rparr>"
  let ?R = "r\<lparr>rc_lifecycle := L_Revoked, rc_terminal_reason := R_DependencyGenerationChanged\<rparr>"
  consider "\<not> rc_is_open r" | "run_out now r" | "moved_on now current r"
    | "rc_is_open r" "\<not> sint now \<ge> sint (fi_expires_at (rc_intent r))" "fi_gens (rc_intent r) = current"
    by blast
  then show ?case
  proof cases
    case 1
    with "2.IH"(1) [OF _ prem] show ?thesis by (simp add: omap_vals_Cons case_prod_unfold Let_def)
  next
    case 2
    then have "tallies (s\<lparr>fs_open := fs_open s - 1, fs_expired := fs_expired s + 1\<rparr>) (add_mset ?E (omap_vals rs + D))"
      using prem by - (rule tallies_replace [of s r], simp_all)
    with 2 "2.IH"(2) [OF _ _ refl, of "add_mset ?E D"] show ?thesis by (simp add: omap_vals_Cons case_prod_unfold Let_def)
  next
    case 3
    then have "tallies (s\<lparr>fs_open := fs_open s - 1, fs_revoked := fs_revoked s + 1\<rparr>) (add_mset ?R (omap_vals rs + D))"
      using prem by - (rule tallies_replace [of s r], simp_all)
    with 3 "2.IH"(3) [OF _ _ _ refl, of "add_mset ?R D"] show ?thesis by (simp add: omap_vals_Cons case_prod_unfold Let_def)
  next
    case 4
    with "2.IH"(4) [OF _ _ _ prem] show ?thesis by (simp add: omap_vals_Cons case_prod_unfold Let_def)
  qed
qed

lemma fence_all_loop_tallies:
  "tallies s (omap_vals rs + D) \<Longrightarrow>
    tallies (fst (snd (fence_all_loop reason now rs s))) (omap_vals (fst (fence_all_loop reason now rs s)) + D)"
proof (induction reason now rs s arbitrary: D rule: fence_all_loop.induct)
  case (1 reason now s)
  then show ?case by simp
next
  case (2 reason now k r rs s)
  note prem = "2.prems" [unfolded omap_vals_Cons]
  let ?F = "r\<lparr>rc_lifecycle := L_FencedByRestart, rc_terminal_reason := reason, rc_effected_at := now\<rparr>"
  show ?case
  proof (cases "rc_is_open r")
    case False
    with "2.IH"(1) [OF _ prem] show ?thesis by (simp add: omap_vals_Cons case_prod_unfold Let_def)
  next
    case True
    then have "tallies (s\<lparr>fs_open := fs_open s - 1, fs_fenced_by_restart := fs_fenced_by_restart s + 1\<rparr>)
        (add_mset ?F (omap_vals rs + D))"
      using prem by - (rule tallies_replace [of s r], simp_all)
    with True "2.IH"(2) [OF _ refl, of "add_mset ?F D"] show ?thesis by (simp add: omap_vals_Cons case_prod_unfold Let_def)
  qed
qed

lemma registry_wf_stats [simp]: "registry_wf (g\<lparr>fr_stats := s\<rparr>) = registry_wf g"
  by (simp add: registry_wf_def)

lemma registry_wf_put_new:
  assumes "registry_wf g" and "omap_find (fr_records g) (fi_id intent) = None"
    and "length (fr_records g) < unat (pol_max_fences (fr_policy g))"
    and "open_duplicate (fr_records g) (fi_scope intent) (fi_gens intent) = None"
  shows "registry_wf (g\<lparr>fr_records := omap_put (fr_records g) (fi_id intent) (record_new intent)\<rparr>)"
proof -
  have dup: False if "omap_find (fr_records g) k = Some r" "rc_is_open r"
      "fi_scope (rc_intent r) = fi_scope intent" "fi_gens (rc_intent r) = fi_gens intent" for k r
    using assms(4) omap_find_Some_in [OF that(1)] that(2-4)
    by (force simp: open_duplicate_def find_None_iff)
  show ?thesis
    using assms(1-3)
    by (auto simp: registry_wf_def record_new_def length_omap_put_new split: if_splits
        dest: dup dup [OF _ _ sym sym])
qed

lemma registry_wf_put_old:
  assumes "registry_wf g" and "omap_find (fr_records g) k = Some r"
    and "rc_intent r' = rc_intent r" and "rc_is_open r"
  shows "registry_wf (g\<lparr>fr_records := omap_put (fr_records g) k r'\<rparr>)"
  using assms unfolding registry_wf_def
  by (auto simp: length_omap_put_old split: if_splits)

lemma registry_wf_map:
  assumes "registry_wf g" and "\<And>r. rc_intent (f r) = rc_intent r" and "\<And>r. rc_is_open (f r) \<Longrightarrow> rc_is_open r"
  shows "registry_wf (g\<lparr>fr_records := omap_map f (fr_records g)\<rparr>)"
  using assms unfolding registry_wf_def by (auto; blast)

subsection \<open>Every operation keeps the invariant\<close>

lemma registry_new_inv: "registry_inv {#} (registry_new policy)"
  by (simp add: registry_inv_def registry_wf_def registry_new_def tallies_empty omap_vals_def omap_find_def)

lemma registry_inv_attempts:
  "registry_inv D g \<Longrightarrow> fs_issued s = fs_issued (fr_stats g) \<Longrightarrow> fs_open s = fs_open (fr_stats g) \<Longrightarrow>
    fs_revoked s = fs_revoked (fr_stats g) \<Longrightarrow> fs_expired s = fs_expired (fr_stats g) \<Longrightarrow>
    fs_fenced_by_restart s = fs_fenced_by_restart (fr_stats g) \<Longrightarrow> registry_inv D (g\<lparr>fr_stats := s\<rparr>)"
  by (simp add: registry_inv_def tallies_def)

lemma registry_inv_add:
  assumes "registry_inv D g" and "omap_find (fr_records g) (fi_id intent) = None"
    and "length (fr_records g) < unat (pol_max_fences (fr_policy g))"
    and "open_duplicate (fr_records g) (fi_scope intent) (fi_gens intent) = None"
    and "fs_issued s = fs_issued (fr_stats g) + 1" and "fs_open s = fs_open (fr_stats g) + 1"
    and "fs_revoked s = fs_revoked (fr_stats g)" and "fs_expired s = fs_expired (fr_stats g)"
    and "fs_fenced_by_restart s = fs_fenced_by_restart (fr_stats g)"
  shows "registry_inv D (g\<lparr>fr_records := omap_put (fr_records g) (fi_id intent) (record_new intent), fr_stats := s\<rparr>)"
  using assms registry_wf_put_new [of g intent]
  by (auto simp: registry_inv_def omap_vals_put_new record_new_def intro: tallies_add)

text \<open>An open record is replaced, and each counter moves as the state of the record does.\<close>

lemma registry_inv_move:
  assumes "registry_inv D g" and "omap_find (fr_records g) k = Some r" and "rc_is_open r"
    and "rc_intent r' = rc_intent r"
    and "fs_issued s = fs_issued (fr_stats g)"
    and "fs_open s = fs_open (fr_stats g) - 1 + of_bool (rc_is_open r')"
    and "fs_revoked s = fs_revoked (fr_stats g) + of_bool (rc_lifecycle r' = L_Revoked)"
    and "fs_expired s = fs_expired (fr_stats g) + of_bool (rc_lifecycle r' = L_Expired)"
    and "fs_fenced_by_restart s =
      fs_fenced_by_restart (fr_stats g) + of_bool (rc_lifecycle r' = L_FencedByRestart)"
  shows "registry_inv D (g\<lparr>fr_records := omap_put (fr_records g) k r', fr_stats := s\<rparr>)"
proof -
  have inv: "omap_inv (fr_records g)" and tallies: "tallies (fr_stats g) (omap_vals (fr_records g) + D)"
    using assms(1) by (simp_all add: registry_inv_def registry_wf_def)
  obtain M where M: "omap_vals (fr_records g) = add_mset r M"
    using omap_find_Some_in [OF assms(2)] by (metis omap_vals_in multi_member_split)
  then have "omap_vals (omap_put (fr_records g) k r') = add_mset r' M"
    using omap_vals_put_old [OF inv assms(2), of r'] by simp
  moreover have "tallies s (add_mset r' (M + D))"
    using tallies assms(3,5-) by - (rule tallies_replace [of "fr_stats g" r], simp_all add: M)
  ultimately show ?thesis
    using assms(1-4) registry_wf_put_old [of g k r r'] by (simp add: registry_inv_def)
qed

lemmas registry_inv_touch = registry_inv_move [where s = "fr_stats g" and g = g for g, simplified]

lemma mint_intent_scope:
  "mint_intent policy n a = Inr intent \<Longrightarrow> fi_scope intent = ia_scope a \<and> fi_gens intent = ia_gens a"
  by (auto simp: mint_intent_def Let_def split: if_splits)

lemma issue_inv:
  assumes "registry_inv D g"
  shows "registry_inv D (snd (issue a g))"
  using assms
  by (auto simp: issue_def Let_def dest: mint_intent_scope split: option.splits sum.splits
      intro!: registry_inv_add intro: registry_inv_attempts)

lemma stage_inv:
  assumes "registry_inv D g"
  shows "registry_inv D (snd (stage a g))"
  using assms
  by (auto simp: stage_def Let_def split: sum.splits intro!: registry_inv_attempts)

lemma commit_staged_inv:
  assumes "registry_inv D g"
  shows "registry_inv D (snd (commit_staged intent g))"
  using assms by (auto simp: commit_staged_def intro!: registry_inv_add)

lemma expire_inv:
  assumes "registry_inv D g" and "omap_find (fr_records g) k = Some r" and "rc_is_open r"
  shows "registry_inv D (expire k r g)"
  unfolding expire_def using assms by (intro registry_inv_move) simp_all

lemma unknown_id_inv: "registry_inv D g \<Longrightarrow> registry_inv D (unknown_id g)"
  unfolding unknown_id_def by (intro registry_inv_attempts) simp_all

lemma acknowledge_inv:
  assumes "registry_inv D g"
  shows "registry_inv D (snd (acknowledge k d now g))"
  using assms
  by (auto simp: acknowledge_def Let_def rc_is_open_def split: option.splits
      intro!: expire_inv unknown_id_inv registry_inv_move registry_inv_touch)

lemma report_effect_inv:
  assumes "registry_inv D g"
  shows "registry_inv D (snd (report_effect k d v now g))"
  using assms
  by (auto simp: report_effect_def Let_def rc_is_open_def split: option.splits
      intro!: expire_inv unknown_id_inv registry_inv_move registry_inv_touch)

lemma revoke_inv:
  assumes "registry_inv D g"
  shows "registry_inv D (snd (revoke k reason now g))"
  using assms
  by (auto simp: revoke_def split: option.splits intro!: unknown_id_inv registry_inv_move)

lemma revalidate_inv:
  assumes "registry_inv D g"
  shows "registry_inv D (snd (revalidate now current g))"
proof -
  have wf: "registry_wf (g\<lparr>fr_records := omap_map (revalidated now current) (fr_records g)\<rparr>)"
    using assms by (intro registry_wf_map) (auto simp: registry_inv_def revalidated_intent revalidated_open)
  have "tallies (fr_stats g) (omap_vals (fr_records g) + D)" using assms by (simp add: registry_inv_def)
  from revalidate_loop_tallies [OF this, of now current] wf show ?thesis
    by (simp add: revalidate_def revalidate_loop_eq registry_inv_def)
qed

lemma fence_all_inv:
  assumes "registry_inv D g"
  shows "registry_inv D (snd (fence_all reason now g))"
proof -
  have wf: "registry_wf (g\<lparr>fr_records := omap_map (fenced reason now) (fr_records g)\<rparr>)"
    using assms by (intro registry_wf_map) (auto simp: registry_inv_def fenced_open)
  have "tallies (fr_stats g) (omap_vals (fr_records g) + D)" using assms by (simp add: registry_inv_def)
  from fence_all_loop_tallies [OF this, of reason now] wf show ?thesis
    by (simp add: fence_all_def fence_all_loop_eq registry_inv_def)
qed

lemma registry_clear_inv:
  "registry_inv D g \<Longrightarrow> registry_inv (omap_vals (fr_records g) + D) (registry_clear g)"
  by (simp add: registry_inv_def registry_wf_def registry_clear_def omap_vals_def omap_find_def)

subsection \<open>The lifecycle of a fence\<close>

inductive lifecycle_step :: "fence_lifecycle \<Rightarrow> fence_lifecycle \<Rightarrow> bool" where
  acked: "lifecycle_step L_Intent L_Acknowledged"
| effect: "s \<in> {L_Intent, L_Acknowledged} \<Longrightarrow> lifecycle_step s L_EffectReported"
| closed: "s \<in> {L_Intent, L_Acknowledged, L_EffectReported} \<Longrightarrow>
    t \<in> {L_Revoked, L_Expired, L_FencedByRestart} \<Longrightarrow> lifecycle_step s t"

inductive_simps lifecycle_step_simps [simp]:
  "lifecycle_step L_Revoked t" "lifecycle_step L_Expired t" "lifecycle_step L_FencedByRestart t"
  "lifecycle_step s L_Intent" "lifecycle_step s L_Acknowledged" "lifecycle_step s L_EffectReported"
  "lifecycle_step s L_Revoked" "lifecycle_step s L_Expired" "lifecycle_step s L_FencedByRestart"

text \<open>
  The interface of a store of records with a lifecycle: what one operation that
  keeps the records does to the record under a key. What a sequence of them does follows once and
  for all.
\<close>

locale record_lifecycle =
  fixes step :: "'op \<Rightarrow> 's \<Rightarrow> 's"
    and keeps :: "'op \<Rightarrow> bool"
    and look :: "'s \<Rightarrow> 'k \<Rightarrow> 'r option"
    and live :: "'r \<Rightarrow> bool"
    and evolves :: "'r \<Rightarrow> 'r \<Rightarrow> bool"
  assumes step_record: "keeps op \<Longrightarrow> look s k = Some r \<Longrightarrow>
      \<exists>r'. look (step op s) k = Some r' \<and> (if live r then evolves r r' else r' = r)"
    and evolves_refl: "evolves r r"
    and evolves_trans: "evolves r r' \<Longrightarrow> evolves r' r'' \<Longrightarrow> evolves r r''"
begin

lemma steps_record:
  "list_all keeps ops \<Longrightarrow> look s k = Some r \<Longrightarrow>
    \<exists>r'. look (fold step ops s) k = Some r' \<and> evolves r r' \<and> (\<not> live r \<longrightarrow> r' = r)"
proof (induction ops arbitrary: s r)
  case Nil
  then show ?case by (simp add: evolves_refl)
next
  case (Cons op ops)
  obtain r1 where r1: "look (step op s) k = Some r1" "if live r then evolves r r1 else r1 = r"
    using step_record [of op s k r] Cons.prems by auto
  obtain r2 where r2: "look (fold step ops (step op s)) k = Some r2" "evolves r1 r2" "\<not> live r1 \<longrightarrow> r2 = r1"
    using Cons.IH [OF _ r1(1)] Cons.prems by auto
  have "evolves r r2" using r1(2) r2(2) evolves_trans by (auto split: if_splits)
  with r1(2) r2 show ?case by (auto split: if_splits)
qed

end

datatype fence_op =
    F_Issue issue_args
  | F_Stage issue_args
  | F_Commit fence_intent
  | F_Acknowledge u64 u64 i64
  | F_Effect u64 u64 bool i64
  | F_Revoke u64 reason_code i64
  | F_Revalidate i64 generation_vector
  | F_FenceAll reason_code i64
  | F_Clear

fun registry_step :: "fence_op \<Rightarrow> fence_registry \<Rightarrow> fence_registry" where
  "registry_step (F_Issue a) g = snd (issue a g)"
| "registry_step (F_Stage a) g = snd (stage a g)"
| "registry_step (F_Commit i) g = snd (commit_staged i g)"
| "registry_step (F_Acknowledge k d t) g = snd (acknowledge k d t g)"
| "registry_step (F_Effect k d v t) g = snd (report_effect k d v t g)"
| "registry_step (F_Revoke k reason t) g = snd (revoke k reason t g)"
| "registry_step (F_Revalidate t current) g = snd (revalidate t current g)"
| "registry_step (F_FenceAll reason t) g = snd (fence_all reason t g)"
| "registry_step F_Clear g = registry_clear g"

text \<open>The records that the clearings among some operations drop.\<close>

fun dropped_records :: "fence_op list \<Rightarrow> fence_registry \<Rightarrow> fence_record multiset" where
  "dropped_records [] g = {#}"
| "dropped_records (op # ops) g =
     (if op = F_Clear then omap_vals (fr_records g) else {#}) + dropped_records ops (registry_step op g)"

lemma registry_step_inv:
  "registry_inv D g \<Longrightarrow> registry_inv (dropped_records [op] g + D) (registry_step op g)"
  by (cases op) (simp_all add: issue_inv stage_inv commit_staged_inv acknowledge_inv report_effect_inv
      revoke_inv revalidate_inv fence_all_inv registry_clear_inv)

lemma registry_steps_inv:
  "registry_inv D g \<Longrightarrow> registry_inv (dropped_records ops g + D) (fold registry_step ops g)"
proof (induction ops arbitrary: D g)
  case Nil
  then show ?case by simp
next
  case (Cons op ops)
  from Cons.IH [OF registry_step_inv [OF Cons.prems, of op]] show ?case by (simp add: ac_simps)
qed

definition record_evolves :: "fence_record \<Rightarrow> fence_record \<Rightarrow> bool" where
  "record_evolves r r' \<longleftrightarrow>
     rc_intent r' = rc_intent r \<and> lifecycle_step\<^sup>*\<^sup>* (rc_lifecycle r) (rc_lifecycle r')"

lemma record_evolves_step:
  "rc_intent r' = rc_intent r \<Longrightarrow>
    rc_lifecycle r' = rc_lifecycle r \<or> lifecycle_step (rc_lifecycle r) (rc_lifecycle r') \<Longrightarrow>
    record_evolves r r'"
  by (auto simp: record_evolves_def)

lemma evolves_revalidated: "rc_is_open r \<Longrightarrow> record_evolves r (revalidated now current r)"
  by (rule record_evolves_step) (auto simp: revalidated_def rc_is_open_def)

lemma evolves_fenced: "rc_is_open r \<Longrightarrow> record_evolves r (fenced reason now r)"
  by (rule record_evolves_step) (auto simp: fenced_def rc_is_open_def)

lemma closed_kept: "\<not> rc_is_open r \<Longrightarrow> revalidated now current r = r" "\<not> rc_is_open r \<Longrightarrow> fenced reason now r = r"
  by (simp_all add: revalidated_def lapsed_def fenced_def)

lemma issue_record:
  "omap_find (fr_records g) k = Some r \<Longrightarrow> omap_find (fr_records (snd (issue a g))) k = Some r"
  by (auto simp: issue_def Let_def split: option.splits sum.splits)

lemma stage_record: "fr_records (snd (stage a g)) = fr_records g"
  by (auto simp: stage_def Let_def split: sum.splits)

lemma commit_staged_record:
  "omap_find (fr_records g) k = Some r \<Longrightarrow> omap_find (fr_records (snd (commit_staged i g))) k = Some r"
  by (auto simp: commit_staged_def)

lemma acknowledge_record:
  "omap_find (fr_records g) k = Some r \<Longrightarrow>
    \<exists>r'. omap_find (fr_records (snd (acknowledge i d t g))) k = Some r' \<and>
      (if rc_is_open r then record_evolves r r' else r' = r)"
  by (auto simp: acknowledge_def Let_def unknown_id_def expire_def rc_is_open_def
      intro!: record_evolves_step split: option.splits)

lemma report_effect_record:
  "omap_find (fr_records g) k = Some r \<Longrightarrow>
    \<exists>r'. omap_find (fr_records (snd (report_effect i d v t g))) k = Some r' \<and>
      (if rc_is_open r then record_evolves r r' else r' = r)"
  by (auto simp: report_effect_def Let_def unknown_id_def expire_def rc_is_open_def
      intro!: record_evolves_step split: option.splits)

lemma revoke_record:
  "omap_find (fr_records g) k = Some r \<Longrightarrow>
    \<exists>r'. omap_find (fr_records (snd (revoke i reason t g))) k = Some r' \<and>
      (if rc_is_open r then record_evolves r r' else r' = r)"
  by (auto simp: revoke_def Let_def unknown_id_def rc_is_open_def
      intro!: record_evolves_step split: option.splits)

lemma registry_step_record:
  assumes "op \<noteq> F_Clear" and "omap_find (fr_records g) k = Some r"
  shows "\<exists>r'. omap_find (fr_records (registry_step op g)) k = Some r' \<and>
    (if rc_is_open r then record_evolves r r' else r' = r)"
  using assms
  by (cases op)
    (simp_all add: issue_record stage_record commit_staged_record acknowledge_record
      report_effect_record revoke_record revalidate_def revalidate_loop_eq fence_all_def
      fence_all_loop_eq evolves_revalidated evolves_fenced closed_kept record_evolves_step)

interpretation fence_life:
  record_lifecycle registry_step "\<lambda>op. op \<noteq> F_Clear" registry_find rc_is_open record_evolves
proof
  show "\<exists>r'. registry_find (registry_step op s) k = Some r' \<and>
      (if rc_is_open r then record_evolves r r' else r' = r)"
    if "op \<noteq> F_Clear" "registry_find s k = Some r" for s k r op
    using registry_step_record that by (simp add: registry_find_def)
qed (auto simp: record_evolves_def)

subsection \<open>What the operations promise\<close>

lemma open_duplicate_None:
  "open_duplicate rs scope gens = None \<longleftrightarrow>
    (\<forall>(k, r) \<in> set rs. \<not> (rc_is_open r \<and> fi_scope (rc_intent r) = scope \<and> fi_gens (rc_intent r) = gens))"
  by (auto simp: open_duplicate_def find_None_iff)

text \<open>The bytes the identity of an intent is derived from always fit the 512-byte buffer.\<close>

definition intent_bytes :: "u64 \<Rightarrow> issue_args \<Rightarrow> bytes" where
  "intent_bytes n a = concat
     [wire_scope (ia_scope a), wire_generation_vector (ia_gens a), le_bytes 8 (ia_boot a),
      le_bytes 8 (ia_incarnation a), le_bytes 8 (ia_now a), le_bytes 8 n]"

lemma emits_intent_bytes:
  "emits (wseq [encode_scope (ia_scope a), encode_generation_vector (ia_gens a), w_u64 (ia_boot a),
     w_u64 (ia_incarnation a), w_i64 (ia_now a), w_u64 n]) (intent_bytes n a)"
  unfolding intent_bytes_def concat.simps
  using rt_scope rt_generation_vector rt_u64 rt_i64 unfolding rt_def
  by (intro emits_Cons emits_nil) blast+

lemma length_intent_bytes: "length (intent_bytes n a) = 98"
  by (simp add: intent_bytes_def)

definition minted :: "fence_policy \<Rightarrow> u64 \<Rightarrow> issue_args \<Rightarrow> fence_intent" where
  "minted policy n a =
     (let fid = fnv1a64 (intent_bytes n a) in
      \<lparr>fi_id = fid, fi_decision = mix64 fid 0x5EED1234, fi_scope = ia_scope a, fi_gens = ia_gens a,
       fi_boot = ia_boot a, fi_incarnation = ia_incarnation a, fi_policy = pol_version policy,
       fi_provenance = ia_provenance a, fi_reason = ia_reason a, fi_issued_at = ia_now a,
       fi_expires_at = ia_now a + pol_fence_ttl policy\<rparr>)"

definition ttl_fits :: "fence_policy \<Rightarrow> issue_args \<Rightarrow> bool" where
  "ttl_fits policy a \<longleftrightarrow>
     sint (pol_fence_ttl policy) > 0 \<and> sint (ia_now a) + sint (pol_fence_ttl policy) < 2 ^ 63"

lemma mint_intent_eq:
  "mint_intent policy n a =
     (if ttl_fits policy a then Inr (minted policy n a) else Inl (O_Invalid, R_UnsupportedInput))"
proof -
  note fit = emits_fresh [OF emits_intent_bytes [of a n], of 512]
  show ?thesis
    using fit sint_add_i64 [of "ia_now a" "pol_fence_ttl policy"] sint_in_i64 [of "ia_now a"]
      sint_in_i64 [of "pol_fence_ttl policy"]
    by (auto simp: mint_intent_def Let_def checked_add_i64_exact length_intent_bytes ttl_fits_def minted_def)
qed

lemma minted_fields [simp]:
  "fi_id (minted policy n a) = fnv1a64 (intent_bytes n a)" "fi_scope (minted policy n a) = ia_scope a"
  "fi_gens (minted policy n a) = ia_gens a" "fi_expires_at (minted policy n a) = ia_now a + pol_fence_ttl policy"
  by (simp_all add: minted_def Let_def)

lemma apply_rules_census: "di_census (apply_rules policy s d) = di_census d"
  by (simp add: apply_rules_def Let_def)

lemma take_census_success:
  "ce_success_sources (cs_census (take_census policy current now es)) =
     of_nat (card (ev_source ` {e \<in> set es. usable_success policy current now e}))"
  "ce_success_incarnations (cs_census (take_census policy current now es)) =
     of_nat (card (sr_incarnation ` ev_source ` {e \<in> set es. usable_success policy current now e}))"
  "ce_success_attempts (cs_census (take_census policy current now es)) =
     sum_list (map ev_attempts (filter (usable_success policy current now) es))"
  by (simp_all add: take_census_def Let_def census_sets census_amounts distinct_incarnations_conv)

lemma card_sources_of:
  assumes "length es < 2 ^ 32"
  shows "card (ev_source ` {e \<in> set es. P e}) < 2 ^ 32"
proof -
  have "card (ev_source ` {e \<in> set es. P e}) \<le> card {e \<in> set es. P e}" by (rule card_image_le) simp
  also have "\<dots> \<le> card (set es)" by (rule card_mono) auto
  also have "\<dots> \<le> length es" by (rule card_length)
  finally show ?thesis using assms by simp
qed

subsection \<open>Properties\<close>

text \<open>
  C18. Over any operations of a fresh registry (issuing, staging, committing, acknowledging,
  reporting, revoking, revalidating, fencing all, clearing) the records stay keyed by the intent's
  id and within \<open>max_fences\<close>, and no two open intents have one subject and one generation vector.
  The counters are exactly those of all records ever made, the ones present and the ones that
  clearings dropped: \<open>issued\<close> is their number, \<open>open\<close> the number of those that are open (or were
  when they were dropped), \<open>revoked\<close>, \<open>expired\<close> and \<open>fenced_by_restart\<close> the numbers of those closed
  in that way. So the second equation of \<open>accounting_closed\<close> always holds.
\<close>

theorem registry_invariant:
  "let g = fold registry_step ops (registry_new policy);
       s = fr_stats g;
       made = omap_vals (fr_records g) + dropped_records ops (registry_new policy)
   in registry_wf g \<and>
      fs_issued s = of_nat (size made) \<and>
      fs_open s = of_nat (size (filter_mset rc_is_open made)) \<and>
      fs_revoked s = in_state L_Revoked made \<and>
      fs_expired s = in_state L_Expired made \<and>
      fs_fenced_by_restart s = in_state L_FencedByRestart made \<and>
      fs_issued s = fs_open s + fs_revoked s + fs_expired s + fs_fenced_by_restart s"
proof -
  have "registry_inv (dropped_records ops (registry_new policy)) (fold registry_step ops (registry_new policy))"
    using registry_steps_inv [OF registry_new_inv] by simp
  then have "registry_wf (fold registry_step ops (registry_new policy))" and
    tallies: "tallies (fr_stats (fold registry_step ops (registry_new policy)))
      (omap_vals (fr_records (fold registry_step ops (registry_new policy))) + dropped_records ops (registry_new policy))"
    by (simp_all add: registry_inv_def)
  with tallies_closed [OF tallies] show ?thesis unfolding Let_def tallies_def by blast
qed

text \<open>
  C19. A fence is never resurrected or rewritten: under any further operations other than \<open>clear\<close>,
  which drops all records, its record stays under its id with its intent; once the intent is revoked,
  expired or fenced by a restart the record stays as it is, and before that it only moves forward
  through the lifecycle.
\<close>

theorem fence_lifecycle_forward:
  assumes "registry_find g k = Some r" and "F_Clear \<notin> set ops"
  shows "\<exists>r'. registry_find (fold registry_step ops g) k = Some r' \<and>
    rc_intent r' = rc_intent r \<and> lifecycle_step\<^sup>*\<^sup>* (rc_lifecycle r) (rc_lifecycle r') \<and>
    (\<not> rc_is_open r \<longrightarrow> r' = r)"
proof -
  have "list_all (\<lambda>op. op \<noteq> F_Clear) ops" using assms(2) by (auto simp: list_all_iff)
  from fence_life.steps_record [OF this assms(1)] show ?thesis by (auto simp: record_evolves_def)
qed

definition sample_intent :: fence_intent where
  "sample_intent = \<lparr>fi_id = 7, fi_decision = 8, fi_scope = sample_scope, fi_gens = sample_gens,
     fi_boot = 1, fi_incarnation = 1, fi_policy = 1, fi_provenance = P_Synthetic, fi_reason = R_None,
     fi_issued_at = 1, fi_expires_at = 100\<rparr>"

definition sample_registry :: fence_registry where
  "sample_registry = snd (commit_staged sample_intent (registry_new default_policy))"

lemma sample_registry_find: "registry_find sample_registry 7 = Some (record_new sample_intent)"
  by (simp add: sample_registry_def commit_staged_def registry_new_def open_duplicate_def registry_find_def
      omap_find_def fi_is_valid_def sample_intent_def sample_simps default_policy_def)

theorem fence_lifecycle_forward_witness:
  "\<exists>r'. registry_find (fold registry_step [F_Acknowledge 7 3 2, F_Revoke 7 R_None 5, F_Effect 7 3 True 6]
      sample_registry) 7 = Some r' \<and> rc_intent r' = sample_intent"
  using fence_lifecycle_forward [OF sample_registry_find,
      of "[F_Acknowledge 7 3 2, F_Revoke 7 R_None 5, F_Effect 7 3 True 6]"]
  by (auto simp: record_new_def)

text \<open>
  C20. Revalidation leaves open exactly the intents that are unexpired and bound to the current
  generation vector: every record that was open and is expired or bound to another vector is
  closed, its id is reported (in ascending order, no other id is), and nothing else changes.
\<close>

theorem revalidate_exact:
  assumes "registry_wf g" and "revalidate now current g = (ids, g')"
  shows "(\<forall>k r. registry_find g' k = Some r \<longrightarrow> rc_is_open r \<longrightarrow>
       fi_gens (rc_intent r) = current \<and> sint now < sint (fi_expires_at (rc_intent r))) \<and>
    sorted_wrt (<) ids \<and>
    set ids = {k. \<exists>r. registry_find g k = Some r \<and> lapsed now current r} \<and>
    (\<forall>k. k \<notin> set ids \<longrightarrow> registry_find g' k = registry_find g k)"
proof -
  let ?L = "filter (\<lambda>kr. lapsed now current (snd kr)) (fr_records g)"
  have inv: "omap_inv (fr_records g)" using assms by (simp add: registry_inv_def registry_wf_def)
  have find: "omap_find (fr_records g) k = Some r \<longleftrightarrow> (k, r) \<in> set (fr_records g)" for k r
    using inv by (rule omap_find_iff)
  have g': "fr_records g' = omap_map (revalidated now current) (fr_records g)"
    using assms(2) by (auto simp: revalidate_def revalidate_loop_eq)
  have "sorted_wrt (<) (map fst (fr_records g))" using inv by (simp add: omap_inv_def)
  then have sorted: "sorted_wrt (<) (map fst ?L)"
    by (simp add: sorted_wrt_map sorted_wrt_filter)
  then have "sort (map fst ?L) = map fst ?L" by (simp add: strict_sorted_iff sorted_sort_id)
  then have ids: "ids = map fst ?L"
    using assms(2) by (simp add: revalidate_def revalidate_loop_eq)
  have set: "set ids = {k. \<exists>r. registry_find g k = Some r \<and> lapsed now current r}"
    unfolding ids by (force simp: registry_find_def find)
  have "registry_find g' k = registry_find g k" if "k \<notin> set ids" for k
    using that unfolding set
    by (cases "registry_find g k") (auto simp: registry_find_def g' revalidated_def)
  moreover have "fi_gens (rc_intent r) = current \<and> sint now < sint (fi_expires_at (rc_intent r))"
    if "registry_find g' k = Some r" "rc_is_open r" for k r
    using that by (auto simp: registry_find_def g' revalidated_open revalidated_intent lapsed_def)
  ultimately show ?thesis using sorted set ids by blast
qed

theorem revalidate_exact_witness:
  "registry_find (snd (revalidate 200 sample_gens sample_registry)) 7 \<noteq> Some (record_new sample_intent)"
proof
  assume r: "registry_find (snd (revalidate 200 sample_gens sample_registry)) 7 = Some (record_new sample_intent)"
  have "registry_wf sample_registry"
    using commit_staged_inv [OF registry_new_inv] by (simp add: sample_registry_def registry_inv_def)
  moreover have "rc_is_open (record_new sample_intent)" by (simp add: record_new_def rc_is_open_def)
  ultimately have "sint (200 :: i64) < sint (fi_expires_at (rc_intent (record_new sample_intent)))"
    using revalidate_exact [OF _ prod.collapse [symmetric], of sample_registry 200 sample_gens] r by blast
  then show False by (simp add: record_new_def sample_intent_def)
qed

text \<open>
  Fencing at a restart closes everything: afterwards no intent is open, the reported ids are
  those of the intents that were open, and closed records are untouched.
\<close>

theorem fence_all_exact:
  assumes "registry_inv {#} g" and "fence_all reason now g = (ids, g')"
  shows "(\<forall>k r. registry_find g' k = Some r \<longrightarrow> \<not> rc_is_open r) \<and>
    set ids = {k. \<exists>r. registry_find g k = Some r \<and> rc_is_open r} \<and>
    fs_open (fr_stats g') = 0 \<and>
    (\<forall>k r. registry_find g k = Some r \<longrightarrow> \<not> rc_is_open r \<longrightarrow> registry_find g' k = Some r)"
proof -
  have inv: "omap_inv (fr_records g)" using assms by (simp add: registry_inv_def registry_wf_def)
  have find: "omap_find (fr_records g) k = Some r \<longleftrightarrow> (k, r) \<in> set (fr_records g)" for k r
    using inv by (rule omap_find_iff)
  have g': "fr_records g' = omap_map (fenced reason now) (fr_records g)"
      "fs_open (fr_stats g') = fs_open (fr_stats g) - num rc_is_open (fr_records g)"
      "set ids = fst ` {x \<in> set (fr_records g). rc_is_open (snd x)}"
    using assms(2) [symmetric] by (simp_all add: fence_all_def fence_all_loop_eq)
  have "fs_open (fr_stats g) = num rc_is_open (fr_records g)"
    using assms by (simp add: registry_inv_def tallies_def size_filter_omap)
  moreover have "fst ` {x \<in> set (fr_records g). rc_is_open (snd x)} =
      {k. \<exists>r. omap_find (fr_records g) k = Some r \<and> rc_is_open r}"
    by (force simp: find)
  ultimately show ?thesis
    by (auto simp: registry_find_def g' fenced_open closed_kept)
qed

theorem fence_all_exact_witness:
  "fs_open (fr_stats (snd (fence_all R_RestartFencedPriorAuthority 5 sample_registry))) = 0"
proof -
  have "registry_inv {#} sample_registry"
    unfolding sample_registry_def by (intro commit_staged_inv registry_new_inv)
  from fence_all_exact [OF this prod.collapse [symmetric]] show ?thesis by blast
qed

text \<open>
  Issuing succeeds exactly when the arguments are well formed, no open intent covers the same
  subject and generations, the registry has room, the expiry fits in 64 bits and lies in the
  future, and the derived id is new. On success exactly one record is added, open, carrying the
  arguments and expiring after the policy's lifetime; on failure the records are unchanged.
\<close>

theorem issue_exact:
  "let intent = minted (fr_policy g) (fs_issue_attempts (fr_stats g) + 1) a in
    (fst (fst (issue a g)) = O_Ok \<longleftrightarrow>
      issue_input_ok a \<and> open_duplicate (fr_records g) (ia_scope a) (ia_gens a) = None \<and>
      length (fr_records g) < unat (pol_max_fences (fr_policy g)) \<and>
      ttl_fits (fr_policy g) a \<and> registry_find g (fi_id intent) = None) \<and>
    fr_records (snd (issue a g)) =
      (if fst (fst (issue a g)) = O_Ok then omap_put (fr_records g) (fi_id intent) (record_new intent)
       else fr_records g)"
  unfolding Let_def
  by (cases "open_duplicate (fr_records g) (ia_scope a) (ia_gens a)")
    (simp_all add: issue_def Let_def mint_intent_eq registry_find_def)

text \<open>
  A downstream acknowledgement or effect report is accepted exactly when the intent is known,
  still open and unexpired; an expired intent is closed on the spot and a closed one never
  reacts, whatever is reported about it.
\<close>

theorem downstream_report_exact:
  "(fst (fst (acknowledge k d now g)) = O_Ok \<longleftrightarrow>
     (\<exists>r. registry_find g k = Some r \<and> rc_is_open r \<and> sint now < sint (fi_expires_at (rc_intent r)))) \<and>
   (fst (fst (report_effect k d v now g)) = O_Ok \<longleftrightarrow>
     (\<exists>r. registry_find g k = Some r \<and> rc_is_open r \<and> sint now < sint (fi_expires_at (rc_intent r)))) \<and>
   (fst (fst (acknowledge k d now g)) = O_Fenced \<longleftrightarrow> (\<exists>r. registry_find g k = Some r \<and> \<not> rc_is_open r)) \<and>
   (fst (fst (acknowledge k d now g)) = O_Expired \<longleftrightarrow>
     (\<exists>r. registry_find g k = Some r \<and> rc_is_open r \<and>
       registry_find (snd (acknowledge k d now g)) k =
         Some (r\<lparr>rc_lifecycle := L_Expired, rc_terminal_reason := R_FenceExpired\<rparr>)))"
proof (cases "registry_find g k")
  case None
  then show ?thesis by (simp add: acknowledge_def report_effect_def registry_find_def)
next
  case (Some r)
  have closed: "x \<noteq> r'\<lparr>rc_lifecycle := L_Expired, rc_terminal_reason := R_FenceExpired\<rparr>"
    if "rc_is_open x" for x r' using that by auto
  have live: "rc_is_open r \<Longrightarrow> rc_is_open (r\<lparr>rc_ack_owner := d, rc_acked_at := now\<rparr>)"
      "rc_is_open (r\<lparr>rc_lifecycle := L_Acknowledged, rc_ack_owner := d, rc_acked_at := now\<rparr>)"
    by (simp_all add: rc_is_open_def)
  consider (shut) "\<not> rc_is_open r" | (late) "rc_is_open r" "sint now \<ge> sint (fi_expires_at (rc_intent r))"
    | (good) "rc_is_open r" "sint now < sint (fi_expires_at (rc_intent r))" by linarith
  then show ?thesis
  proof cases
    case good
    then show ?thesis using Some closed [OF live(1)] closed [OF live(2)]
      by (simp add: acknowledge_def report_effect_def registry_find_def Let_def)
  qed (use Some in \<open>auto simp: acknowledge_def report_effect_def registry_find_def expire_def\<close>)
qed

lemma fresh_successes:
  assumes "request_ok req policy" and "length (rq_evidence req) < 2 ^ 32"
    and "validate_policy policy = O_Ok"
    and "rs_authorized (evaluate_restoration (classify req) policy fence now)"
  shows "(\<exists>e \<in> set (rq_evidence req). usable_success policy (rq_current req) (rq_now req) e) \<and>
    unat (pol_restore_min_sources policy) \<le>
      card (ev_source ` {e \<in> set (rq_evidence req). usable_success policy (rq_current req) (rq_now req) e}) \<and>
    (\<forall>e \<in> set (rq_evidence req). usable policy (rq_current req) (rq_now req) e \<longrightarrow>
       \<not> usable_failure policy (rq_current req) (rq_now req) e \<and>
       ev_kind e \<notin> {K_PartitionSignal, K_CongestionSignal})"
proof -
  let ?S = "ev_source ` {e \<in> set (rq_evidence req). usable_success policy (rq_current req) (rq_now req) e}"
  have auth: "di_classification (classify req) = C_Healthy"
      "pol_restore_min_sources policy \<le> ce_success_sources (di_census (classify req))"
    using assms(4) by (auto simp: evaluate_restoration_def Let_def split: if_splits outcome.splits)
  have healthy: "coded_rules policy (rq_current req) (rq_now req) (rq_evidence req) = C_Healthy"
    using auth(1) classify_rules [OF assms(1,2)] by simp
  have "ce_success_sources (di_census (classify req)) = of_nat (card ?S)"
    by (simp add: classify_ok [OF assms(1)] Let_def apply_rules_census take_census_success)
  then have card: "unat (pol_restore_min_sources policy) \<le> card ?S"
    using auth(2) of_nat_card_le [OF card_sources_of [OF assms(2)]] by simp
  have "\<not> pol_restore_min_sources policy < 1"
    using assms(3) by (auto simp: validate_policy_def policy_defect_def first_defect_None split: if_splits)
  then have "0 < unat (pol_restore_min_sources policy)" by (simp add: word_less_nat_alt)
  with card have "?S \<noteq> {}" by (metis card.empty leD)
  then have ex: "\<exists>e \<in> set (rq_evidence req). usable_success policy (rq_current req) (rq_now req) e" by blast
  with healthy have "\<forall>e \<in> set (rq_evidence req). usable policy (rq_current req) (rq_now req) e \<longrightarrow>
       \<not> usable_failure policy (rq_current req) (rq_now req) e \<and>
       ev_kind e \<notin> {K_PartitionSignal, K_CongestionSignal}"
    by (auto simp: coded_rules_def list_ex_iff split: if_splits)
  with ex card show ?thesis by blast
qed

text \<open>
  C17. Restoration is authorised only on fresh positive evidence: under a validated policy an
  authorised restoration rests on usable clean successes of the current generation vector from
  at least \<open>restore_min_sources\<close> distinct source instances, and no usable observation shows
  complete failure, partition or congestion. The absence of failure evidence never suffices.
\<close>

theorem restoration_needs_fresh_successes:
  assumes "request_ok req policy" and "length (rq_evidence req) < 2 ^ 32"
    and "validate_policy policy = O_Ok"
    and "rs_authorized (evaluate_restoration (classify req) policy fence now)"
  shows "(\<exists>e \<in> set (rq_evidence req). usable_success policy (rq_current req) (rq_now req) e) \<and>
    unat (pol_restore_min_sources policy) \<le>
      card (ev_source ` {e \<in> set (rq_evidence req). usable_success policy (rq_current req) (rq_now req) e}) \<and>
    (\<forall>e \<in> set (rq_evidence req). usable policy (rq_current req) (rq_now req) e \<longrightarrow>
       \<not> usable_failure policy (rq_current req) (rq_now req) e \<and>
       ev_kind e \<notin> {K_PartitionSignal, K_CongestionSignal})"
  using assms by (rule fresh_successes)

text \<open>Two sources that report successful delivery on path 1.\<close>

definition success_evidence :: "delivery_evidence \<Rightarrow> delivery_evidence" where
  "success_evidence e = e\<lparr>ev_kind := K_DeliverySuccess, ev_failures := 0, ev_loss_ppm := 0\<rparr>"

definition recovery_request :: classify_request where
  "recovery_request = sample_request\<lparr>rq_evidence := [success_evidence sample_evidence, success_evidence second_evidence]\<rparr>"

lemma recovery_request_ok: "request_ok recovery_request default_policy"
  using sample_request_ok by (simp add: recovery_request_def request_ok_def)

lemma recovery_successes:
  "usable_success default_policy sample_gens 1 (success_evidence sample_evidence)"
  "usable_success default_policy sample_gens 1 (success_evidence second_evidence)"
  by (simp_all add: usable_defs complete_failure_def clean_success_def success_evidence_def
      second_evidence_def sample_simps is_fresh_at_def default_policy_def)

lemma recovery_authorized:
  "rs_authorized (evaluate_restoration (classify recovery_request) default_policy None 1)"
proof -
  let ?es = "[success_evidence sample_evidence, success_evidence second_evidence]"
  let ?s = "take_census default_policy sample_gens 1 ?es"
  have eq: "classify recovery_request = apply_rules default_policy ?s ((diagnosis_new recovery_request)\<lparr>
      di_census := cs_census ?s, di_failure_sources := cs_failure_sources ?s,
      di_success_sources := cs_success_sources ?s\<rparr>)"
    using classify_ok [OF recovery_request_ok] by (simp add: recovery_request_def sample_request_def Let_def)
  have "{e \<in> set ?es. usable_success default_policy sample_gens 1 e} = set ?es"
    using recovery_successes by auto
  then have set: "ev_source ` {e \<in> set ?es. usable_success default_policy sample_gens 1 e} =
      {ev_source sample_evidence, ev_source second_evidence}"
    by (simp add: success_evidence_def)
  have h: "di_classification (classify recovery_request) = C_Healthy"
    using classify_rules [OF recovery_request_ok] recovery_successes
    by (simp add: recovery_request_def sample_request_def coded_rules_def usable_failure_def
        usable_success_def) (simp add: success_evidence_def sample_kinds)
  then have "di_outcome (classify recovery_request) = O_Ok"
    unfolding eq by (auto simp: apply_rules_def Let_def split: if_splits)
  moreover have "ce_success_sources (cs_census ?s) = 2" "ce_success_incarnations (cs_census ?s) = 2"
    unfolding take_census_success set by (simp_all add: sample_simps second_evidence_def)
  moreover have "ce_success_attempts (cs_census ?s) = 64"
    unfolding take_census_success using recovery_successes
    by simp (simp add: success_evidence_def sample_simps second_evidence_def)
  ultimately show ?thesis
    using h by (simp add: evaluate_restoration_def Let_def eq apply_rules_census default_policy_def)
qed

theorem restoration_needs_fresh_successes_witness:
  "\<exists>e \<in> set (rq_evidence recovery_request).
     usable_success default_policy (rq_current recovery_request) (rq_now recovery_request) e"
proof -
  have "length (rq_evidence recovery_request) < 2 ^ 32" by (simp add: recovery_request_def)
  from restoration_needs_fresh_successes [OF recovery_request_ok this default_policy_valid recovery_authorized]
  show ?thesis by blast
qed

text \<open>
  The accounting identity that the registry documents breaks: one attempt with a nil boot id
  is counted as an attempt but neither as issued nor as refused.
\<close>

theorem invalid_issue_breaks_accounting:
  "fs_accounting_closed (fr_stats (registry_new default_policy)) \<and>
   \<not> fs_accounting_closed (fr_stats (snd (issue
     \<lparr>ia_scope = sample_scope, ia_gens = sample_gens, ia_boot = 0, ia_incarnation = 1,
      ia_provenance = P_Synthetic, ia_reason = R_CorroborationSatisfied, ia_now = 5\<rparr>
     (registry_new default_policy))))"
  by (simp add: issue_def issue_input_ok_def registry_new_def stats_new_def fs_accounting_closed_def Let_def)

text \<open>
  A withdrawn path is reported healthy when a usable structural withdrawal coexists with a
  clean success: the withdrawal rule only applies in the absence of successes.
\<close>

theorem withdrawn_path_reported_healthy:
  "\<exists>req e. request_ok req default_policy \<and> e \<in> set (rq_evidence req) \<and>
     usable default_policy (rq_current req) (rq_now req) e \<and> ev_kind e = K_StructuralWithdrawal \<and>
     di_classification (classify req) = C_Healthy"
proof -
  let ?w = "sample_evidence\<lparr>ev_kind := K_StructuralWithdrawal\<rparr>"
  let ?req = "sample_request\<lparr>rq_evidence := [?w, success_evidence second_evidence]\<rparr>"
  have ok: "request_ok ?req default_policy" using sample_request_ok by (simp add: request_ok_def)
  have w: "usable default_policy sample_gens 1 ?w"
    by (simp add: usable_def sample_simps is_fresh_at_def default_policy_def)
  have nf: "\<not> usable_failure default_policy sample_gens 1 ?w" "\<not> usable_success default_policy sample_gens 1 ?w"
    by (simp_all add: usable_failure_def usable_success_def is_loss_kind_def)
  have "di_classification (classify ?req) = C_Healthy"
    using classify_rules [OF ok] recovery_successes(2) w nf
    by (simp add: sample_request_def coded_rules_def usable_failure_def [of _ _ _ "success_evidence second_evidence"]
        usable_success_def [of _ _ _ "success_evidence second_evidence"])
      (simp add: success_evidence_def sample_kinds is_loss_kind_def)
  with ok w show ?thesis
    by (intro exI [of _ ?req] exI [of _ ?w]) (simp add: sample_request_def)
qed

end
