(* ===== verification/BHG_Localizer.thy ===== *)
theory BHG_Localizer
  imports BHG_Domain "HOL-Library.List_Lexorder"
begin

text \<open>
  Failure localization (\<open>localizer.hpp\<close>, \<open>localizer.cpp\<close>): from the hops proven healthy and
  the failed segments, the smallest sets of hops that explain every failure. The constraint
  system is reduced to bit masks (\<open>reduce\<close>), a memoising oracle decides whether a mask can be
  covered within a budget (\<open>covers\<close>), the smallest size is searched upwards from a packing
  bound, and the minimum solutions are enumerated in lexicographic order (\<open>run\<close>).
  \<open>greedy_localization\<close> is the heuristic baseline, \<open>reference_localize\<close> the exhaustive solver
  and \<open>verify_localization\<close> the validator.

  A mask is a 64-bit word whose bits are read with \<open>bit\<close>; loop indices and search budgets that
  the code bounds by 64 are natural numbers; the node counters keep their width. The code shifts
  by candidate and set indices, which is defined for indices below 64: the theorems assume the
  input validation that bounds both.
\<close>

subsection \<open>Statuses, inputs and results\<close>

datatype localization_status =
    Loc_Resolved | Loc_Ambiguous | Loc_Indeterminate | Loc_ProvenInfeasible
  | Loc_InvalidInput

primrec localization_status_code :: "localization_status \<Rightarrow> u8" where
  "localization_status_code Loc_Resolved = 0"
| "localization_status_code Loc_Ambiguous = 1"
| "localization_status_code Loc_Indeterminate = 2"
| "localization_status_code Loc_ProvenInfeasible = 3"
| "localization_status_code Loc_InvalidInput = 4"

definition all_localization_status :: "localization_status list" where
  "all_localization_status =
    [Loc_Resolved, Loc_Ambiguous, Loc_Indeterminate, Loc_ProvenInfeasible, Loc_InvalidInput]"

definition is_valid_localization_status :: "u8 \<Rightarrow> bool" where
  "is_valid_localization_status raw \<longleftrightarrow> raw \<le> 4"

definition localization_status_of_code :: "u8 \<Rightarrow> localization_status" where
  "localization_status_of_code = enum_cast localization_status_code all_localization_status"

primrec localization_status_to_string :: "localization_status \<Rightarrow> string" where
  "localization_status_to_string Loc_Resolved = ''Resolved''"
| "localization_status_to_string Loc_Ambiguous = ''Ambiguous''"
| "localization_status_to_string Loc_Indeterminate = ''Indeterminate''"
| "localization_status_to_string Loc_ProvenInfeasible = ''ProvenInfeasible''"
| "localization_status_to_string Loc_InvalidInput = ''InvalidInput''"

interpretation localization_status_enum: wire_enum localization_status_code is_valid_localization_status localization_status_of_code
  unfolding localization_status_of_code_def
proof (rule wire_enumI)
  show "e \<in> set all_localization_status" for e by (cases e) (simp_all add: all_localization_status_def)
  show "distinct (map localization_status_code all_localization_status)" by (simp add: all_localization_status_def)
  show "is_valid_localization_status raw \<longleftrightarrow> raw \<in> set (map localization_status_code all_localization_status)" for raw
    using word_range_set [of 4 0 raw]
    by (simp add: is_valid_localization_status_def all_localization_status_def upt_rec)
qed


definition kMaxLocalizationSets :: nat where
  "kMaxLocalizationSets = 64"

definition kMaxLocalizationCandidates :: nat where
  "kMaxLocalizationCandidates = 64"

definition kReferenceSolverMaxCandidates :: nat where
  "kReferenceSolverMaxCandidates = 18"

record localization_input =
  li_element_count :: u32
  li_proven_ok :: "u32 list"
  li_failure_sets :: "u32 list list"
  li_search_node_budget :: u64
  li_max_solutions :: u32

record localization_result =
  lr_status :: localization_status
  lr_elements :: "u32 list"
  lr_optimal_size :: u32
  lr_optimality_proven :: bool
  lr_uniqueness_proven :: bool
  lr_solutions_truncated :: bool
  lr_solutions_found :: u32
  lr_search_nodes :: u64
  lr_infeasible_witness :: u32
  lr_has_infeasible_witness :: bool
  lr_reason :: reason_code

definition result_new :: localization_result where
  "result_new = \<lparr>lr_status = Loc_InvalidInput, lr_elements = [], lr_optimal_size = 0,
     lr_optimality_proven = False, lr_uniqueness_proven = False, lr_solutions_truncated = False,
     lr_solutions_found = 0, lr_search_nodes = 0, lr_infeasible_witness = 0,
     lr_has_infeasible_witness = False, lr_reason = R_None\<rparr>"

subsection \<open>Input validation\<close>

text \<open>The element loops of the validation: the complaint about the first bad element, if any.\<close>

fun check_elements :: "u32 \<Rightarrow> string \<Rightarrow> string \<Rightarrow> u32 option \<Rightarrow> u32 list \<Rightarrow> string option" where
  "check_elements n range_why order_why prev [] = None"
| "check_elements n range_why order_why prev (e # es) =
     (if e \<ge> n then Some range_why
      else if (case prev of None \<Rightarrow> False | Some p \<Rightarrow> e \<le> p) then Some order_why
      else check_elements n range_why order_why (Some e) es)"

fun check_failure_sets :: "u32 \<Rightarrow> u32 list list \<Rightarrow> string option" where
  "check_failure_sets n [] = None"
| "check_failure_sets n (s # ss) =
     (case check_elements n ''failure set element out of range''
        ''failure set must be ascending and unique'' None s of
        Some why \<Rightarrow> Some why
      | None \<Rightarrow> check_failure_sets n ss)"

definition validate_localization_input :: "localization_input \<Rightarrow> outcome \<times> string" where
  "validate_localization_input inp =
     (if li_element_count inp = 0 then (O_Invalid, ''element_count must be positive'')
      else if length (li_failure_sets inp) > kMaxLocalizationSets then
        (O_Oversized, ''failure_sets exceeds the supported mask width'')
      else if length (li_proven_ok inp) > unat (li_element_count inp) then
        (O_Invalid, ''proven_ok larger than element_count'')
      else if unat (li_element_count inp) - length (li_proven_ok inp) > kMaxLocalizationCandidates then
        (O_Unsupported, ''candidate count exceeds the supported bound'')
      else if li_search_node_budget inp = 0 then (O_Invalid, ''search_node_budget must be positive'')
      else if li_max_solutions inp = 0 then (O_Invalid, ''max_solutions must be positive'')
      else case check_elements (li_element_count inp) ''proven_ok element out of range''
          ''proven_ok must be ascending and unique'' None (li_proven_ok inp) of
        Some why \<Rightarrow> (O_Invalid, why)
      | None \<Rightarrow>
          (case check_failure_sets (li_element_count inp) (li_failure_sets inp) of
             Some why \<Rightarrow> (O_Invalid, why)
           | None \<Rightarrow> (O_Ok, [])))"

subsection \<open>The reduced constraint system\<close>

type_synonym mask = u64

record reduced =
  rd_candidates :: "u32 list"
  rd_sets :: "mask list"
  rd_raw_sets :: "u32 list list"
  rd_set_origin :: "u32 list"
  rd_cover :: "mask list"
  rd_full_mask :: mask
  rd_min_set_origin :: u32
  rd_has_empty_set :: bool
  rd_empty_set_origin :: u32

record raw_set =
  ra_elems :: "u32 list"
  ra_origin :: u32

text \<open>\<open>std::lower_bound\<close> on an ascending list.\<close>

definition lower_bound :: "u32 list \<Rightarrow> u32 \<Rightarrow> nat" where
  "lower_bound xs e = length (takeWhile (\<lambda>x. x < e) xs)"

definition binary_search :: "u32 list \<Rightarrow> u32 \<Rightarrow> bool" where
  "binary_search xs e \<longleftrightarrow> lower_bound xs e < length xs \<and> xs ! lower_bound xs e = e"

definition elements_to_mask :: "u32 list \<Rightarrow> u32 list \<Rightarrow> mask" where
  "elements_to_mask candidates elems =
     foldl (\<lambda>m e. if binary_search candidates e then m OR push_bit (lower_bound candidates e) 1 else m)
       0 elems"

definition marked_ok :: "localization_input \<Rightarrow> u32 \<Rightarrow> bool" where
  "marked_ok inp e \<longleftrightarrow> e < li_element_count inp \<and> e \<in> set (li_proven_ok inp)"

definition live_elements :: "localization_input \<Rightarrow> u32 list \<Rightarrow> u32 list" where
  "live_elements inp s =
     remdups_adj (sort (filter (\<lambda>e. e < li_element_count inp \<and> \<not> marked_ok inp e) s))"

text \<open>
  The sets are taken by size, then lexicographically; of two equal sets the one that the sort
  puts first is kept, and nothing but its origin depends on that choice.
\<close>

fun keep_minimal :: "raw_set list \<Rightarrow> raw_set list \<Rightarrow> raw_set list" where
  "keep_minimal kept [] = kept"
| "keep_minimal kept (x # xs) =
     (if \<exists>k \<in> set kept. length (ra_elems k) \<le> length (ra_elems x) \<and> set (ra_elems k) \<subseteq> set (ra_elems x)
      then keep_minimal kept xs
      else keep_minimal (kept @ [x]) xs)"

fun add_sets :: "nat \<Rightarrow> raw_set list \<Rightarrow> reduced \<Rightarrow> reduced" where
  "add_sets si [] r = r"
| "add_sets si (k # ks) r =
     (let m = elements_to_mask (rd_candidates r) (ra_elems k) in
      add_sets (Suc si) ks
        (r\<lparr>rd_sets := rd_sets r @ [m],
           rd_raw_sets := rd_raw_sets r @ [ra_elems k],
           rd_set_origin := rd_set_origin r @ [ra_origin k],
           rd_full_mask := rd_full_mask r OR push_bit si 1,
           rd_cover := map (\<lambda>(ci, c). if m AND push_bit ci 1 \<noteq> 0 then c OR push_bit si 1 else c)
             (enumerate 0 (rd_cover r))\<rparr>))"

definition constraint_sets :: "localization_input \<Rightarrow> raw_set list" where
  "constraint_sets inp =
     map (\<lambda>(i, s). \<lparr>ra_elems = live_elements inp s, ra_origin = of_nat i\<rparr>)
       (enumerate 0 (li_failure_sets inp))"

definition kept_sets :: "localization_input \<Rightarrow> raw_set list" where
  "kept_sets inp =
     keep_minimal [] (sort_key (\<lambda>s. (length (ra_elems s), ra_elems s))
       (filter (\<lambda>s. ra_elems s \<noteq> []) (constraint_sets inp)))"

definition reduce :: "localization_input \<Rightarrow> reduced" where
  "reduce inp =
     (let candidates = filter (\<lambda>e. \<not> marked_ok inp e) (map of_nat [0..<unat (li_element_count inp)]);
          empties = filter (\<lambda>s. ra_elems s = []) (constraint_sets inp);
          kept = kept_sets inp
      in add_sets 0 kept
        \<lparr>rd_candidates = candidates, rd_sets = [], rd_raw_sets = [], rd_set_origin = [],
         rd_cover = replicate (length candidates) 0, rd_full_mask = 0,
         rd_min_set_origin = (if kept = [] then 0 else ra_origin (hd kept)),
         rd_has_empty_set = (empties \<noteq> []),
         rd_empty_set_origin = (if empties = [] then 0 else ra_origin (hd empties))\<rparr>)"

subsection \<open>The feasibility oracle\<close>

record feasibility_oracle =
  or_nodes :: u64
  or_exhausted :: bool
  or_memo :: "mask \<times> nat \<times> nat \<Rightarrow> bool option"

definition oracle_new :: feasibility_oracle where
  "oracle_new = \<lparr>or_nodes = 0, or_exhausted = False, or_memo = (\<lambda>_. None)\<rparr>"

text \<open>\<open>covers\<close> is the recursive call, \<open>covers_loop\<close> its loop over the candidates, with the
  budget that is left once one of them is chosen.\<close>

function covers :: "reduced \<Rightarrow> u64 \<Rightarrow> mask \<Rightarrow> nat \<Rightarrow> nat \<Rightarrow> feasibility_oracle \<Rightarrow> bool \<times> feasibility_oracle"
  and covers_loop :: "reduced \<Rightarrow> u64 \<Rightarrow> mask \<Rightarrow> nat \<Rightarrow> nat \<Rightarrow> nat list \<Rightarrow> feasibility_oracle \<Rightarrow> bool \<times> feasibility_oracle" where
  "covers r limit m budget lo st =
     (if or_exhausted st then (False, st)
      else if m = 0 then (True, st)
      else if budget = 0 then (False, st)
      else
        (let st = st\<lparr>or_nodes := or_nodes st + 1\<rparr> in
         if or_nodes st > limit then (False, st\<lparr>or_exhausted := True\<rparr>)
         else case or_memo st (m, budget, lo) of
           Some v \<Rightarrow> (v, st)
         | None \<Rightarrow>
             (let (result, st) = covers_loop r limit m (budget - 1) lo [lo..<length (rd_candidates r)] st
              in (result,
                  if or_exhausted st then st
                  else st\<lparr>or_memo := (or_memo st)((m, budget, lo) \<mapsto> result)\<rparr>))))"
| "covers_loop r limit m budget lo [] st = (False, st)"
| "covers_loop r limit m budget lo (ci # cis) st =
     (if rd_cover r ! ci AND push_bit (lowest_set_bit64 m) 1 = 0 then
        covers_loop r limit m budget lo cis st
      else
        (let (hit, st) = covers r limit (m AND NOT (rd_cover r ! ci)) budget lo st
         in if hit then (True, st)
            else if or_exhausted st then (False, st)
            else covers_loop r limit m budget lo cis st))"
  by pat_completeness auto
termination
  by (relation "measures
      [case_sum (\<lambda>(r, limit, m, budget, lo, st). budget) (\<lambda>(r, limit, m, budget, lo, cis, st). budget),
       case_sum (\<lambda>x. 0) (\<lambda>(r, limit, m, budget, lo, cis, st). Suc (length cis))]") auto

declare covers.simps [simp del]

subsection \<open>Enumeration of the minimum solutions\<close>

record enumeration =
  en_first :: "u32 list"
  en_found :: u32
  en_truncated :: bool
  en_nodes :: u64
  en_oracle :: feasibility_oracle

definition enumeration_new :: "feasibility_oracle \<Rightarrow> enumeration" where
  "enumeration_new o' = \<lparr>en_first = [], en_found = 0, en_truncated = False, en_nodes = 0, en_oracle = o'\<rparr>"

record enum_limits =
  el_oracle_limit :: u64
  el_max_solutions :: u32
  el_node_budget :: u64

text \<open>The prefix \<open>current_\<close> is pushed before and popped after each recursive call: it is an
  argument here.\<close>

function run :: "reduced \<Rightarrow> enum_limits \<Rightarrow> u32 list \<Rightarrow> mask \<Rightarrow> nat \<Rightarrow> nat \<Rightarrow> enumeration \<Rightarrow> enumeration"
  and run_loop :: "reduced \<Rightarrow> enum_limits \<Rightarrow> u32 list \<Rightarrow> mask \<Rightarrow> nat \<Rightarrow> nat list \<Rightarrow> enumeration \<Rightarrow> enumeration" where
  "run r lim current m budget lo st =
     (if en_truncated st then st
      else if m = 0 then
        (let st = st\<lparr>en_found := en_found st + 1\<rparr>;
             st = (if en_found st = 1 then st\<lparr>en_first := current\<rparr> else st)
         in if en_found st \<ge> el_max_solutions lim then st\<lparr>en_truncated := True\<rparr> else st)
      else if budget = 0 then st
      else run_loop r lim current m (budget - 1) [lo..<length (rd_candidates r)] st)"
| "run_loop r lim current m budget [] st = st"
| "run_loop r lim current m budget (ci # cis) st =
     (let st = st\<lparr>en_nodes := en_nodes st + 1\<rparr> in
      if en_nodes st > el_node_budget lim then st\<lparr>en_truncated := True\<rparr>
      else if rd_cover r ! ci AND m = 0 then run_loop r lim current m budget cis st
      else
        (let rest = m AND NOT (rd_cover r ! ci);
             (feasible, oracle) = covers r (el_oracle_limit lim) rest budget (Suc ci) (en_oracle st);
             st = st\<lparr>en_oracle := oracle\<rparr>
         in if \<not> feasible then
              (if or_exhausted oracle then st\<lparr>en_truncated := True\<rparr>
               else run_loop r lim current m budget cis st)
            else
              (let st = run r lim (current @ [rd_candidates r ! ci]) rest budget (Suc ci) st
               in if en_truncated st then st else run_loop r lim current m budget cis st)))"
  by pat_completeness auto
termination
  by (relation "measures
      [case_sum (\<lambda>(r, lim, current, m, budget, lo, st). budget) (\<lambda>(r, lim, current, m, budget, cis, st). budget),
       case_sum (\<lambda>x. 0) (\<lambda>(r, lim, current, m, budget, cis, st). Suc (length cis))]") auto

declare run.simps [simp del]

subsection \<open>The lower bound and the greedy cover\<close>

fun pack_disjoint :: "mask list \<Rightarrow> mask \<Rightarrow> u32 \<Rightarrow> u32" where
  "pack_disjoint [] used n = n"
| "pack_disjoint (s # ss) used n =
     (if s AND used \<noteq> 0 then pack_disjoint ss used n
      else pack_disjoint ss (used OR s) (n + 1))"

definition disjoint_lower_bound :: "reduced \<Rightarrow> u32" where
  "disjoint_lower_bound r = pack_disjoint (sort_key (\<lambda>s. (popcount64 s, s)) (rd_sets r)) 0 0"

text \<open>The candidate that covers most of what remains, the lowest index among equals.\<close>

definition greedy_best :: "reduced \<Rightarrow> mask \<Rightarrow> nat \<times> u32" where
  "greedy_best r remaining =
     foldl (\<lambda>(best_idx, best_count) ci.
         let cnt = popcount64 (rd_cover r ! ci AND remaining)
         in if cnt > best_count then (ci, cnt) else (best_idx, best_count))
       (length (rd_candidates r), 0) [0..<length (rd_candidates r)]"

lemma popcount64_zero: "popcount64 v = 0 \<longleftrightarrow> v = 0"
proof -
  have "length (filter (bit v) [0..<64]) \<le> 64"
    using length_filter_le [of "bit v" "[0..<64]"] by simp
  then have "(of_nat (length (filter (bit v) [0..<64])) :: u32) = 0 \<longleftrightarrow> filter (bit v) [0..<64] = []"
    using word_of_nat_eq_0_iff [where 'a = 32, of "length (filter (bit v) [0..<64])"]
    by (auto dest!: dvd_imp_le)
  also have "\<dots> \<longleftrightarrow> v = 0"
    by (auto simp: filter_empty_conv bit_eq_iff [of v 0] dest: bit_imp_le_length)
  finally show ?thesis by (simp add: popcount64_def)
qed

lemma mask_shrinks:
  assumes "c AND (m :: mask) \<noteq> 0"
  shows "unat (m AND NOT c) < unat m"
proof -
  have "m AND NOT c \<le> m" by (rule word_and_le2)
  moreover have "m AND NOT c \<noteq> m"
  proof
    assume e: "m AND NOT c = m"
    have "c AND m = c AND (m AND NOT c)" by (simp only: e)
    also have "\<dots> = 0" by (auto intro!: bit_eqI simp: bit_simps)
    finally show False using assms by simp
  qed
  ultimately have "m AND NOT c < m" by (simp add: less_le)
  then show ?thesis by (simp only: word_less_nat_alt)
qed

lemma greedy_best_fold:
  "foldl (\<lambda>(best_idx, best_count) ci.
       let cnt = popcount64 (rd_cover r ! ci AND remaining)
       in if cnt > best_count then (ci, cnt) else (best_idx, best_count)) (b, c) cis = (b', c') \<Longrightarrow>
   (c = popcount64 (rd_cover r ! b AND remaining) \<or> c = 0) \<Longrightarrow>
   (c' = popcount64 (rd_cover r ! b' AND remaining) \<or> c' = 0)"
  by (induction cis arbitrary: b c) (auto simp: Let_def split: if_splits)

lemma greedy_best_covers:
  assumes "greedy_best r remaining = (b, c)" "c \<noteq> 0"
  shows "rd_cover r ! b AND remaining \<noteq> 0"
  using greedy_best_fold [OF assms(1) [unfolded greedy_best_def]] assms(2)
  by (auto simp: popcount64_zero)

function greedy_loop :: "reduced \<Rightarrow> mask \<Rightarrow> u32 list \<Rightarrow> u32 list" where
  "greedy_loop r remaining chosen =
     (if remaining = 0 then chosen
      else
        (let (best_idx, best_count) = greedy_best r remaining
         in if best_idx \<ge> length (rd_candidates r) \<or> best_count = 0 then chosen
            else greedy_loop r (remaining AND NOT (rd_cover r ! best_idx))
              (chosen @ [rd_candidates r ! best_idx])))"
  by pat_completeness auto
termination
  by (relation "measure (\<lambda>(r, remaining, chosen). unat remaining)")
    (auto intro!: mask_shrinks dest: greedy_best_covers [OF sym])

declare greedy_loop.simps [simp del]

definition greedy_localization :: "localization_input \<Rightarrow> u32 list" where
  "greedy_localization inp = (let r = reduce inp in sort (greedy_loop r (rd_full_mask r) []))"

subsection \<open>The exact solver\<close>

text \<open>The search for the smallest feasible size, over the sizes of the loop.\<close>

fun find_size :: "reduced \<Rightarrow> u64 \<Rightarrow> nat list \<Rightarrow> feasibility_oracle \<Rightarrow> nat option \<times> feasibility_oracle" where
  "find_size r limit [] st = (None, st)"
| "find_size r limit (k # ks) st =
     (let (hit, st) = covers r limit (rd_full_mask r) k 0 st
      in if hit then (Some k, st)
         else if or_exhausted st then (None, st)
         else find_size r limit ks st)"

definition localize :: "localization_input \<Rightarrow> localization_result" where
  "localize inp =
     (if \<not> is_affirmative (fst (validate_localization_input inp)) then
        result_new\<lparr>lr_status := Loc_InvalidInput, lr_reason := R_LocalizationInvalid\<rparr>
      else
        (let r = reduce inp in
         if rd_has_empty_set r then
           result_new\<lparr>lr_status := Loc_ProvenInfeasible, lr_has_infeasible_witness := True,
             lr_infeasible_witness := rd_empty_set_origin r, lr_reason := R_LocalizationInfeasible\<rparr>
         else if rd_sets r = [] then
           result_new\<lparr>lr_status := Loc_Resolved, lr_optimality_proven := True,
             lr_uniqueness_proven := True, lr_solutions_found := 1,
             lr_reason := R_LocalizationResolved\<rparr>
         else
           (let lb = disjoint_lower_bound r;
                start = (if lb = 0 then 1 else lb);
                (found_size, st) = find_size r (li_search_node_budget inp)
                  [unat start..<Suc kMaxLocalizationCandidates] oracle_new;
                out = result_new\<lparr>lr_search_nodes := or_nodes st\<rparr>
            in case found_size of
              None \<Rightarrow>
                out\<lparr>lr_status := Loc_Indeterminate, lr_reason := R_LocalizationSearchLimit,
                  lr_elements := greedy_localization inp\<rparr>
            | Some best \<Rightarrow>
                (let remaining_budget =
                       (if li_search_node_budget inp > lr_search_nodes out
                        then li_search_node_budget inp - lr_search_nodes out else 1);
                     lim = \<lparr>el_oracle_limit = li_search_node_budget inp,
                       el_max_solutions = li_max_solutions inp, el_node_budget = remaining_budget\<rparr>;
                     en = run r lim [] (rd_full_mask r) best 0 (enumeration_new st);
                     out = out\<lparr>lr_optimality_proven := True, lr_optimal_size := of_nat best,
                       lr_search_nodes := lr_search_nodes out + en_nodes en,
                       lr_solutions_found := en_found en,
                       lr_solutions_truncated := en_truncated en,
                       lr_uniqueness_proven := (\<not> en_truncated en \<and> en_found en = 1)\<rparr>
                 in if \<not> en_found en > 0 then
                      out\<lparr>lr_elements := greedy_localization inp, lr_optimality_proven := False,
                        lr_status := Loc_Indeterminate, lr_reason := R_LocalizationSearchLimit\<rparr>
                    else
                      out\<lparr>lr_elements := en_first en,
                        lr_status := (if en_found en > 1 then Loc_Ambiguous else Loc_Resolved),
                        lr_reason := (if en_found en > 1 then R_LocalizationAmbiguous
                          else R_LocalizationResolved)\<rparr>))))"

subsection \<open>The exhaustive reference solver\<close>

text \<open>The next index list in lexicographic order: the rightmost index that can still grow is
  raised and the ones after it follow it consecutively.\<close>

fun next_position :: "nat \<Rightarrow> nat list \<Rightarrow> nat \<Rightarrow> nat option" where
  "next_position n idx 0 = None"
| "next_position n idx (Suc pos) =
     (if idx ! pos < n - length idx + pos then Some pos else next_position n idx pos)"

definition next_combination :: "nat \<Rightarrow> nat list \<Rightarrow> nat list option" where
  "next_combination n idx =
     (case next_position n idx (length idx) of
        None \<Rightarrow> None
      | Some pos \<Rightarrow> Some (take pos idx @ [Suc (idx ! pos)..<Suc (idx ! pos) + (length idx - pos)]))"

text \<open>What a choice of indices covers.\<close>

definition indices_mask :: "nat list \<Rightarrow> mask" where
  "indices_mask idx = foldl (\<lambda>m i. m OR push_bit i 1) 0 idx"

definition covered_by :: "reduced \<Rightarrow> nat list \<Rightarrow> mask" where
  "covered_by r idx =
     (let m = indices_mask idx in
      foldl (\<lambda>covered ci. if m AND push_bit ci 1 \<noteq> 0 then covered OR rd_cover r ! ci else covered)
        0 [0..<length (rd_candidates r)])"

lemma next_position_bound:
  "next_position n idx p = Some pos \<Longrightarrow> pos < p \<and> idx ! pos < n - length idx + pos"
  by (induction p) (auto split: if_splits)

lemma next_combination_length: "next_combination n idx = Some idx' \<Longrightarrow> length idx' = length idx"
  by (auto simp: next_combination_def dest!: next_position_bound split: option.splits)

lemma next_combination_lex:
  assumes "next_combination n idx = Some idx'"
  shows "(idx', idx) \<in> lex {(a, b). b < a \<and> b < max n (length idx)}"
proof -
  obtain pos where pos: "next_position n idx (length idx) = Some pos"
    and idx': "idx' = take pos idx @ [Suc (idx ! pos)..<Suc (idx ! pos) + (length idx - pos)]"
    using assms by (auto simp: next_combination_def split: option.splits)
  have b: "pos < length idx" "idx ! pos < max n (length idx)"
    using next_position_bound [OF pos] by auto
  have s: "idx = take pos idx @ (idx ! pos) # drop (Suc pos) idx"
    using b(1) by (rule id_take_nth_drop)
  have u: "idx' = take pos idx
      @ Suc (idx ! pos) # [Suc (Suc (idx ! pos))..<Suc (idx ! pos) + (length idx - pos)]"
    unfolding idx' using b(1) by (subst upt_conv_Cons) auto
  have "(Suc (idx ! pos), idx ! pos) \<in> {(a, b). b < a \<and> b < max n (length idx)}"
    using b(2) by simp
  with next_combination_length [OF assms] s u show ?thesis unfolding lex_conv by blast
qed

lemma wf_grow: "wf {(a, b :: nat). b < a \<and> b < n}"
  by (rule wf_subset [OF wf_measure [of "\<lambda>x. n - x"]]) auto

function ref_loop :: "reduced \<Rightarrow> u32 \<Rightarrow> nat list \<Rightarrow> u32 list list \<Rightarrow> u32 list list" where
  "ref_loop r max_solutions idx mins =
     (let hit = (covered_by r idx = rd_full_mask r);
          mins = (if hit then mins @ [map (\<lambda>i. rd_candidates r ! i) idx] else mins)
      in if hit \<and> length mins \<ge> unat max_solutions then mins
         else case next_combination (length (rd_candidates r)) idx of
           None \<Rightarrow> mins
         | Some idx' \<Rightarrow> ref_loop r max_solutions idx' mins)"
  by pat_completeness auto
termination
proof (relation "inv_image
    (same_fst (\<lambda>_. True) (\<lambda>n. lex {(a, b). b < a \<and> b < n}))
    (\<lambda>(r, max_solutions, idx, mins). (max (length (rd_candidates r)) (length idx), idx))")
  show "wf (inv_image (same_fst (\<lambda>_. True) (\<lambda>n. lex {(a, b :: nat). b < a \<and> b < n}))
    (\<lambda>(r :: reduced, max_solutions :: u32, idx, mins :: u32 list list).
      (max (length (rd_candidates r)) (length idx), idx)))"
    by (intro wf_inv_image wf_same_fst wf_lex wf_grow)
qed (auto simp: same_fst_def next_combination_length dest: next_combination_lex)

declare ref_loop.simps [simp del]

fun ref_sizes :: "reduced \<Rightarrow> u32 \<Rightarrow> nat list \<Rightarrow> (nat \<times> u32 list list) option" where
  "ref_sizes r max_solutions [] = None"
| "ref_sizes r max_solutions (k # ks) =
     (let mins = ref_loop r max_solutions [0..<k] []
      in if mins \<noteq> [] then Some (k, mins) else ref_sizes r max_solutions ks)"

definition reference_localize :: "localization_input \<Rightarrow> nat \<Rightarrow> localization_result" where
  "reference_localize inp max_candidates =
     (if \<not> is_affirmative (fst (validate_localization_input inp)) then
        result_new\<lparr>lr_status := Loc_InvalidInput, lr_reason := R_LocalizationInvalid\<rparr>
      else
        (let r = reduce inp in
         if rd_has_empty_set r then
           result_new\<lparr>lr_status := Loc_ProvenInfeasible, lr_has_infeasible_witness := True,
             lr_infeasible_witness := rd_empty_set_origin r, lr_reason := R_LocalizationInfeasible\<rparr>
         else if rd_sets r = [] then
           result_new\<lparr>lr_status := Loc_Resolved, lr_optimality_proven := True,
             lr_uniqueness_proven := True, lr_solutions_found := 1,
             lr_reason := R_LocalizationResolved\<rparr>
         else if length (rd_candidates r) > max_candidates then
           result_new\<lparr>lr_status := Loc_Indeterminate, lr_reason := R_LocalizationSearchLimit\<rparr>
         else case ref_sizes r (li_max_solutions inp) [1..<Suc (length (rd_candidates r))] of
           Some (k, mins) \<Rightarrow>
             result_new\<lparr>lr_optimal_size := of_nat k, lr_optimality_proven := True,
               lr_solutions_found := of_nat (length mins),
               lr_uniqueness_proven :=
                 (length mins = 1 \<and> \<not> lr_solutions_truncated result_new),
               lr_solutions_truncated :=
                 (length mins \<ge> unat (li_max_solutions inp) \<and> li_max_solutions inp > 1),
               lr_elements := hd mins,
               lr_status := (if length mins > 1 then Loc_Ambiguous else Loc_Resolved),
               lr_reason := (if length mins > 1 then R_LocalizationAmbiguous
                 else R_LocalizationResolved)\<rparr>
         | None \<Rightarrow>
             result_new\<lparr>lr_status := Loc_ProvenInfeasible, lr_has_infeasible_witness := True,
               lr_infeasible_witness := rd_min_set_origin r,
               lr_reason := R_LocalizationInfeasible\<rparr>))"

subsection \<open>The validator\<close>

datatype optimality_check = OC_NotRequested | OC_Oracle | OC_ExhaustiveReference | OC_Unavailable

record validation_report =
  vr_valid :: bool
  vr_covers_all :: bool
  vr_subset_of_candidates :: bool
  vr_canonical_order :: bool
  vr_size_matches :: bool
  vr_optimality :: optimality_check
  vr_optimality_confirmed :: bool
  vr_detail :: string

definition report_new :: validation_report where
  "report_new = \<lparr>vr_valid = False, vr_covers_all = False, vr_subset_of_candidates = False,
     vr_canonical_order = False, vr_size_matches = False, vr_optimality = OC_NotRequested,
     vr_optimality_confirmed = False, vr_detail = []\<rparr>"

fun check_result_elements :: "localization_input \<Rightarrow> u32 option \<Rightarrow> u32 list \<Rightarrow> string option" where
  "check_result_elements inp prev [] = None"
| "check_result_elements inp prev (e # es) =
     (if e \<ge> li_element_count inp then Some ''element out of range''
      else if binary_search (li_proven_ok inp) e then Some ''element is proven healthy''
      else if (case prev of None \<Rightarrow> False | Some p \<Rightarrow> e \<le> p) then
        Some ''elements are not strictly ascending''
      else check_result_elements inp (Some e) es)"

definition verify_infeasible :: "localization_input \<Rightarrow> localization_result \<Rightarrow> validation_report" where
  "verify_infeasible inp result =
     (if \<not> lr_has_infeasible_witness result then
        report_new\<lparr>vr_detail := ''ProvenInfeasible reported without a certificate''\<rparr>
      else if unat (lr_infeasible_witness result) \<ge> length (li_failure_sets inp) then
        report_new\<lparr>vr_detail := ''certificate index out of range''\<rparr>
      else if \<exists>e \<in> set (li_failure_sets inp ! unat (lr_infeasible_witness result)).
          e < li_element_count inp \<and> \<not> binary_search (li_proven_ok inp) e then
        report_new\<lparr>vr_detail := ''certificate set still contains a live candidate''\<rparr>
      else
        \<lparr>vr_valid = True, vr_covers_all = True, vr_subset_of_candidates = True,
         vr_canonical_order = True, vr_size_matches = True, vr_optimality = OC_Oracle,
         vr_optimality_confirmed = True, vr_detail = ''infeasibility certificate verified''\<rparr>)"

definition verify_by_reference ::
  "localization_input \<Rightarrow> localization_result \<Rightarrow> validation_report \<Rightarrow> validation_report" where
  "verify_by_reference inp result rep =
     (let ref = reference_localize inp kReferenceSolverMaxCandidates in
      if lr_status ref = Loc_Indeterminate then
        rep\<lparr>vr_optimality := OC_Unavailable,
          vr_detail := ''reference solver unavailable for this instance''\<rparr>
      else
        (let same_size = (lr_optimal_size ref = lr_optimal_size result);
             same_set = (lr_elements ref = lr_elements result);
             same_ambiguity =
               ((lr_status ref = Loc_Ambiguous) = (lr_status result = Loc_Ambiguous)
                \<or> lr_solutions_truncated result);
             confirmed = (same_size \<and> same_set \<and> same_ambiguity);
             rep = rep\<lparr>vr_optimality := OC_ExhaustiveReference, vr_optimality_confirmed := confirmed\<rparr>
         in if \<not> confirmed then
              rep\<lparr>vr_valid := False,
                vr_detail := ''independent reference disagrees with the solver output''\<rparr>
            else rep\<lparr>vr_detail := ''optimality confirmed by exhaustive reference''\<rparr>))"

definition verify_by_oracle ::
  "reduced \<Rightarrow> localization_result \<Rightarrow> validation_report \<Rightarrow> validation_report" where
  "verify_by_oracle r result rep =
     (let m = elements_to_mask (rd_candidates r) (lr_elements result);
          covers_mask = (m AND rd_full_mask r = rd_full_mask r);
          (smaller, st) =
            (if lr_optimal_size result = 0 then (False, oracle_new)
             else covers r 4000000 (rd_full_mask r) (unat (lr_optimal_size result - 1)) 0 oracle_new);
          no_smaller =
            (if lr_optimal_size result = 0 then True else \<not> smaller \<and> \<not> or_exhausted st);
          confirmed = (covers_mask \<and> no_smaller \<and> \<not> or_exhausted st);
          rep = rep\<lparr>vr_optimality := OC_Oracle, vr_optimality_confirmed := confirmed\<rparr>
      in if \<not> confirmed then
           rep\<lparr>vr_valid := False,
             vr_detail := ''optimality oracle could not confirm the claimed minimum''\<rparr>
         else rep\<lparr>vr_detail := ''optimality confirmed by feasibility oracle''\<rparr>)"

definition verify_localization :: "localization_input \<Rightarrow> localization_result \<Rightarrow> validation_report" where
  "verify_localization inp result =
     (let r = reduce inp in
      if lr_status result = Loc_ProvenInfeasible then verify_infeasible inp result
      else if lr_status result = Loc_InvalidInput then
        report_new\<lparr>vr_detail := ''result is InvalidInput''\<rparr>
      else case check_result_elements inp None (lr_elements result) of
        Some why \<Rightarrow> report_new\<lparr>vr_detail := why\<rparr>
      | None \<Rightarrow>
          (let covers_all = list_all (list_ex (binary_search (lr_elements result))) (li_failure_sets inp);
               rep = report_new\<lparr>vr_subset_of_candidates := True, vr_canonical_order := True,
                 vr_covers_all := covers_all,
                 vr_size_matches := (\<not> lr_optimality_proven result
                   \<or> unat (lr_optimal_size result) = length (lr_elements result)),
                 vr_valid := covers_all\<rparr>;
               rep = (if \<not> lr_optimality_proven result then rep
                 else if length (rd_candidates r) \<le> kReferenceSolverMaxCandidates then
                   verify_by_reference inp result rep
                 else verify_by_oracle r result rep)
           in if vr_detail rep = [] then rep\<lparr>vr_detail := ''validity verified''\<rparr> else rep))"

subsection \<open>From segment observations to constraints\<close>

record hop_probe =
  hp_begin_hop :: u32
  hp_end_hop :: u32
  hp_success :: bool

definition hops_of :: "hop_probe \<Rightarrow> u32 list" where
  "hops_of p = map of_nat [unat (hp_begin_hop p)..<unat (hp_end_hop p)]"

definition hop_ok :: "hop_probe list \<Rightarrow> u32 \<Rightarrow> bool" where
  "hop_ok probes h \<longleftrightarrow> list_ex (\<lambda>p. hp_success p \<and> h \<in> set (hops_of p)) probes"

definition build_localization_input ::
  "u32 \<Rightarrow> hop_probe list \<Rightarrow> u64 \<Rightarrow> u32 \<Rightarrow> (outcome \<times> string) + localization_input" where
  "build_localization_input hops probes search_node_budget max_solutions =
     (if hops = 0 then Inl (O_Invalid, ''hop_count must be positive'')
      else if length probes > kMaxLocalizationSets then
        Inl (O_Oversized, ''probe count exceeds the supported mask width'')
      else if list_ex (\<lambda>p. hp_end_hop p \<le> hp_begin_hop p \<or> hp_end_hop p > hops) probes then
        Inl (O_Invalid, ''probe range invalid'')
      else
        (let inp = \<lparr>li_element_count = hops,
               li_proven_ok = filter (hop_ok probes) (map of_nat [0..<unat hops]),
               li_failure_sets = map (\<lambda>p. filter (\<lambda>h. \<not> hop_ok probes h) (hops_of p))
                 (filter (\<lambda>p. \<not> hp_success p) probes),
               li_search_node_budget = search_node_budget, li_max_solutions = max_solutions\<rparr>;
             (v, why) = validate_localization_input inp
         in if \<not> is_affirmative v then Inl (v, why) else Inr inp))"

section \<open>Correctness\<close>

subsection \<open>Covers\<close>

text \<open>A set of candidate indices covers a mask when every set in the mask contains one of them.\<close>

definition hits :: "reduced \<Rightarrow> mask \<Rightarrow> nat set \<Rightarrow> bool" where
  "hits r m I \<longleftrightarrow> (\<forall>si. bit m si \<longrightarrow> (\<exists>i \<in> I. bit (rd_cover r ! i) si))"

definition feasible :: "reduced \<Rightarrow> mask \<Rightarrow> nat \<Rightarrow> nat \<Rightarrow> bool" where
  "feasible r m budget lo \<longleftrightarrow>
     (\<exists>I \<subseteq> {lo..<length (rd_candidates r)}. card I \<le> budget \<and> hits r m I)"

lemma hits_zero [simp]: "hits r 0 I"
  by (simp add: hits_def)

lemma hits_rest: "hits r (m AND NOT (rd_cover r ! i)) I \<longleftrightarrow> hits r m (insert i I)"
proof -
  have "bit (m AND NOT (rd_cover r ! i)) si \<longleftrightarrow> bit m si \<and> \<not> bit (rd_cover r ! i) si" for si
    by (auto simp: bit_simps dest: bit_imp_le_length)
  then show ?thesis by (auto simp: hits_def)
qed

lemma feasible_zero [simp]: "feasible r 0 budget lo"
  unfolding feasible_def by (rule exI [of _ "{}"]) simp

lemma feasible_none: "m \<noteq> 0 \<Longrightarrow> \<not> feasible r m 0 lo"
proof
  assume m: "m \<noteq> 0" and "feasible r m 0 lo"
  then obtain I where I: "I \<subseteq> {lo..<length (rd_candidates r)}" "card I \<le> 0" "hits r m I"
    unfolding feasible_def by blast
  have "finite I" using I(1) finite_subset by blast
  then have "I = {}" using I(2) by simp
  with I(3) lowest_set_bit64_bit [OF m] show False unfolding hits_def by blast
qed

lemma bit_test: "(c :: mask) AND 2 ^ n = 0 \<longleftrightarrow> \<not> bit c n"
proof -
  have k: "bit (c AND 2 ^ n) k \<longleftrightarrow> k = n \<and> bit c n" for k
    by (auto simp: bit_and_iff bit_exp_iff dest: bit_imp_le_length)
  show ?thesis
  proof
    assume "c AND 2 ^ n = 0"
    with k [of n] show "\<not> bit c n" by simp
  next
    assume "\<not> bit c n"
    then show "c AND 2 ^ n = 0" by (intro bit_eqI) (simp add: k)
  qed
qed

lemma feasible_step:
  assumes "m \<noteq> 0"
  shows "feasible r m (Suc b) lo \<longleftrightarrow>
    (\<exists>ci \<in> {lo..<length (rd_candidates r)}. bit (rd_cover r ! ci) (lowest_set_bit64 m)
       \<and> feasible r (m AND NOT (rd_cover r ! ci)) b lo)"
proof
  assume "feasible r m (Suc b) lo"
  then obtain I where I: "I \<subseteq> {lo..<length (rd_candidates r)}" "card I \<le> Suc b" "hits r m I"
    unfolding feasible_def by blast
  from I(3) lowest_set_bit64_bit [OF assms] obtain ci
    where ci: "ci \<in> I" "bit (rd_cover r ! ci) (lowest_set_bit64 m)"
    unfolding hits_def by blast
  have "finite I" using I(1) finite_subset by blast
  then have "card (I - {ci}) \<le> b" using I(2) ci(1) by (simp add: card_Diff_singleton)
  moreover have "hits r (m AND NOT (rd_cover r ! ci)) (I - {ci})"
    unfolding hits_rest using I(3) ci(1) by (simp add: insert_absorb)
  ultimately show "\<exists>ci \<in> {lo..<length (rd_candidates r)}. bit (rd_cover r ! ci) (lowest_set_bit64 m)
       \<and> feasible r (m AND NOT (rd_cover r ! ci)) b lo"
    using I(1) ci unfolding feasible_def by blast
next
  assume "\<exists>ci \<in> {lo..<length (rd_candidates r)}. bit (rd_cover r ! ci) (lowest_set_bit64 m)
       \<and> feasible r (m AND NOT (rd_cover r ! ci)) b lo"
  then obtain ci I where ci: "ci \<in> {lo..<length (rd_candidates r)}"
    and I: "I \<subseteq> {lo..<length (rd_candidates r)}" "card I \<le> b" "hits r m (insert ci I)"
    unfolding feasible_def hits_rest by blast
  have "finite I" using I(1) finite_subset by blast
  then have "card (insert ci I) \<le> Suc b" using I(2) by (simp add: card_insert_if)
  then show "feasible r m (Suc b) lo" using ci I unfolding feasible_def by blast
qed

subsection \<open>The oracle is sound and complete\<close>

definition memo_ok :: "reduced \<Rightarrow> feasibility_oracle \<Rightarrow> bool" where
  "memo_ok r st \<longleftrightarrow>
     (\<forall>m b lo v. or_memo st (m, b, lo) = Some v \<longrightarrow> (v \<longleftrightarrow> feasible r m b lo))"

text \<open>What a call may answer: the truth, or \<open>False\<close> together with an exhausted node budget.\<close>

definition answers :: "reduced \<Rightarrow> bool \<Rightarrow> bool \<times> feasibility_oracle \<Rightarrow> bool" where
  "answers r truth res \<longleftrightarrow> memo_ok r (snd res) \<and>
     (if or_exhausted (snd res) then \<not> fst res else fst res = truth)"

lemma memo_ok_new [simp]: "memo_ok r oracle_new"
  by (simp add: memo_ok_def oracle_new_def)

lemma memo_okD: "memo_ok r st \<Longrightarrow> or_memo st (m, b, lo) = Some v \<Longrightarrow> v = feasible r m b lo"
  by (simp add: memo_ok_def)

lemma memo_ok_update:
  "memo_ok r st \<Longrightarrow> v = feasible r m b lo \<Longrightarrow> memo_ok r (st\<lparr>or_memo := (or_memo st)((m, b, lo) \<mapsto> v)\<rparr>)"
  by (simp add: memo_ok_def)

lemma memo_ok_cong [simp]:
  "memo_ok r (st\<lparr>or_nodes := k\<rparr>) = memo_ok r st" "memo_ok r (st\<lparr>or_exhausted := e\<rparr>) = memo_ok r st"
  by (simp_all add: memo_ok_def)

lemma covers_step:
  assumes "memo_ok r st"
    and loop: "m \<noteq> 0 \<Longrightarrow> budget = Suc b \<Longrightarrow> \<not> or_exhausted st \<Longrightarrow> \<not> limit < or_nodes st + 1 \<Longrightarrow>
      or_memo st (m, budget, lo) = None \<Longrightarrow> answers r
      (\<exists>ci \<in> set [lo..<length (rd_candidates r)]. bit (rd_cover r ! ci) (lowest_set_bit64 m)
         \<and> feasible r (m AND NOT (rd_cover r ! ci)) b lo)
      (covers_loop r limit m b lo [lo..<length (rd_candidates r)] (st\<lparr>or_nodes := or_nodes st + 1\<rparr>))"
    and b: "b = budget - 1"
  shows "answers r (feasible r m budget lo) (covers r limit m budget lo st)"
proof -
  consider (leaf) "or_exhausted st \<or> m = 0 \<or> budget = 0"
    | (known) "\<not> or_exhausted st" "m \<noteq> 0" "budget = Suc b" "limit < or_nodes st + 1 \<or> or_memo st (m, budget, lo) \<noteq> None"
    | (search) "\<not> or_exhausted st" "m \<noteq> 0" "budget = Suc b" "\<not> limit < or_nodes st + 1" "or_memo st (m, budget, lo) = None"
    using b by (cases budget) auto
  then show ?thesis
  proof cases
    case leaf
    then show ?thesis using assms(1) by (subst covers.simps) (auto simp: answers_def feasible_none)
  next
    case known
    then show ?thesis using assms(1)
      by (subst covers.simps) (auto simp: answers_def Let_def dest: memo_okD)
  next
    case search
    obtain res st' where l: "covers_loop r limit m b lo [lo..<length (rd_candidates r)]
        (st\<lparr>or_nodes := or_nodes st + 1\<rparr>) = (res, st')" by fastforce
    have "answers r (feasible r m budget lo) (res, st')"
      using loop [OF search(2,3,1,4,5)] l feasible_step [OF search(2), of r b lo] search(3) by simp
    then show ?thesis using search l
      by (subst covers.simps) (auto simp: answers_def Let_def intro: memo_ok_update)
  qed
qed

lemma covers_answers:
  shows "memo_ok r st \<Longrightarrow> answers r (feasible r m budget lo) (covers r limit m budget lo st)"
    and "memo_ok r st \<Longrightarrow> \<not> or_exhausted st \<Longrightarrow> answers r
      (\<exists>ci \<in> set cis. bit (rd_cover r ! ci) (lowest_set_bit64 m)
         \<and> feasible r (m AND NOT (rd_cover r ! ci)) budget lo)
      (covers_loop r limit m budget lo cis st)"
proof (induction r limit m budget lo st and r limit m budget lo cis st rule: covers_covers_loop.induct)
  case (1 r limit m budget lo st)
  from 1(2) show ?case by (rule covers_step) (use 1 in auto)
next
  case (2 r limit m budget lo st)
  then show ?case by (simp add: answers_def)
next
  case (3 r limit m budget lo ci cis st)
  show ?case
  proof (cases "bit (rd_cover r ! ci) (lowest_set_bit64 m)")
    case False
    then show ?thesis using 3 by (simp add: bit_test)
  next
    case True
    obtain hit st' where c: "covers r limit (m AND NOT (rd_cover r ! ci)) budget lo st = (hit, st')"
      by fastforce
    have a: "answers r (feasible r (m AND NOT (rd_cover r ! ci)) budget lo) (hit, st')"
      using 3(2) 3(4) True c by (simp add: bit_test)
    show ?thesis
    proof (cases "hit \<or> or_exhausted st'")
      case h: True
      then show ?thesis using True c a by (auto simp: bit_test answers_def)
    next
      case h: False
      have "answers r (\<exists>ci \<in> set cis. bit (rd_cover r ! ci) (lowest_set_bit64 m)
         \<and> feasible r (m AND NOT (rd_cover r ! ci)) budget lo) (covers_loop r limit m budget lo cis st')"
        using 3(3) [OF _ c [symmetric] refl] h True a by (simp add: bit_test answers_def)
      then show ?thesis using True c a h by (auto simp: bit_test answers_def)
    qed
  qed
qed
subsection \<open>The enumeration visits the minimum solutions in order\<close>

text \<open>The index lists that the enumeration looks for, in its order.\<close>

fun sols :: "reduced \<Rightarrow> mask \<Rightarrow> nat \<Rightarrow> nat \<Rightarrow> nat list list" where
  "sols r m 0 lo = (if m = 0 then [[]] else [])"
| "sols r m (Suc b) lo =
     (if m = 0 then [[]]
      else concat (map (\<lambda>ci. if rd_cover r ! ci AND m = 0 then []
          else map ((#) ci) (sols r (m AND NOT (rd_cover r ! ci)) b (Suc ci)))
        [lo..<length (rd_candidates r)]))"

abbreviation branch :: "reduced \<Rightarrow> mask \<Rightarrow> nat \<Rightarrow> nat \<Rightarrow> nat list list" where
  "branch r m b ci \<equiv> (if rd_cover r ! ci AND m = 0 then []
     else map ((#) ci) (sols r (m AND NOT (rd_cover r ! ci)) b (Suc ci)))"

lemma sols_sound:
  "I \<in> set (sols r m b lo) \<Longrightarrow>
    sorted_wrt (<) I \<and> set I \<subseteq> {lo..<length (rd_candidates r)} \<and> length I \<le> b \<and> hits r m (set I)"
proof (induction r m b lo arbitrary: I rule: sols.induct)
  case (1 r m lo)
  then show ?case by (auto split: if_splits)
next
  case (2 r m b lo)
  show ?case
  proof (cases "m = 0")
    case True
    with 2(2) show ?thesis by simp
  next
    case False
    with 2(2) obtain ci J where J: "ci \<in> {lo..<length (rd_candidates r)}" "I = ci # J"
      "J \<in> set (sols r (m AND NOT (rd_cover r ! ci)) b (Suc ci))" "rd_cover r ! ci AND m \<noteq> 0"
      by (auto split: if_splits)
    from 2(1) [OF False _ J(4) J(3)] J(1)
    have "sorted_wrt (<) J \<and> set J \<subseteq> {Suc ci..<length (rd_candidates r)} \<and> length J \<le> b
        \<and> hits r m (insert ci (set J))"
      by (simp add: hits_rest)
    then show ?thesis using J(1,2) by (auto simp: Suc_le_eq)
  qed
qed

lemma sols_feasible: "I \<in> set (sols r m b lo) \<Longrightarrow> feasible r m b lo"
  unfolding feasible_def
  using sols_sound [of I r m b lo] card_length [of I] by (meson le_trans)

lemma infeasible_sols: "\<not> feasible r m b lo \<Longrightarrow> sols r m b lo = []"
  using sols_feasible by (metis list.set_intros(1) neq_Nil_conv)

definition extends :: "reduced \<Rightarrow> enum_limits \<Rightarrow> u32 list list \<Rightarrow> enumeration \<Rightarrow> enumeration \<Rightarrow> bool" where
  "extends r lim all st st' \<longleftrightarrow>
     (\<exists>p q. all = p @ q \<and> unat (en_found st') = unat (en_found st) + length p
        \<and> (\<not> en_truncated st' \<longrightarrow> q = [] \<and> en_found st' < el_max_solutions lim)
        \<and> en_first st' = (if en_found st = 0 \<and> p \<noteq> [] then hd p else en_first st)
        \<and> memo_ok r (en_oracle st'))"

abbreviation running :: "reduced \<Rightarrow> enum_limits \<Rightarrow> enumeration \<Rightarrow> bool" where
  "running r lim st \<equiv> \<not> en_truncated st \<and> en_found st < el_max_solutions lim \<and> memo_ok r (en_oracle st)"

lemma extendsI:
  assumes "all = p @ q" "unat (en_found st') = unat (en_found st) + length p"
    "\<not> en_truncated st' \<Longrightarrow> q = [] \<and> en_found st' < el_max_solutions lim"
    "en_first st' = (if en_found st = 0 \<and> p \<noteq> [] then hd p else en_first st)"
    "memo_ok r (en_oracle st')"
  shows "extends r lim all st st'"
  using assms unfolding extends_def by blast

lemma extendsE:
  assumes "extends r lim all st st'"
  obtains p q where "all = p @ q" "unat (en_found st') = unat (en_found st) + length p"
    "\<not> en_truncated st' \<longrightarrow> q = [] \<and> en_found st' < el_max_solutions lim"
    "en_first st' = (if en_found st = 0 \<and> p \<noteq> [] then hd p else en_first st)"
    "memo_ok r (en_oracle st')"
  using assms unfolding extends_def by blast

lemma extends_stop: "extends r lim xs st st1 \<Longrightarrow> en_truncated st1 \<Longrightarrow> extends r lim (xs @ ys) st st1"
  by (erule extendsE, rule extendsI [where q = "_ @ ys"]) auto

lemma extends_trans:
  assumes "extends r lim xs st st1" "\<not> en_truncated st1" "extends r lim ys st1 st2"
  shows "extends r lim (xs @ ys) st st2"
proof -
  from assms(1,2) have x: "unat (en_found st1) = unat (en_found st) + length xs"
      "en_first st1 = (if en_found st = 0 \<and> xs \<noteq> [] then hd xs else en_first st)"
    unfolding extends_def by auto
  from assms(3) obtain p q where p: "ys = p @ q" "unat (en_found st2) = unat (en_found st1) + length p"
      "\<not> en_truncated st2 \<longrightarrow> q = [] \<and> en_found st2 < el_max_solutions lim"
      "en_first st2 = (if en_found st1 = 0 \<and> p \<noteq> [] then hd p else en_first st1)"
      "memo_ok r (en_oracle st2)"
    by (rule extendsE)
  have z: "en_found st1 = 0 \<longleftrightarrow> en_found st = 0 \<and> xs = []"
    using x(1) by (auto simp: unat_eq_zero [symmetric])
  show ?thesis using x p z by (intro extendsI [where p = "xs @ p" and q = q]) auto
qed

lemma extends_running:
  "extends r lim xs st st1 \<Longrightarrow> \<not> en_truncated st1 \<Longrightarrow> running r lim st1"
  unfolding extends_def by auto

lemma extends_same:
  assumes "running r lim st" "en_found st' = en_found st" "en_first st' = en_first st"
    "memo_ok r (en_oracle st')"
  shows "extends r lim [] st st'" "en_truncated st' \<Longrightarrow> extends r lim xs st st'"
  using assms by (auto intro: extendsI [where p = "[]"])

lemma extends_from:
  "extends r lim xs st1 st2 \<Longrightarrow> en_found st1 = en_found st \<Longrightarrow> en_first st1 = en_first st \<Longrightarrow>
    extends r lim xs st st2"
  by (erule extendsE, rule extendsI) auto

lemma run_found:
  assumes "running r lim st"
  shows "extends r lim [current] st (run r lim current 0 b lo st)"
proof -
  have "en_found st \<noteq> - 1" using assms word_order.extremum_strict [of "el_max_solutions lim"] by metis
  then have "1 + en_found st \<noteq> 0" by (simp add: add.commute eq_neg_iff_add_eq_0)
  then have n: "unat (en_found st + 1) = unat (en_found st) + 1"
    using unatSuc [of "en_found st"] by (simp add: add.commute)
  have z: "en_found st + 1 = 1 \<longleftrightarrow> en_found st = 0" by simp
  show ?thesis using assms n
    by (subst run.simps, intro extendsI [where p = "[current]" and q = "[]"])
      (auto simp: Let_def z split: if_splits)
qed

lemma run_step:
  assumes "running r lim st"
    and loop: "m \<noteq> 0 \<Longrightarrow> budget \<noteq> 0 \<Longrightarrow> extends r lim
      (map (\<lambda>I. current @ map ((!) (rd_candidates r)) I)
        (concat (map (branch r m (budget - 1)) [lo..<length (rd_candidates r)]))) st
      (run_loop r lim current m (budget - 1) [lo..<length (rd_candidates r)] st)"
  shows "extends r lim (map (\<lambda>I. current @ map ((!) (rd_candidates r)) I) (sols r m budget lo)) st
    (run r lim current m budget lo st)"
proof (cases "m = 0")
  case True
  then show ?thesis using run_found [OF assms(1)] by (cases budget) auto
next
  case m: False
  show ?thesis
  proof (cases budget)
    case 0
    with m assms(1) show ?thesis by (subst run.simps) (auto intro: extends_same)
  next
    case (Suc b)
    then have "budget - 1 = b" by simp
    from loop [unfolded this, OF m] Suc m assms(1) show ?thesis by (subst run.simps) simp
  qed
qed

text \<open>A candidate that can be completed: first what starts with it, then the candidates after it.\<close>

lemma run_loop_descends:
  fixes st :: enumeration
  assumes c: "covers r (el_oracle_limit lim) (m AND NOT (rd_cover r ! ci)) budget (Suc ci) (en_oracle st) = (True, o')"
    and live: "\<not> el_node_budget lim < en_nodes st + 1" "rd_cover r ! ci AND m \<noteq> 0"
    and sr: "sr = run r lim (current @ [rd_candidates r ! ci]) (m AND NOT (rd_cover r ! ci)) budget (Suc ci)
      (st\<lparr>en_nodes := en_nodes st + 1\<rparr>\<lparr>en_oracle := o'\<rparr>)"
    and sub: "extends r lim (map (\<lambda>I. (current @ [rd_candidates r ! ci]) @ map ((!) (rd_candidates r)) I)
      (sols r (m AND NOT (rd_cover r ! ci)) budget (Suc ci))) (st\<lparr>en_nodes := en_nodes st + 1\<rparr>\<lparr>en_oracle := o'\<rparr>) sr"
    and later: "\<not> en_truncated sr \<Longrightarrow> running r lim sr \<Longrightarrow> extends r lim
      (map (\<lambda>I. current @ map ((!) (rd_candidates r)) I) (concat (map (branch r m budget) cis))) sr
      (run_loop r lim current m budget cis sr)"
  shows "extends r lim (map (\<lambda>I. current @ map ((!) (rd_candidates r)) I) (concat (map (branch r m budget) (ci # cis)))) st
    (run_loop r lim current m budget (ci # cis) st)"
proof -
  have b: "extends r lim (map (\<lambda>I. current @ map ((!) (rd_candidates r)) I) (branch r m budget ci)) st sr"
    using sub live by (auto simp: comp_def intro: extends_from)
  show ?thesis
  proof (cases "en_truncated sr")
    case True
    then show ?thesis using extends_stop [OF b True] live c sr by simp
  next
    case False
    then show ?thesis using extends_trans [OF b False later [OF False extends_running [OF b False]]] live c sr by simp
  qed
qed

lemma run_extends:
  shows "running r lim st \<Longrightarrow>
      extends r lim (map (\<lambda>I. current @ map ((!) (rd_candidates r)) I) (sols r m budget lo)) st
        (run r lim current m budget lo st)"
    and "running r lim st \<Longrightarrow>
      extends r lim (map (\<lambda>I. current @ map ((!) (rd_candidates r)) I)
          (concat (map (branch r m budget) cis))) st
        (run_loop r lim current m budget cis st)"
proof (induction r lim current m budget lo st and r lim current m budget cis st rule: run_run_loop.induct)
  case (1 r lim current m budget lo st)
  from 1(2) show ?case by (rule run_step) (use 1 in auto)
next
  case (2 r lim current m budget st)
  then show ?case by (auto intro: extends_same)
next
  case (3 r lim current m budget ci cis st)
  let ?st = "st\<lparr>en_nodes := en_nodes st + 1\<rparr>"
  let ?rest = "m AND NOT (rd_cover r ! ci)"
  obtain fe o' where c: "covers r (el_oracle_limit lim) ?rest budget (Suc ci) (en_oracle st) = (fe, o')"
    by fastforce
  have a: "answers r (feasible r ?rest budget (Suc ci)) (fe, o')"
    using covers_answers(1) [of r "en_oracle st" ?rest budget "Suc ci" "el_oracle_limit lim"] 3(5) c by simp
  have so: "running r lim (?st\<lparr>en_oracle := o'\<rparr>)" using 3(5) a by (simp add: answers_def)
  consider (stop) "el_node_budget lim < en_nodes st + 1"
    | (skip) "\<not> el_node_budget lim < en_nodes st + 1" "rd_cover r ! ci AND m = 0"
    | (cut) "\<not> el_node_budget lim < en_nodes st + 1" "rd_cover r ! ci AND m \<noteq> 0" "\<not> fe" "or_exhausted o'"
    | (prune) "\<not> el_node_budget lim < en_nodes st + 1" "rd_cover r ! ci AND m \<noteq> 0" "\<not> fe" "\<not> or_exhausted o'"
    | (rec) "\<not> el_node_budget lim < en_nodes st + 1" "rd_cover r ! ci AND m \<noteq> 0" "fe"
    by blast
  then show ?case
  proof cases
    case stop
    then show ?thesis using 3(5) by (auto intro!: extends_same(2))
  next
    case skip
    then show ?thesis using 3(1) [OF refl] 3(5) by (auto intro: extends_from)
  next
    case cut
    then show ?thesis using 3(5) c a by (auto simp: answers_def intro!: extends_same(2))
  next
    case prune
    have "sols r ?rest budget (Suc ci) = []"
      using prune a by (intro infeasible_sols) (simp add: answers_def)
    moreover have "extends r lim (map (\<lambda>I. current @ map ((!) (rd_candidates r)) I) (concat (map (branch r m budget) cis)))
        (?st\<lparr>en_oracle := o'\<rparr>) (run_loop r lim current m budget cis (?st\<lparr>en_oracle := o'\<rparr>))"
      using 3(2) [OF refl _ _ refl refl _ refl] prune c so by simp
    ultimately show ?thesis using prune c by (auto intro: extends_from)
  next
    case rec
    then have c: "covers r (el_oracle_limit lim) ?rest budget (Suc ci) (en_oracle st) = (True, o')" using c by simp
    show ?thesis
      by (rule run_loop_descends [OF c rec(1,2) refl])
        (use 3(3,4) [OF refl _ _ refl refl _ refl] rec c so in auto)
  qed
qed
lemma hits_mono: "hits r m I \<Longrightarrow> I \<subseteq> J \<Longrightarrow> hits r m J"
  unfolding hits_def by blast

lemma feasible_card: "sorted_wrt (<) I \<Longrightarrow> set I \<subseteq> {lo..<length (rd_candidates r)} \<Longrightarrow> hits r m (set I)
    \<Longrightarrow> feasible r m (length I) lo"
  unfolding feasible_def by (metis card_length)

lemma hits_irrelevant: "rd_cover r ! ci AND m = 0 \<Longrightarrow> hits r m (insert ci I) \<longleftrightarrow> hits r m I"
proof -
  assume "rd_cover r ! ci AND m = 0"
  then have "\<not> (bit (rd_cover r ! ci) si \<and> bit m si)" for si
    by (metis bit_0_eq bit_and_iff bot_apply bot_bool_def)
  then show ?thesis unfolding hits_def by blast
qed

lemma sols_complete:
  assumes "sorted_wrt (<) I" "set I \<subseteq> {lo..<length (rd_candidates r)}" "hits r m (set I)"
    "length I = b" "\<And>k. k < b \<Longrightarrow> \<not> feasible r m k lo"
  shows "I \<in> set (sols r m b lo)"
  using assms
proof (induction r m b lo arbitrary: I rule: sols.induct)
  case (1 r m lo)
  then have "feasible r m 0 lo" using feasible_card by fastforce
  then show ?case using 1 feasible_none by auto
next
  case (2 r m b lo)
  from 2(5) obtain ci J where I: "I = ci # J" by (cases I) auto
  have m: "m \<noteq> 0" using 2(6) [of b] by auto
  have ci: "ci \<in> {lo..<length (rd_candidates r)}" using 2(3) I by simp
  have J: "sorted_wrt (<) J" "set J \<subseteq> {Suc ci..<length (rd_candidates r)}" "length J = b"
    using 2(2,3,5) I by (auto simp: Suc_le_eq)
  have lo: "set J \<subseteq> {lo..<length (rd_candidates r)}" using 2(3) I by auto
  have c: "rd_cover r ! ci AND m \<noteq> 0"
  proof
    assume "rd_cover r ! ci AND m = 0"
    then have "hits r m (set J)" using 2(4) I hits_irrelevant by auto
    then have "feasible r m b lo" using feasible_card [OF J(1) lo] J(3) by simp
    then show False using 2(6) by simp
  qed
  have "\<not> feasible r (m AND NOT (rd_cover r ! ci)) k (Suc ci)" if "k < b" for k
  proof
    assume "feasible r (m AND NOT (rd_cover r ! ci)) k (Suc ci)"
    then obtain K where K: "K \<subseteq> {Suc ci..<length (rd_candidates r)}" "card K \<le> k" "hits r m (insert ci K)"
      unfolding feasible_def hits_rest by blast
    have "finite K" using K(1) finite_subset by blast
    then have "card (insert ci K) \<le> Suc k" using K(2) by (simp add: card_insert_if)
    then have "feasible r m (Suc k) lo" unfolding feasible_def using K ci by (intro exI [of _ "insert ci K"]) auto
    then show False using 2(6) that by simp
  qed
  then have "J \<in> set (sols r (m AND NOT (rd_cover r ! ci)) b (Suc ci))"
    using 2(1) [OF m _ c J(1,2) _ J(3)] ci 2(4) I by (simp add: hits_rest)
  then show ?case using m c ci I by auto
qed

lemma sorted_wrt_concat_blocks:
  assumes "\<And>c. c \<in> set cs \<Longrightarrow> sorted_wrt (<) (f c)" "sorted_wrt (<) cs"
    "\<And>c x. c \<in> set cs \<Longrightarrow> x \<in> set (f c) \<Longrightarrow> \<exists>y. x = c # y"
  shows "sorted_wrt (<) (concat (map f (cs :: nat list)))"
  using assms
proof (induction cs)
  case (Cons c cs)
  have "x < y" if xf: "x \<in> set (f c)" and yf: "y \<in> set (concat (map f cs))" for x y
  proof -
    from yf obtain d where d: "d \<in> set cs" "y \<in> set (f d)" by auto
    obtain x' where "x = c # x'" using Cons(4) [of c x] xf by auto
    moreover obtain y' where "y = d # y'" using Cons(4) [of d y] d by auto
    ultimately show ?thesis using Cons(3) d(1) by simp
  qed
  then show ?case using Cons by (simp add: sorted_wrt_append)
qed simp

lemma sols_sorted: "sorted_wrt (<) (sols r m b lo)"
proof (induction r m b lo rule: sols.induct)
  case (2 r m b lo)
  show ?case
  proof (cases "m = 0")
    case False
    have "sorted_wrt (<) (concat (map (branch r m b) [lo..<length (rd_candidates r)]))"
      using 2 [OF False] by (intro sorted_wrt_concat_blocks) (auto simp: sorted_wrt_map split: if_splits)
    then show ?thesis using False by simp
  qed simp
qed simp

text \<open>The smallest size of a cover, and the covers of that size.\<close>

definition least_size :: "reduced \<Rightarrow> mask \<Rightarrow> nat \<Rightarrow> bool" where
  "least_size r m best \<longleftrightarrow> feasible r m best 0 \<and> (\<forall>k < best. \<not> feasible r m k 0)"

lemma sols_exact:
  assumes "least_size r m best"
  shows "set (sols r m best 0) = {I. sorted_wrt (<) I \<and> set I \<subseteq> {..<length (rd_candidates r)}
    \<and> hits r m (set I) \<and> length I = best}"
proof (intro set_eqI iffI)
  fix I assume "I \<in> set (sols r m best 0)"
  note s = sols_sound [OF this]
  then have "feasible r m (length I) 0" using feasible_card by blast
  then have "\<not> length I < best" using assms by (auto simp: least_size_def)
  then show "I \<in> {I. sorted_wrt (<) I \<and> set I \<subseteq> {..<length (rd_candidates r)}
    \<and> hits r m (set I) \<and> length I = best}" using s by (auto simp: atLeast0LessThan)
next
  fix I assume "I \<in> {I. sorted_wrt (<) I \<and> set I \<subseteq> {..<length (rd_candidates r)}
    \<and> hits r m (set I) \<and> length I = best}"
  then show "I \<in> set (sols r m best 0)" using assms
    by (intro sols_complete) (auto simp: least_size_def atLeast0LessThan)
qed

lemma sols_nonempty: "least_size r m best \<Longrightarrow> sols r m best 0 \<noteq> []"
proof -
  assume l: "least_size r m best"
  then obtain I where I: "I \<subseteq> {0..<length (rd_candidates r)}" "card I \<le> best" "hits r m I"
    unfolding least_size_def feasible_def by blast
  have f: "finite I" using I(1) finite_subset by blast
  let ?L = "sorted_list_of_set I"
  have s: "sorted_wrt (<) ?L" "set ?L = I" "length ?L = card I" using f by auto
  have "feasible r m (card I) 0" unfolding feasible_def using I by blast
  then have "card I = best" using l I(2) by (metis le_neq_implies_less least_size_def)
  then have "?L \<in> set (sols r m best 0)" using sols_exact [OF l] s I by (auto simp: atLeast0LessThan)
  then show ?thesis by auto
qed

lemma find_size_found:
  assumes "find_size r limit [s..<t] st = (Some best, st')" "memo_ok r st"
    "\<And>k. k < s \<Longrightarrow> \<not> feasible r (rd_full_mask r) k 0"
  shows "least_size r (rd_full_mask r) best \<and> memo_ok r st' \<and> \<not> or_exhausted st' \<and> best < t"
  using assms
proof (induction "t - s" arbitrary: s st)
  case (Suc d)
  then have u: "[s..<t] = s # [Suc s..<t]" by (simp add: upt_conv_Cons)
  obtain hit st1 where c: "covers r limit (rd_full_mask r) s 0 st = (hit, st1)" by fastforce
  have a: "answers r (feasible r (rd_full_mask r) s 0) (hit, st1)"
    using covers_answers(1) [of r st "rd_full_mask r" s 0 limit] Suc(4) c by simp
  show ?case
  proof (cases hit)
    case True
    then show ?thesis using Suc(2,3,5) u c a
      by (auto simp: answers_def least_size_def split: if_splits)
  next
    case False
    then have ne: "\<not> or_exhausted st1" using Suc(3) u c by (auto split: if_splits)
    have "find_size r limit [Suc s..<t] st1 = (Some best, st')" using Suc(3) u c False ne by simp
    moreover have "\<not> feasible r (rd_full_mask r) k 0" if "k < Suc s" for k
      using that a ne False Suc(5) by (cases "k = s") (auto simp: answers_def)
    ultimately show ?thesis using Suc(1) [of "Suc s" st1] Suc(2) a by (simp add: answers_def)
  qed
qed simp

lemma find_size_none:
  assumes "find_size r limit ks st = (None, st')" "memo_ok r st" "k \<in> set ks"
  shows "or_exhausted st' \<or> \<not> feasible r (rd_full_mask r) k 0"
  using assms
proof (induction ks arbitrary: st)
  case (Cons k' ks)
  obtain hit st1 where c: "covers r limit (rd_full_mask r) k' 0 st = (hit, st1)" by fastforce
  have a: "answers r (feasible r (rd_full_mask r) k' 0) (hit, st1)"
    using covers_answers(1) [of r st "rd_full_mask r" k' 0 limit] Cons(3) c by simp
  show ?case
  proof (cases "or_exhausted st1")
    case True
    then show ?thesis using Cons(2) c by (auto split: if_splits)
  next
    case False
    then have h: "\<not> hit" using Cons(2) c by (auto split: if_splits)
    then have "find_size r limit ks st1 = (None, st')" using Cons(2) c False by simp
    then show ?thesis using Cons(1) [of st1] Cons(4) a False h by (auto simp: answers_def)
  qed
qed simp

lemma unat_inc_le: "unat (n + 1 :: 'a :: len word) \<le> Suc (unat n)"
  using unat_word_ariths(1) [of n 1] by (simp add: le_trans [OF mod_less_eq_dividend])

lemma pack_disjoint_bound:
  assumes "finite I" "\<And>s. s \<in> set ss \<Longrightarrow> \<exists>i \<in> I. bit s i"
  shows "unat (pack_disjoint ss used n) \<le> unat n + card {i \<in> I. \<not> bit used i}"
  using assms(2)
proof (induction ss used n rule: pack_disjoint.induct)
  case (2 s ss used n)
  show ?case
  proof (cases "s AND used = 0")
    case False
    then show ?thesis using 2 by simp
  next
    case True
    from 2(3) obtain i where i: "i \<in> I" "bit s i" by auto
    then have u: "\<not> bit used i" using True by (metis bit_0_eq bit_and_iff bot_apply bot_bool_def)
    have "{i \<in> I. \<not> bit (used OR s) i} \<subset> {i \<in> I. \<not> bit used i}"
      using i u by (auto simp: bit_or_iff)
    then have "card {i \<in> I. \<not> bit (used OR s) i} < card {i \<in> I. \<not> bit used i}"
      using assms(1) by (intro psubset_card_mono) auto
    moreover have "unat (pack_disjoint ss (used OR s) (n + 1))
        \<le> unat (n + 1) + card {i \<in> I. \<not> bit (used OR s) i}"
      using 2 True by simp
    ultimately show ?thesis using True unat_inc_le [of n] by simp
  qed
qed simp
subsection \<open>The reduction keeps the constraints\<close>

lemma lower_bound_nth:
  assumes "sorted_wrt (<) xs" "i < length xs"
  shows "lower_bound xs (xs ! i) = i"
proof -
  have "takeWhile (\<lambda>x. x < xs ! i) xs = take i xs"
    by (rule takeWhile_eq_take_P_nth) (use assms sorted_wrt_nth_less [OF assms(1)] in auto)
  then show ?thesis using assms(2) by (simp add: lower_bound_def)
qed

lemma binary_search_iff: "sorted_wrt (<) xs \<Longrightarrow> binary_search xs e \<longleftrightarrow> e \<in> set xs"
  by (auto simp: binary_search_def in_set_conv_nth lower_bound_nth)

lemma elements_to_mask_bit:
  assumes "sorted_wrt (<) cs" "length cs \<le> 64"
  shows "bit (elements_to_mask cs es) i \<longleftrightarrow> i < length cs \<and> cs ! i \<in> set es"
proof -
  have "bit (foldl (\<lambda>m e. if binary_search cs e then m OR push_bit (lower_bound cs e) 1 else m) m es) i
      \<longleftrightarrow> bit m i \<or> i < length cs \<and> cs ! i \<in> set es" for m :: mask
  proof (induction es arbitrary: m)
    case (Cons e es)
    have "bit (if binary_search cs e then m OR push_bit (lower_bound cs e) 1 else m) i
        \<longleftrightarrow> bit m i \<or> i < length cs \<and> cs ! i = e"
      using assms by (auto simp: binary_search_iff bit_simps in_set_conv_nth lower_bound_nth
          nth_eq_iff_index_eq strict_sorted_iff)
    then show ?case using Cons by auto
  qed simp
  then show ?thesis by (simp add: elements_to_mask_def)
qed

lemma add_sets_frame [simp]:
  "rd_candidates (add_sets si ks r) = rd_candidates r"
  "rd_has_empty_set (add_sets si ks r) = rd_has_empty_set r"
  "rd_empty_set_origin (add_sets si ks r) = rd_empty_set_origin r"
  "length (rd_cover (add_sets si ks r)) = length (rd_cover r)"
  "rd_sets (add_sets si ks r)
     = rd_sets r @ map (\<lambda>k. elements_to_mask (rd_candidates r) (ra_elems k)) ks"
  by (induction si ks r rule: add_sets.induct) (auto simp: Let_def)

lemma add_sets_full_mask:
  "si + length ks \<le> 64 \<Longrightarrow> bit (rd_full_mask (add_sets si ks r)) j \<longleftrightarrow>
    bit (rd_full_mask r) j \<or> si \<le> j \<and> j < si + length ks"
  by (induction si ks r rule: add_sets.induct) (auto simp: Let_def bit_simps)

lemma add_sets_cover:
  assumes "si + length ks \<le> 64" "ci < length (rd_cover r)"
  shows "bit (rd_cover (add_sets si ks r) ! ci) j \<longleftrightarrow> bit (rd_cover r ! ci) j \<or>
    si \<le> j \<and> j < si + length ks \<and> bit (elements_to_mask (rd_candidates r) (ra_elems (ks ! (j - si)))) ci"
  using assms
proof (induction si ks r rule: add_sets.induct)
  case (2 si k ks r)
  let ?m = "elements_to_mask (rd_candidates r) (ra_elems k)"
  let ?c = "if ?m AND push_bit ci 1 \<noteq> 0 then rd_cover r ! ci OR push_bit si 1 else rd_cover r ! ci"
  have c: "bit ?c j \<longleftrightarrow> bit (rd_cover r ! ci) j \<or> j = si \<and> bit ?m ci"
    using 2(2) by (auto simp: bit_test bit_or_iff bit_exp_iff)
  have IH: "bit (rd_cover (add_sets si (k # ks) r) ! ci) j \<longleftrightarrow> bit ?c j \<or> Suc si \<le> j \<and> j < Suc si + length ks
      \<and> bit (elements_to_mask (rd_candidates r) (ra_elems (ks ! (j - Suc si)))) ci"
    using 2 by (simp add: Let_def nth_enumerate_eq)
  consider "j < si" | "j = si" | "Suc si \<le> j" by linarith
  then show ?case
  proof cases
    case 3
    then have "(k # ks) ! (j - si) = ks ! (j - Suc si)" by (simp add: nth_Cons')
    then show ?thesis using 3 IH c by simp
  qed (use IH c in auto)
qed auto

lemma keep_minimal_sub: "set kept \<subseteq> set (keep_minimal kept xs) \<and> set (keep_minimal kept xs) \<subseteq> set kept \<union> set xs"
  by (induction kept xs rule: keep_minimal.induct) auto

lemma keep_minimal_dominates:
  "x \<in> set xs \<Longrightarrow> \<exists>k \<in> set (keep_minimal kept xs). set (ra_elems k) \<subseteq> set (ra_elems x)"
proof (induction kept xs rule: keep_minimal.induct)
  case (2 kept y ys)
  show ?case
  proof (cases "x = y")
    case True
    then show ?thesis
      using keep_minimal_sub [of kept ys] keep_minimal_sub [of "kept @ [y]" ys]
      by (cases "\<exists>k \<in> set kept. length (ra_elems k) \<le> length (ra_elems y) \<and> set (ra_elems k) \<subseteq> set (ra_elems y)")
        auto
  next
    case False
    then show ?thesis using 2 by auto
  qed
qed simp

lemma keep_minimal_length: "length (keep_minimal kept xs) \<le> length kept + length xs"
  by (induction kept xs rule: keep_minimal.induct) (fastforce intro: le_SucI)+

text \<open>The problem as the header states it: the candidates, and the localizations.\<close>

definition candidates :: "localization_input \<Rightarrow> u32 set" where
  "candidates inp = {e. e < li_element_count inp \<and> e \<notin> set (li_proven_ok inp)}"

definition is_localization :: "localization_input \<Rightarrow> u32 set \<Rightarrow> bool" where
  "is_localization inp H \<longleftrightarrow> H \<subseteq> candidates inp \<and> (\<forall>s \<in> set (li_failure_sets inp). H \<inter> set s \<noteq> {})"

definition is_minimum :: "localization_input \<Rightarrow> u32 set \<Rightarrow> bool" where
  "is_minimum inp H \<longleftrightarrow> is_localization inp H \<and> (\<forall>H'. is_localization inp H' \<longrightarrow> card H \<le> card H')"

abbreviation input_ok :: "localization_input \<Rightarrow> bool" where
  "input_ok inp \<equiv> fst (validate_localization_input inp) = O_Ok"

lemma check_elements_ok:
  "check_elements n w1 w2 prev es = None \<longleftrightarrow>
    (\<forall>e \<in> set es. e < n) \<and> sorted_wrt (<) es \<and> (\<forall>p. prev = Some p \<longrightarrow> (\<forall>e \<in> set es. p < e))"
  by (induction n w1 w2 prev es rule: check_elements.induct)
    (auto split: option.splits intro: less_trans)

lemma check_failure_sets_ok:
  "check_failure_sets n ss = None \<longleftrightarrow> (\<forall>s \<in> set ss. (\<forall>e \<in> set s. e < n) \<and> sorted_wrt (<) s)"
proof (induction n ss rule: check_failure_sets.induct)
  case (2 n s ss)
  then show ?case
    using check_elements_ok [of n "''failure set element out of range''"
      "''failure set must be ascending and unique''" None s]
    by (auto split: option.splits)
qed simp

lemma input_ok_iff:
  "input_ok inp \<longleftrightarrow> li_element_count inp \<noteq> 0 \<and> length (li_failure_sets inp) \<le> 64
     \<and> length (li_proven_ok inp) \<le> unat (li_element_count inp)
     \<and> unat (li_element_count inp) - length (li_proven_ok inp) \<le> 64
     \<and> li_search_node_budget inp \<noteq> 0 \<and> li_max_solutions inp \<noteq> 0
     \<and> (\<forall>e \<in> set (li_proven_ok inp). e < li_element_count inp) \<and> sorted_wrt (<) (li_proven_ok inp)
     \<and> (\<forall>s \<in> set (li_failure_sets inp). (\<forall>e \<in> set s. e < li_element_count inp) \<and> sorted_wrt (<) s)"
  unfolding validate_localization_input_def kMaxLocalizationSets_def kMaxLocalizationCandidates_def
  using check_elements_ok [of "li_element_count inp" "''proven_ok element out of range''"
      "''proven_ok must be ascending and unique''" None "li_proven_ok inp"]
    check_failure_sets_ok [of "li_element_count inp" "li_failure_sets inp"]
  by (auto split: option.splits)
lemma set_live_elements: "set (live_elements inp s) = set s \<inter> candidates inp"
  by (auto simp: live_elements_def candidates_def marked_ok_def)

lemma all_elements:
  "sorted_wrt (<) (map of_nat [0..<unat (n :: u32)] :: u32 list)" "set (map of_nat [0..<unat n]) = {e. e < n}"
proof -
  have b: "unat (of_nat i :: u32) = i" if "i < unat n" for i
    using that less_trans [OF that unsigned_less] by (simp add: unat_of_nat)
  then show "sorted_wrt (<) (map of_nat [0..<unat n] :: u32 list)"
    by (auto simp: sorted_wrt_map word_less_nat_alt intro!: sorted_wrt_mono_rel [OF _ sorted_wrt_upt])
  show "set (map of_nat [0..<unat n]) = {e. e < n}"
  proof (intro set_eqI iffI)
    fix e assume "e \<in> {e. e < n}"
    then have "e = of_nat (unat e)" "unat e < unat n" by (auto simp: word_less_nat_alt)
    then show "e \<in> set (map of_nat [0..<unat n])" by (metis atLeastLessThan_iff imageI le0 set_map set_upt)
  qed (auto simp: word_less_nat_alt b)
qed

lemma reduce_candidates: "rd_candidates (reduce inp) = filter (\<lambda>e. \<not> marked_ok inp e)
    (map of_nat [0..<unat (li_element_count inp)])"
  by (simp add: reduce_def Let_def)

lemma candidates_sorted: "sorted_wrt (<) (rd_candidates (reduce inp))"
  unfolding reduce_candidates by (rule sorted_wrt_filter [OF all_elements(1)])

lemma set_candidates: "set (rd_candidates (reduce inp)) = candidates inp"
  unfolding reduce_candidates set_filter all_elements(2) by (auto simp: candidates_def marked_ok_def)

lemma candidates_finite [simp]: "finite (candidates inp)"
  by (metis List.finite_set set_candidates)

lemma candidates_bound:
  assumes "input_ok inp"
  shows "length (rd_candidates (reduce inp)) \<le> 64"
proof -
  let ?n = "li_element_count inp"
  have ok: "set (li_proven_ok inp) \<subseteq> {e. e < ?n}" "distinct (li_proven_ok inp)"
    "unat ?n - length (li_proven_ok inp) \<le> 64"
    using assms unfolding input_ok_iff by (auto simp: strict_sorted_iff)
  have all: "card {e. e < ?n} = unat ?n"
    using all_elements [of ?n] distinct_card [of "map of_nat [0..<unat ?n] :: u32 list"]
    by (simp add: strict_sorted_iff)
  have "length (rd_candidates (reduce inp)) = card (candidates inp)"
    using candidates_sorted [of inp] set_candidates [of inp] distinct_card [of "rd_candidates (reduce inp)"]
    by (simp add: strict_sorted_iff)
  also have "candidates inp = {e. e < ?n} - set (li_proven_ok inp)" by (auto simp: candidates_def)
  also have "card \<dots> = unat ?n - length (li_proven_ok inp)"
    using ok all by (simp add: card_Diff_subset distinct_card)
  finally show ?thesis using ok(3) by simp
qed

lemma kept_sets_in: "k \<in> set (kept_sets inp) \<Longrightarrow>
    ra_elems k \<noteq> [] \<and> (\<exists>s \<in> set (li_failure_sets inp). ra_elems k = live_elements inp s)"
  using keep_minimal_sub [of "[]"] unfolding kept_sets_def constraint_sets_def
  by (fastforce simp: in_set_enumerate_eq)

lemma kept_sets_bound: "length (kept_sets inp) \<le> length (li_failure_sets inp)"
  unfolding kept_sets_def constraint_sets_def
  by (rule le_trans [OF keep_minimal_length]) (simp add: le_trans [OF length_filter_le])

lemma kept_sets_dominate:
  assumes "s \<in> set (li_failure_sets inp)" "live_elements inp s \<noteq> []"
  shows "\<exists>k \<in> set (kept_sets inp). set (ra_elems k) \<subseteq> set (live_elements inp s)"
proof -
  obtain i where i: "i < length (li_failure_sets inp)" "s = li_failure_sets inp ! i"
    using assms(1) by (metis in_set_conv_nth)
  then have "\<lparr>ra_elems = live_elements inp s, ra_origin = of_nat i\<rparr> \<in> set (constraint_sets inp)"
    unfolding constraint_sets_def by (auto simp: in_set_enumerate_eq intro!: image_eqI [of _ _ "(i, s)"])
  then have "\<lparr>ra_elems = live_elements inp s, ra_origin = of_nat i\<rparr> \<in>
      set (sort_key (\<lambda>s. (length (ra_elems s), ra_elems s)) (filter (\<lambda>s. ra_elems s \<noteq> []) (constraint_sets inp)))"
    using assms(2) by simp
  from keep_minimal_dominates [OF this, of "[]"] show ?thesis by (simp add: kept_sets_def)
qed

lemma reduce_sets: "rd_sets (reduce inp)
    = map (\<lambda>k. elements_to_mask (rd_candidates (reduce inp)) (ra_elems k)) (kept_sets inp)"
  by (simp add: reduce_def Let_def)

lemma reduce_cover:
  assumes "input_ok inp" "ci < length (rd_candidates (reduce inp))"
  shows "bit (rd_cover (reduce inp) ! ci) j \<longleftrightarrow> j < length (kept_sets inp)
    \<and> rd_candidates (reduce inp) ! ci \<in> set (ra_elems (kept_sets inp ! j))"
proof -
  have "length (kept_sets inp) \<le> 64"
    using kept_sets_bound [of inp] assms(1) unfolding input_ok_iff by linarith
  then show ?thesis
    using assms(2) elements_to_mask_bit [OF candidates_sorted candidates_bound [OF assms(1)]]
    unfolding reduce_def Let_def by (subst add_sets_cover) auto
qed

lemma reduce_full_mask:
  assumes "input_ok inp"
  shows "bit (rd_full_mask (reduce inp)) j \<longleftrightarrow> j < length (kept_sets inp)"
proof -
  have "length (kept_sets inp) \<le> 64"
    using kept_sets_bound [of inp] assms unfolding input_ok_iff by linarith
  then show ?thesis unfolding reduce_def Let_def by (subst add_sets_full_mask) auto
qed

lemma reduce_hits:
  assumes "input_ok inp" "I \<subseteq> {..<length (rd_candidates (reduce inp))}"
    "\<forall>s \<in> set (li_failure_sets inp). set s \<inter> candidates inp \<noteq> {}"
  shows "hits (reduce inp) (rd_full_mask (reduce inp)) I \<longleftrightarrow>
    is_localization inp ((!) (rd_candidates (reduce inp)) ` I)"
proof -
  let ?c = "rd_candidates (reduce inp)"
  let ?H = "(!) ?c ` I"
  have sub: "?H \<subseteq> candidates inp" using assms(2) set_candidates [of inp] by (auto simp: subset_eq)
  have "hits (reduce inp) (rd_full_mask (reduce inp)) I
      \<longleftrightarrow> (\<forall>k \<in> set (kept_sets inp). ?H \<inter> set (ra_elems k) \<noteq> {})"
    unfolding hits_def reduce_full_mask [OF assms(1)] using assms(2)
    by (fastforce simp: reduce_cover [OF assms(1)] in_set_conv_nth subset_eq)
  also have "\<dots> \<longleftrightarrow> (\<forall>s \<in> set (li_failure_sets inp). ?H \<inter> set s \<noteq> {})"
  proof
    assume k: "\<forall>k \<in> set (kept_sets inp). ?H \<inter> set (ra_elems k) \<noteq> {}"
    show "\<forall>s \<in> set (li_failure_sets inp). ?H \<inter> set s \<noteq> {}"
    proof
      fix s assume s: "s \<in> set (li_failure_sets inp)"
      then have "live_elements inp s \<noteq> []" using assms(3) set_live_elements [of inp s] by force
      from kept_sets_dominate [OF s this] k show "?H \<inter> set s \<noteq> {}"
        unfolding set_live_elements by blast
    qed
  next
    assume s: "\<forall>s \<in> set (li_failure_sets inp). ?H \<inter> set s \<noteq> {}"
    show "\<forall>k \<in> set (kept_sets inp). ?H \<inter> set (ra_elems k) \<noteq> {}"
      using s sub kept_sets_in [of _ inp] set_live_elements [of inp] by fastforce
  qed
  finally show ?thesis using sub by (simp add: is_localization_def)
qed

lemma constraint_sets_elems:
  "map ra_elems (constraint_sets inp) = map (live_elements inp) (li_failure_sets inp)"
proof -
  have "map ra_elems (constraint_sets inp) = map (live_elements inp) (map snd (enumerate 0 (li_failure_sets inp)))"
    unfolding constraint_sets_def map_map by (rule map_cong) auto
  then show ?thesis by (simp only: map_snd_enumerate)
qed

lemma reduce_empty:
  "rd_has_empty_set (reduce inp) \<longleftrightarrow> (\<exists>s \<in> set (li_failure_sets inp). set s \<inter> candidates inp = {})"
proof -
  have "rd_has_empty_set (reduce inp) \<longleftrightarrow> [] \<in> set (map ra_elems (constraint_sets inp))"
    by (auto simp: reduce_def Let_def filter_empty_conv image_iff eq_commute [of "[]"])
  also have "\<dots> \<longleftrightarrow> (\<exists>s \<in> set (li_failure_sets inp). live_elements inp s = [])"
    unfolding constraint_sets_elems by force
  finally show ?thesis by (simp add: set_live_elements [symmetric])
qed

lemma reduce_empty_origin:
  assumes "rd_has_empty_set (reduce inp)" "input_ok inp"
  shows "unat (rd_empty_set_origin (reduce inp)) < length (li_failure_sets inp)
    \<and> set (li_failure_sets inp ! unat (rd_empty_set_origin (reduce inp))) \<inter> candidates inp = {}"
proof -
  let ?e = "filter (\<lambda>s. ra_elems s = []) (constraint_sets inp)"
  have ne: "?e \<noteq> []" using assms(1) by (simp add: reduce_def Let_def)
  then have "hd ?e \<in> set ?e" by (rule hd_in_set)
  then obtain i s where i: "i < length (li_failure_sets inp)" "li_failure_sets inp ! i = s"
      "hd ?e = \<lparr>ra_elems = live_elements inp s, ra_origin = of_nat i\<rparr>" "live_elements inp s = []"
    by (auto simp: constraint_sets_def in_set_enumerate_eq)
  have "i < 64" using i(1) assms(2) unfolding input_ok_iff by linarith
  then have "unat (rd_empty_set_origin (reduce inp)) = i"
    using ne i(3) by (simp add: reduce_def Let_def unat_of_nat)
  then show ?thesis using i set_live_elements [of inp s] by simp
qed
subsection \<open>From candidate indices to elements\<close>

abbreviation elements_at :: "localization_input \<Rightarrow> nat list \<Rightarrow> u32 list" where
  "elements_at inp \<equiv> map ((!) (rd_candidates (reduce inp)))"

abbreviation full_sols :: "localization_input \<Rightarrow> nat \<Rightarrow> nat list list" where
  "full_sols inp best \<equiv> sols (reduce inp) (rd_full_mask (reduce inp)) best 0"

lemma strict_map_nth:
  assumes "sorted_wrt (<) cs" "sorted_wrt (<) I" "set I \<subseteq> {..<length cs}"
  shows "sorted_wrt (<) (map ((!) cs) I)"
  using assms(2,3) sorted_wrt_nth_less [OF assms(1)]
  by (induction I) (auto simp: subset_eq)

lemma lex_map_nth:
  assumes "sorted_wrt (<) (cs :: u32 list)" "I < J" "set I \<subseteq> {..<length cs}" "set J \<subseteq> {..<length cs}"
  shows "map ((!) cs) I < map ((!) cs) J"
  using assms(2-4)
proof (induction I arbitrary: J)
  case Nil
  then show ?case by (cases J) auto
next
  case (Cons i I)
  then obtain j J' where J: "J = j # J'" by (cases J) auto
  show ?case
  proof (cases "i = j")
    case True
    then show ?thesis using Cons J by auto
  next
    case False
    then have "i < j" using Cons(2) J by auto
    then have "cs ! i < cs ! j" using sorted_wrt_nth_less [OF assms(1)] Cons(4) J by simp
    then show ?thesis using J by simp
  qed
qed

lemma elements_inj: "inj_on ((!) (rd_candidates (reduce inp))) {..<length (rd_candidates (reduce inp))}"
  using candidates_sorted [of inp] by (intro inj_on_nth) (auto simp: strict_sorted_iff)

lemma live_sets:
  "\<not> rd_has_empty_set (reduce inp) \<Longrightarrow> \<forall>s \<in> set (li_failure_sets inp). set s \<inter> candidates inp \<noteq> {}"
  unfolding reduce_empty by blast

lemma localization_indices:
  assumes "input_ok inp" "\<not> rd_has_empty_set (reduce inp)" "is_localization inp H"
  obtains K where "K \<subseteq> {..<length (rd_candidates (reduce inp))}" "H = (!) (rd_candidates (reduce inp)) ` K"
    "card K = card H" "hits (reduce inp) (rd_full_mask (reduce inp)) K"
proof -
  let ?c = "rd_candidates (reduce inp)"
  have "H \<subseteq> candidates inp" using assms(3) by (simp add: is_localization_def)
  also have "candidates inp = (!) ?c ` {..<length ?c}"
    unfolding set_candidates [symmetric] by (auto simp: set_conv_nth)
  finally obtain K where K: "K \<subseteq> {..<length ?c}" "H = (!) ?c ` K" by (meson subset_image_iff)
  moreover have "card K = card H"
    using card_image [OF inj_on_subset [OF elements_inj K(1)]] K(2) by simp
  moreover have "hits (reduce inp) (rd_full_mask (reduce inp)) K"
    using reduce_hits [OF assms(1) K(1) live_sets [OF assms(2)]] assms(3) K(2) by simp
  ultimately show ?thesis using that by blast
qed

lemma least_size_lower:
  assumes "input_ok inp" "\<not> rd_has_empty_set (reduce inp)"
    "least_size (reduce inp) (rd_full_mask (reduce inp)) best" "is_localization inp H"
  shows "best \<le> card H"
proof -
  obtain K where K: "K \<subseteq> {..<length (rd_candidates (reduce inp))}" "card K = card H"
      "hits (reduce inp) (rd_full_mask (reduce inp)) K"
    by (rule localization_indices [OF assms(1,2,4)])
  then have "feasible (reduce inp) (rd_full_mask (reduce inp)) (card H) 0"
    unfolding feasible_def by (intro exI [of _ K]) (simp add: atLeast0LessThan)
  then show ?thesis using assms(3) unfolding least_size_def by (meson not_le)
qed

lemma solution_elements:
  assumes "input_ok inp" "\<not> rd_has_empty_set (reduce inp)"
    "least_size (reduce inp) (rd_full_mask (reduce inp)) best" "I \<in> set (full_sols inp best)"
  shows "is_minimum inp (set (elements_at inp I))" "sorted_wrt (<) (elements_at inp I)" "length I = best"
proof -
  have I: "sorted_wrt (<) I" "set I \<subseteq> {..<length (rd_candidates (reduce inp))}"
      "hits (reduce inp) (rd_full_mask (reduce inp)) (set I)" "length I = best"
    using assms(4) unfolding sols_exact [OF assms(3)] by auto
  then show "length I = best" by simp
  show "sorted_wrt (<) (elements_at inp I)" by (rule strict_map_nth [OF candidates_sorted I(1,2)])
  have "is_localization inp (set (elements_at inp I))"
    using reduce_hits [OF assms(1) I(2) live_sets [OF assms(2)]] I(3) by simp
  moreover have "card (set (elements_at inp I)) \<le> best"
    using card_length [of "elements_at inp I"] I(4) by simp
  ultimately show "is_minimum inp (set (elements_at inp I))"
    using least_size_lower [OF assms(1-3)] unfolding is_minimum_def by (meson le_trans)
qed

lemma minimum_is_solution:
  assumes "input_ok inp" "\<not> rd_has_empty_set (reduce inp)"
    "least_size (reduce inp) (rd_full_mask (reduce inp)) best" "is_minimum inp H"
  shows "sorted_list_of_set H \<in> set (map (elements_at inp) (full_sols inp best))"
proof -
  let ?c = "rd_candidates (reduce inp)"
  have loc: "is_localization inp H" using assms(4) by (simp add: is_minimum_def)
  obtain K where K: "K \<subseteq> {..<length ?c}" "H = (!) ?c ` K" "card K = card H"
      "hits (reduce inp) (rd_full_mask (reduce inp)) K"
    by (rule localization_indices [OF assms(1,2) loc])
  obtain I0 where I0: "I0 \<in> set (full_sols inp best)"
    using sols_nonempty [OF assms(3)] by (metis list.set_intros(1) neq_Nil_conv)
  have "is_localization inp (set (elements_at inp I0))"
    using solution_elements(1) [OF assms(1-3) I0] by (simp add: is_minimum_def)
  then have "card H \<le> card (set (elements_at inp I0))" using assms(4) by (simp add: is_minimum_def)
  also have "\<dots> \<le> best"
    using card_length [of "elements_at inp I0"] solution_elements(3) [OF assms(1-3) I0] by simp
  finally have len: "card K = best" using least_size_lower [OF assms(1-3) loc] K(3) by simp
  let ?L = "sorted_list_of_set K"
  have f: "finite K" using K(1) finite_subset by blast
  have L: "sorted_wrt (<) ?L" "set ?L = K" "length ?L = best" using f len by auto
  have "?L \<in> set (full_sols inp best)" unfolding sols_exact [OF assms(3)] using K L by simp
  moreover have "elements_at inp ?L = sorted_list_of_set H"
  proof (rule sorted_distinct_set_unique)
    have "sorted_wrt (<) (elements_at inp ?L)"
      by (rule strict_map_nth [OF candidates_sorted L(1)]) (use L K in simp)
    then show "sorted (elements_at inp ?L)" "distinct (elements_at inp ?L)"
      by (auto simp: strict_sorted_iff)
    show "set (elements_at inp ?L) = set (sorted_list_of_set H)" using K(2) f L(2) by simp
  qed auto
  ultimately show ?thesis by (metis image_eqI set_map)
qed

lemma solutions_sorted:
  assumes "input_ok inp" "\<not> rd_has_empty_set (reduce inp)"
    "least_size (reduce inp) (rd_full_mask (reduce inp)) best"
  shows "sorted_wrt (<) (map (elements_at inp) (full_sols inp best))"
proof -
  have "set I \<subseteq> {..<length (rd_candidates (reduce inp))}" if "I \<in> set (full_sols inp best)" for I
    using that unfolding sols_exact [OF assms(3)] by simp
  then show ?thesis unfolding sorted_wrt_map
    by (intro sorted_wrt_mono_rel [OF _ sols_sorted]) (auto intro: lex_map_nth [OF candidates_sorted])
qed

lemma lower_bound_sound:
  assumes "input_ok inp" "rd_sets (reduce inp) \<noteq> []"
    "k < unat (if disjoint_lower_bound (reduce inp) = 0 then 1 else disjoint_lower_bound (reduce inp))"
  shows "\<not> feasible (reduce inp) (rd_full_mask (reduce inp)) k 0"
proof
  let ?r = "reduce inp"
  assume "feasible ?r (rd_full_mask ?r) k 0"
  then obtain I where I: "I \<subseteq> {0..<length (rd_candidates ?r)}" "card I \<le> k" "hits ?r (rd_full_mask ?r) I"
    unfolding feasible_def by blast
  have kept: "kept_sets inp \<noteq> []" using assms(2) by (simp add: reduce_sets)
  have f: "finite I" using I(1) finite_subset by blast
  have "\<exists>i \<in> I. bit s i" if s: "s \<in> set (rd_sets ?r)" for s
  proof -
    from s obtain j where j: "j < length (kept_sets inp)"
      "s = elements_to_mask (rd_candidates ?r) (ra_elems (kept_sets inp ! j))"
      by (auto simp: reduce_sets in_set_conv_nth)
    have "bit (rd_full_mask ?r) j" using j(1) reduce_full_mask [OF assms(1), of j] by simp
    then obtain i where i: "i \<in> I" "bit (rd_cover ?r ! i) j"
      using I(3) unfolding hits_def by blast
    moreover have "i < length (rd_candidates ?r)" using i(1) I(1) by auto
    ultimately have "bit s i"
      using reduce_cover [OF assms(1), of i j] j(2)
        elements_to_mask_bit [OF candidates_sorted candidates_bound [OF assms(1)], of _ i] by simp
    then show ?thesis using i(1) by blast
  qed
  then have "unat (disjoint_lower_bound ?r) \<le> card {i \<in> I. \<not> bit (0 :: mask) i}"
    unfolding disjoint_lower_bound_def
    by (intro order_trans [OF pack_disjoint_bound [OF f]]) auto
  then have "unat (disjoint_lower_bound ?r) \<le> k" using I(2) by simp
  moreover have "k \<noteq> 0"
  proof
    assume "k = 0"
    then have "I = {}" using f I(2) by simp
    moreover have "bit (rd_full_mask ?r) 0" using kept reduce_full_mask [OF assms(1), of 0] by simp
    ultimately show False using I(3) unfolding hits_def by blast
  qed
  ultimately show False using assms(3) by (auto split: if_splits)
qed
subsection \<open>What the solver returns\<close>

lemma elements_at_prefix: "map (\<lambda>I. [] @ map ((!) (rd_candidates (reduce inp))) I) xs = map (elements_at inp) xs"
  by simp

text \<open>The result of a search, once the minimum size is known: the solutions found are a prefix
  of the minimum solutions in lexicographic order.\<close>

definition searched :: "localization_input \<Rightarrow> nat \<Rightarrow> u32 list list \<Rightarrow> localization_result \<Rightarrow> bool" where
  "searched inp best p res \<longleftrightarrow>
     least_size (reduce inp) (rd_full_mask (reduce inp)) best \<and> best \<le> 64 \<and> p \<noteq> [] \<and>
     (\<exists>q. map (elements_at inp) (full_sols inp best) = p @ q \<and> (\<not> lr_solutions_truncated res \<longrightarrow> q = [])) \<and>
     lr_elements res = hd p \<and> lr_optimal_size res = of_nat best \<and> lr_optimality_proven res \<and>
     unat (lr_solutions_found res) = length p \<and>
     (lr_uniqueness_proven res \<longleftrightarrow> \<not> lr_solutions_truncated res \<and> length p = 1) \<and>
     lr_status res = (if length p > 1 then Loc_Ambiguous else Loc_Resolved)"

lemma localize_enumerates:
  assumes "input_ok inp" "\<not> rd_has_empty_set (reduce inp)" "rd_sets (reduce inp) \<noteq> []"
    and "find_size (reduce inp) (li_search_node_budget inp)
      [unat (if disjoint_lower_bound (reduce inp) = 0 then 1 else disjoint_lower_bound (reduce inp))
        ..<Suc kMaxLocalizationCandidates] oracle_new = (Some best, st)"
    and "en = run (reduce inp) \<lparr>el_oracle_limit = li_search_node_budget inp, el_max_solutions = li_max_solutions inp,
        el_node_budget = (if li_search_node_budget inp > or_nodes st
          then li_search_node_budget inp - or_nodes st else 1)\<rparr> [] (rd_full_mask (reduce inp)) best 0 (enumeration_new st)"
    and "out = result_new\<lparr>lr_search_nodes := or_nodes st + en_nodes en,
          lr_optimality_proven := True, lr_optimal_size := of_nat best,
          lr_solutions_found := en_found en, lr_solutions_truncated := en_truncated en,
          lr_uniqueness_proven := (\<not> en_truncated en \<and> en_found en = 1)\<rparr>"
  shows "localize inp = (if \<not> en_found en > 0 then
       out\<lparr>lr_elements := greedy_localization inp, lr_optimality_proven := False,
         lr_status := Loc_Indeterminate, lr_reason := R_LocalizationSearchLimit\<rparr>
     else
       out\<lparr>lr_elements := en_first en, lr_status := (if en_found en > 1 then Loc_Ambiguous else Loc_Resolved),
         lr_reason := (if en_found en > 1 then R_LocalizationAmbiguous else R_LocalizationResolved)\<rparr>)"
  using assms by (simp add: localize_def is_affirmative_def Let_def result_new_def)

lemma localize_search:
  assumes ok: "input_ok inp" and ne: "\<not> rd_has_empty_set (reduce inp)" and sets: "rd_sets (reduce inp) \<noteq> []"
  shows "(lr_status (localize inp) = Loc_Indeterminate \<and> lr_elements (localize inp) = greedy_localization inp
      \<and> \<not> lr_optimality_proven (localize inp) \<and> \<not> lr_uniqueness_proven (localize inp))
    \<or> (\<exists>best p. searched inp best p (localize inp))"
proof -
  let ?r = "reduce inp"
  let ?lb = "disjoint_lower_bound ?r"
  let ?start = "if ?lb = 0 then 1 else ?lb"
  obtain fs st where f: "find_size ?r (li_search_node_budget inp)
      [unat ?start..<Suc kMaxLocalizationCandidates] oracle_new = (fs, st)" by fastforce
  show ?thesis
  proof (cases fs)
    case None
    then show ?thesis using ok ne sets f
      by (simp add: localize_def is_affirmative_def Let_def result_new_def)
  next
    case (Some best)
    let ?lim = "\<lparr>el_oracle_limit = li_search_node_budget inp, el_max_solutions = li_max_solutions inp,
        el_node_budget = (if li_search_node_budget inp > or_nodes st
          then li_search_node_budget inp - or_nodes st else 1)\<rparr>"
    let ?en = "run ?r ?lim [] (rd_full_mask ?r) best 0 (enumeration_new st)"
    from find_size_found [OF f [unfolded Some] memo_ok_new] lower_bound_sound [OF ok sets]
    have l: "least_size ?r (rd_full_mask ?r) best" "memo_ok ?r st" "best \<le> 64"
      by (auto simp: kMaxLocalizationCandidates_def)
    have "0 < li_max_solutions inp" using ok unfolding input_ok_iff by (simp add: word_neq_0_conv)
    then have "extends ?r ?lim (map (elements_at inp) (full_sols inp best)) (enumeration_new st) ?en"
      using run_extends(1) [where r = ?r and lim = ?lim and st = "enumeration_new st" and current = "[]"
        and m = "rd_full_mask ?r" and budget = best and lo = 0] l(2)
      by (simp add: enumeration_new_def elements_at_prefix)
    then obtain p q where p: "map (elements_at inp) (full_sols inp best) = p @ q"
        "unat (en_found ?en) = length p" "\<not> en_truncated ?en \<longrightarrow> q = []"
        "en_first ?en = (if p \<noteq> [] then hd p else [])"
      by (rule extendsE) (auto simp: enumeration_new_def)
    note out = localize_enumerates [OF ok ne sets f [unfolded Some] refl refl]
    show ?thesis
    proof (cases "en_found ?en = 0")
      case True
      then show ?thesis unfolding out by simp
    next
      case False
      have "p \<noteq> []" using False p(2) by (auto simp: unat_eq_zero)
      moreover have "en_found ?en > 1 \<longleftrightarrow> length p > 1" "en_found ?en = 1 \<longleftrightarrow> length p = 1"
        "en_found ?en > 0"
        using p(2) False by (auto simp: word_less_nat_alt word_unat_eq_iff)
      ultimately have "searched inp best p (localize inp)"
        unfolding out searched_def using l p by auto
      then show ?thesis by blast
    qed
  qed
qed

lemma no_constraints:
  assumes "input_ok inp" "\<not> rd_has_empty_set (reduce inp)" "rd_sets (reduce inp) = []"
  shows "is_minimum inp H \<longleftrightarrow> H = {}"
proof -
  have "li_failure_sets inp = []"
  proof (rule ccontr)
    assume "li_failure_sets inp \<noteq> []"
    then obtain s where s: "s \<in> set (li_failure_sets inp)" by (meson last_in_set)
    then have "live_elements inp s \<noteq> []" using live_sets [OF assms(2)] set_live_elements [of inp s] by force
    from kept_sets_dominate [OF s this] show False using assms(3) by (auto simp: reduce_sets)
  qed
  then have l: "is_localization inp H \<longleftrightarrow> H \<subseteq> candidates inp" for H by (simp add: is_localization_def)
  have z: "card H = 0 \<Longrightarrow> H \<subseteq> candidates inp \<Longrightarrow> H = {}" for H :: "u32 set"
    by (meson candidates_finite card_eq_0_iff finite_subset)
  show ?thesis
  proof
    assume "is_minimum inp H"
    then show "H = {}" using z [of H] l [of H] l [of "{}"] by (fastforce simp: is_minimum_def)
  qed (simp add: is_minimum_def l)
qed

lemma localize_cases:
  assumes "input_ok inp"
  shows "rd_has_empty_set (reduce inp) \<Longrightarrow> lr_status (localize inp) = Loc_ProvenInfeasible
      \<and> lr_has_infeasible_witness (localize inp) \<and> \<not> lr_uniqueness_proven (localize inp)
      \<and> lr_infeasible_witness (localize inp) = rd_empty_set_origin (reduce inp)"
    and "\<not> rd_has_empty_set (reduce inp) \<Longrightarrow> rd_sets (reduce inp) = [] \<Longrightarrow>
      lr_status (localize inp) = Loc_Resolved \<and> lr_elements (localize inp) = []
      \<and> lr_optimal_size (localize inp) = 0 \<and> lr_optimality_proven (localize inp)
      \<and> lr_uniqueness_proven (localize inp)"
  using assms by (simp_all add: localize_def is_affirmative_def Let_def result_new_def)

lemma localize_invalid:
  "\<not> input_ok inp \<Longrightarrow> localize inp = result_new\<lparr>lr_status := Loc_InvalidInput, lr_reason := R_LocalizationInvalid\<rparr>"
  by (simp add: localize_def is_affirmative_def)

lemma localize_valid_input:
  "lr_status (localize inp) \<noteq> Loc_InvalidInput \<Longrightarrow> input_ok inp"
  using localize_invalid [of inp] by (cases "input_ok inp") auto

lemma searched_first:
  assumes "input_ok inp" "\<not> rd_has_empty_set (reduce inp)" "searched inp best p res"
  shows "is_minimum inp (set (lr_elements res))" "sorted_wrt (<) (lr_elements res)"
    "unat (lr_optimal_size res) = length (lr_elements res)"
    "is_minimum inp H \<Longrightarrow> lr_elements res \<le> sorted_list_of_set H"
proof -
  have l: "least_size (reduce inp) (rd_full_mask (reduce inp)) best" "best \<le> 64"
    using assms(3) by (simp_all add: searched_def)
  obtain q where q: "map (elements_at inp) (full_sols inp best) = p @ q" "p \<noteq> []"
      "lr_elements res = hd p" "lr_optimal_size res = of_nat best"
    using assms(3) unfolding searched_def by blast
  have hd: "lr_elements res = hd (map (elements_at inp) (full_sols inp best))" using q by simp
  obtain I where I: "I \<in> set (full_sols inp best)" "lr_elements res = elements_at inp I"
    using hd sols_nonempty [OF l(1)] by (metis hd_in_set hd_map)
  note e = solution_elements [OF assms(1,2) l(1) I(1)]
  show "is_minimum inp (set (lr_elements res))" "sorted_wrt (<) (lr_elements res)" using e I(2) by auto
  show "unat (lr_optimal_size res) = length (lr_elements res)"
    using e(3) I(2) q(4) l(2) by (simp add: unat_of_nat)
  show "lr_elements res \<le> sorted_list_of_set H" if "is_minimum inp H"
  proof -
    have m: "sorted_list_of_set H \<in> set (p @ q)"
      using minimum_is_solution [OF assms(1,2) l(1) that] q(1) by simp
    have "sorted_wrt (<) (p @ q)" using solutions_sorted [OF assms(1,2) l(1)] q(1) by simp
    then have "sorted_wrt (<) (hd p # tl (p @ q))" using q(2) by (cases p) auto
    moreover have "p @ q = hd p # tl (p @ q)" using q(2) by (cases p) auto
    ultimately show ?thesis using m q(3) by (metis less_imp_le order_refl set_ConsD sorted_wrt.simps(2))
  qed
qed

lemma localize_solved:
  assumes "lr_status (localize inp) \<in> {Loc_Resolved, Loc_Ambiguous}"
  obtains (none) "input_ok inp" "\<not> rd_has_empty_set (reduce inp)" "rd_sets (reduce inp) = []"
    | (search) best p where "input_ok inp" "\<not> rd_has_empty_set (reduce inp)" "searched inp best p (localize inp)"
proof -
  have ok: "input_ok inp" using localize_valid_input assms by auto
  have ne: "\<not> rd_has_empty_set (reduce inp)" using localize_cases(1) [OF ok] assms by auto
  show thesis
  proof (cases "rd_sets (reduce inp) = []")
    case False
    with localize_search [OF ok ne] assms obtain best p where "searched inp best p (localize inp)" by auto
    with ok ne search show ?thesis by blast
  qed (use ok ne none in blast)
qed

subsection \<open>The greedy cover\<close>

lemma greedy_fold_max:
  assumes "foldl (\<lambda>(best_idx, best_count) ci.
       let cnt = popcount64 (rd_cover r ! ci AND remaining)
       in if cnt > best_count then (ci, cnt) else (best_idx, best_count)) (b, c) cis = (b', c')"
  shows "c \<le> c'" "ci \<in> set cis \<Longrightarrow> popcount64 (rd_cover r ! ci AND remaining) \<le> c'"
    "(b' = b \<and> c' = c) \<or> b' \<in> set cis"
  using assms
  by (induction cis arbitrary: b c) (fastforce simp: Let_def split: if_splits)+

lemma greedy_best_progress:
  assumes "bit remaining si" "i < length (rd_candidates r)" "bit (rd_cover r ! i) si"
    "greedy_best r remaining = (b, c)"
  shows "b < length (rd_candidates r)" "c \<noteq> 0"
proof -
  have "bit (rd_cover r ! i AND remaining) si" using assms by (simp add: bit_and_iff)
  then have nz: "popcount64 (rd_cover r ! i AND remaining) \<noteq> 0" by (auto simp: popcount64_zero)
  note f = assms(4) [unfolded greedy_best_def]
  show "c \<noteq> 0" using greedy_fold_max(2) [OF f, of i] assms(2) nz by auto
  then show "b < length (rd_candidates r)" using greedy_fold_max(3) [OF f] by auto
qed

lemma greedy_loop_covers:
  assumes "\<And>si. bit remaining si \<Longrightarrow> \<exists>i < length (rd_candidates r). bit (rd_cover r ! i) si"
  shows "\<exists>I. set I \<subseteq> {..<length (rd_candidates r)} \<and> hits r remaining (set I)
    \<and> greedy_loop r remaining chosen = chosen @ map ((!) (rd_candidates r)) I"
  using assms
proof (induction r remaining chosen rule: greedy_loop.induct)
  case (1 r remaining chosen)
  show ?case
  proof (cases "remaining = 0")
    case True
    then show ?thesis by (subst greedy_loop.simps) (auto intro!: exI [of _ "[]"])
  next
    case False
    obtain b c where bc: "greedy_best r remaining = (b, c)" by fastforce
    have "bit remaining (lowest_set_bit64 remaining)" using lowest_set_bit64_bit [OF False] by simp
    with 1(2) greedy_best_progress [OF _ _ _ bc] have b: "b < length (rd_candidates r)" "c \<noteq> 0" by blast+
    let ?rest = "remaining AND NOT (rd_cover r ! b)"
    have rest: "\<exists>i < length (rd_candidates r). bit (rd_cover r ! i) si" if "bit ?rest si" for si
      using that 1(2) by (simp add: bit_and_iff)
    from 1(1) [OF False bc [symmetric] refl _ rest] b
    obtain I where I: "set I \<subseteq> {..<length (rd_candidates r)}" "hits r ?rest (set I)"
      "greedy_loop r ?rest (chosen @ [rd_candidates r ! b])
        = (chosen @ [rd_candidates r ! b]) @ map ((!) (rd_candidates r)) I" by auto
    have "greedy_loop r remaining chosen = greedy_loop r ?rest (chosen @ [rd_candidates r ! b])"
      using False bc b by (subst greedy_loop.simps) simp
    then show ?thesis using I b hits_rest by (intro exI [of _ "b # I"]) auto
  qed
qed

lemma greedy_valid:
  assumes "input_ok inp" "\<not> rd_has_empty_set (reduce inp)"
  shows "is_localization inp (set (greedy_localization inp))"
proof -
  let ?r = "reduce inp"
  have "\<exists>i < length (rd_candidates ?r). bit (rd_cover ?r ! i) si" if "bit (rd_full_mask ?r) si" for si
  proof -
    have si: "si < length (kept_sets inp)" using that reduce_full_mask [OF assms(1), of si] by simp
    note k = kept_sets_in [OF nth_mem [OF si]]
    then obtain e where e: "e \<in> set (ra_elems (kept_sets inp ! si))" by (meson last_in_set)
    with k have "e \<in> set (rd_candidates ?r)"
      unfolding set_candidates by (auto simp: set_live_elements)
    then obtain i where i: "i < length (rd_candidates ?r)" "rd_candidates ?r ! i = e"
      by (auto simp: in_set_conv_nth)
    then show ?thesis using si e reduce_cover [OF assms(1) i(1), of si] by auto
  qed
  from greedy_loop_covers [OF this, where chosen = "[]"] obtain I where I: "set I \<subseteq> {..<length (rd_candidates ?r)}"
      "hits ?r (rd_full_mask ?r) (set I)"
      "greedy_loop ?r (rd_full_mask ?r) [] = elements_at inp I" by auto
  have "set (greedy_localization inp) = (!) (rd_candidates ?r) ` set I"
    using I(3) by (simp add: greedy_localization_def Let_def)
  then show ?thesis using reduce_hits [OF assms(1) I(1) live_sets [OF assms(2)]] I(2) by simp
qed

subsection \<open>The theorems\<close>

text \<open>
  C26. When the solver reports a localization as resolved or ambiguous, the elements it returns
  are a localization of least size among all localizations of the input, in strictly ascending
  order, and lexicographically the first of that size; the size it claims is theirs and is
  marked as proven.
\<close>
theorem localize_optimal:
  assumes "lr_status (localize inp) \<in> {Loc_Resolved, Loc_Ambiguous}"
  shows "lr_optimality_proven (localize inp)
    \<and> is_minimum inp (set (lr_elements (localize inp)))
    \<and> sorted_wrt (<) (lr_elements (localize inp))
    \<and> unat (lr_optimal_size (localize inp)) = length (lr_elements (localize inp))
    \<and> (\<forall>H. is_minimum inp H \<longrightarrow> lr_elements (localize inp) \<le> sorted_list_of_set H)"
  using assms
proof (cases rule: localize_solved)
  case none
  then show ?thesis using localize_cases(2) [OF none] no_constraints [OF none] by simp
next
  case (search best p)
  then show ?thesis using searched_first [OF search] by (simp add: searched_def)
qed

lemma searched_unique:
  assumes "input_ok inp" "\<not> rd_has_empty_set (reduce inp)" "searched inp best p res" "lr_uniqueness_proven res"
  shows "is_minimum inp H \<longleftrightarrow> H = set (lr_elements res)"
proof -
  have l: "least_size (reduce inp) (rd_full_mask (reduce inp)) best" using assms(3) by (simp add: searched_def)
  have u: "\<not> lr_solutions_truncated res" "length p = 1" using assms(3,4) by (simp_all add: searched_def)
  have p: "map (elements_at inp) (full_sols inp best) = p" "lr_elements res = hd p"
    using assms(3) u(1) by (simp_all add: searched_def)
  obtain x where x: "p = [x]" using u(2) by (cases p) auto
  show ?thesis
  proof
    assume H: "is_minimum inp H"
    then have "H \<subseteq> candidates inp" by (simp add: is_minimum_def is_localization_def)
    then have "finite H" using candidates_finite by (rule finite_subset)
    moreover have "sorted_list_of_set H = lr_elements res"
      using minimum_is_solution [OF assms(1,2) l H] unfolding p x by simp
    ultimately show "H = set (lr_elements res)" by (metis set_sorted_list_of_set)
  qed (use searched_first(1) [OF assms(1-3)] in simp)
qed

lemma searched_ambiguous:
  assumes "input_ok inp" "\<not> rd_has_empty_set (reduce inp)" "searched inp best p res" "length p > 1"
  shows "\<exists>H H'. is_minimum inp H \<and> is_minimum inp H' \<and> H \<noteq> H'"
proof -
  have l: "least_size (reduce inp) (rd_full_mask (reduce inp)) best" using assms(3) by (simp add: searched_def)
  obtain q where q: "map (elements_at inp) (full_sols inp best) = p @ q"
    using assms(3) unfolding searched_def by blast
  obtain x p' where p': "p = x # p'" using assms(4) by (cases p) auto
  with assms(4) obtain y zs where p: "p = x # y # zs" by (cases p') auto
  have lt: "x < y" using solutions_sorted [OF assms(1,2) l] unfolding q p by simp
  have m: "is_minimum inp (set e) \<and> sorted_wrt (<) e" if "e \<in> set p" for e
  proof -
    have "e \<in> set (map (elements_at inp) (full_sols inp best))" using that unfolding q by simp
    then obtain I where "I \<in> set (full_sols inp best)" "e = elements_at inp I" by auto
    then show ?thesis using solution_elements(1,2) [OF assms(1,2) l] by simp
  qed
  have x: "is_minimum inp (set x)" "sorted_wrt (<) x" and y: "is_minimum inp (set y)" "sorted_wrt (<) y"
    using m [of x] m [of y] p by auto
  have "set x \<noteq> set y" using strict_sorted_equal [OF x(2) y(2)] lt by auto
  then show ?thesis using x(1) y(1) by blast
qed

text \<open>
  C27. The solver's claims about the number of solutions hold: when it reports uniqueness as proven
  its elements are the only localization of least size, and when it reports the result as
  ambiguous there are at least two localizations of least size.
\<close>
theorem localize_uniqueness:
  "(lr_uniqueness_proven (localize inp) \<longrightarrow> (\<forall>H. is_minimum inp H \<longleftrightarrow> H = set (lr_elements (localize inp))))
   \<and> (lr_status (localize inp) = Loc_Ambiguous \<longrightarrow> (\<exists>H H'. is_minimum inp H \<and> is_minimum inp H' \<and> H \<noteq> H'))"
proof (intro conjI impI)
  assume u: "lr_uniqueness_proven (localize inp)"
  have ok: "input_ok inp" using u localize_invalid [of inp] by (cases "input_ok inp") (auto simp: result_new_def)
  have ne: "\<not> rd_has_empty_set (reduce inp)" using localize_cases(1) [OF ok] u by auto
  show "\<forall>H. is_minimum inp H \<longleftrightarrow> H = set (lr_elements (localize inp))"
  proof (cases "rd_sets (reduce inp) = []")
    case True
    then show ?thesis using localize_cases(2) [OF ok ne] no_constraints [OF ok ne] by simp
  next
    case False
    from localize_search [OF ok ne False] u obtain best p where "searched inp best p (localize inp)" by blast
    from searched_unique [OF ok ne this u] show ?thesis by blast
  qed
next
  assume a: "lr_status (localize inp) = Loc_Ambiguous"
  then have "lr_status (localize inp) \<in> {Loc_Resolved, Loc_Ambiguous}" by simp
  then show "\<exists>H H'. is_minimum inp H \<and> is_minimum inp H' \<and> H \<noteq> H'"
  proof (cases rule: localize_solved)
    case none
    then show ?thesis using localize_cases(2) [OF none] a by simp
  next
    case (search best p)
    then have "length p > 1" using a by (simp add: searched_def split: if_splits)
    then show ?thesis by (rule searched_ambiguous [OF search])
  qed
qed

text \<open>
  C28. For a valid input the solver reports infeasibility exactly when no localization exists, and
  then the failure set it names has no candidate left. Otherwise the elements it returns are a
  localization, also when the search budget ran out and they are only the greedy cover, for
  which no optimality or uniqueness is claimed.
\<close>
theorem localize_infeasible_exact:
  assumes "fst (validate_localization_input inp) = O_Ok"
  shows "(lr_status (localize inp) = Loc_ProvenInfeasible) = (\<nexists>H. is_localization inp H)
    \<and> (if lr_status (localize inp) = Loc_ProvenInfeasible
       then unat (lr_infeasible_witness (localize inp)) < length (li_failure_sets inp)
         \<and> set (li_failure_sets inp ! unat (lr_infeasible_witness (localize inp))) \<inter> candidates inp = {}
       else is_localization inp (set (lr_elements (localize inp)))
         \<and> (lr_status (localize inp) = Loc_Indeterminate \<longrightarrow>
              \<not> lr_optimality_proven (localize inp) \<and> \<not> lr_uniqueness_proven (localize inp)))"
proof (cases "rd_has_empty_set (reduce inp)")
  case True
  have "\<not> is_localization inp H" for H
    using True unfolding reduce_empty is_localization_def by blast
  then show ?thesis
    using localize_cases(1) [OF assms True] reduce_empty_origin [OF True assms] by simp
next
  case False
  have "is_localization inp (set (lr_elements (localize inp))) \<and> lr_status (localize inp) \<noteq> Loc_ProvenInfeasible
      \<and> (lr_status (localize inp) = Loc_Indeterminate \<longrightarrow>
              \<not> lr_optimality_proven (localize inp) \<and> \<not> lr_uniqueness_proven (localize inp))"
  proof (cases "rd_sets (reduce inp) = []")
    case True
    then show ?thesis
      using localize_cases(2) [OF assms False True] no_constraints [OF assms False True, of "{}"]
      by (simp add: is_minimum_def)
  next
    case sets: False
    from localize_search [OF assms False sets] show ?thesis
    proof (elim disjE exE)
      fix best p assume s: "searched inp best p (localize inp)"
      have "lr_status (localize inp) \<in> {Loc_Resolved, Loc_Ambiguous}" using s by (simp add: searched_def)
      then show ?thesis using searched_first(1) [OF assms False s] by (auto simp: is_minimum_def)
    qed (use greedy_valid [OF assms False] in simp)
  qed
  then show ?thesis by auto
qed

subsection \<open>Examples\<close>

definition sample_input :: localization_input where
  "sample_input = \<lparr>li_element_count = 4, li_proven_ok = [3], li_failure_sets = [[0, 1], [1, 2]],
     li_search_node_budget = 1000, li_max_solutions = 64\<rparr>"

text \<open>One failed segment over two hops: two explanations of the same size.\<close>

definition ambiguous_input :: "u32 \<Rightarrow> localization_input" where
  "ambiguous_input limit = \<lparr>li_element_count = 2, li_proven_ok = [], li_failure_sets = [[0, 1]],
     li_search_node_budget = 1000, li_max_solutions = limit\<rparr>"

text \<open>Twenty candidates, one of which is the only one in the failed segment.\<close>

definition wide_input :: localization_input where
  "wide_input = \<lparr>li_element_count = 20, li_proven_ok = [], li_failure_sets = [[5]],
     li_search_node_budget = 1000, li_max_solutions = 64\<rparr>"

lemma sample_input_solved:
  "fst (validate_localization_input sample_input) = O_Ok"
  "lr_status (localize sample_input) = Loc_Resolved" "lr_elements (localize sample_input) = [1]"
  "lr_uniqueness_proven (localize sample_input)"
  by code_simp+

lemma ambiguous_input_minima:
  "is_minimum (ambiguous_input limit) {0}" "is_minimum (ambiguous_input limit) {1}"
proof -
  have c: "candidates (ambiguous_input limit) = {0, 1}"
  proof -
    have "e < 2 \<longleftrightarrow> e = 0 \<or> e = 1" for e :: u32
      by (auto simp: word_less_nat_alt word_unat_eq_iff)
    then show ?thesis by (auto simp: candidates_def ambiguous_input_def)
  qed
  have "card H \<ge> 1" if "is_localization (ambiguous_input limit) H" for H
  proof -
    have "H \<subseteq> {0, 1}" "H \<noteq> {}" using that c by (auto simp: is_localization_def ambiguous_input_def)
    then show ?thesis by (metis One_nat_def Suc_leI card_gt_0_iff finite.emptyI finite_insert finite_subset)
  qed
  then show "is_minimum (ambiguous_input limit) {0}" "is_minimum (ambiguous_input limit) {1}"
    using c by (auto simp: is_minimum_def is_localization_def ambiguous_input_def)
qed

theorem localize_optimal_witness:
  "lr_status (localize sample_input) \<in> {Loc_Resolved, Loc_Ambiguous} \<and> is_minimum sample_input {1}"
  using localize_optimal [of sample_input] sample_input_solved by simp

theorem localize_uniqueness_witness:
  "lr_uniqueness_proven (localize sample_input) \<and> (\<forall>H. is_minimum sample_input H \<longleftrightarrow> H = {1})"
  using localize_uniqueness [of sample_input] sample_input_solved by simp

theorem localize_infeasible_exact_witness:
  "fst (validate_localization_input sample_input) = O_Ok \<and> is_localization sample_input {1}"
  using localize_infeasible_exact [of sample_input] sample_input_solved by simp

text \<open>
  With a limit of one solution, a result is reported as resolved by the solver, and as proven
  unique by the reference solver, although a second localization of the same size exists: the
  status means "one was found", and the reference derives its uniqueness claim from the
  truncation flag before that flag is set.
\<close>
theorem solution_limit_hides_ambiguity:
  "lr_status (localize (ambiguous_input 1)) = Loc_Resolved
   \<and> lr_uniqueness_proven (reference_localize (ambiguous_input 1) 18)
   \<and> is_minimum (ambiguous_input 1) {0} \<and> is_minimum (ambiguous_input 1) {1}"
proof (intro conjI ambiguous_input_minima)
  show "lr_status (localize (ambiguous_input 1)) = Loc_Resolved" by code_simp
  show "lr_uniqueness_proven (reference_localize (ambiguous_input 1) 18)" by code_simp
qed

text \<open>
  The validator rejects a correct result once there are more than eighteen candidates: its
  second check of the cover compares a mask of candidates with a mask of failure sets.
\<close>
theorem validator_rejects_optimum:
  "lr_status (localize wide_input) = Loc_Resolved \<and> lr_elements (localize wide_input) = [5]
   \<and> \<not> vr_valid (verify_localization wide_input (localize wide_input))"
proof (intro conjI)
  show "lr_status (localize wide_input) = Loc_Resolved" by code_simp
  show "lr_elements (localize wide_input) = [5]" by code_simp
  show "\<not> vr_valid (verify_localization wide_input (localize wide_input))" by code_simp
qed

end
