(* ===== verification/BHG_Decision.thy ===== *)
theory BHG_Decision
  imports BHG_Fences BHG_Localizer
begin

text \<open>
  Decisions (\<open>authority.hpp\<close>, \<open>authority.cpp\<close>): the record every externally visible decision is
  made of, its identity derived from its content, and the canonical codecs of fencing intents
  and decisions. The parts of a decision that the code writes inline, the authority vector, the
  census and the localization, are encoders of their own here.
\<close>

subsection \<open>Kinds and lifecycle states\<close>

datatype decision_kind =
    D_Diagnosis | D_FenceIntent | D_FenceAcknowledgement | D_FenceEffect | D_FenceRevocation
  | D_Restoration | D_Interruption

primrec decision_kind_code :: "decision_kind \<Rightarrow> u16" where
  "decision_kind_code D_Diagnosis = 1"
| "decision_kind_code D_FenceIntent = 2"
| "decision_kind_code D_FenceAcknowledgement = 3"
| "decision_kind_code D_FenceEffect = 4"
| "decision_kind_code D_FenceRevocation = 5"
| "decision_kind_code D_Restoration = 6"
| "decision_kind_code D_Interruption = 7"

definition all_decision_kind :: "decision_kind list" where
  "all_decision_kind =
    [D_Diagnosis, D_FenceIntent, D_FenceAcknowledgement, D_FenceEffect, D_FenceRevocation,
     D_Restoration, D_Interruption]"

definition is_valid_decision_kind :: "u16 \<Rightarrow> bool" where
  "is_valid_decision_kind raw \<longleftrightarrow> raw \<ge> 1 \<and> raw \<le> 7"

definition decision_kind_of_code :: "u16 \<Rightarrow> decision_kind" where
  "decision_kind_of_code = enum_cast decision_kind_code all_decision_kind"

primrec decision_kind_to_string :: "decision_kind \<Rightarrow> string" where
  "decision_kind_to_string D_Diagnosis = ''Diagnosis''"
| "decision_kind_to_string D_FenceIntent = ''FenceIntent''"
| "decision_kind_to_string D_FenceAcknowledgement = ''FenceAcknowledgement''"
| "decision_kind_to_string D_FenceEffect = ''FenceEffect''"
| "decision_kind_to_string D_FenceRevocation = ''FenceRevocation''"
| "decision_kind_to_string D_Restoration = ''Restoration''"
| "decision_kind_to_string D_Interruption = ''Interruption''"

interpretation decision_kind_enum: wire_enum decision_kind_code is_valid_decision_kind decision_kind_of_code
  unfolding decision_kind_of_code_def
proof (rule wire_enumI)
  show "e \<in> set all_decision_kind" for e by (cases e) (simp_all add: all_decision_kind_def)
  show "distinct (map decision_kind_code all_decision_kind)" by (simp add: all_decision_kind_def)
  show "is_valid_decision_kind raw \<longleftrightarrow> raw \<in> set (map decision_kind_code all_decision_kind)" for raw
    using word_range_set [of 7 1 raw]
    by (simp add: is_valid_decision_kind_def all_decision_kind_def upt_rec)
qed

datatype path_lifecycle =
    PL_Unobserved | PL_Observed | PL_Suspected | PL_Diagnosed | PL_FenceIntended
  | PL_FenceAcknowledged | PL_Restored | PL_Interrupted | PL_Fenced

primrec path_lifecycle_to_string :: "path_lifecycle \<Rightarrow> string" where
  "path_lifecycle_to_string PL_Unobserved = ''UNOBSERVED''"
| "path_lifecycle_to_string PL_Observed = ''OBSERVED''"
| "path_lifecycle_to_string PL_Suspected = ''SUSPECTED''"
| "path_lifecycle_to_string PL_Diagnosed = ''DIAGNOSED''"
| "path_lifecycle_to_string PL_FenceIntended = ''FENCE_INTENDED''"
| "path_lifecycle_to_string PL_FenceAcknowledged = ''FENCE_ACKNOWLEDGED''"
| "path_lifecycle_to_string PL_Restored = ''RESTORED''"
| "path_lifecycle_to_string PL_Interrupted = ''INTERRUPTED''"
| "path_lifecycle_to_string PL_Fenced = ''FENCED''"

subsection \<open>Vectors and optional parts on the wire\<close>

text \<open>A counted vector: its length, then its elements; the reader refuses a count above its limit
  and one that the remaining bytes cannot hold.\<close>

definition w_vector :: "('a \<Rightarrow> writer \<Rightarrow> writer) \<Rightarrow> 'a list \<Rightarrow> writer \<Rightarrow> writer" where
  "w_vector f xs = wseq [w_u32 (of_nat (length xs)), wfor xs f]"

definition r_vector :: "u32 \<Rightarrow> nat \<Rightarrow> 'a decoder \<Rightarrow> 'a list decoder" where
  "r_vector limit width d =
     dbind r_u32 (\<lambda>n. dbind (dguard (\<not> n > limit) O_Oversized) (\<lambda>_.
     dbind dremaining (\<lambda>left. dbind (dguard (\<not> left < unat n * width) O_Malformed) (\<lambda>_.
     dreplicate (unat n) d))))"

definition wire_vector :: "('a \<Rightarrow> bytes) \<Rightarrow> 'a list \<Rightarrow> bytes" where
  "wire_vector g xs = le_bytes 4 (of_nat (length xs) :: u32) @ concat (map g xs)"

definition w_when :: "bool \<Rightarrow> (writer \<Rightarrow> writer) \<Rightarrow> writer \<Rightarrow> writer" where
  "w_when present f = (if present then f else wseq [])"

definition r_when :: "bool \<Rightarrow> 'a decoder \<Rightarrow> 'a \<Rightarrow> 'a decoder" where
  "r_when present d absent = (if present then d else dret absent)"

definition wire_when :: "bool \<Rightarrow> bytes \<Rightarrow> bytes" where
  "wire_when present b = (if present then b else [])"

text \<open>The mismatch is written as sixteen bits and validated and cast through its low eight.\<close>

definition encode_mismatch :: "gen_mismatch \<Rightarrow> writer \<Rightarrow> writer" where
  "encode_mismatch m = w_u16 (ucast (gen_mismatch_code m))"

definition decode_mismatch :: "gen_mismatch decoder" where
  "decode_mismatch = dbind r_u16 (\<lambda>raw.
     dbind (dguard (is_valid_gen_mismatch (ucast raw)) O_Invalid) (\<lambda>_.
     dret (gen_mismatch_of_code (ucast raw))))"

definition wire_mismatch :: "gen_mismatch \<Rightarrow> bytes" where
  "wire_mismatch m = le_bytes 2 (ucast (gen_mismatch_code m) :: u16)"

subsection \<open>Codecs\<close>

definition encode_intent :: "fence_intent \<Rightarrow> writer \<Rightarrow> writer" where
  "encode_intent v =
     wseq [w_u64 (fi_id v), w_u64 (fi_decision v), encode_scope (fi_scope v),
       encode_generation_vector (fi_gens v), w_u64 (fi_boot v), w_u64 (fi_incarnation v),
       w_u64 (fi_policy v), w_u8 (provenance_code (fi_provenance v)),
       w_u16 (reason_code_code (fi_reason v)), w_i64 (fi_issued_at v), w_i64 (fi_expires_at v)]"

definition decode_intent :: "fence_intent decoder" where
  "decode_intent =
     dbind r_u64 (\<lambda>ident. dbind r_u64 (\<lambda>decision.
     dbind decode_scope (\<lambda>scope. dbind decode_generation_vector (\<lambda>gens.
     dbind r_u64 (\<lambda>boot. dbind r_u64 (\<lambda>incarnation.
     dbind r_u64 (\<lambda>policy.
     dbind (r_enum8 is_valid_provenance provenance_of_code) (\<lambda>provenance.
     dbind (decode_enum is_valid_reason_code reason_code_of_code) (\<lambda>reason.
     dbind r_i64 (\<lambda>issued_at. dbind r_i64 (\<lambda>expires_at.
     let out = \<lparr>fi_id = ident, fi_decision = decision, fi_scope = scope, fi_gens = gens,
       fi_boot = boot, fi_incarnation = incarnation, fi_policy = policy,
       fi_provenance = provenance, fi_reason = reason, fi_issued_at = issued_at,
       fi_expires_at = expires_at\<rparr> in
     dbind (dguard (fi_is_valid out) O_Invalid) (\<lambda>_. dret out))))))))))))"

definition encode_authority :: "authority_vector \<Rightarrow> writer \<Rightarrow> writer" where
  "encode_authority v =
     wseq [w_u8 (authority_stage_code (av_stage v)), w_u64 (av_decision v), w_u64 (av_fence v),
       encode_generation_vector (av_gens v), w_u64 (av_boot v), w_u64 (av_incarnation v),
       w_u64 (av_policy v), w_i64 (av_issued_at v), w_i64 (av_expires_at v),
       w_boolean (av_revoked v), w_u16 (reason_code_code (av_revoke_reason v)),
       w_u8 (provenance_code (av_provenance v))]"

definition decode_authority :: "authority_vector decoder" where
  "decode_authority =
     dbind (r_enum8 is_valid_authority_stage authority_stage_of_code) (\<lambda>stage.
     dbind r_u64 (\<lambda>decision. dbind r_u64 (\<lambda>fence.
     dbind decode_generation_vector (\<lambda>gens. dbind r_u64 (\<lambda>boot.
     dbind r_u64 (\<lambda>incarnation. dbind r_u64 (\<lambda>policy.
     dbind r_i64 (\<lambda>issued_at. dbind r_i64 (\<lambda>expires_at.
     dbind r_boolean (\<lambda>revoked.
     dbind (decode_enum is_valid_reason_code reason_code_of_code) (\<lambda>revoke_reason.
     dbind (r_enum8 is_valid_provenance provenance_of_code) (\<lambda>provenance.
     dret \<lparr>av_stage = stage, av_decision = decision, av_fence = fence, av_gens = gens,
       av_boot = boot, av_incarnation = incarnation, av_policy = policy,
       av_issued_at = issued_at, av_expires_at = expires_at, av_revoked = revoked,
       av_revoke_reason = revoke_reason, av_provenance = provenance\<rparr>))))))))))))"

definition encode_census :: "census \<Rightarrow> writer \<Rightarrow> writer" where
  "encode_census v =
     wseq [w_u32 (ce_total v), w_u32 (ce_fresh_current v), w_u32 (ce_stale v),
       w_u32 (ce_generation_mismatch v), w_u32 (ce_quality_rejected v), w_u32 (ce_invalid v),
       w_u32 (ce_complete_failures v), w_u32 (ce_clean_successes v),
       w_u32 (ce_congestion_signals v), w_u32 (ce_partition_signals v),
       w_u32 (ce_withdrawals v), w_u32 (ce_failure_sources v),
       w_u32 (ce_failure_incarnations v), w_u32 (ce_success_sources v),
       w_u32 (ce_success_incarnations v), w_u64 (ce_failure_attempts v),
       w_u64 (ce_failure_losses v), w_u64 (ce_success_attempts v), w_u32 (ce_min_loss_ppm v),
       w_u32 (ce_max_loss_ppm v), encode_mismatch (ce_mismatch v)]"

definition decode_census :: "census decoder" where
  "decode_census =
     dbind r_u32 (\<lambda>total. dbind r_u32 (\<lambda>fresh_current.
     dbind r_u32 (\<lambda>stale. dbind r_u32 (\<lambda>generation_mismatch.
     dbind r_u32 (\<lambda>quality_rejected. dbind r_u32 (\<lambda>invalid.
     dbind r_u32 (\<lambda>complete_failures. dbind r_u32 (\<lambda>clean_successes.
     dbind r_u32 (\<lambda>congestion_signals. dbind r_u32 (\<lambda>partition_signals.
     dbind r_u32 (\<lambda>withdrawals. dbind r_u32 (\<lambda>failure_sources.
     dbind r_u32 (\<lambda>failure_incarnations. dbind r_u32 (\<lambda>success_sources.
     dbind r_u32 (\<lambda>success_incarnations. dbind r_u64 (\<lambda>failure_attempts.
     dbind r_u64 (\<lambda>failure_losses. dbind r_u64 (\<lambda>success_attempts.
     dbind r_u32 (\<lambda>min_loss_ppm. dbind r_u32 (\<lambda>max_loss_ppm.
     dbind decode_mismatch (\<lambda>mismatch.
     dret \<lparr>ce_total = total, ce_fresh_current = fresh_current, ce_stale = stale,
       ce_generation_mismatch = generation_mismatch, ce_quality_rejected = quality_rejected,
       ce_invalid = invalid, ce_complete_failures = complete_failures,
       ce_clean_successes = clean_successes, ce_congestion_signals = congestion_signals,
       ce_partition_signals = partition_signals, ce_withdrawals = withdrawals,
       ce_failure_sources = failure_sources, ce_failure_incarnations = failure_incarnations,
       ce_success_sources = success_sources, ce_success_incarnations = success_incarnations,
       ce_failure_attempts = failure_attempts, ce_failure_losses = failure_losses,
       ce_success_attempts = success_attempts, ce_min_loss_ppm = min_loss_ppm,
       ce_max_loss_ppm = max_loss_ppm, ce_mismatch = mismatch\<rparr>)))))))))))))))))))))"

definition encode_localization :: "localization_result \<Rightarrow> writer \<Rightarrow> writer" where
  "encode_localization v =
     wseq [w_u8 (localization_status_code (lr_status v)), w_vector w_u32 (lr_elements v),
       w_u32 (lr_optimal_size v), w_boolean (lr_optimality_proven v),
       w_boolean (lr_uniqueness_proven v), w_boolean (lr_solutions_truncated v),
       w_u32 (lr_solutions_found v), w_u64 (lr_search_nodes v),
       w_u32 (lr_infeasible_witness v), w_boolean (lr_has_infeasible_witness v),
       w_u16 (reason_code_code (lr_reason v))]"

definition decode_localization :: "localization_result decoder" where
  "decode_localization =
     dbind (r_enum8 is_valid_localization_status localization_status_of_code) (\<lambda>status.
     dbind (r_vector 64 4 r_u32) (\<lambda>elements. dbind r_u32 (\<lambda>optimal_size.
     dbind r_boolean (\<lambda>optimality_proven. dbind r_boolean (\<lambda>uniqueness_proven.
     dbind r_boolean (\<lambda>solutions_truncated. dbind r_u32 (\<lambda>solutions_found.
     dbind r_u64 (\<lambda>search_nodes. dbind r_u32 (\<lambda>infeasible_witness.
     dbind r_boolean (\<lambda>has_infeasible_witness.
     dbind (decode_enum is_valid_reason_code reason_code_of_code) (\<lambda>reason.
     dret \<lparr>lr_status = status, lr_elements = elements, lr_optimal_size = optimal_size,
       lr_optimality_proven = optimality_proven, lr_uniqueness_proven = uniqueness_proven,
       lr_solutions_truncated = solutions_truncated, lr_solutions_found = solutions_found,
       lr_search_nodes = search_nodes, lr_infeasible_witness = infeasible_witness,
       lr_has_infeasible_witness = has_infeasible_witness, lr_reason = reason\<rparr>)))))))))))"

record decision =
  d_id :: u64
  d_kind :: decision_kind
  d_outcome :: outcome
  d_scope :: scope
  d_gens :: generation_vector
  d_classification :: classification
  d_primary_reason :: reason_code
  d_reasons :: "reason_code list"
  d_authority :: authority_vector
  d_census :: census
  d_corroborated :: bool
  d_corroboration_reason :: reason_code
  d_has_localization :: bool
  d_localization :: localization_result
  d_has_intent :: bool
  d_intent :: fence_intent
  d_provenance :: provenance
  d_policy :: u64
  d_boot :: u64
  d_incarnation :: u64
  d_decided_at :: i64


definition d_is_valid :: "decision \<Rightarrow> bool" where
  "d_is_valid d \<longleftrightarrow>
     d_id d \<noteq> 0 \<and> is_valid_decision_kind (decision_kind_code (d_kind d)) \<and>
     sc_is_valid (d_scope d) \<and> gv_is_complete (d_gens d) \<and>
     is_valid_classification (classification_code (d_classification d)) \<and>
     is_valid_reason_code (reason_code_code (d_primary_reason d)) \<and>
     \<not> (d_has_intent d \<and> \<not> fi_is_valid (d_intent d)) \<and>
     \<not> (d_has_intent d \<and> fi_scope (d_intent d) \<noteq> d_scope d) \<and>
     \<not> (d_has_intent d \<and> fi_gens (d_intent d) \<noteq> d_gens d) \<and>
     \<not> (d_has_localization d \<and>
        \<not> is_valid_localization_status (localization_status_code (lr_status (d_localization d))))"

definition encode_decision :: "decision \<Rightarrow> writer \<Rightarrow> writer" where
  "encode_decision v =
     wseq [w_u64 (d_id v), w_u16 (decision_kind_code (d_kind v)),
       w_u8 (outcome_code (d_outcome v)), encode_scope (d_scope v),
       encode_generation_vector (d_gens v), w_u16 (classification_code (d_classification v)),
       w_u16 (reason_code_code (d_primary_reason v)),
       w_vector (\<lambda>c. w_u16 (reason_code_code c)) (d_reasons v),
       encode_authority (d_authority v), encode_census (d_census v),
       w_boolean (d_corroborated v), w_u16 (reason_code_code (d_corroboration_reason v)),
       w_boolean (d_has_localization v),
       w_when (d_has_localization v) (encode_localization (d_localization v)),
       w_boolean (d_has_intent v), w_when (d_has_intent v) (encode_intent (d_intent v)),
       w_u8 (provenance_code (d_provenance v)), w_u64 (d_policy v), w_u64 (d_boot v),
       w_u64 (d_incarnation v), w_i64 (d_decided_at v)]"

definition decode_decision :: "decision decoder" where
  "decode_decision =
     dbind r_u64 (\<lambda>ident.
     dbind (decode_enum is_valid_decision_kind decision_kind_of_code) (\<lambda>kind.
     dbind (r_enum8 is_valid_outcome outcome_of_code) (\<lambda>outcome.
     dbind decode_scope (\<lambda>scope. dbind decode_generation_vector (\<lambda>gens.
     dbind (decode_enum is_valid_classification classification_of_code) (\<lambda>classification.
     dbind (decode_enum is_valid_reason_code reason_code_of_code) (\<lambda>primary_reason.
     dbind (r_vector 256 2 (decode_enum is_valid_reason_code reason_code_of_code)) (\<lambda>reasons.
     dbind decode_authority (\<lambda>authority. dbind decode_census (\<lambda>census.
     dbind r_boolean (\<lambda>corroborated.
     dbind (decode_enum is_valid_reason_code reason_code_of_code) (\<lambda>corroboration_reason.
     dbind r_boolean (\<lambda>has_localization.
     dbind (r_when has_localization decode_localization result_new) (\<lambda>localization.
     dbind r_boolean (\<lambda>has_intent.
     dbind (r_when has_intent decode_intent intent_nil) (\<lambda>intent.
     dbind (r_enum8 is_valid_provenance provenance_of_code) (\<lambda>provenance.
     dbind r_u64 (\<lambda>policy. dbind r_u64 (\<lambda>boot.
     dbind r_u64 (\<lambda>incarnation. dbind r_i64 (\<lambda>decided_at.
     let out = \<lparr>d_id = ident, d_kind = kind, d_outcome = outcome, d_scope = scope, d_gens = gens,
       d_classification = classification, d_primary_reason = primary_reason,
       d_reasons = reasons, d_authority = authority, d_census = census,
       d_corroborated = corroborated, d_corroboration_reason = corroboration_reason,
       d_has_localization = has_localization, d_localization = localization,
       d_has_intent = has_intent, d_intent = intent, d_provenance = provenance,
       d_policy = policy, d_boot = boot, d_incarnation = incarnation, d_decided_at = decided_at\<rparr> in
     dbind (dguard (d_is_valid out) O_Invalid) (\<lambda>_. dret out))))))))))))))))))))))"


definition derive_decision_id :: "decision \<Rightarrow> u64" where
  "derive_decision_id d =
     (let copy = d\<lparr>d_id := 0, d_authority := (d_authority d)\<lparr>av_decision := 0, av_fence := 0\<rparr>\<rparr>;
          w = encode_decision copy (writer_new kDefaultMaxDocumentBytes)
      in if \<not> wok w then 0 else fnv1a64 (wbuf w))"

subsection \<open>Wire layout\<close>

definition wire_intent :: "fence_intent \<Rightarrow> bytes" where
  "wire_intent v = concat
    [le_bytes 8 (fi_id v), le_bytes 8 (fi_decision v), wire_scope (fi_scope v),
     wire_generation_vector (fi_gens v), le_bytes 8 (fi_boot v), le_bytes 8 (fi_incarnation v),
     le_bytes 8 (fi_policy v), [provenance_code (fi_provenance v)],
     le_bytes 2 (reason_code_code (fi_reason v)), le_bytes 8 (fi_issued_at v),
     le_bytes 8 (fi_expires_at v)]"

definition wire_authority :: "authority_vector \<Rightarrow> bytes" where
  "wire_authority v = concat
    [[authority_stage_code (av_stage v)], le_bytes 8 (av_decision v), le_bytes 8 (av_fence v),
     wire_generation_vector (av_gens v), le_bytes 8 (av_boot v), le_bytes 8 (av_incarnation v),
     le_bytes 8 (av_policy v), le_bytes 8 (av_issued_at v), le_bytes 8 (av_expires_at v),
     [if av_revoked v then 1 else 0], le_bytes 2 (reason_code_code (av_revoke_reason v)),
     [provenance_code (av_provenance v)]]"

definition wire_census :: "census \<Rightarrow> bytes" where
  "wire_census v = concat
    [le_bytes 4 (ce_total v), le_bytes 4 (ce_fresh_current v), le_bytes 4 (ce_stale v),
     le_bytes 4 (ce_generation_mismatch v), le_bytes 4 (ce_quality_rejected v),
     le_bytes 4 (ce_invalid v), le_bytes 4 (ce_complete_failures v),
     le_bytes 4 (ce_clean_successes v), le_bytes 4 (ce_congestion_signals v),
     le_bytes 4 (ce_partition_signals v), le_bytes 4 (ce_withdrawals v),
     le_bytes 4 (ce_failure_sources v), le_bytes 4 (ce_failure_incarnations v),
     le_bytes 4 (ce_success_sources v), le_bytes 4 (ce_success_incarnations v),
     le_bytes 8 (ce_failure_attempts v), le_bytes 8 (ce_failure_losses v),
     le_bytes 8 (ce_success_attempts v), le_bytes 4 (ce_min_loss_ppm v),
     le_bytes 4 (ce_max_loss_ppm v), wire_mismatch (ce_mismatch v)]"

definition wire_localization :: "localization_result \<Rightarrow> bytes" where
  "wire_localization v = concat
    [[localization_status_code (lr_status v)], wire_vector (le_bytes 4) (lr_elements v),
     le_bytes 4 (lr_optimal_size v), [if lr_optimality_proven v then 1 else 0],
     [if lr_uniqueness_proven v then 1 else 0], [if lr_solutions_truncated v then 1 else 0],
     le_bytes 4 (lr_solutions_found v), le_bytes 8 (lr_search_nodes v),
     le_bytes 4 (lr_infeasible_witness v), [if lr_has_infeasible_witness v then 1 else 0],
     le_bytes 2 (reason_code_code (lr_reason v))]"

definition wire_decision :: "decision \<Rightarrow> bytes" where
  "wire_decision v = concat
    [le_bytes 8 (d_id v), le_bytes 2 (decision_kind_code (d_kind v)),
     [outcome_code (d_outcome v)], wire_scope (d_scope v), wire_generation_vector (d_gens v),
     le_bytes 2 (classification_code (d_classification v)),
     le_bytes 2 (reason_code_code (d_primary_reason v)),
     wire_vector (\<lambda>c. le_bytes 2 (reason_code_code c)) (d_reasons v),
     wire_authority (d_authority v), wire_census (d_census v),
     [if d_corroborated v then 1 else 0],
     le_bytes 2 (reason_code_code (d_corroboration_reason v)),
     [if d_has_localization v then 1 else 0],
     wire_when (d_has_localization v) (wire_localization (d_localization v)),
     [if d_has_intent v then 1 else 0], wire_when (d_has_intent v) (wire_intent (d_intent v)),
     [provenance_code (d_provenance v)], le_bytes 8 (d_policy v), le_bytes 8 (d_boot v),
     le_bytes 8 (d_incarnation v), le_bytes 8 (d_decided_at v)]"

subsection \<open>Round trips\<close>

lemma rt_vector_counted:
  assumes "\<And>x. x \<in> set xs \<Longrightarrow> rt (f x) d x (g x)" "\<And>x. x \<in> set xs \<Longrightarrow> width \<le> length (g x)"
    "length xs \<le> unat limit"
  shows "rt (w_vector f xs) (r_vector limit width d) xs (wire_vector g xs)"
proof -
  have n: "unat (of_nat (length xs) :: u32) = length xs" "\<not> of_nat (length xs) > limit"
    using assms(3) le_less_trans [OF assms(3) unsigned_less [of limit]]
    by (simp_all add: unat_of_nat word_less_nat_alt)
  have len: "length xs * width \<le> length (concat (map g xs))"
    using assms(2) by (induction xs) (auto simp: add_mono)
  have "rt (wseq [w_u32 (of_nat (length xs)), wfor xs f]) (r_vector limit width d) xs
      (le_bytes 4 (of_nat (length xs) :: u32) @ concat (map g xs))"
    unfolding r_vector_def
    by (rule rt_bind [OF rt_u32], rule rt_guard [OF n(2)], rule rt_remaining, rule rt_guard)
      (use len n in \<open>auto intro!: rt_last rt_vector assms(1)\<close>)
  then show ?thesis by (simp add: w_vector_def wire_vector_def)
qed

lemma rt_when [codec_intros]:
  assumes "p = q" "p \<Longrightarrow> rt f d x b" "\<not> p \<Longrightarrow> x = absent"
  shows "rt (w_when p f) (r_when q d absent) x (wire_when p b)"
  using assms by (auto simp: w_when_def r_when_def wire_when_def intro: rt_ret)

lemma rt_mismatch [codec_intros]: "rt (encode_mismatch m) decode_mismatch m (wire_mismatch m)"
proof -
  have u: "ucast (ucast (gen_mismatch_code m) :: u16) = gen_mismatch_code m" by (cases m) simp_all
  have p: "parses r_u16 (le_bytes 2 (ucast (gen_mismatch_code m) :: u16)) (ucast (gen_mismatch_code m))"
    by (simp add: r_u16_def parses_le)
  have "parses decode_mismatch (le_bytes 2 (ucast (gen_mismatch_code m) :: u16) @ []) m"
    unfolding decode_mismatch_def
    by (rule parses_dbind [OF p], rule parses_bind_guard) (simp_all add: u parses_dret)
  then show ?thesis by (simp add: rt_def encode_mismatch_def wire_mismatch_def w_u16_def emits_le)
qed

lemmas decision_enums = domain_enums authority_stage_enum.wire_enum_axioms
  localization_status_enum.wire_enum_axioms decision_kind_enum.wire_enum_axioms

lemma rt_elements [codec_intros]: "length xs \<le> 64 \<Longrightarrow>
    rt (w_vector w_u32 xs) (r_vector 64 4 r_u32) xs (wire_vector (le_bytes 4) xs)"
  by (rule rt_vector_counted) (auto intro: rt_u32)

lemma rt_reasons [codec_intros]: "length cs \<le> 256 \<Longrightarrow>
    rt (w_vector (\<lambda>c. w_u16 (reason_code_code c)) cs)
      (r_vector 256 2 (decode_enum is_valid_reason_code reason_code_of_code)) cs
      (wire_vector (\<lambda>c. le_bytes 2 (reason_code_code c)) cs)"
  by (rule rt_vector_counted) (auto intro!: rt_enum16 domain_enums)

lemma intent_eta:
  "\<lparr>fi_id = fi_id v, fi_decision = fi_decision v, fi_scope = fi_scope v,
    fi_gens = fi_gens v, fi_boot = fi_boot v, fi_incarnation = fi_incarnation v,
    fi_policy = fi_policy v, fi_provenance = fi_provenance v, fi_reason = fi_reason v,
    fi_issued_at = fi_issued_at v, fi_expires_at = fi_expires_at v\<rparr> = v"
  by simp

lemma rt_intent [codec_intros]:
  "fi_is_valid v \<Longrightarrow> rt (encode_intent v) decode_intent v (wire_intent v)"
  unfolding encode_intent_def decode_intent_def wire_intent_def Let_def
  by (rule rt_eq) ((rule codec_intros decision_enums | simp add: intent_eta)+)

lemma authority_eta:
  "\<lparr>av_stage = av_stage v, av_decision = av_decision v, av_fence = av_fence v,
    av_gens = av_gens v, av_boot = av_boot v, av_incarnation = av_incarnation v,
    av_policy = av_policy v, av_issued_at = av_issued_at v, av_expires_at = av_expires_at v,
    av_revoked = av_revoked v, av_revoke_reason = av_revoke_reason v,
    av_provenance = av_provenance v\<rparr> = v"
  by simp

lemma rt_authority [codec_intros]:
  "rt (encode_authority v) decode_authority v (wire_authority v)"
  unfolding encode_authority_def decode_authority_def wire_authority_def Let_def
  by (rule rt_eq) ((rule codec_intros decision_enums | simp add: authority_eta)+)

lemma census_eta:
  "\<lparr>ce_total = ce_total v, ce_fresh_current = ce_fresh_current v, ce_stale = ce_stale v,
    ce_generation_mismatch = ce_generation_mismatch v,
    ce_quality_rejected = ce_quality_rejected v, ce_invalid = ce_invalid v,
    ce_complete_failures = ce_complete_failures v, ce_clean_successes = ce_clean_successes v,
    ce_congestion_signals = ce_congestion_signals v,
    ce_partition_signals = ce_partition_signals v, ce_withdrawals = ce_withdrawals v,
    ce_failure_sources = ce_failure_sources v,
    ce_failure_incarnations = ce_failure_incarnations v,
    ce_success_sources = ce_success_sources v,
    ce_success_incarnations = ce_success_incarnations v,
    ce_failure_attempts = ce_failure_attempts v, ce_failure_losses = ce_failure_losses v,
    ce_success_attempts = ce_success_attempts v, ce_min_loss_ppm = ce_min_loss_ppm v,
    ce_max_loss_ppm = ce_max_loss_ppm v, ce_mismatch = ce_mismatch v\<rparr> = v"
  by simp

lemma rt_census [codec_intros]:
  "rt (encode_census v) decode_census v (wire_census v)"
  unfolding encode_census_def decode_census_def wire_census_def Let_def
  by (rule rt_eq) ((rule codec_intros decision_enums | simp add: census_eta)+)

lemma localization_eta:
  "\<lparr>lr_status = lr_status v, lr_elements = lr_elements v,
    lr_optimal_size = lr_optimal_size v, lr_optimality_proven = lr_optimality_proven v,
    lr_uniqueness_proven = lr_uniqueness_proven v,
    lr_solutions_truncated = lr_solutions_truncated v,
    lr_solutions_found = lr_solutions_found v, lr_search_nodes = lr_search_nodes v,
    lr_infeasible_witness = lr_infeasible_witness v,
    lr_has_infeasible_witness = lr_has_infeasible_witness v, lr_reason = lr_reason v\<rparr> = v"
  by simp

lemma rt_localization [codec_intros]:
  "length (lr_elements v) \<le> 64 \<Longrightarrow> rt (encode_localization v) decode_localization v (wire_localization v)"
  unfolding encode_localization_def decode_localization_def wire_localization_def Let_def
  by (rule rt_eq) ((rule codec_intros decision_enums | simp add: localization_eta)+)

text \<open>What the decoder can rebuild: a valid decision within the vector limits, whose absent parts
  hold their initial values.\<close>

definition d_admissible :: "decision \<Rightarrow> bool" where
  "d_admissible d \<longleftrightarrow> d_is_valid d \<and> length (d_reasons d) \<le> 256 \<and>
     (if d_has_localization d then length (lr_elements (d_localization d)) \<le> 64
      else d_localization d = result_new) \<and>
     (\<not> d_has_intent d \<longrightarrow> d_intent d = intent_nil)"

lemma d_admissible_parts:
  assumes "d_admissible d"
  shows "d_is_valid d" "length (d_reasons d) \<le> 256"
    "d_has_localization d \<Longrightarrow> length (lr_elements (d_localization d)) \<le> 64"
    "\<not> d_has_localization d \<Longrightarrow> d_localization d = result_new"
    "d_has_intent d \<Longrightarrow> fi_is_valid (d_intent d)" "\<not> d_has_intent d \<Longrightarrow> d_intent d = intent_nil"
  using assms by (auto simp: d_admissible_def d_is_valid_def)

lemma decision_eta:
  "\<lparr>d_id = d_id v, d_kind = d_kind v, d_outcome = d_outcome v, d_scope = d_scope v,
    d_gens = d_gens v, d_classification = d_classification v,
    d_primary_reason = d_primary_reason v, d_reasons = d_reasons v,
    d_authority = d_authority v, d_census = d_census v, d_corroborated = d_corroborated v,
    d_corroboration_reason = d_corroboration_reason v,
    d_has_localization = d_has_localization v, d_localization = d_localization v,
    d_has_intent = d_has_intent v, d_intent = d_intent v, d_provenance = d_provenance v,
    d_policy = d_policy v, d_boot = d_boot v, d_incarnation = d_incarnation v,
    d_decided_at = d_decided_at v\<rparr> = v"
  by simp

lemma rt_decision [codec_intros]:
  "d_admissible v \<Longrightarrow> rt (encode_decision v) decode_decision v (wire_decision v)"
  unfolding encode_decision_def decode_decision_def wire_decision_def Let_def
  by (rule rt_eq) ((rule codec_intros decision_enums | simp add: decision_eta d_admissible_parts)+)

lemma dsafe_r_vector [decoder_safe]: "dsafe d \<Longrightarrow> dsafe (r_vector limit width d)"
  unfolding r_vector_def by (intro decoder_safe; simp)

lemma dsafe_r_when [decoder_safe]: "dsafe d \<Longrightarrow> dsafe (r_when p d x)"
  by (simp add: r_when_def dsafe_dret)

lemma dsafe_mismatch [decoder_safe]: "dsafe decode_mismatch"
  unfolding decode_mismatch_def by (intro decoder_safe; simp)

lemma dsafe_intent [decoder_safe]: "dsafe decode_intent"
  unfolding decode_intent_def Let_def by (intro decoder_safe; simp)

lemma dsafe_authority [decoder_safe]: "dsafe decode_authority"
  unfolding decode_authority_def Let_def by (intro decoder_safe; simp)

lemma dsafe_census [decoder_safe]: "dsafe decode_census"
  unfolding decode_census_def Let_def by (intro decoder_safe; simp)

lemma dsafe_localization [decoder_safe]: "dsafe decode_localization"
  unfolding decode_localization_def Let_def by (intro decoder_safe; simp)

lemma dsafe_decision [decoder_safe]: "dsafe decode_decision"
  unfolding decode_decision_def Let_def by (intro decoder_safe; simp)

interpretation intent_codec: codec encode_intent decode_intent fi_is_valid
  by unfold_locales (use rt_intent in blast, rule decoder_safe)

interpretation decision_codec: codec encode_decision decode_decision d_admissible
  by unfold_locales (use rt_decision in blast, rule decoder_safe)

lemma length_wire_vector: "(\<And>x. length (g x) = k) \<Longrightarrow> length (wire_vector g xs) = 4 + length xs * k"
  by (induction xs) (auto simp: wire_vector_def)

lemma length_wire_parts:
  "length (wire_intent f) = 125" "length (wire_authority a) = 93" "length (wire_census c) = 94"
  "length (wire_localization l) = 31 + length (lr_elements l) * 4"
  by (simp_all add: wire_intent_def wire_authority_def wire_census_def wire_mismatch_def
      wire_localization_def length_wire_vector)

lemma length_wire_decision:
  assumes "d_admissible d"
  shows "length (wire_decision d) \<le> 2 ^ 20"
proof -
  have "length (wire_when (d_has_localization d) (wire_localization (d_localization d))) \<le> 287"
    using d_admissible_parts(3) [OF assms] by (simp add: wire_when_def length_wire_parts)
  moreover have "length (wire_when (d_has_intent d) (wire_intent (d_intent d))) \<le> 125"
    by (simp add: wire_when_def length_wire_parts)
  moreover have "length (wire_vector (\<lambda>c. le_bytes 2 (reason_code_code c)) (d_reasons d)) \<le> 516"
    using d_admissible_parts(2) [OF assms] by (simp add: length_wire_vector)
  ultimately show ?thesis by (simp add: wire_decision_def length_wire_parts)
qed

lemma encode_decision_fits:
  assumes "d_admissible d"
  shows "wok (encode_decision d (writer_new kDefaultMaxDocumentBytes))"
    and "wbuf (encode_decision d (writer_new kDefaultMaxDocumentBytes)) = wire_decision d"
proof -
  have e: "emits (encode_decision d) (wire_decision d)" using rt_decision [OF assms] by (simp add: rt_def)
  have l: "length (wire_decision d) \<le> kDefaultMaxDocumentBytes"
    using length_wire_decision [OF assms] by (simp add: kDefaultMaxDocumentBytes_def)
  have m: "kDefaultMaxDocumentBytes < 2 ^ 64" by (simp add: kDefaultMaxDocumentBytes_def)
  show "wok (encode_decision d (writer_new kDefaultMaxDocumentBytes))" using emits_fresh(1) [OF e m] l by simp
  show "wbuf (encode_decision d (writer_new kDefaultMaxDocumentBytes)) = wire_decision d"
    using emits_fresh(2) [OF e m l] .
qed

definition sample_decision :: decision where
  "sample_decision = \<lparr>d_id = 9, d_kind = D_Diagnosis, d_outcome = O_Ok, d_scope = sample_scope,
     d_gens = sample_gens, d_classification = C_Blackhole, d_primary_reason = R_CorroborationSatisfied,
     d_reasons = [R_CorroborationSatisfied],
     d_authority = \<lparr>av_stage = S_Authorization, av_decision = 9, av_fence = 0, av_gens = sample_gens,
       av_boot = 1, av_incarnation = 1, av_policy = 1, av_issued_at = 1, av_expires_at = 0,
       av_revoked = False, av_revoke_reason = R_None, av_provenance = P_Synthetic\<rparr>,
     d_census = census_new, d_corroborated = True, d_corroboration_reason = R_CorroborationSatisfied,
     d_has_localization = False, d_localization = result_new, d_has_intent = False,
     d_intent = intent_nil, d_provenance = P_Synthetic, d_policy = 1, d_boot = 1, d_incarnation = 1,
     d_decided_at = 1\<rparr>"

lemma sample_decision_admissible: "d_admissible sample_decision"
  by (simp add: d_admissible_def d_is_valid_def sample_decision_def sample_scope_def sample_gens_def
      sc_is_valid_def gv_is_complete_def is_valid_decision_kind_def is_valid_classification_def
      is_valid_reason_code_def)

text \<open>
  C31. Every decision that is valid, within the limits of its two vectors and with its absent parts
  at their initial values fits into a document, and decoding the document gives the decision back
  with no byte left over.
\<close>
theorem decision_round_trip:
  assumes "d_admissible d"
  shows "wok (encode_decision d (writer_new kDefaultMaxDocumentBytes))
    \<and> decode_all decode_decision (wbuf (encode_decision d (writer_new kDefaultMaxDocumentBytes))) = Inr d"
  using encode_decision_fits(1) [OF assms]
    decision_codec.decode_document [OF assms _ encode_decision_fits(1) [OF assms]]
  by (simp add: kDefaultMaxDocumentBytes_def)

theorem decision_round_trip_witness:
  "d_admissible sample_decision
   \<and> decode_all decode_decision (wbuf (encode_decision sample_decision (writer_new kDefaultMaxDocumentBytes)))
     = Inr sample_decision"
  using decision_round_trip [OF sample_decision_admissible] sample_decision_admissible by simp

text \<open>
  The encoding of the census mismatch is not canonical: the decoder reads sixteen bits and looks
  at eight, so that 256 different byte pairs decode to the same mismatch.
\<close>
theorem mismatch_not_canonical:
  "decode_all decode_mismatch [gen_mismatch_code m, b] = Inr m"
proof -
  have "ucast (le_value 2 [gen_mismatch_code m, b] :: u16) = gen_mismatch_code m"
    by (rule bit_word_eqI) (auto simp: le_value_def upt_rec numeral_2_eq_2 bit_simps)
  then show ?thesis
    by (simp add: decode_all_def decode_mismatch_def dbind_def r_u16_def r_le_def r_need_def r_remaining_def
        reader_new_def is_affirmative_def dguard_def dret_def r_finish_def)
qed

end
