(* ===== verification/BHG_Frame.thy ===== *)
theory BHG_Frame
  imports BHG_Canonical
begin

text \<open>
  The framed protocol (\<open>frame.hpp\<close>, \<open>frame.cpp\<close>): a twenty-byte header with magic, version, type,
  flags, length and checksum, then the payload; the streaming decoder with its sticky failure.
  The decoder's buffer is the first \<open>buffered_\<close> bytes of the code's vector, whose spare capacity
  is never read.
\<close>

subsection \<open>Frames\<close>

datatype message_type =
    M_HelloRequest | M_HelloResponse | M_SubmitEvidenceRequest | M_SubmitEvidenceResponse
  | M_EvaluateRequest | M_EvaluateResponse | M_LocalizeRequest | M_LocalizeResponse
  | M_AckFenceRequest | M_AckFenceResponse | M_ReportEffectRequest
  | M_ReportEffectResponse | M_RestoreRequest | M_RestoreResponse | M_LineageRequest
  | M_LineageResponse | M_CheckpointRequest | M_CheckpointResponse | M_StatsRequest
  | M_StatsResponse | M_GoodbyeRequest | M_GoodbyeResponse | M_ErrorResponse

primrec message_type_code :: "message_type \<Rightarrow> u16" where
  "message_type_code M_HelloRequest = 1"
| "message_type_code M_HelloResponse = 2"
| "message_type_code M_SubmitEvidenceRequest = 3"
| "message_type_code M_SubmitEvidenceResponse = 4"
| "message_type_code M_EvaluateRequest = 5"
| "message_type_code M_EvaluateResponse = 6"
| "message_type_code M_LocalizeRequest = 7"
| "message_type_code M_LocalizeResponse = 8"
| "message_type_code M_AckFenceRequest = 9"
| "message_type_code M_AckFenceResponse = 10"
| "message_type_code M_ReportEffectRequest = 11"
| "message_type_code M_ReportEffectResponse = 12"
| "message_type_code M_RestoreRequest = 13"
| "message_type_code M_RestoreResponse = 14"
| "message_type_code M_LineageRequest = 15"
| "message_type_code M_LineageResponse = 16"
| "message_type_code M_CheckpointRequest = 17"
| "message_type_code M_CheckpointResponse = 18"
| "message_type_code M_StatsRequest = 19"
| "message_type_code M_StatsResponse = 20"
| "message_type_code M_GoodbyeRequest = 21"
| "message_type_code M_GoodbyeResponse = 22"
| "message_type_code M_ErrorResponse = 23"

definition all_message_type :: "message_type list" where
  "all_message_type =
    [M_HelloRequest, M_HelloResponse, M_SubmitEvidenceRequest, M_SubmitEvidenceResponse,
     M_EvaluateRequest, M_EvaluateResponse, M_LocalizeRequest, M_LocalizeResponse,
     M_AckFenceRequest, M_AckFenceResponse, M_ReportEffectRequest, M_ReportEffectResponse,
     M_RestoreRequest, M_RestoreResponse, M_LineageRequest, M_LineageResponse,
     M_CheckpointRequest, M_CheckpointResponse, M_StatsRequest, M_StatsResponse,
     M_GoodbyeRequest, M_GoodbyeResponse, M_ErrorResponse]"

definition is_valid_message_type :: "u16 \<Rightarrow> bool" where
  "is_valid_message_type raw \<longleftrightarrow> raw \<ge> 1 \<and> raw \<le> 23"

definition message_type_of_code :: "u16 \<Rightarrow> message_type" where
  "message_type_of_code = enum_cast message_type_code all_message_type"

primrec message_type_to_string :: "message_type \<Rightarrow> string" where
  "message_type_to_string M_HelloRequest = ''HelloRequest''"
| "message_type_to_string M_HelloResponse = ''HelloResponse''"
| "message_type_to_string M_SubmitEvidenceRequest = ''SubmitEvidenceRequest''"
| "message_type_to_string M_SubmitEvidenceResponse = ''SubmitEvidenceResponse''"
| "message_type_to_string M_EvaluateRequest = ''EvaluateRequest''"
| "message_type_to_string M_EvaluateResponse = ''EvaluateResponse''"
| "message_type_to_string M_LocalizeRequest = ''LocalizeRequest''"
| "message_type_to_string M_LocalizeResponse = ''LocalizeResponse''"
| "message_type_to_string M_AckFenceRequest = ''AckFenceRequest''"
| "message_type_to_string M_AckFenceResponse = ''AckFenceResponse''"
| "message_type_to_string M_ReportEffectRequest = ''ReportEffectRequest''"
| "message_type_to_string M_ReportEffectResponse = ''ReportEffectResponse''"
| "message_type_to_string M_RestoreRequest = ''RestoreRequest''"
| "message_type_to_string M_RestoreResponse = ''RestoreResponse''"
| "message_type_to_string M_LineageRequest = ''LineageRequest''"
| "message_type_to_string M_LineageResponse = ''LineageResponse''"
| "message_type_to_string M_CheckpointRequest = ''CheckpointRequest''"
| "message_type_to_string M_CheckpointResponse = ''CheckpointResponse''"
| "message_type_to_string M_StatsRequest = ''StatsRequest''"
| "message_type_to_string M_StatsResponse = ''StatsResponse''"
| "message_type_to_string M_GoodbyeRequest = ''GoodbyeRequest''"
| "message_type_to_string M_GoodbyeResponse = ''GoodbyeResponse''"
| "message_type_to_string M_ErrorResponse = ''ErrorResponse''"

interpretation message_type_enum: wire_enum message_type_code is_valid_message_type message_type_of_code
  unfolding message_type_of_code_def
proof (rule wire_enumI)
  show "e \<in> set all_message_type" for e by (cases e) (simp_all add: all_message_type_def)
  show "distinct (map message_type_code all_message_type)" by (simp add: all_message_type_def)
  show "is_valid_message_type raw \<longleftrightarrow> raw \<in> set (map message_type_code all_message_type)" for raw
    using word_range_set [of 23 1 raw]
    by (simp add: is_valid_message_type_def all_message_type_def upt_rec)
qed

definition kFrameMagic :: u32 where "kFrameMagic = 0x31474842"
definition kFrameHeaderSize :: nat where "kFrameHeaderSize = 20"
definition kProtocolVersion :: u16 where "kProtocolVersion = 1"

record frame =
  fr_type :: message_type
  fr_flags :: u32
  fr_payload :: bytes

definition get_u16 :: "bytes \<Rightarrow> nat \<Rightarrow> u16" where
  "get_u16 h off = le_value 2 (drop off h)"

definition get_u32 :: "bytes \<Rightarrow> nat \<Rightarrow> u32" where
  "get_u32 h off = le_value 4 (drop off h)"

definition frame_integrity :: "bytes \<Rightarrow> bytes \<Rightarrow> u32" where
  "frame_integrity header16 payload = crc32c payload (crc32c header16 0)"

text \<open>The first sixteen bytes of the header, and the frame.\<close>

definition frame_header :: "frame \<Rightarrow> bytes" where
  "frame_header f = concat
     [le_bytes 4 kFrameMagic, le_bytes 2 kProtocolVersion, le_bytes 2 (message_type_code (fr_type f)),
      le_bytes 4 (fr_flags f), le_bytes 4 (of_nat (length (fr_payload f)) :: u32)]"

definition encode_frame :: "frame \<Rightarrow> writer \<Rightarrow> writer" where
  "encode_frame f =
     wseq [w_raw (frame_header f @ le_bytes 4 (frame_integrity (frame_header f) (fr_payload f))),
       w_raw (fr_payload f)]"

subsection \<open>The streaming decoder\<close>

record frame_decoder =
  fd_max :: u32
  fd_buffer :: bytes
  fd_failure :: outcome

definition frame_decoder_new :: "u32 \<Rightarrow> frame_decoder" where
  "frame_decoder_new max_frame_bytes = \<lparr>fd_max = max_frame_bytes, fd_buffer = [], fd_failure = O_Ok\<rparr>"

definition fd_fail :: "outcome \<Rightarrow> frame_decoder \<Rightarrow> outcome \<times> frame_decoder" where
  "fd_fail oc d =
     (let d = (if fd_failure d = O_Ok then d\<lparr>fd_failure := oc\<rparr> else d) in (fd_failure d, d))"

definition feed :: "bytes \<Rightarrow> frame_decoder \<Rightarrow> outcome \<times> frame_decoder" where
  "feed bs d =
     (if fd_failure d \<noteq> O_Ok then (fd_failure d, d)
      else
        (let total = length (fd_buffer d) + length bs in
         if total \<ge> 2 ^ 64 then fd_fail O_Oversized d
         else if total > unat (fd_max d) + kFrameHeaderSize then fd_fail O_Oversized d
         else (O_Ok, d\<lparr>fd_buffer := fd_buffer d @ bs\<rparr>)))"

definition next_frame :: "frame_decoder \<Rightarrow> (outcome \<times> frame option) \<times> frame_decoder" where
  "next_frame d =
     (let refuse = (\<lambda>oc. let (oc, d) = fd_fail oc d in ((oc, None), d));
          h = fd_buffer d
      in if fd_failure d \<noteq> O_Ok then ((fd_failure d, None), d)
         else if length h < kFrameHeaderSize then ((O_NotFound, None), d)
         else if get_u32 h 0 \<noteq> kFrameMagic then refuse O_Corrupt
         else if get_u16 h 4 \<noteq> kProtocolVersion then refuse O_Unsupported
         else if \<not> is_valid_message_type (get_u16 h 6) then refuse O_Invalid
         else if get_u32 h 8 \<noteq> 0 then refuse O_Invalid
         else if get_u32 h 12 > fd_max d then refuse O_Oversized
         else
           (let total = kFrameHeaderSize + unat (get_u32 h 12) in
            if length h < total then ((O_NotFound, None), d)
            else if frame_integrity (take 16 h) (take (unat (get_u32 h 12)) (drop kFrameHeaderSize h))
                \<noteq> get_u32 h 16 then refuse O_Corrupt
            else
              ((O_Ok, Some \<lparr>fr_type = message_type_of_code (get_u16 h 6), fr_flags = get_u32 h 8,
                  fr_payload = take (unat (get_u32 h 12)) (drop kFrameHeaderSize h)\<rparr>),
               d\<lparr>fd_buffer := drop total h\<rparr>)))"

definition frame_finish :: "frame_decoder \<Rightarrow> outcome \<times> frame_decoder" where
  "frame_finish d =
     (if fd_failure d \<noteq> O_Ok then (fd_failure d, d)
      else if fd_buffer d \<noteq> [] then fd_fail O_Malformed d
      else (O_Ok, d))"

subsection \<open>Header fields\<close>

definition wire_frame :: "frame \<Rightarrow> bytes" where
  "wire_frame f = frame_header f @ le_bytes 4 (frame_integrity (frame_header f) (fr_payload f)) @ fr_payload f"

definition frame_ok :: "u32 \<Rightarrow> frame \<Rightarrow> bool" where
  "frame_ok limit f \<longleftrightarrow> fr_flags f = 0 \<and> length (fr_payload f) \<le> unat limit"

lemma length_frame_header [simp]: "length (frame_header f) = 16"
  by (simp add: frame_header_def)

lemma get_u16_at: "h = pre @ le_bytes 2 v @ post \<Longrightarrow> off = length pre \<Longrightarrow> get_u16 h off = v"
  by (simp add: get_u16_def le_value_le_bytes)

lemma get_u32_at: "h = pre @ le_bytes 4 v @ post \<Longrightarrow> off = length pre \<Longrightarrow> get_u32 h off = v"
  by (simp add: get_u32_def le_value_le_bytes)

lemma frame_fields:
  assumes "h = frame_header f @ le_bytes 4 c @ rest"
  shows "get_u32 h 0 = kFrameMagic" "get_u16 h 4 = kProtocolVersion"
    "get_u16 h 6 = message_type_code (fr_type f)" "get_u32 h 8 = fr_flags f"
    "get_u32 h 12 = of_nat (length (fr_payload f))" "get_u32 h 16 = c"
    "take 16 h = frame_header f" "drop kFrameHeaderSize h = rest"
  unfolding assms
  by (auto simp: frame_header_def kFrameHeaderSize_def
      intro: get_u32_at [where pre = "[]"]
        get_u16_at [where pre = "le_bytes 4 kFrameMagic"]
        get_u16_at [where pre = "le_bytes 4 kFrameMagic @ le_bytes 2 kProtocolVersion"]
        get_u32_at [where pre = "le_bytes 4 kFrameMagic @ le_bytes 2 kProtocolVersion @ le_bytes 2 (message_type_code (fr_type f))"]
        get_u32_at [where pre = "le_bytes 4 kFrameMagic @ le_bytes 2 kProtocolVersion @ le_bytes 2 (message_type_code (fr_type f)) @ le_bytes 4 (fr_flags f)"]
        get_u32_at [where pre = "frame_header f" , unfolded frame_header_def])

lemma frame_length:
  assumes "frame_ok limit f"
  shows "unat (of_nat (length (fr_payload f)) :: u32) = length (fr_payload f)"
    "\<not> of_nat (length (fr_payload f)) > limit"
proof -
  have l: "length (fr_payload f) \<le> unat limit" using assms by (simp add: frame_ok_def)
  show "unat (of_nat (length (fr_payload f)) :: u32) = length (fr_payload f)"
    "\<not> of_nat (length (fr_payload f)) > limit"
    using l le_less_trans [OF l unsigned_less [of limit]] by (simp_all add: unat_of_nat word_less_nat_alt)
qed

text \<open>What the decoder does on a well-formed header, whatever checksum and payload follow it.\<close>

lemma next_frame_on_header:
  assumes "fd_failure d = O_Ok" "frame_ok (fd_max d) f"
    "fd_buffer d = frame_header f @ le_bytes 4 c @ payload @ rest"
    "length payload = length (fr_payload f)"
  shows "next_frame d =
    (if frame_integrity (frame_header f) payload = c
     then ((O_Ok, Some (f\<lparr>fr_payload := payload\<rparr>)), d\<lparr>fd_buffer := rest\<rparr>)
     else ((O_Corrupt, None), d\<lparr>fd_failure := O_Corrupt\<rparr>))"
proof -
  note h = frame_fields [OF assms(3)]
  have len: "length (fd_buffer d) = 20 + length payload + length rest" by (simp add: assms(3))
  have f0: "fr_flags f = 0" using assms(2) by (simp add: frame_ok_def)
  have eta: "\<lparr>fr_type = fr_type f, fr_flags = 0, fr_payload = payload\<rparr> = f\<lparr>fr_payload := payload\<rparr>"
    using f0 by (cases f) simp
  have v: "is_valid_message_type (message_type_code (fr_type f))"
    "message_type_of_code (message_type_code (fr_type f)) = fr_type f" by simp_all
  have t: "take (length (fr_payload f)) (payload @ rest) = payload" using assms(4) by simp
  have dr: "drop (20 + length (fr_payload f)) (fd_buffer d) = rest"
    using assms(4) by (simp add: assms(3))
  show ?thesis
    unfolding next_frame_def Let_def h frame_length(1) [OF assms(2)]
    using assms(1,4) len f0 v t dr frame_length(2) [OF assms(2)]
    by (simp add: kFrameHeaderSize_def fd_fail_def eta)
qed

lemma encode_frame_emits: "emits (encode_frame f) (wire_frame f)"
proof -
  have "emits (encode_frame f)
      ((frame_header f @ le_bytes 4 (frame_integrity (frame_header f) (fr_payload f))) @ fr_payload f @ [])"
    unfolding encode_frame_def w_raw_def by (intro emits_Cons emits_put emits_nil)
  then show ?thesis by (simp add: wire_frame_def)
qed

lemma next_frame_short:
  assumes "fd_failure d = O_Ok" "frame_ok (fd_max d) f" "wire_frame f = fd_buffer d @ missing" "missing \<noteq> []"
  shows "next_frame d = ((O_NotFound, None), d)"
proof (cases "length (fd_buffer d) < 20")
  case True
  then show ?thesis using assms(1) by (simp add: next_frame_def kFrameHeaderSize_def Let_def)
next
  case False
  let ?c = "frame_integrity (frame_header f) (fr_payload f)"
  let ?pre = "frame_header f @ le_bytes 4 ?c"
  have "take 20 (fd_buffer d) = take 20 (wire_frame f)" using False assms(3) by simp
  also have "\<dots> = ?pre" by (simp add: wire_frame_def)
  finally have b: "fd_buffer d = frame_header f @ le_bytes 4 ?c @ drop 20 (fd_buffer d)"
    by (metis append.assoc append_take_drop_id)
  note h = frame_fields [OF b]
  have "length (fd_buffer d) + length missing = 20 + length (fr_payload f)"
    using arg_cong [OF assms(3), of length] by (simp add: wire_frame_def)
  then have len: "length (fd_buffer d) < 20 + length (fr_payload f)"
    using assms(4) by (cases missing) auto
  have f0: "fr_flags f = 0" using assms(2) by (simp add: frame_ok_def)
  show ?thesis
    unfolding next_frame_def Let_def h frame_length(1) [OF assms(2)]
    using assms(1) len False f0 frame_length(2) [OF assms(2)] by (simp add: kFrameHeaderSize_def)
qed

lemma feed_append:
  assumes "fst (feed a d) = O_Ok" "fd_failure d = O_Ok"
  shows "feed b (snd (feed a d)) = (let r = feed (a @ b) d in
    if fst r = O_Ok then r else (O_Oversized, (snd (feed a d))\<lparr>fd_failure := O_Oversized\<rparr>))"
  using assms by (auto simp: feed_def fd_fail_def Let_def split: if_splits)

text \<open>Chunks fed one after the other.\<close>

definition feed_all :: "bytes list \<Rightarrow> frame_decoder \<Rightarrow> frame_decoder" where
  "feed_all chunks d = foldl (\<lambda>d c. snd (feed c d)) d chunks"

lemma feed_fits:
  "fd_failure d = O_Ok \<Longrightarrow> length (fd_buffer d) + length bs \<le> unat (fd_max d) + 20 \<Longrightarrow>
    feed bs d = (O_Ok, d\<lparr>fd_buffer := fd_buffer d @ bs\<rparr>)"
proof -
  assume a: "fd_failure d = O_Ok" "length (fd_buffer d) + length bs \<le> unat (fd_max d) + 20"
  have "unat (fd_max d) < 2 ^ LENGTH(32)" by (rule unsigned_less)
  then show ?thesis using a by (simp add: feed_def kFrameHeaderSize_def Let_def)
qed

lemma feed_all_fits:
  "fd_failure d = O_Ok \<Longrightarrow> length (fd_buffer d) + length (concat chunks) \<le> unat (fd_max d) + 20 \<Longrightarrow>
    feed_all chunks d = d\<lparr>fd_buffer := fd_buffer d @ concat chunks\<rparr>"
proof (induction chunks arbitrary: d)
  case (Cons c cs)
  have "feed c d = (O_Ok, d\<lparr>fd_buffer := fd_buffer d @ c\<rparr>)" using Cons(2,3) by (intro feed_fits) auto
  then show ?case using Cons(1) [of "d\<lparr>fd_buffer := fd_buffer d @ c\<rparr>"] Cons(2,3)
    by (simp add: feed_all_def)
qed (simp add: feed_all_def)

lemma deliver_frame:
  assumes "frame_ok limit f" and "concat chunks = wbuf (encode_frame f (writer_new m))"
    and "wok (encode_frame f (writer_new m))" and "m < 2 ^ 64"
  shows "next_frame (feed_all chunks (frame_decoder_new limit)) = ((O_Ok, Some f), frame_decoder_new limit)"
proof -
  let ?d = "frame_decoder_new limit"
  have w: "concat chunks = wire_frame f"
    using emits_fresh [OF encode_frame_emits assms(4)] assms(2,3) by simp
  have "length (wire_frame f) \<le> unat limit + 20" using assms(1) by (simp add: wire_frame_def frame_ok_def)
  then have "feed_all chunks ?d = ?d\<lparr>fd_buffer := wire_frame f\<rparr>"
    using feed_all_fits [of ?d chunks] w by (simp add: frame_decoder_new_def)
  then show ?thesis
    using next_frame_on_header [of "?d\<lparr>fd_buffer := wire_frame f\<rparr>" f _ "fr_payload f" "[]"] assms(1)
    by (simp add: wire_frame_def frame_decoder_new_def)
qed

definition sample_frame :: frame where
  "sample_frame = \<lparr>fr_type = M_StatsRequest, fr_flags = 0, fr_payload = [1, 2, 3, 4, 5, 6]\<rparr>"

lemma sample_frame_ok: "frame_ok 64 sample_frame"
  by (simp add: frame_ok_def sample_frame_def)

text \<open>
  C32. A frame survives transport however it is cut up: a fresh decoder that is fed the encoded
  frame in any chunks yields exactly that frame and is empty again, and as long as bytes of the
  frame are missing it asks for more without failing.
\<close>
theorem frame_round_trip:
  assumes "frame_ok limit f" and "concat chunks = wbuf (encode_frame f (writer_new m))"
    and "wok (encode_frame f (writer_new m))" and "m < 2 ^ 64"
  shows "next_frame (feed_all chunks (frame_decoder_new limit)) =
      ((O_Ok, Some f), frame_decoder_new limit)
    \<and> (\<forall>part missing. concat chunks = concat part @ missing \<longrightarrow> missing \<noteq> [] \<longrightarrow>
        fst (next_frame (feed_all part (frame_decoder_new limit))) = (O_NotFound, None))"
proof -
  let ?d = "frame_decoder_new limit"
  have w: "concat chunks = wire_frame f"
    using emits_fresh [OF encode_frame_emits assms(4)] assms(2,3) by simp
  have len: "length (wire_frame f) \<le> unat limit + 20"
    using assms(1) by (simp add: wire_frame_def frame_ok_def)
  have d: "fd_failure ?d = O_Ok" "fd_max ?d = limit" "fd_buffer ?d = []"
    by (simp_all add: frame_decoder_new_def)
  have "next_frame (feed_all chunks ?d) = ((O_Ok, Some f), ?d)" by (rule deliver_frame [OF assms])
  moreover have "fst (next_frame (feed_all part ?d)) = (O_NotFound, None)"
    if p: "concat chunks = concat part @ missing" "missing \<noteq> []" for part missing
  proof -
    have "length (concat part) \<le> length (wire_frame f)" using arg_cong [OF p(1), of length] w by simp
    then have "feed_all part ?d = ?d\<lparr>fd_buffer := concat part\<rparr>"
      using feed_all_fits [of ?d part] d len by simp
    then show ?thesis
      using next_frame_short [of "?d\<lparr>fd_buffer := concat part\<rparr>" f missing] d assms(1) p w by simp
  qed
  ultimately show ?thesis by blast
qed

theorem frame_round_trip_witness:
  "next_frame (feed_all [wire_frame sample_frame] (frame_decoder_new 64)) =
     ((O_Ok, Some sample_frame), frame_decoder_new 64)"
proof -
  have "wbuf (encode_frame sample_frame (writer_new 100)) = wire_frame sample_frame"
    "wok (encode_frame sample_frame (writer_new 100))"
    using emits_fresh [OF encode_frame_emits, of 100 sample_frame]
    by (simp_all add: wire_frame_def sample_frame_def)
  then show ?thesis
    using frame_round_trip [OF sample_frame_ok, of "[wire_frame sample_frame]" 100] by simp
qed

text \<open>
  A burst of errors over at most four consecutive bytes of the payload is always detected: the
  decoder reports corruption and stays failed, whatever is fed afterwards.
\<close>
theorem frame_burst_detected:
  assumes "frame_ok (fd_max d) f" and "fd_failure d = O_Ok"
    and "fr_payload f = pre @ xs @ post" and "length ys = length xs" and "length xs \<le> 4" and "ys \<noteq> xs"
    and "fd_buffer d = frame_header f @ le_bytes 4 (frame_integrity (frame_header f) (fr_payload f))
           @ (pre @ ys @ post) @ rest"
  shows "fst (next_frame d) = (O_Corrupt, None)
    \<and> fst (next_frame (snd (feed bs (snd (next_frame d))))) = (O_Corrupt, None)"
proof -
  have "frame_integrity (frame_header f) (pre @ ys @ post) \<noteq> frame_integrity (frame_header f) (fr_payload f)"
    unfolding frame_integrity_def assms(3) using assms(4-6) by (intro crc32c_burst) auto
  then have n: "next_frame d = ((O_Corrupt, None), d\<lparr>fd_failure := O_Corrupt\<rparr>)"
    using next_frame_on_header [OF assms(2,1,7)] assms(3,4) by simp
  then show ?thesis by (simp add: feed_def next_frame_def Let_def)
qed

theorem frame_burst_detected_witness:
  "fst (next_frame ((frame_decoder_new 64)\<lparr>fd_buffer := frame_header sample_frame
      @ le_bytes 4 (frame_integrity (frame_header sample_frame) (fr_payload sample_frame))
      @ ([1] @ [9, 9] @ [4, 5, 6]) @ []\<rparr>)) = (O_Corrupt, None)"
  using frame_burst_detected [of "(frame_decoder_new 64)\<lparr>fd_buffer := frame_header sample_frame
      @ le_bytes 4 (frame_integrity (frame_header sample_frame) (fr_payload sample_frame))
      @ ([1] @ [9, 9] @ [4, 5, 6]) @ []\<rparr>" sample_frame "[1]" "[2, 3]" "[4, 5, 6]" "[9, 9]" "[]" "[]"]
    sample_frame_ok by (simp add: frame_decoder_new_def sample_frame_def)

end
