(* ===== verification/BHG_Record.thy ===== *)
theory BHG_Record
  imports BHG_Decision BHG_Frame
begin

text \<open>
  Durable records (\<open>record.hpp\<close>, \<open>record.cpp\<close>): the framing of a journal record with its two
  checksums, the header decoder and its order of refusals, the recognition of a torn prefix, and
  the payload codecs. The encoder builds the framed bytes; the laws below say what the header
  decoder and the prefix test answer on them.
\<close>

subsection \<open>Framing\<close>

datatype record_type =
    RT_Boot | RT_PolicyCommit | RT_DecisionCommit | RT_FenceIntentCommit | RT_FenceAckCommit
  | RT_FenceEffectCommit | RT_FenceRevokeCommit | RT_RestorationCommit
  | RT_InterruptionCommit | RT_EvidenceLineageCommit | RT_EpochAdvance | RT_Checkpoint

primrec record_type_code :: "record_type \<Rightarrow> u16" where
  "record_type_code RT_Boot = 1"
| "record_type_code RT_PolicyCommit = 2"
| "record_type_code RT_DecisionCommit = 3"
| "record_type_code RT_FenceIntentCommit = 4"
| "record_type_code RT_FenceAckCommit = 5"
| "record_type_code RT_FenceEffectCommit = 6"
| "record_type_code RT_FenceRevokeCommit = 7"
| "record_type_code RT_RestorationCommit = 8"
| "record_type_code RT_InterruptionCommit = 9"
| "record_type_code RT_EvidenceLineageCommit = 10"
| "record_type_code RT_EpochAdvance = 11"
| "record_type_code RT_Checkpoint = 12"

definition all_record_type :: "record_type list" where
  "all_record_type =
    [RT_Boot, RT_PolicyCommit, RT_DecisionCommit, RT_FenceIntentCommit, RT_FenceAckCommit,
     RT_FenceEffectCommit, RT_FenceRevokeCommit, RT_RestorationCommit,
     RT_InterruptionCommit, RT_EvidenceLineageCommit, RT_EpochAdvance, RT_Checkpoint]"

definition is_valid_record_type :: "u16 \<Rightarrow> bool" where
  "is_valid_record_type raw \<longleftrightarrow> raw \<ge> 1 \<and> raw \<le> 12"

definition record_type_of_code :: "u16 \<Rightarrow> record_type" where
  "record_type_of_code = enum_cast record_type_code all_record_type"

primrec record_type_to_string :: "record_type \<Rightarrow> string" where
  "record_type_to_string RT_Boot = ''Boot''"
| "record_type_to_string RT_PolicyCommit = ''PolicyCommit''"
| "record_type_to_string RT_DecisionCommit = ''DecisionCommit''"
| "record_type_to_string RT_FenceIntentCommit = ''FenceIntentCommit''"
| "record_type_to_string RT_FenceAckCommit = ''FenceAckCommit''"
| "record_type_to_string RT_FenceEffectCommit = ''FenceEffectCommit''"
| "record_type_to_string RT_FenceRevokeCommit = ''FenceRevokeCommit''"
| "record_type_to_string RT_RestorationCommit = ''RestorationCommit''"
| "record_type_to_string RT_InterruptionCommit = ''InterruptionCommit''"
| "record_type_to_string RT_EvidenceLineageCommit = ''EvidenceLineageCommit''"
| "record_type_to_string RT_EpochAdvance = ''EpochAdvance''"
| "record_type_to_string RT_Checkpoint = ''Checkpoint''"

interpretation record_type_enum: wire_enum record_type_code is_valid_record_type record_type_of_code
  unfolding record_type_of_code_def
proof (rule wire_enumI)
  show "e \<in> set all_record_type" for e by (cases e) (simp_all add: all_record_type_def)
  show "distinct (map record_type_code all_record_type)" by (simp add: all_record_type_def)
  show "is_valid_record_type raw \<longleftrightarrow> raw \<in> set (map record_type_code all_record_type)" for raw
    using word_range_set [of 12 1 raw]
    by (simp add: is_valid_record_type_def all_record_type_def upt_rec)
qed

definition kFormatVersion :: u16 where "kFormatVersion = 1"
definition kJournalMagic :: u32 where "kJournalMagic = 0x4A474842"
definition kSnapshotMagic :: u32 where "kSnapshotMagic = 0x53474842"
definition kJournalHeaderSize :: nat where "kJournalHeaderSize = 24"
definition kJournalTrailerSize :: nat where "kJournalTrailerSize = 4"
definition kSnapshotHeaderSize :: nat where "kSnapshotHeaderSize = 24"
definition kSnapshotTrailerSize :: nat where "kSnapshotTrailerSize = 4"

record record_header =
  rh_version :: u16
  rh_type :: record_type
  rh_seq :: u64
  rh_payload_len :: u32
  rh_header_crc :: u32

definition get_u64 :: "bytes \<Rightarrow> nat \<Rightarrow> u64" where
  "get_u64 h off = le_value 8 (drop off h)"

text \<open>The fields a header of either file kind begins with, the header with its own checksum, and
  the record: a body that does not fit leaves the writer as it was, without a failure.\<close>

definition header_fields :: "u32 \<Rightarrow> u16 \<Rightarrow> u64 \<Rightarrow> nat \<Rightarrow> bytes" where
  "header_fields magic kind seq len = concat
     [le_bytes 4 magic, le_bytes 2 kFormatVersion, le_bytes 2 kind, le_bytes 8 seq,
      le_bytes 4 (of_nat len :: u32)]"

definition make_header :: "u32 \<Rightarrow> u16 \<Rightarrow> u64 \<Rightarrow> nat \<Rightarrow> bytes" where
  "make_header magic kind seq len =
     (let h = header_fields magic kind seq len in h @ le_bytes 4 (crc32c h 0))"

definition encode_record :: "record_type \<Rightarrow> u64 \<Rightarrow> bytes \<Rightarrow> writer \<Rightarrow> writer" where
  "encode_record ty seq payload w =
     (let header = make_header kJournalMagic (record_type_code ty) seq (length payload);
          body = wseq [w_raw header, w_raw payload] (writer_new (wmax w))
      in if \<not> wok body then w
         else wseq [w_raw header, w_raw payload, w_raw (le_bytes 4 (crc32c (wbuf body) 0))] w)"

definition decode_record_header :: "bytes \<Rightarrow> u32 \<Rightarrow> outcome + record_header" where
  "decode_record_header header max_payload =
     (if length header < kJournalHeaderSize then Inl O_Malformed
      else if get_u32 header 0 \<noteq> kJournalMagic then Inl O_Corrupt
      else if get_u16 header 4 \<noteq> kFormatVersion then Inl O_Unsupported
      else if \<not> is_valid_record_type (get_u16 header 6) then Inl O_Invalid
      else if get_u32 header 16 > max_payload then Inl O_Oversized
      else if crc32c (take 20 header) 0 \<noteq> get_u32 header 20 then Inl O_Corrupt
      else Inr \<lparr>rh_version = get_u16 header 4, rh_type = record_type_of_code (get_u16 header 6),
        rh_seq = get_u64 header 8, rh_payload_len = get_u32 header 16,
        rh_header_crc = get_u32 header 20\<rparr>)"

text \<open>One round of the loop over the prefix: magic and version are compared byte by byte, the
  length is looked at once it is complete, the other bytes are skipped.\<close>

definition prefix_byte_ok :: "bytes \<Rightarrow> u32 \<Rightarrow> nat \<Rightarrow> bool" where
  "prefix_byte_ok bs max_payload i \<longleftrightarrow>
     (if i < 4 then bs ! i = ucast (drop_bit (8 * i) kJournalMagic AND 0xFF)
      else if i = 4 then bs ! i = ucast (kFormatVersion AND 0xFF)
      else if i = 5 then bs ! i = ucast (drop_bit 8 kFormatVersion AND 0xFF)
      else if i = 19 then \<not> get_u32 bs 16 > max_payload
      else True)"

definition is_valid_record_prefix :: "bytes \<Rightarrow> u32 \<Rightarrow> bool" where
  "is_valid_record_prefix bs max_payload \<longleftrightarrow>
     list_all (prefix_byte_ok bs max_payload) [0..<min (length bs) kJournalHeaderSize]"

definition is_all_zero :: "bytes \<Rightarrow> bool" where
  "is_all_zero bs \<longleftrightarrow> list_all (\<lambda>b. b = 0) bs"

subsection \<open>Payloads\<close>

text \<open>A raw byte that has to be in the domain of an enumeration.\<close>

definition r_valid8 :: "(u8 \<Rightarrow> bool) \<Rightarrow> u8 decoder" where
  "r_valid8 valid = dbind r_u8 (\<lambda>raw. dbind (dguard (valid raw) O_Invalid) (\<lambda>_. dret raw))"

record boot_payload =
  bp_boot :: u64
  bp_incarnation :: u64
  bp_epoch :: u64
  bp_started_at :: i64
  bp_boot_count :: u64
  bp_open_count :: u64
  bp_policy :: u64
  bp_policy_fingerprint :: u64
  bp_provenance :: provenance

record interruption_payload =
  ip_reason :: reason_code
  ip_fence :: u64
  ip_decision :: u64
  ip_scope :: scope
  ip_prior_epoch :: u64
  ip_prior_boot :: u64
  ip_prior_incarnation :: u64
  ip_at :: i64

record fence_state_payload =
  fp_intent :: fence_intent
  fp_lifecycle :: u8
  fp_effect_verified :: bool
  fp_ack_owner :: u64
  fp_effect_owner :: u64
  fp_acked_at :: i64
  fp_effected_at :: i64
  fp_terminal_reason :: reason_code

record checkpoint_payload =
  cp_snapshot_seq :: u64
  cp_epoch :: u64
  cp_journal_generation :: u64

definition encode_boot_payload :: "boot_payload \<Rightarrow> writer \<Rightarrow> writer" where
  "encode_boot_payload v =
     wseq [w_u64 (bp_boot v), w_u64 (bp_incarnation v), w_u64 (bp_epoch v),
       w_i64 (bp_started_at v), w_u64 (bp_boot_count v), w_u64 (bp_open_count v),
       w_u64 (bp_policy v), w_u64 (bp_policy_fingerprint v),
       w_u8 (provenance_code (bp_provenance v))]"

definition decode_boot_payload :: "boot_payload decoder" where
  "decode_boot_payload =
     dbind r_u64 (\<lambda>boot. dbind r_u64 (\<lambda>incarnation.
     dbind r_u64 (\<lambda>epoch. dbind r_i64 (\<lambda>started_at.
     dbind r_u64 (\<lambda>boot_count. dbind r_u64 (\<lambda>open_count.
     dbind r_u64 (\<lambda>policy. dbind r_u64 (\<lambda>policy_fingerprint.
     dbind (r_enum8 is_valid_provenance provenance_of_code) (\<lambda>provenance.
     dret \<lparr>bp_boot = boot, bp_incarnation = incarnation, bp_epoch = epoch,
       bp_started_at = started_at, bp_boot_count = boot_count, bp_open_count = open_count,
       bp_policy = policy, bp_policy_fingerprint = policy_fingerprint,
       bp_provenance = provenance\<rparr>)))))))))"

definition encode_interruption_payload :: "interruption_payload \<Rightarrow> writer \<Rightarrow> writer" where
  "encode_interruption_payload v =
     wseq [w_u16 (reason_code_code (ip_reason v)), w_u64 (ip_fence v), w_u64 (ip_decision v),
       encode_scope (ip_scope v), w_u64 (ip_prior_epoch v), w_u64 (ip_prior_boot v),
       w_u64 (ip_prior_incarnation v), w_i64 (ip_at v)]"

definition decode_interruption_payload :: "interruption_payload decoder" where
  "decode_interruption_payload =
     dbind (decode_enum is_valid_reason_code reason_code_of_code) (\<lambda>reason.
     dbind r_u64 (\<lambda>fence. dbind r_u64 (\<lambda>decision.
     dbind decode_scope (\<lambda>scope. dbind r_u64 (\<lambda>prior_epoch.
     dbind r_u64 (\<lambda>prior_boot. dbind r_u64 (\<lambda>prior_incarnation.
     dbind r_i64 (\<lambda>at.
     dret \<lparr>ip_reason = reason, ip_fence = fence, ip_decision = decision, ip_scope = scope,
       ip_prior_epoch = prior_epoch, ip_prior_boot = prior_boot,
       ip_prior_incarnation = prior_incarnation, ip_at = at\<rparr>))))))))"

definition encode_fence_state :: "fence_state_payload \<Rightarrow> writer \<Rightarrow> writer" where
  "encode_fence_state v =
     wseq [encode_intent (fp_intent v), w_u8 (fp_lifecycle v),
       w_boolean (fp_effect_verified v), w_u64 (fp_ack_owner v), w_u64 (fp_effect_owner v),
       w_i64 (fp_acked_at v), w_i64 (fp_effected_at v),
       w_u16 (reason_code_code (fp_terminal_reason v))]"

definition decode_fence_state :: "fence_state_payload decoder" where
  "decode_fence_state =
     dbind decode_intent (\<lambda>intent.
     dbind (r_valid8 is_valid_fence_lifecycle) (\<lambda>lifecycle.
     dbind r_boolean (\<lambda>effect_verified. dbind r_u64 (\<lambda>ack_owner.
     dbind r_u64 (\<lambda>effect_owner. dbind r_i64 (\<lambda>acked_at.
     dbind r_i64 (\<lambda>effected_at.
     dbind (decode_enum is_valid_reason_code reason_code_of_code) (\<lambda>terminal_reason.
     dret \<lparr>fp_intent = intent, fp_lifecycle = lifecycle, fp_effect_verified = effect_verified,
       fp_ack_owner = ack_owner, fp_effect_owner = effect_owner, fp_acked_at = acked_at,
       fp_effected_at = effected_at, fp_terminal_reason = terminal_reason\<rparr>))))))))"

definition encode_checkpoint_payload :: "checkpoint_payload \<Rightarrow> writer \<Rightarrow> writer" where
  "encode_checkpoint_payload v =
     wseq [w_u64 (cp_snapshot_seq v), w_u64 (cp_epoch v), w_u64 (cp_journal_generation v)]"

definition decode_checkpoint_payload :: "checkpoint_payload decoder" where
  "decode_checkpoint_payload =
     dbind r_u64 (\<lambda>snapshot_seq. dbind r_u64 (\<lambda>epoch.
     dbind r_u64 (\<lambda>journal_generation.
     dret \<lparr>cp_snapshot_seq = snapshot_seq, cp_epoch = epoch,
       cp_journal_generation = journal_generation\<rparr>)))"

subsection \<open>Round trips of the payloads\<close>

definition wire_boot_payload :: "boot_payload \<Rightarrow> bytes" where
  "wire_boot_payload v = concat
    [le_bytes 8 (bp_boot v), le_bytes 8 (bp_incarnation v), le_bytes 8 (bp_epoch v),
     le_bytes 8 (bp_started_at v), le_bytes 8 (bp_boot_count v), le_bytes 8 (bp_open_count v),
     le_bytes 8 (bp_policy v), le_bytes 8 (bp_policy_fingerprint v),
     [provenance_code (bp_provenance v)]]"

definition wire_interruption_payload :: "interruption_payload \<Rightarrow> bytes" where
  "wire_interruption_payload v = concat
    [le_bytes 2 (reason_code_code (ip_reason v)), le_bytes 8 (ip_fence v),
     le_bytes 8 (ip_decision v), wire_scope (ip_scope v), le_bytes 8 (ip_prior_epoch v),
     le_bytes 8 (ip_prior_boot v), le_bytes 8 (ip_prior_incarnation v), le_bytes 8 (ip_at v)]"

definition wire_fence_state :: "fence_state_payload \<Rightarrow> bytes" where
  "wire_fence_state v = concat
    [wire_intent (fp_intent v), [fp_lifecycle v], [if fp_effect_verified v then 1 else 0],
     le_bytes 8 (fp_ack_owner v), le_bytes 8 (fp_effect_owner v), le_bytes 8 (fp_acked_at v),
     le_bytes 8 (fp_effected_at v), le_bytes 2 (reason_code_code (fp_terminal_reason v))]"

definition wire_checkpoint_payload :: "checkpoint_payload \<Rightarrow> bytes" where
  "wire_checkpoint_payload v = concat
    [le_bytes 8 (cp_snapshot_seq v), le_bytes 8 (cp_epoch v),
     le_bytes 8 (cp_journal_generation v)]"

lemma rt_valid8 [codec_intros]:
  assumes "valid v"
  shows "rt (w_u8 v) (r_valid8 valid) v [v]"
proof -
  have "parses (r_valid8 valid) ([v] @ []) v"
    unfolding r_valid8_def
    by (rule parses_dbind [OF parses_u8], rule parses_bind_guard) (simp_all add: assms parses_dret)
  then show ?thesis by (simp add: rt_def w_u8_def emits_put_byte)
qed

lemma dsafe_valid8 [decoder_safe]: "dsafe (r_valid8 valid)"
  unfolding r_valid8_def by (intro decoder_safe) simp_all

lemma boot_payload_eta:
  "\<lparr>bp_boot = bp_boot v, bp_incarnation = bp_incarnation v, bp_epoch = bp_epoch v,
    bp_started_at = bp_started_at v, bp_boot_count = bp_boot_count v,
    bp_open_count = bp_open_count v, bp_policy = bp_policy v,
    bp_policy_fingerprint = bp_policy_fingerprint v, bp_provenance = bp_provenance v\<rparr> = v"
  by simp

lemma rt_boot_payload [codec_intros]:
  "rt (encode_boot_payload v) decode_boot_payload v (wire_boot_payload v)"
  unfolding encode_boot_payload_def decode_boot_payload_def wire_boot_payload_def Let_def
  by (rule rt_eq) ((rule codec_intros decision_enums | simp add: boot_payload_eta)+)

lemma dsafe_boot_payload [decoder_safe]: "dsafe decode_boot_payload"
  unfolding decode_boot_payload_def Let_def by (intro decoder_safe; simp)

lemma interruption_payload_eta:
  "\<lparr>ip_reason = ip_reason v, ip_fence = ip_fence v, ip_decision = ip_decision v,
    ip_scope = ip_scope v, ip_prior_epoch = ip_prior_epoch v, ip_prior_boot = ip_prior_boot v,
    ip_prior_incarnation = ip_prior_incarnation v, ip_at = ip_at v\<rparr> = v"
  by simp

lemma rt_interruption_payload [codec_intros]:
  "rt (encode_interruption_payload v) decode_interruption_payload v (wire_interruption_payload v)"
  unfolding encode_interruption_payload_def decode_interruption_payload_def wire_interruption_payload_def Let_def
  by (rule rt_eq) ((rule codec_intros decision_enums | simp add: interruption_payload_eta)+)

lemma dsafe_interruption_payload [decoder_safe]: "dsafe decode_interruption_payload"
  unfolding decode_interruption_payload_def Let_def by (intro decoder_safe; simp)

lemma fence_state_eta:
  "\<lparr>fp_intent = fp_intent v, fp_lifecycle = fp_lifecycle v,
    fp_effect_verified = fp_effect_verified v, fp_ack_owner = fp_ack_owner v,
    fp_effect_owner = fp_effect_owner v, fp_acked_at = fp_acked_at v,
    fp_effected_at = fp_effected_at v, fp_terminal_reason = fp_terminal_reason v\<rparr> = v"
  by simp

lemma rt_fence_state [codec_intros]:
  "fi_is_valid (fp_intent v) \<Longrightarrow> is_valid_fence_lifecycle (fp_lifecycle v) \<Longrightarrow> rt (encode_fence_state v) decode_fence_state v (wire_fence_state v)"
  unfolding encode_fence_state_def decode_fence_state_def wire_fence_state_def Let_def
  by (rule rt_eq) ((rule codec_intros decision_enums | simp add: fence_state_eta)+)

lemma dsafe_fence_state [decoder_safe]: "dsafe decode_fence_state"
  unfolding decode_fence_state_def Let_def by (intro decoder_safe; simp)

lemma checkpoint_payload_eta:
  "\<lparr>cp_snapshot_seq = cp_snapshot_seq v, cp_epoch = cp_epoch v,
    cp_journal_generation = cp_journal_generation v\<rparr> = v"
  by simp

lemma rt_checkpoint_payload [codec_intros]:
  "rt (encode_checkpoint_payload v) decode_checkpoint_payload v (wire_checkpoint_payload v)"
  unfolding encode_checkpoint_payload_def decode_checkpoint_payload_def wire_checkpoint_payload_def Let_def
  by (rule rt_eq) ((rule codec_intros decision_enums | simp add: checkpoint_payload_eta)+)

lemma dsafe_checkpoint_payload [decoder_safe]: "dsafe decode_checkpoint_payload"
  unfolding decode_checkpoint_payload_def Let_def by (intro decoder_safe; simp)


text \<open>The payload codecs as instances of the codec interface.\<close>

interpretation boot_codec: codec encode_boot_payload decode_boot_payload "\<lambda>_. True"
  by unfold_locales (blast intro: rt_boot_payload, rule dsafe_boot_payload)

interpretation interruption_codec: codec encode_interruption_payload decode_interruption_payload
    "\<lambda>_. True"
  by unfold_locales (blast intro: rt_interruption_payload, rule dsafe_interruption_payload)

definition fence_state_ok :: "fence_state_payload \<Rightarrow> bool" where
  "fence_state_ok f \<longleftrightarrow> fi_is_valid (fp_intent f) \<and> is_valid_fence_lifecycle (fp_lifecycle f)"

interpretation fence_state_codec: codec encode_fence_state decode_fence_state fence_state_ok
  by unfold_locales (auto simp: fence_state_ok_def dsafe_fence_state intro: rt_fence_state)

interpretation checkpoint_codec: codec encode_checkpoint_payload decode_checkpoint_payload "\<lambda>_. True"
  by unfold_locales (blast intro: rt_checkpoint_payload, rule dsafe_checkpoint_payload)

subsection \<open>What the scanner finds in a record\<close>

definition wire_record :: "record_type \<Rightarrow> u64 \<Rightarrow> bytes \<Rightarrow> bytes" where
  "wire_record ty seq payload =
     (let b = make_header kJournalMagic (record_type_code ty) seq (length payload) @ payload
      in b @ le_bytes 4 (crc32c b 0))"

lemma length_header_fields [simp]: "length (header_fields magic kind seq len) = 20"
  by (simp add: header_fields_def)

lemma length_make_header [simp]: "length (make_header magic kind seq len) = 24"
  by (simp add: make_header_def Let_def)

lemma length_wire_record [simp]: "length (wire_record ty seq payload) = 28 + length payload"
  by (simp add: wire_record_def Let_def)

lemma get_u64_at: "h = pre @ le_bytes 8 v @ post \<Longrightarrow> off = length pre \<Longrightarrow> get_u64 h off = v"
  by (simp add: get_u64_def le_value_le_bytes)

lemma header_at:
  assumes "h = header_fields magic kind seq len @ le_bytes 4 c @ rest"
  shows "get_u32 h 0 = magic" "get_u16 h 4 = kFormatVersion" "get_u16 h 6 = kind"
    "get_u64 h 8 = seq" "get_u32 h 16 = of_nat len" "get_u32 h 20 = c"
    "take 20 h = header_fields magic kind seq len" "drop 24 h = rest"
  unfolding assms
  by (auto simp: header_fields_def
      intro: get_u32_at [where pre = "[]"]
        get_u16_at [where pre = "le_bytes 4 magic"]
        get_u16_at [where pre = "le_bytes 4 magic @ le_bytes 2 kFormatVersion"]
        get_u64_at [where pre = "le_bytes 4 magic @ le_bytes 2 kFormatVersion @ le_bytes 2 kind"]
        get_u32_at [where pre = "le_bytes 4 magic @ le_bytes 2 kFormatVersion @ le_bytes 2 kind @ le_bytes 8 seq"]
        get_u32_at [where pre = "header_fields magic kind seq len", unfolded header_fields_def])

lemma make_header_at:
  assumes "h = make_header magic kind seq len @ rest"
  shows "get_u32 h 0 = magic" "get_u16 h 4 = kFormatVersion" "get_u16 h 6 = kind"
    "get_u64 h 8 = seq" "get_u32 h 16 = of_nat len" "get_u32 h 20 = crc32c (take 20 h) 0"
    "drop 24 h = rest"
proof -
  have h: "h = header_fields magic kind seq len @ le_bytes 4 (crc32c (header_fields magic kind seq len) 0) @ rest"
    using assms by (simp add: make_header_def Let_def)
  note at = header_at [OF h]
  show "get_u32 h 0 = magic" "get_u16 h 4 = kFormatVersion" "get_u16 h 6 = kind"
    "get_u64 h 8 = seq" "get_u32 h 16 = of_nat len" "drop 24 h = rest"
    by (rule at)+
  show "get_u32 h 20 = crc32c (take 20 h) 0" by (simp only: at(6,7))
qed

text \<open>The record encoder writes the whole record into a writer with room for it and nothing into
  a smaller one.\<close>

lemma encode_record_fresh:
  assumes "28 + length payload \<le> m" "m < 2 ^ 64"
  shows "encode_record ty seq payload (writer_new m) =
    \<lparr>wbuf = wire_record ty seq payload, wmax = m, wok = True\<rparr>"
  using assms
  by (simp add: encode_record_def wire_record_def wseq_def w_raw_def w_put_def writer_new_def Let_def)

text \<open>A length that the 32-bit field holds and the limit admits.\<close>

definition payload_fits :: "u32 \<Rightarrow> bytes \<Rightarrow> bool" where
  "payload_fits max_payload payload \<longleftrightarrow> length payload \<le> unat max_payload"

lemma payload_fits_word:
  assumes "payload_fits max_payload payload"
  shows "unat (of_nat (length payload) :: u32) = length payload"
    "\<not> of_nat (length payload) > max_payload"
proof -
  have l: "length payload \<le> unat max_payload" using assms by (simp add: payload_fits_def)
  show "unat (of_nat (length payload) :: u32) = length payload"
    "\<not> of_nat (length payload) > max_payload"
    using l le_less_trans [OF l unsigned_less [of max_payload]]
    by (simp_all add: unat_of_nat word_less_nat_alt)
qed

lemma decode_record_header_wire:
  assumes "payload_fits max_payload payload"
  shows "decode_record_header (make_header kJournalMagic (record_type_code ty) seq (length payload)) max_payload =
    Inr \<lparr>rh_version = kFormatVersion, rh_type = ty, rh_seq = seq, rh_payload_len = of_nat (length payload),
      rh_header_crc = crc32c (header_fields kJournalMagic (record_type_code ty) seq (length payload)) 0\<rparr>"
proof -
  let ?h = "make_header kJournalMagic (record_type_code ty) seq (length payload)"
  note at = make_header_at [of ?h kJournalMagic "record_type_code ty" seq "length payload" "[]", simplified]
  have t: "take 20 ?h = header_fields kJournalMagic (record_type_code ty) seq (length payload)"
    by (simp add: make_header_def Let_def)
  show ?thesis
    using payload_fits_word(2) [OF assms]
    by (simp add: decode_record_header_def kJournalHeaderSize_def at t)
qed

text \<open>Whatever beginning of a record a crash leaves behind is recognised as one, and is not
  mistaken for a preallocated tail.\<close>

lemma journal_magic_bytes: "i < 4 \<Longrightarrow> le_bytes 4 kJournalMagic ! i = ucast (drop_bit (8 * i) kJournalMagic AND 0xFF)"
  by (rule nth_le_bytes)

lemma get_u32_cong:
  assumes "off + 4 \<le> length a" "off + 4 \<le> length b" "\<And>i. i < off + 4 \<Longrightarrow> a ! i = b ! i"
  shows "get_u32 a off = get_u32 b off"
  unfolding get_u32_def le_value_def using assms by (intro fold_cong) auto

lemma record_prefix_valid:
  assumes "payload_fits max_payload payload" and "wire_record ty seq payload = bs @ missing"
  shows "is_valid_record_prefix bs max_payload"
proof -
  let ?h = "make_header kJournalMagic (record_type_code ty) seq (length payload)"
  let ?w = "wire_record ty seq payload"
  have w: "?w = ?h @ payload @ le_bytes 4 (crc32c (?h @ payload) 0)" by (simp add: wire_record_def Let_def)
  have nth: "bs ! i = ?w ! i" if "i < length bs" for i using assms(2) that by (simp add: nth_append)
  have head: "?w = le_bytes 4 kJournalMagic @ le_bytes 2 kFormatVersion @ drop 6 ?w"
    by (simp add: w make_header_def header_fields_def Let_def)
  have "prefix_byte_ok bs max_payload i" if i: "i < length bs" for i
  proof -
    consider "i < 4" | "i = 4" | "i = 5" | "i = 19" | "4 \<le> i" "i \<noteq> 4" "i \<noteq> 5" "i \<noteq> 19" by linarith
    then show ?thesis
    proof cases
      case 1
      then have "?w ! i = le_bytes 4 kJournalMagic ! i" by (subst head) (simp add: nth_append)
      with 1 i show ?thesis by (simp add: prefix_byte_ok_def nth journal_magic_bytes)
    next
      case 2
      have "?w ! 4 = le_bytes 2 kFormatVersion ! 0" by (subst head) (simp add: nth_append)
      with 2 i show ?thesis by (simp add: prefix_byte_ok_def nth nth_le_bytes)
    next
      case 3
      have "?w ! 5 = le_bytes 2 kFormatVersion ! 1" by (subst head) (simp add: nth_append)
      with 3 i show ?thesis by (simp add: prefix_byte_ok_def nth nth_le_bytes)
    next
      case 4
      have "get_u32 bs 16 = get_u32 ?w 16" using 4 i by (intro get_u32_cong) (auto intro: nth)
      then show ?thesis
        using 4 payload_fits_word(2) [OF assms(1)] make_header_at(5) [OF w] by (simp add: prefix_byte_ok_def)
    next
      case 5
      then show ?thesis by (simp add: prefix_byte_ok_def)
    qed
  qed
  then show ?thesis by (auto simp: is_valid_record_prefix_def list_all_iff)
qed

lemma record_prefix_not_zero:
  assumes "wire_record ty seq payload = bs @ missing" and "bs \<noteq> []"
  shows "\<not> is_all_zero bs"
proof -
  have "bs ! 0 = wire_record ty seq payload ! 0" using assms by (simp add: nth_append)
  also have "\<dots> = le_bytes 4 kJournalMagic ! 0"
    by (simp add: wire_record_def make_header_def header_fields_def Let_def nth_append)
  also have "\<dots> \<noteq> 0" by (simp add: nth_le_bytes kJournalMagic_def)
  finally show ?thesis using assms(2) by (auto simp: is_all_zero_def list_all_iff)
qed

end
