(* ===== verification/BHG_Journal.thy ===== *)
theory BHG_Journal
  imports BHG_Record
begin

text \<open>
  The journal (\<open>journal.hpp\<close>, \<open>journal.cpp\<close>): the append-side handle with its buffering and its
  single publish point, and the scanner that replays intact records, recovers a torn tail and
  refuses everything else.

  The files of a store are the record \<open>disk\<close>: the journal, the snapshot and the staging file,
  each absent or a string of bytes. The operating system answers every call that can fail from
  \<open>dk_faults\<close>: a zero, or nothing left, is success, \<open>Suc k\<close> is a failure after \<open>k\<close> bytes. The queries
  of the status of a file (\<open>is_regular_file\<close>, before a scan, a truncation and the reading of a
  snapshot) are assumed to answer truthfully; an error there, which the code takes for an absent
  file, is not modelled. What was handed to \<open>fwrite\<close> and not yet flushed is \<open>jw_buffer\<close>.
\<close>

subsection \<open>Files\<close>

record disk =
  dk_journal :: "bytes option"
  dk_snapshot :: "bytes option"
  dk_staging :: "bytes option"
  dk_faults :: "nat list"

definition io_call :: "disk \<Rightarrow> nat option \<times> disk" where
  "io_call d =
     (case dk_faults d of
        [] \<Rightarrow> (None, d)
      | 0 # fs \<Rightarrow> (None, d\<lparr>dk_faults := fs\<rparr>)
      | Suc k # fs \<Rightarrow> (Some k, d\<lparr>dk_faults := fs\<rparr>))"

definition io_ok :: "disk \<Rightarrow> bool \<times> disk" where
  "io_ok d = (let (r, d) = io_call d in (r = None, d))"

text \<open>Bytes that reach the journal file.\<close>

definition journal_write :: "bytes \<Rightarrow> disk \<Rightarrow> disk" where
  "journal_write bs d = d\<lparr>dk_journal := map_option (\<lambda>j. j @ bs) (dk_journal d)\<rparr>"

definition file_size :: "disk \<Rightarrow> nat \<times> disk" where
  "file_size d =
     (case dk_journal d of
        None \<Rightarrow> (0, d)
      | Some j \<Rightarrow> (let (ok, d) = io_ok d in (if ok then length j else 0, d)))"

definition truncate_file :: "nat \<Rightarrow> disk \<Rightarrow> outcome \<times> disk" where
  "truncate_file n d =
     (case dk_journal d of
        None \<Rightarrow> (O_NotFound, d)
      | Some j \<Rightarrow>
          (let (ok, d) = io_ok d in
           if \<not> ok then (O_Rejected, d) else (O_Ok, d\<lparr>dk_journal := Some (take n j)\<rparr>)))"

definition read_whole_file :: "u64 \<Rightarrow> disk \<Rightarrow> (outcome + bytes) \<times> disk" where
  "read_whole_file max_bytes d =
     (case dk_journal d of
        None \<Rightarrow> (Inl O_NotFound, d)
      | Some j \<Rightarrow>
          (let (ok, d) = io_ok d in
           if \<not> ok then (Inl O_NotFound, d)
           else if length j > unat max_bytes then (Inl O_Oversized, d)
           else
             (let (ok, d) = io_ok d in
              if \<not> ok then (Inl O_NotFound, d)
              else
                (let (ok, d) = io_ok d in
                 if \<not> ok then (Inl O_Corrupt, d) else (Inr j, d)))))"

subsection \<open>The writer\<close>

record journal_writer =
  jw_open :: bool
  jw_buffer :: bytes
  jw_bytes :: u64
  jw_pending :: u64

definition journal_writer_new :: journal_writer where
  "journal_writer_new = \<lparr>jw_open = False, jw_buffer = [], jw_bytes = 0, jw_pending = 0\<rparr>"

text \<open>\<open>fflush\<close> moves the buffer to the file, a part of it when it fails; \<open>fsync\<close> may fail after it.\<close>

definition flush_and_sync :: "journal_writer \<Rightarrow> disk \<Rightarrow> bool \<times> journal_writer \<times> disk" where
  "flush_and_sync jw d =
     (let (r, d) = io_call d in
      case r of
        Some k \<Rightarrow> (False, jw\<lparr>jw_buffer := drop k (jw_buffer jw)\<rparr>, journal_write (take k (jw_buffer jw)) d)
      | None \<Rightarrow>
          (let (ok, d) = io_ok (journal_write (jw_buffer jw) d) in (ok, jw\<lparr>jw_buffer := []\<rparr>, d)))"

definition jw_close :: "journal_writer \<Rightarrow> disk \<Rightarrow> outcome \<times> journal_writer \<times> disk" where
  "jw_close jw d =
     (if \<not> jw_open jw then (O_Ok, jw, d)
      else
        (let (ok, jw, d) = flush_and_sync jw d;
             (rc, d) = io_ok d
         in (if ok \<and> rc then O_Ok else O_Rejected,
             jw\<lparr>jw_open := False, jw_buffer := [], jw_pending := 0\<rparr>,
             if rc then journal_write (jw_buffer jw) d else d)))"

definition open_append :: "bool \<Rightarrow> journal_writer \<Rightarrow> disk \<Rightarrow> outcome \<times> journal_writer \<times> disk" where
  "open_append truncating jw d =
     (let (jw, d) = (if jw_open jw then snd (jw_close jw d) else (jw, d));
          (ok, d) = io_ok d
      in if \<not> ok then (O_Unavailable, jw\<lparr>jw_open := False\<rparr>, d)
         else
           (let d = d\<lparr>dk_journal := Some (if truncating then [] else case dk_journal d of None \<Rightarrow> [] | Some j \<Rightarrow> j)\<rparr>;
                (n, d) = (if truncating then (0, d) else file_size d)
            in (O_Ok, jw\<lparr>jw_open := True, jw_buffer := [], jw_bytes := of_nat n, jw_pending := 0\<rparr>, d)))"

definition jw_append :: "record_type \<Rightarrow> u64 \<Rightarrow> bytes \<Rightarrow> journal_writer \<Rightarrow> disk \<Rightarrow> outcome \<times> journal_writer \<times> disk" where
  "jw_append ty seq payload jw d =
     (if \<not> jw_open jw then (O_Invalid, jw, d)
      else
        (let w = encode_record ty seq payload (writer_new (length payload + kJournalHeaderSize + kJournalTrailerSize))
         in if \<not> wok w then (O_Exhausted, jw, d)
            else
              (let (r, d) = io_call d;
                   written = (case r of None \<Rightarrow> length (wbuf w) | Some k \<Rightarrow> min k (length (wbuf w)));
                   jw' = jw\<lparr>jw_buffer := jw_buffer jw @ take written (wbuf w)\<rparr>
               in if written \<noteq> length (wbuf w) then (O_Rejected, jw', d)
                  else (O_Ok, jw'\<lparr>jw_bytes := jw_bytes jw + of_nat (length (wbuf w)),
                      jw_pending := jw_pending jw + of_nat (length (wbuf w))\<rparr>, d))))"

definition jw_commit :: "journal_writer \<Rightarrow> disk \<Rightarrow> outcome \<times> journal_writer \<times> disk" where
  "jw_commit jw d =
     (if \<not> jw_open jw then (O_Invalid, jw, d)
      else
        (let (ok, jw, d) = flush_and_sync jw d in
         if \<not> ok then (O_Rejected, jw, d) else (O_Ok, jw\<lparr>jw_pending := 0\<rparr>, d)))"

subsection \<open>The scanner\<close>

record scan_report =
  js_outcome :: outcome
  js_records :: u64
  js_valid_bytes :: u64
  js_tail_bytes :: u64
  js_torn_tail :: bool
  js_zero_tail :: bool
  js_last_seq :: u64
  js_detail :: string

definition scan_report_new :: scan_report where
  "scan_report_new = \<lparr>js_outcome = O_Ok, js_records = 0, js_valid_bytes = 0, js_tail_bytes = 0,
     js_torn_tail = False, js_zero_tail = False, js_last_seq = 0, js_detail = []\<rparr>"

text \<open>A visitor: what it makes of a record, given its own state.\<close>

type_synonym 's visitor = "record_type \<Rightarrow> u64 \<Rightarrow> bytes \<Rightarrow> 's \<Rightarrow> outcome \<times> 's"

definition scan_refuse :: "outcome \<Rightarrow> string \<Rightarrow> scan_report \<Rightarrow> scan_report" where
  "scan_refuse oc detail rep = rep\<lparr>js_outcome := oc, js_detail := detail\<rparr>"

definition scan_zero :: "nat \<Rightarrow> scan_report \<Rightarrow> scan_report" where
  "scan_zero n rep = rep\<lparr>js_zero_tail := True, js_tail_bytes := of_nat n,
     js_detail := ''all-zero preallocated tail''\<rparr>"

definition scan_torn :: "nat \<Rightarrow> scan_report \<Rightarrow> scan_report" where
  "scan_torn n rep = rep\<lparr>js_torn_tail := True, js_tail_bytes := of_nat n,
     js_detail := ''torn tail recovered''\<rparr>"

text \<open>After the loop.\<close>

definition scan_done :: "scan_report \<Rightarrow> scan_report" where
  "scan_done rep = rep\<lparr>js_outcome := O_Ok,
     js_detail := (if js_detail rep = [] then ''journal scanned'' else js_detail rep)\<rparr>"

text \<open>One round of the loop: the final report, or where and with what the next round goes on.\<close>

definition scan_step ::
  "'s visitor \<Rightarrow> u32 \<Rightarrow> u64 \<Rightarrow> bytes \<Rightarrow> nat \<Rightarrow> u64 \<Rightarrow> scan_report \<Rightarrow> 's \<Rightarrow>
   (scan_report \<times> 's) + (nat \<times> u64 \<times> scan_report \<times> 's)" where
  "scan_step visit max_payload max_records data pos expected rep s =
     (let remaining = length data - pos; tail = drop pos data; header = take kJournalHeaderSize tail in
      if remaining = 0 then Inl (scan_done rep, s)
      else if remaining < kJournalHeaderSize then
        if is_all_zero tail then Inl (scan_done (scan_zero remaining rep), s)
        else if \<not> is_valid_record_prefix tail max_payload then
          Inl (scan_refuse O_Corrupt ''trailing bytes are not a valid record prefix''
            (rep\<lparr>js_tail_bytes := of_nat remaining\<rparr>), s)
        else Inl (scan_done (scan_torn remaining rep), s)
      else if get_u32 header 0 \<noteq> kJournalMagic then
        if is_all_zero tail then Inl (scan_done (scan_zero remaining rep), s)
        else Inl (scan_refuse O_Corrupt ''bad record magic'' rep, s)
      else
        (case decode_record_header header max_payload of
           Inl oc \<Rightarrow> Inl (scan_refuse oc ''record header rejected'' rep, s)
         | Inr rh \<Rightarrow>
             if rh_seq rh \<noteq> expected then
               Inl (scan_refuse O_Corrupt ''record sequence regression or gap'' rep, s)
             else
               (let len = unat (rh_payload_len rh); need = kJournalHeaderSize + len + kJournalTrailerSize in
                if need > remaining then
                  if \<not> is_valid_record_prefix (take (min remaining kJournalHeaderSize) tail) max_payload then
                    Inl (scan_refuse O_Corrupt ''truncated record with inconsistent header'' rep, s)
                  else Inl (scan_done (scan_torn remaining rep), s)
                else
                  (let rec = take need tail in
                   if crc32c (take (kJournalHeaderSize + len) rec) 0 \<noteq> get_u32 rec (kJournalHeaderSize + len) then
                     Inl (scan_refuse O_Corrupt ''record integrity check failed'' rep, s)
                   else if js_records rep \<ge> max_records then
                     Inl (scan_refuse O_Exhausted ''journal record bound exceeded'' rep, s)
                   else
                     (let (oc, s) = visit (rh_type rh) (rh_seq rh) (take len (drop kJournalHeaderSize rec)) s in
                      if \<not> is_affirmative oc then
                        Inl (scan_refuse oc ''record payload rejected during replay'' rep, s)
                      else
                        Inr (pos + need, rh_seq rh + 1,
                          rep\<lparr>js_records := js_records rep + 1, js_valid_bytes := of_nat (pos + need),
                            js_last_seq := rh_seq rh\<rparr>, s))))))"

lemma scan_step_advances:
  "scan_step visit max_payload max_records data pos expected rep s = Inr (pos', r) \<Longrightarrow>
    pos < pos' \<and> pos' \<le> length data"
  by (auto simp: scan_step_def Let_def kJournalHeaderSize_def kJournalTrailerSize_def
      split: if_splits sum.splits prod.splits)

function scan_loop ::
  "'s visitor \<Rightarrow> u32 \<Rightarrow> u64 \<Rightarrow> bytes \<Rightarrow> nat \<Rightarrow> u64 \<Rightarrow> scan_report \<Rightarrow> 's \<Rightarrow> scan_report \<times> 's" where
  "scan_loop visit max_payload max_records data pos expected rep s =
     (case scan_step visit max_payload max_records data pos expected rep s of
        Inl res \<Rightarrow> res
      | Inr (pos, expected, rep, s) \<Rightarrow> scan_loop visit max_payload max_records data pos expected rep s)"
  by pat_completeness auto
termination
  by (relation "measure (\<lambda>(_, _, _, data, pos, _, _, _). length data - pos)")
    (auto dest!: scan_step_advances)

declare scan_loop.simps [simp del]

definition scan_journal ::
  "u32 \<Rightarrow> u64 \<Rightarrow> u64 \<Rightarrow> u64 \<Rightarrow> 's visitor \<Rightarrow> 's \<Rightarrow> disk \<Rightarrow> scan_report \<times> 's \<times> disk" where
  "scan_journal max_payload max_bytes max_records first_seq visit s d =
     (if dk_journal d = None then (scan_report_new\<lparr>js_detail := ''journal absent''\<rparr>, s, d)
      else
        (let (res, d) = read_whole_file max_bytes d in
         case res of
           Inl oc \<Rightarrow> (scan_refuse oc ''journal unreadable or oversized'' scan_report_new, s, d)
         | Inr data \<Rightarrow>
             (let (rep, s) = scan_loop visit max_payload max_records data 0
                (if first_seq = 0 then 1 else first_seq) scan_report_new s
              in (rep, s, d))))"

subsection \<open>Logs\<close>

text \<open>The bytes of consecutive records from a sequence number on, and what a visitor makes of them.\<close>

type_synonym log_entry = "record_type \<times> bytes"

fun wire_log :: "u64 \<Rightarrow> log_entry list \<Rightarrow> bytes" where
  "wire_log seq [] = []"
| "wire_log seq ((ty, payload) # rs) = wire_record ty seq payload @ wire_log (seq + 1) rs"

fun visit_log :: "'s visitor \<Rightarrow> u64 \<Rightarrow> log_entry list \<Rightarrow> 's \<Rightarrow> outcome \<times> 's" where
  "visit_log visit seq [] s = (O_Ok, s)"
| "visit_log visit seq ((ty, payload) # rs) s =
     (let (oc, s) = visit ty seq payload s in
      if \<not> is_affirmative oc then (oc, s) else visit_log visit (seq + 1) rs s)"

abbreviation log_fits :: "u32 \<Rightarrow> log_entry list \<Rightarrow> bool" where
  "log_fits max_payload rs \<equiv> list_all (\<lambda>r. payload_fits max_payload (snd r)) rs"

lemma u64_less: "unat (x :: u64) < 18446744073709551616"
  using unsigned_less [of x, where 'a = nat] by simp

lemma wire_log_append:
  "wire_log seq (rs @ rs') = wire_log seq rs @ wire_log (seq + of_nat (length rs)) rs'"
  by (induction seq rs rule: wire_log.induct) (simp_all add: add.assoc add.commute)

lemma visit_log_append:
  "visit_log visit seq (rs @ rs') s =
    (let (oc, s) = visit_log visit seq rs s in
     if is_affirmative oc then visit_log visit (seq + of_nat (length rs)) rs' s else (oc, s))"
  by (induction visit seq rs s rule: visit_log.induct)
    (simp_all add: Let_def is_affirmative_def add.assoc add.commute split: prod.splits)

text \<open>A record read by the scanner: its header, then its checksum, the bound and the visitor.\<close>

lemma scan_step_header:
  assumes "data = pre @ make_header kJournalMagic (record_type_code ty) seq (length payload) @ body @ le_bytes 4 c @ rest"
    and "length body = length payload" "payload_fits max_payload payload" "pos = length pre"
  shows "scan_step visit max_payload max_records data pos seq rep s =
    (if crc32c (make_header kJournalMagic (record_type_code ty) seq (length payload) @ body) 0 \<noteq> c then
       Inl (scan_refuse O_Corrupt ''record integrity check failed'' rep, s)
     else if js_records rep \<ge> max_records then
       Inl (scan_refuse O_Exhausted ''journal record bound exceeded'' rep, s)
     else
       (let (oc, s) = visit ty seq body s in
        if \<not> is_affirmative oc then Inl (scan_refuse oc ''record payload rejected during replay'' rep, s)
        else Inr (pos + (28 + length payload), seq + 1,
          rep\<lparr>js_records := js_records rep + 1, js_valid_bytes := of_nat (pos + (28 + length payload)),
            js_last_seq := seq\<rparr>, s)))"
proof -
  let ?h = "make_header kJournalMagic (record_type_code ty) seq (length payload)"
  note h = make_header_at(1) [of ?h kJournalMagic "record_type_code ty" seq "length payload" "[]", simplified]
    decode_record_header_wire [OF assms(3), of ty seq]
  have tail: "drop pos data = ?h @ body @ le_bytes 4 c @ rest" using assms(1,4) by simp
  have need: "take (28 + length body) (?h @ body @ le_bytes 4 c @ rest) = ?h @ body @ le_bytes 4 c" by simp
  have "get_u32 (?h @ body @ le_bytes 4 c) (24 + length body) = c"
    by (rule get_u32_at [where pre = "?h @ body" and post = "[]"]) simp_all
  then show ?thesis
    using payload_fits_word(1) [OF assms(3)] assms(2)
    by (auto simp: scan_step_def Let_def tail h need kJournalHeaderSize_def kJournalTrailerSize_def
        assms(1,4) add.commute add.left_commute split: prod.splits)
qed

lemma scan_step_record:
  assumes "data = pre @ wire_record ty seq payload @ rest" "pos = length pre"
    and "payload_fits max_payload payload" "js_records rep < max_records" "visit ty seq payload s = (O_Ok, s')"
  shows "scan_step visit max_payload max_records data pos seq rep s =
    Inr (pos + (28 + length payload), seq + 1,
      rep\<lparr>js_records := js_records rep + 1, js_valid_bytes := of_nat (pos + (28 + length payload)),
        js_last_seq := seq\<rparr>, s')"
proof -
  let ?h = "make_header kJournalMagic (record_type_code ty) seq (length payload)"
  have d: "data = pre @ ?h @ payload @ le_bytes 4 (crc32c (?h @ payload) 0) @ rest"
    using assms(1) by (simp add: wire_record_def Let_def)
  show ?thesis
    unfolding scan_step_header [OF d refl assms(3,2)] using assms(4,5) by (simp add: is_affirmative_def)
qed

lemma scan_step_end: "pos = length data \<Longrightarrow>
    scan_step visit max_payload max_records data pos expected rep s = Inl (scan_done rep, s)"
  by (simp add: scan_step_def)

lemma scan_step_torn:
  assumes "data = pre @ bs" "pos = length pre" "bs \<noteq> []"
    and "wire_record ty seq payload = bs @ missing" "missing \<noteq> []" "payload_fits max_payload payload"
  shows "scan_step visit max_payload max_records data pos seq rep s = Inl (scan_done (scan_torn (length bs) rep), s)"
proof (cases "length bs < 24")
  case True
  then show ?thesis
    using assms record_prefix_valid [OF assms(6,4)] record_prefix_not_zero [OF assms(4,3)]
    by (simp add: scan_step_def Let_def kJournalHeaderSize_def)
next
  case False
  let ?h = "make_header kJournalMagic (record_type_code ty) seq (length payload)"
  note h = make_header_at(1) [of ?h kJournalMagic "record_type_code ty" seq "length payload" "[]", simplified]
    decode_record_header_wire [OF assms(6), of ty seq]
  have "take 24 bs = take 24 (bs @ missing)" using False by simp
  also have "\<dots> = ?h" unfolding assms(4) [symmetric] by (simp add: wire_record_def Let_def)
  finally have t: "take 24 bs = ?h" .
  have "length bs + length missing = 28 + length payload" using arg_cong [OF assms(4), of length] by simp
  moreover have "length missing > 0" using assms(5) by simp
  ultimately have short: "28 + length payload > length bs" by linarith
  have "wire_record ty seq payload = ?h @ (payload @ le_bytes 4 (crc32c (?h @ payload) 0))"
    by (simp add: wire_record_def Let_def)
  then have "is_valid_record_prefix ?h max_payload" by (rule record_prefix_valid [OF assms(6)])
  then show ?thesis
    using False short payload_fits_word(1) [OF assms(6)] assms(1-3)
    by (simp add: scan_step_def Let_def h t kJournalHeaderSize_def kJournalTrailerSize_def min_def)
qed

text \<open>What a scan reports after replaying a log.\<close>

definition replayed :: "nat \<Rightarrow> nat \<Rightarrow> u64 \<Rightarrow> scan_report \<Rightarrow> scan_report" where
  "replayed n pos seq rep =
     (if n = 0 then rep
      else rep\<lparr>js_records := js_records rep + of_nat n, js_valid_bytes := of_nat pos, js_last_seq := seq\<rparr>)"

lemma scan_loop_log:
  assumes "data = pre @ wire_log seq rs @ tail" "pos = length pre"
    and "log_fits max_payload rs" "unat (js_records rep) + length rs \<le> unat max_records"
    and "visit_log visit seq rs s = (O_Ok, s')"
  shows "scan_loop visit max_payload max_records data pos seq rep s =
    scan_loop visit max_payload max_records data (length pre + length (wire_log seq rs)) (seq + of_nat (length rs))
      (replayed (length rs) (length pre + length (wire_log seq rs)) (seq + of_nat (length rs) - 1) rep) s'"
  using assms
proof (induction rs arbitrary: pre pos seq rep s)
  case Nil
  then show ?case by (simp add: replayed_def)
next
  case (Cons r rs)
  obtain ty payload where r: "r = (ty, payload)" by (rule prod.exhaust)
  obtain s1 where v: "visit ty seq payload s = (O_Ok, s1)" "visit_log visit (seq + 1) rs s1 = (O_Ok, s')"
    using Cons.prems(5) by (auto simp: r Let_def is_affirmative_def split: prod.splits if_splits)
  have lt: "js_records rep < max_records"
    using Cons.prems(4) by (simp add: word_less_nat_alt)
  let ?rep = "rep\<lparr>js_records := js_records rep + 1, js_valid_bytes := of_nat (pos + (28 + length payload)),
        js_last_seq := seq\<rparr>"
  have one: "scan_loop visit max_payload max_records data pos seq rep s =
      scan_loop visit max_payload max_records data (pos + (28 + length payload)) (seq + 1) ?rep s1"
    using scan_step_record [of data pre ty seq payload "wire_log (seq + 1) rs @ tail" pos max_payload rep
        max_records visit s s1] Cons.prems r v(1) lt
    by (subst scan_loop.simps) simp
  have inc: "unat (js_records rep + 1) = Suc (unat (js_records rep))"
    using Cons.prems(4) u64_less [of max_records] by (simp add: unat_word_ariths(1))
  show ?case
    unfolding one
    using Cons.prems r v(2) inc
    by (subst Cons.IH [of "pre @ wire_record ty seq payload" "seq + 1" _ "?rep" s1])
      (auto simp: replayed_def add.assoc add.commute add.left_commute)
qed

lemma scan_loop_end: "pos = length data \<Longrightarrow>
    scan_loop visit max_payload max_records data pos expected rep s = (scan_done rep, s)"
  by (subst scan_loop.simps) (simp add: scan_step_end)

lemma scan_loop_torn:
  assumes "data = pre @ bs" "pos = length pre" "bs \<noteq> []"
    and "wire_record ty seq payload = bs @ missing" "missing \<noteq> []" "payload_fits max_payload payload"
  shows "scan_loop visit max_payload max_records data pos seq rep s = (scan_done (scan_torn (length bs) rep), s)"
  by (subst scan_loop.simps) (simp add: scan_step_torn [OF assms])

text \<open>What may stand behind the last intact record: the beginning of the next one.\<close>

definition torn_part :: "u32 \<Rightarrow> u64 \<Rightarrow> bytes \<Rightarrow> bool" where
  "torn_part max_payload seq tail \<longleftrightarrow> (\<exists>ty payload missing.
     payload_fits max_payload payload \<and> missing \<noteq> [] \<and> wire_record ty seq payload = tail @ missing)"

lemma read_whole_file_ok:
  "dk_journal d = Some j \<Longrightarrow> dk_faults d = [] \<Longrightarrow> length j \<le> unat max_bytes \<Longrightarrow>
    read_whole_file max_bytes d = (Inr j, d)"
  by (simp add: read_whole_file_def io_ok_def io_call_def)

lemma scan_journal_log:
  assumes "dk_journal d = Some (wire_log first rs @ tail)" "dk_faults d = []"
    and "length (wire_log first rs @ tail) \<le> unat max_bytes" "length rs \<le> unat max_records"
    and "log_fits max_payload rs" "first \<noteq> 0" "torn_part max_payload (first + of_nat (length rs)) tail"
    and "visit_log visit first rs s = (O_Ok, s')"
  shows "scan_journal max_payload max_bytes max_records first visit s d =
    (scan_done ((if tail = [] then (\<lambda>r. r) else scan_torn (length tail))
       (replayed (length rs) (length (wire_log first rs)) (first + of_nat (length rs) - 1) scan_report_new)), s', d)"
proof -
  let ?data = "wire_log first rs @ tail"
  have "scan_loop visit max_payload max_records ?data 0 first scan_report_new s =
    (scan_done ((if tail = [] then (\<lambda>r. r) else scan_torn (length tail))
       (replayed (length rs) (length (wire_log first rs)) (first + of_nat (length rs) - 1) scan_report_new)), s')"
  proof (cases "tail = []")
    case True
    then show ?thesis
      using scan_loop_log [of ?data "[]" first rs tail 0 max_payload scan_report_new max_records visit s s'] assms
      by (simp add: scan_report_new_def scan_loop_end)
  next
    case False
    then show ?thesis
      using scan_loop_log [of ?data "[]" first rs tail 0 max_payload scan_report_new max_records visit s s'] assms
      by (auto simp: scan_report_new_def torn_part_def intro!: scan_loop_torn)
  qed
  then show ?thesis
    using read_whole_file_ok [OF assms(1,2,3)] assms(1,6) by (simp add: scan_journal_def)
qed

text \<open>
  C33. Recovery after a crash: scanning a journal that holds consecutive intact records, followed by
  nothing or by any proper beginning of the next record, succeeds. The visitor sees exactly the
  intact records in order, and the report gives their number, the length of the intact part and
  the length of the torn tail.
\<close>
theorem journal_recovery:
  assumes "dk_journal d = Some (wire_log first rs @ tail)" "dk_faults d = []"
    and "length (wire_log first rs @ tail) \<le> unat max_bytes" "length rs \<le> unat max_records"
    and "log_fits max_payload rs" "first \<noteq> 0" "torn_part max_payload (first + of_nat (length rs)) tail"
    and "visit_log visit first rs s = (O_Ok, s')"
  shows "\<exists>rep. scan_journal max_payload max_bytes max_records first visit s d = (rep, s', d)
    \<and> js_outcome rep = O_Ok \<and> unat (js_records rep) = length rs
    \<and> unat (js_valid_bytes rep) = length (wire_log first rs) \<and> unat (js_tail_bytes rep) = length tail
    \<and> (js_torn_tail rep \<longleftrightarrow> tail \<noteq> []) \<and> \<not> js_zero_tail rep"
proof -
  have "length rs < 2 ^ 64" "length (wire_log first rs) < 2 ^ 64" "length tail < 2 ^ 64"
    using assms(3,4) u64_less [of max_bytes] u64_less [of max_records] by simp_all
  then show ?thesis
    unfolding scan_journal_log [OF assms]
    by (auto simp: scan_done_def scan_torn_def replayed_def scan_report_new_def unat_of_nat)
qed

definition sample_log :: "log_entry list" where
  "sample_log = [(RT_Checkpoint, [1, 2, 3]), (RT_EpochAdvance, [4, 5, 6, 7, 8])]"

definition sample_disk :: "bytes \<Rightarrow> disk" where
  "sample_disk j = \<lparr>dk_journal = Some j, dk_snapshot = None, dk_staging = None, dk_faults = []\<rparr>"

definition count_visits :: "nat visitor" where "count_visits ty seq payload n = (O_Ok, Suc n)"

lemma sample_log_visits: "visit_log count_visits first sample_log 0 = (O_Ok, 2)"
  by (simp add: sample_log_def count_visits_def is_affirmative_def)

lemma sample_log_facts: "log_fits 64 sample_log" "length sample_log = 2" "length (wire_log first sample_log) = 64"
  by (simp_all add: sample_log_def payload_fits_def)

lemma sample_payload_fits: "payload_fits 64 [7, 8, 9]"
  by (simp add: payload_fits_def)

theorem journal_recovery_witness:
  "\<exists>rep. scan_journal 64 4096 16 1 count_visits 0
      (sample_disk (wire_log 1 sample_log @ take 10 (wire_record RT_Boot 3 [7]))) =
      (rep, 2, sample_disk (wire_log 1 sample_log @ take 10 (wire_record RT_Boot 3 [7])))
    \<and> js_outcome rep = O_Ok \<and> unat (js_records rep) = 2 \<and> unat (js_valid_bytes rep) = 64
    \<and> unat (js_tail_bytes rep) = 10 \<and> js_torn_tail rep \<and> \<not> js_zero_tail rep"
proof -
  have "torn_part 64 3 (take 10 (wire_record RT_Boot 3 [7]))"
    unfolding torn_part_def
    by (rule exI [of _ RT_Boot], rule exI [of _ "[7]"], rule exI [of _ "drop 10 (wire_record RT_Boot 3 [7])"])
      (simp add: payload_fits_def flip: length_greater_0_conv)
  then show ?thesis
    using journal_recovery [of "sample_disk (wire_log 1 sample_log @ take 10 (wire_record RT_Boot 3 [7]))" 1
        sample_log "take 10 (wire_record RT_Boot 3 [7])" 4096 16 64 count_visits 0 2]
    by (simp add: sample_disk_def sample_log_facts sample_log_visits flip: length_greater_0_conv)
qed

text \<open>
  C34. Corruption is never mistaken for a torn tail: when up to four consecutive bytes of the payload
  of a complete record were altered, the scan refuses the journal as corrupt at that record, after
  the records before it.
\<close>
theorem journal_corruption_refused:
  assumes "dk_journal d = Some (wire_log first rs @
      make_header kJournalMagic (record_type_code ty) (first + of_nat (length rs)) (length (pre @ xs @ post))
      @ (pre @ ys @ post) @ le_bytes 4 (crc32c (make_header kJournalMagic (record_type_code ty)
           (first + of_nat (length rs)) (length (pre @ xs @ post)) @ pre @ xs @ post) 0) @ rest)"
    and "dk_faults d = []" "length (the (dk_journal d)) \<le> unat max_bytes" "length rs \<le> unat max_records"
    and "log_fits max_payload rs" "payload_fits max_payload (pre @ xs @ post)" "first \<noteq> 0"
    and "visit_log visit first rs s = (O_Ok, s')"
    and "length ys = length xs" "length xs \<le> 4" "ys \<noteq> xs"
  shows "\<exists>rep. scan_journal max_payload max_bytes max_records first visit s d = (rep, s', d)
    \<and> js_outcome rep = O_Corrupt \<and> unat (js_records rep) = length rs \<and> \<not> js_torn_tail rep"
proof -
  let ?seq = "first + of_nat (length rs)"
  let ?h = "make_header kJournalMagic (record_type_code ty) ?seq (length (pre @ xs @ post))"
  let ?c = "crc32c (?h @ pre @ xs @ post) 0"
  let ?tail = "?h @ (pre @ ys @ post) @ le_bytes 4 ?c @ rest"
  let ?data = "wire_log first rs @ ?tail"
  let ?rep = "replayed (length rs) (length (wire_log first rs)) (?seq - 1) scan_report_new"
  have bad: "crc32c (?h @ pre @ ys @ post) 0 \<noteq> ?c"
    unfolding crc32c_chain [of ?h] using assms(9-11) by (intro crc32c_burst) auto
  have "scan_loop visit max_payload max_records ?data 0 first scan_report_new s =
      scan_loop visit max_payload max_records ?data (length (wire_log first rs)) ?seq ?rep s'"
    using scan_loop_log [of ?data "[]" first rs ?tail 0 max_payload scan_report_new max_records visit s s'] assms(4,5,8)
    by (simp add: scan_report_new_def)
  also have "\<dots> = (scan_refuse O_Corrupt ''record integrity check failed'' ?rep, s')"
    by (subst scan_loop.simps, subst scan_step_header [OF refl _ assms(6) refl]) (use bad assms(9) in simp_all)
  finally have "scan_journal max_payload max_bytes max_records first visit s d =
      (scan_refuse O_Corrupt ''record integrity check failed'' ?rep, s', d)"
    using read_whole_file_ok [OF assms(1,2)] assms(1,3,7) by (simp add: scan_journal_def)
  moreover have "length rs < 2 ^ 64" using assms(4) u64_less [of max_records] by simp
  ultimately show ?thesis
    by (auto simp: scan_refuse_def replayed_def scan_report_new_def unat_of_nat)
qed

theorem journal_corruption_refused_witness:
  "\<exists>rep. scan_journal 64 4096 16 1 count_visits 0
      (sample_disk (wire_log 1 sample_log @ make_header kJournalMagic (record_type_code RT_Boot) 3 3
        @ [7, 0, 9] @ le_bytes 4 (crc32c (make_header kJournalMagic (record_type_code RT_Boot) 3 3 @ [7, 8, 9]) 0))) =
      (rep, 2, sample_disk (wire_log 1 sample_log @ make_header kJournalMagic (record_type_code RT_Boot) 3 3
        @ [7, 0, 9] @ le_bytes 4 (crc32c (make_header kJournalMagic (record_type_code RT_Boot) 3 3 @ [7, 8, 9]) 0)))
    \<and> js_outcome rep = O_Corrupt \<and> unat (js_records rep) = 2 \<and> \<not> js_torn_tail rep"
  using journal_corruption_refused [of "sample_disk (wire_log 1 sample_log
      @ make_header kJournalMagic (record_type_code RT_Boot) 3 3
      @ [7, 0, 9] @ le_bytes 4 (crc32c (make_header kJournalMagic (record_type_code RT_Boot) 3 3 @ [7, 8, 9]) 0))"
      1 sample_log RT_Boot "[7]" "[8]" "[9]" "[0]" "[]" 4096 16 64 count_visits 0 2]
  by (simp add: sample_disk_def sample_log_facts sample_log_visits sample_payload_fits numeral_3_eq_3)

end
