(* ===== verification/BHG_Snapshot.thy ===== *)
theory BHG_Snapshot
  imports BHG_Journal
begin

text \<open>
  Snapshots (\<open>snapshot.hpp\<close>, \<open>snapshot.cpp\<close>): the staged, atomically renamed replacement of the
  snapshot file and its validating reader. The staging file is \<open>dk_staging\<close>; a crash in the middle
  of a replacement is a replacement whose calls fail from some point on.
\<close>

subsection \<open>Writing\<close>

definition kSnapshotKindLineage :: u16 where "kSnapshotKindLineage = 1"

definition clean_staging :: "disk \<Rightarrow> disk" where
  "clean_staging d = (let (ok, d) = io_ok d in if ok then d\<lparr>dk_staging := None\<rparr> else d)"

definition atomic_replace :: "disk \<Rightarrow> bool \<times> disk" where
  "atomic_replace d =
     (let (ok, d) = io_ok d in
      if ok then (True, d\<lparr>dk_snapshot := dk_staging d, dk_staging := None\<rparr>) else (False, d))"

text \<open>The bytes of the snapshot file, or that they do not fit into the writer.\<close>

definition snapshot_document :: "u64 \<Rightarrow> bytes \<Rightarrow> bytes option" where
  "snapshot_document seq payload =
     (let header = make_header kSnapshotMagic kSnapshotKindLineage seq (length payload);
          w = wseq [w_raw header, w_raw payload]
            (writer_new (length payload + kSnapshotHeaderSize + kSnapshotTrailerSize))
      in if \<not> wok w then None
         else
           (let w = w_raw (le_bytes 4 (crc32c (wbuf w) 0)) w in if \<not> wok w then None else Some (wbuf w)))"

definition write_snapshot_atomic :: "u64 \<Rightarrow> bytes \<Rightarrow> disk \<Rightarrow> outcome \<times> disk" where
  "write_snapshot_atomic seq payload d =
     (case snapshot_document seq payload of
        None \<Rightarrow> (O_Exhausted, d)
      | Some doc \<Rightarrow>
          (let (opened, d) = io_ok d in
           if \<not> opened then (O_Unavailable, d)
           else
             (let (r, d) = io_call d;
                  written = (case r of None \<Rightarrow> length doc | Some k \<Rightarrow> min k (length doc));
                  d = d\<lparr>dk_staging := Some (take written doc)\<rparr>;
                  ok = (written = length doc);
                  (ok, d) = (if ok then io_ok d else (False, d));
                  (ok, d) = (if ok then io_ok d else (False, d));
                  (closed, d) = io_ok d;
                  ok = (ok \<and> closed)
              in if \<not> ok then (O_Rejected, clean_staging d)
                 else
                   (let (replaced, d) = atomic_replace d in
                    if \<not> replaced then (O_Rejected, clean_staging d) else (O_Ok, d)))))"

subsection \<open>Reading\<close>

record snapshot_result =
  sr_present :: bool
  sr_outcome :: outcome
  sr_snapshot_seq :: u64
  sr_payload :: bytes
  sr_detail :: string

definition snapshot_result_new :: snapshot_result where
  "snapshot_result_new = \<lparr>sr_present = False, sr_outcome = O_Ok, sr_snapshot_seq = 0, sr_payload = [], sr_detail = []\<rparr>"

definition snapshot_refuse :: "outcome \<Rightarrow> string \<Rightarrow> snapshot_result" where
  "snapshot_refuse oc detail = snapshot_result_new\<lparr>sr_present := True, sr_outcome := oc, sr_detail := detail\<rparr>"

text \<open>The checks on the bytes that were read.\<close>

definition check_snapshot :: "bytes \<Rightarrow> u32 \<Rightarrow> snapshot_result" where
  "check_snapshot data max_payload =
     (let len = get_u32 data 16; payload_end = kSnapshotHeaderSize + unat len in
      if get_u32 data 0 \<noteq> kSnapshotMagic then snapshot_refuse O_Corrupt ''snapshot magic mismatch''
      else if get_u16 data 4 \<noteq> kFormatVersion then snapshot_refuse O_Unsupported ''unsupported snapshot version''
      else if get_u16 data 6 \<noteq> kSnapshotKindLineage then snapshot_refuse O_Unsupported ''unsupported snapshot kind''
      else if len > max_payload then
        snapshot_refuse O_Oversized ''snapshot payload exceeds the configured bound''
      else if unat len + (kSnapshotHeaderSize + kSnapshotTrailerSize) \<noteq> length data then
        snapshot_refuse O_Corrupt ''snapshot length disagrees with its size''
      else if crc32c (take 20 data) 0 \<noteq> get_u32 data 20 then
        snapshot_refuse O_Corrupt ''snapshot header integrity check failed''
      else if crc32c (take payload_end data) 0 \<noteq> get_u32 data payload_end then
        snapshot_refuse O_Corrupt ''snapshot payload integrity check failed''
      else \<lparr>sr_present = True, sr_outcome = O_Ok, sr_snapshot_seq = get_u64 data 8,
        sr_payload = take (unat len) (drop kSnapshotHeaderSize data), sr_detail = ''snapshot loaded''\<rparr>)"

definition read_snapshot :: "u32 \<Rightarrow> disk \<Rightarrow> snapshot_result \<times> disk" where
  "read_snapshot max_payload d =
     (case dk_snapshot d of
        None \<Rightarrow> (snapshot_result_new\<lparr>sr_detail := ''snapshot absent''\<rparr>, d)
      | Some data \<Rightarrow>
          (let min_size = kSnapshotHeaderSize + kSnapshotTrailerSize; (ok, d) = io_ok d in
           if \<not> ok then (snapshot_refuse O_NotFound ''snapshot unreadable'', d)
           else if length data < min_size then
             (snapshot_refuse O_Corrupt ''snapshot shorter than its header'', d)
           else if length data > unat max_payload + min_size then
             (snapshot_refuse O_Oversized ''snapshot exceeds the configured bound'', d)
           else
             (let (ok, d) = io_ok d in
              if \<not> ok then (snapshot_refuse O_Unavailable ''snapshot open failed'', d)
              else
                (let (ok, d) = io_ok d in
                 if \<not> ok then (snapshot_refuse O_Corrupt ''short read'', d)
                 else (check_snapshot data max_payload, d)))))"

subsection \<open>Round trip and atomicity\<close>

definition wire_snapshot :: "u64 \<Rightarrow> bytes \<Rightarrow> bytes" where
  "wire_snapshot seq payload =
     (let b = make_header kSnapshotMagic kSnapshotKindLineage seq (length payload) @ payload
      in b @ le_bytes 4 (crc32c b 0))"

lemma length_wire_snapshot [simp]: "length (wire_snapshot seq payload) = 28 + length payload"
  by (simp add: wire_snapshot_def Let_def)

lemma snapshot_document_wire:
  "length payload + 28 < 2 ^ 64 \<Longrightarrow> snapshot_document seq payload = Some (wire_snapshot seq payload)"
  by (simp add: snapshot_document_def wire_snapshot_def Let_def wseq_def w_raw_def w_put_def writer_new_def
      kSnapshotHeaderSize_def kSnapshotTrailerSize_def)

lemma check_snapshot_wire:
  assumes "payload_fits max_payload payload"
  shows "check_snapshot (wire_snapshot seq payload) max_payload =
    \<lparr>sr_present = True, sr_outcome = O_Ok, sr_snapshot_seq = seq, sr_payload = payload,
      sr_detail = ''snapshot loaded''\<rparr>"
proof -
  let ?h = "make_header kSnapshotMagic kSnapshotKindLineage seq (length payload)"
  let ?c = "crc32c (?h @ payload) 0"
  have w: "wire_snapshot seq payload = ?h @ payload @ le_bytes 4 ?c"
    by (simp add: wire_snapshot_def Let_def)
  note at = make_header_at [OF w]
  have "get_u32 (wire_snapshot seq payload) (24 + length payload) = ?c"
    by (rule get_u32_at [where pre = "?h @ payload" and post = "[]"]) (simp_all add: w)
  moreover have "take (24 + length payload) (wire_snapshot seq payload) = ?h @ payload" by (simp add: w)
  ultimately show ?thesis
    unfolding check_snapshot_def Let_def kSnapshotHeaderSize_def kSnapshotTrailerSize_def at
      payload_fits_word(1) [OF assms]
    using payload_fits_word(2) [OF assms] by simp
qed

lemma read_snapshot_wire:
  assumes "dk_snapshot d = Some (wire_snapshot seq payload)" "dk_faults d = []" "payload_fits max_payload payload"
  shows "read_snapshot max_payload d =
    (\<lparr>sr_present = True, sr_outcome = O_Ok, sr_snapshot_seq = seq, sr_payload = payload,
      sr_detail = ''snapshot loaded''\<rparr>, d)"
  using assms check_snapshot_wire [OF assms(3)]
  by (simp add: read_snapshot_def io_ok_def io_call_def kSnapshotHeaderSize_def kSnapshotTrailerSize_def
      payload_fits_def)

lemma io_ok_files: "io_ok d = (b, d') \<Longrightarrow>
    dk_snapshot d' = dk_snapshot d \<and> dk_journal d' = dk_journal d \<and> dk_staging d' = dk_staging d"
  by (auto simp: io_ok_def io_call_def split: list.splits nat.splits)

lemma io_call_files: "io_call d = (r, d') \<Longrightarrow>
    dk_snapshot d' = dk_snapshot d \<and> dk_journal d' = dk_journal d \<and> dk_staging d' = dk_staging d"
  by (auto simp: io_call_def split: list.splits nat.splits)

lemma clean_staging_files [simp]:
  "dk_snapshot (clean_staging d) = dk_snapshot d" "dk_journal (clean_staging d) = dk_journal d"
  by (auto simp: clean_staging_def Let_def dest!: io_ok_files split: prod.splits)

lemma write_snapshot_files:
  assumes "write_snapshot_atomic seq payload d = (oc, d')" "length payload + 28 < 2 ^ 64"
  shows "dk_journal d' = dk_journal d"
    "dk_snapshot d' = (if oc = O_Ok then Some (wire_snapshot seq payload) else dk_snapshot d)"
  using assms snapshot_document_wire [OF assms(2), of seq]
  by (auto simp: write_snapshot_atomic_def atomic_replace_def Let_def
      dest!: io_ok_files io_call_files split: prod.splits if_splits)

lemma payload_fits_size: "payload_fits max_payload payload \<Longrightarrow> length payload + 28 < 2 ^ 64"
  using unsigned_less [of max_payload, where 'a = nat] by (simp add: payload_fits_def)

text \<open>
  C35. Snapshot replacement is atomic under any failures of the operating system: the journal is not
  touched; a replacement that reports success leaves a file that reads back as the given sequence
  number and payload, and any other outcome leaves the previous snapshot as it was.
\<close>
theorem snapshot_replacement_atomic:
  assumes "payload_fits max_payload payload" and "write_snapshot_atomic seq payload d = (oc, d')"
  shows "dk_journal d' = dk_journal d
    \<and> (oc \<noteq> O_Ok \<longrightarrow> dk_snapshot d' = dk_snapshot d)
    \<and> (oc = O_Ok \<longrightarrow> fst (read_snapshot max_payload (d'\<lparr>dk_faults := []\<rparr>)) =
        \<lparr>sr_present = True, sr_outcome = O_Ok, sr_snapshot_seq = seq, sr_payload = payload,
          sr_detail = ''snapshot loaded''\<rparr>)"
  using write_snapshot_files [OF assms(2) payload_fits_size [OF assms(1)]]
    read_snapshot_wire [of "d'\<lparr>dk_faults := []\<rparr>" seq payload max_payload] assms(1)
  by simp

theorem snapshot_replacement_atomic_witness:
  "dk_snapshot (snd (write_snapshot_atomic 9 [1, 2, 3]
      \<lparr>dk_journal = None, dk_snapshot = Some [5], dk_staging = None, dk_faults = [0, 0, 0, Suc 7]\<rparr>)) = Some [5]"
proof -
  let ?d = "\<lparr>dk_journal = None, dk_snapshot = Some [5], dk_staging = None, dk_faults = [0, 0, 0, Suc 7]\<rparr>"
  have "payload_fits 64 [1, 2, 3]" by (simp add: payload_fits_def)
  moreover have "fst (write_snapshot_atomic 9 [1, 2, 3] ?d) = O_Rejected"
    by (simp add: write_snapshot_atomic_def snapshot_document_wire io_ok_def io_call_def Let_def)
  ultimately show ?thesis
    using snapshot_replacement_atomic [of 64 "[1, 2, 3]" 9 ?d O_Rejected
        "snd (write_snapshot_atomic 9 [1, 2, 3] ?d)"] by (simp add: prod_eq_iff)
qed

end
