(* ===== verification/BHG_Store.thy ===== *)
theory BHG_Store
  imports BHG_Snapshot
begin

text \<open>
  The durable store (\<open>store.hpp\<close>, \<open>store.cpp\<close>): the durable state and its codec, the replay of
  journal records into it, the commit operations that append a record before they change the
  state, checkpoints, and the opening of a store, which replays what is durable, advances the
  incarnation boundary and fences every intent that was open before the restart.

  A store carries its configuration, its state and the files it works on. An operation maps a
  store to its outcome and the store it leaves; the two values the nonce source yields during an
  opening are arguments.
\<close>

subsection \<open>Durable state\<close>

record store_config =
  cf_max_record_payload :: u32
  cf_max_journal_bytes :: u64
  cf_max_journal_records :: u64
  cf_max_snapshot_payload :: u32
  cf_max_lineage_records :: u32
  cf_max_prior_fences :: u32

definition default_store_config :: store_config where
  "default_store_config = \<lparr>cf_max_record_payload = push_bit 16 1, cf_max_journal_bytes = 64 * 1024 * 1024,
     cf_max_journal_records = 65536, cf_max_snapshot_payload = push_bit 20 4,
     cf_max_lineage_records = 4096, cf_max_prior_fences = 1024\<rparr>"

record lineage_entry =
  ln_type :: record_type
  ln_seq :: u64
  ln_at :: i64
  ln_decision :: u64
  ln_fence :: u64
  ln_scope :: scope
  ln_gens :: generation_vector
  ln_outcome :: outcome
  ln_classification :: classification
  ln_reason :: reason_code
  ln_boot :: u64
  ln_incarnation :: u64
  ln_from_prior_incarnation :: bool

record durable_state =
  ds_format_version :: u16
  ds_snapshot_seq :: u64
  ds_epoch :: u64
  ds_boot_count :: u64
  ds_open_count :: u64
  ds_policy :: u64
  ds_policy_fingerprint :: u64
  ds_last_boot :: u64
  ds_last_incarnation :: u64
  ds_total_decisions :: u64
  ds_total_fences :: u64
  ds_total_interruptions :: u64
  ds_lineage_seen :: u64
  ds_lineage_dropped :: u64
  ds_lineage :: "lineage_entry list"
  ds_fences :: "fence_state_payload list"

definition lineage_entry_new :: lineage_entry where
  "lineage_entry_new = \<lparr>ln_type = RT_DecisionCommit, ln_seq = 0, ln_at = 0, ln_decision = 0, ln_fence = 0,
     ln_scope = scope_nil, ln_gens = gens_nil, ln_outcome = O_Ok, ln_classification = C_NoEvidence,
     ln_reason = R_None, ln_boot = 0, ln_incarnation = 0, ln_from_prior_incarnation = False\<rparr>"

definition durable_state_new :: durable_state where
  "durable_state_new = \<lparr>ds_format_version = kFormatVersion, ds_snapshot_seq = 0, ds_epoch = 0, ds_boot_count = 0,
     ds_open_count = 0, ds_policy = 0, ds_policy_fingerprint = 0, ds_last_boot = 0, ds_last_incarnation = 0,
     ds_total_decisions = 0, ds_total_fences = 0, ds_total_interruptions = 0, ds_lineage_seen = 0,
     ds_lineage_dropped = 0, ds_lineage = [], ds_fences = []\<rparr>"

definition r_format_version :: "u16 decoder" where
  "r_format_version = dbind r_u16 (\<lambda>v. dbind (dguard (v = kFormatVersion) O_Unsupported) (\<lambda>_. dret v))"

definition encode_lineage_entry :: "lineage_entry \<Rightarrow> writer \<Rightarrow> writer" where
  "encode_lineage_entry v =
     wseq [w_u16 (record_type_code (ln_type v)), w_u64 (ln_seq v), w_i64 (ln_at v),
       w_u64 (ln_decision v), w_u64 (ln_fence v), encode_scope (ln_scope v),
       encode_generation_vector (ln_gens v), w_u8 (outcome_code (ln_outcome v)),
       w_u16 (classification_code (ln_classification v)),
       w_u16 (reason_code_code (ln_reason v)), w_u64 (ln_boot v), w_u64 (ln_incarnation v),
       w_boolean (ln_from_prior_incarnation v)]"

definition decode_lineage_entry :: "lineage_entry decoder" where
  "decode_lineage_entry =
     dbind (decode_enum is_valid_record_type record_type_of_code) (\<lambda>type.
     dbind r_u64 (\<lambda>seq. dbind r_i64 (\<lambda>at. dbind r_u64 (\<lambda>decision.
     dbind r_u64 (\<lambda>fence. dbind decode_scope (\<lambda>scope.
     dbind decode_generation_vector (\<lambda>gens.
     dbind (r_enum8 is_valid_outcome outcome_of_code) (\<lambda>outcome.
     dbind (decode_enum is_valid_classification classification_of_code) (\<lambda>classification.
     dbind (decode_enum is_valid_reason_code reason_code_of_code) (\<lambda>reason.
     dbind r_u64 (\<lambda>boot. dbind r_u64 (\<lambda>incarnation.
     dbind r_boolean (\<lambda>from_prior_incarnation.
     dret \<lparr>ln_type = type, ln_seq = seq, ln_at = at, ln_decision = decision, ln_fence = fence,
       ln_scope = scope, ln_gens = gens, ln_outcome = outcome,
       ln_classification = classification, ln_reason = reason, ln_boot = boot,
       ln_incarnation = incarnation, ln_from_prior_incarnation = from_prior_incarnation\<rparr>)))))))))))))"

definition encode_durable_state :: "durable_state \<Rightarrow> writer \<Rightarrow> writer" where
  "encode_durable_state v =
     wseq [w_u16 (ds_format_version v), w_u64 (ds_snapshot_seq v), w_u64 (ds_epoch v),
       w_u64 (ds_boot_count v), w_u64 (ds_open_count v), w_u64 (ds_policy v),
       w_u64 (ds_policy_fingerprint v), w_u64 (ds_last_boot v), w_u64 (ds_last_incarnation v),
       w_u64 (ds_total_decisions v), w_u64 (ds_total_fences v),
       w_u64 (ds_total_interruptions v), w_u64 (ds_lineage_seen v),
       w_u64 (ds_lineage_dropped v), w_vector encode_lineage_entry (ds_lineage v),
       w_vector encode_fence_state (ds_fences v)]"

definition decode_durable_state :: "durable_state decoder" where
  "decode_durable_state =
     dbind r_format_version (\<lambda>format_version. dbind r_u64 (\<lambda>snapshot_seq.
     dbind r_u64 (\<lambda>epoch. dbind r_u64 (\<lambda>boot_count.
     dbind r_u64 (\<lambda>open_count. dbind r_u64 (\<lambda>policy.
     dbind r_u64 (\<lambda>policy_fingerprint. dbind r_u64 (\<lambda>last_boot.
     dbind r_u64 (\<lambda>last_incarnation. dbind r_u64 (\<lambda>total_decisions.
     dbind r_u64 (\<lambda>total_fences. dbind r_u64 (\<lambda>total_interruptions.
     dbind r_u64 (\<lambda>lineage_seen. dbind r_u64 (\<lambda>lineage_dropped.
     dbind (r_vector 0x100000 32 decode_lineage_entry) (\<lambda>lineage.
     dbind (r_vector 0x100000 8 decode_fence_state) (\<lambda>fences.
     dret \<lparr>ds_format_version = format_version, ds_snapshot_seq = snapshot_seq, ds_epoch = epoch,
       ds_boot_count = boot_count, ds_open_count = open_count, ds_policy = policy,
       ds_policy_fingerprint = policy_fingerprint, ds_last_boot = last_boot,
       ds_last_incarnation = last_incarnation, ds_total_decisions = total_decisions,
       ds_total_fences = total_fences, ds_total_interruptions = total_interruptions,
       ds_lineage_seen = lineage_seen, ds_lineage_dropped = lineage_dropped,
       ds_lineage = lineage, ds_fences = fences\<rparr>))))))))))))))))"

subsection \<open>The store\<close>

record open_report =
  or_outcome :: outcome
  or_boot :: u64
  or_incarnation :: u64
  or_epoch :: u64
  or_boot_count :: u64
  or_open_count :: u64
  or_journal_records_replayed :: u64
  or_reclaimed_tail_bytes :: u64
  or_fenced_prior_fences :: u64
  or_prior_lineage_entries :: u64
  or_snapshot_present :: bool
  or_torn_tail_recovered :: bool
  or_zero_tail_observed :: bool
  or_restart_detected :: bool
  or_policy_restored :: bool
  or_detail :: string

definition open_report_new :: open_report where
  "open_report_new = \<lparr>or_outcome = O_Ok, or_boot = 0, or_incarnation = 0, or_epoch = 0, or_boot_count = 0,
     or_open_count = 0, or_journal_records_replayed = 0, or_reclaimed_tail_bytes = 0,
     or_fenced_prior_fences = 0, or_prior_lineage_entries = 0, or_snapshot_present = False,
     or_torn_tail_recovered = False, or_zero_tail_observed = False, or_restart_detected = False,
     or_policy_restored = False, or_detail = []\<rparr>"

record store =
  so_config :: store_config
  so_policy :: fence_policy
  so_journal :: journal_writer
  so_state :: durable_state
  so_report :: open_report
  so_boot :: u64
  so_incarnation :: u64
  so_last_seq :: u64
  so_opened :: bool
  so_journal_bytes :: u64
  so_disk :: disk

definition store_new :: "store_config \<Rightarrow> fence_policy \<Rightarrow> disk \<Rightarrow> store" where
  "store_new config policy d = \<lparr>so_config = config, so_policy = policy, so_journal = journal_writer_new,
     so_state = durable_state_new, so_report = open_report_new, so_boot = 0, so_incarnation = 0,
     so_last_seq = 0, so_opened = False, so_journal_bytes = 0, so_disk = d\<rparr>"

definition lineage_accounting_closed :: "store \<Rightarrow> bool" where
  "lineage_accounting_closed st \<longleftrightarrow>
     ds_lineage_seen (so_state st) = of_nat (length (ds_lineage (so_state st))) + ds_lineage_dropped (so_state st)"

text \<open>A full lineage loses its oldest entry.\<close>

definition push_lineage :: "u32 \<Rightarrow> lineage_entry \<Rightarrow> durable_state \<Rightarrow> durable_state" where
  "push_lineage max_lineage e s =
     (let s = s\<lparr>ds_lineage_seen := ds_lineage_seen s + 1\<rparr>;
          s = (if length (ds_lineage s) \<ge> unat max_lineage
               then s\<lparr>ds_lineage := tl (ds_lineage s), ds_lineage_dropped := ds_lineage_dropped s + 1\<rparr>
               else s)
      in s\<lparr>ds_lineage := ds_lineage s @ [e]\<rparr>)"

text \<open>The lineage entries that replay and commit build for a decision, a fence state and an
  interruption.\<close>

definition decision_entry :: "record_type \<Rightarrow> u64 \<Rightarrow> decision \<Rightarrow> lineage_entry" where
  "decision_entry ty seq d = lineage_entry_new\<lparr>ln_type := ty, ln_seq := seq, ln_at := d_decided_at d,
     ln_decision := d_id d, ln_scope := d_scope d, ln_gens := d_gens d, ln_outcome := d_outcome d,
     ln_classification := d_classification d, ln_reason := d_primary_reason d, ln_boot := d_boot d,
     ln_incarnation := d_incarnation d, ln_fence := (if d_has_intent d then fi_id (d_intent d) else 0)\<rparr>"

definition fence_entry :: "record_type \<Rightarrow> u64 \<Rightarrow> fence_state_payload \<Rightarrow> lineage_entry" where
  "fence_entry ty seq f = lineage_entry_new\<lparr>ln_type := ty, ln_seq := seq, ln_at := fi_issued_at (fp_intent f),
     ln_decision := fi_decision (fp_intent f), ln_fence := fi_id (fp_intent f), ln_scope := fi_scope (fp_intent f),
     ln_gens := fi_gens (fp_intent f), ln_outcome := O_Ok, ln_classification := C_NoEvidence,
     ln_reason := (if fp_terminal_reason f \<noteq> R_None then fp_terminal_reason f else fi_reason (fp_intent f)),
     ln_boot := fi_boot (fp_intent f), ln_incarnation := fi_incarnation (fp_intent f)\<rparr>"

definition interruption_entry :: "u64 \<Rightarrow> interruption_payload \<Rightarrow> lineage_entry" where
  "interruption_entry seq p = lineage_entry_new\<lparr>ln_type := RT_InterruptionCommit, ln_seq := seq, ln_at := ip_at p,
     ln_decision := ip_decision p, ln_fence := ip_fence p, ln_scope := ip_scope p,
     ln_gens := gens_nil\<lparr>gv_epoch := ip_prior_epoch p\<rparr>, ln_outcome := O_Interrupted,
     ln_classification := C_Unknown, ln_reason := ip_reason p, ln_boot := ip_prior_boot p,
     ln_incarnation := ip_prior_incarnation p, ln_from_prior_incarnation := True\<rparr>"

text \<open>The position of a fence in the vector, by the id of its intent.\<close>

fun find_fence :: "u64 \<Rightarrow> fence_state_payload list \<Rightarrow> nat option" where
  "find_fence k [] = None"
| "find_fence k (f # fs) = (if fi_id (fp_intent f) = k then Some 0 else map_option Suc (find_fence k fs))"

subsection \<open>Replay\<close>

definition applied :: "u64 \<Rightarrow> durable_state \<Rightarrow> store \<Rightarrow> outcome \<times> store" where
  "applied seq s st = (O_Ok, st\<lparr>so_state := s, so_last_seq := seq\<rparr>)"

definition apply_boot :: "u64 \<Rightarrow> bytes \<Rightarrow> store \<Rightarrow> outcome \<times> store" where
  "apply_boot seq payload st =
     (case decode_all decode_boot_payload payload of
        Inl oc \<Rightarrow> (oc, st)
      | Inr p \<Rightarrow>
          (let s = so_state st in
           if bp_epoch p \<le> ds_epoch s \<and> ds_epoch s \<noteq> 0 then (O_Corrupt, st)
           else applied seq (s\<lparr>ds_epoch := bp_epoch p, ds_boot_count := bp_boot_count p,
             ds_open_count := bp_open_count p, ds_policy := bp_policy p, ds_last_boot := bp_boot p,
             ds_last_incarnation := bp_incarnation p\<rparr>) st))"

definition apply_policy :: "u64 \<Rightarrow> bytes \<Rightarrow> store \<Rightarrow> outcome \<times> store" where
  "apply_policy seq payload st =
     (case decode_all decode_policy payload of
        Inl oc \<Rightarrow> (oc, st)
      | Inr p \<Rightarrow> applied seq ((so_state st)\<lparr>ds_policy := pol_version p,
          ds_policy_fingerprint := policy_fingerprint p\<rparr>) st)"

definition apply_checkpoint :: "u64 \<Rightarrow> bytes \<Rightarrow> store \<Rightarrow> outcome \<times> store" where
  "apply_checkpoint seq payload st =
     (case decode_all decode_checkpoint_payload payload of
        Inl oc \<Rightarrow> (oc, st)
      | Inr p \<Rightarrow> if cp_snapshot_seq p > seq then (O_Corrupt, st) else applied seq (so_state st) st)"

definition apply_decision :: "record_type \<Rightarrow> u64 \<Rightarrow> bytes \<Rightarrow> store \<Rightarrow> outcome \<times> store" where
  "apply_decision ty seq payload st =
     (case decode_all decode_decision payload of
        Inl oc \<Rightarrow> (oc, st)
      | Inr d \<Rightarrow>
          (let s = push_lineage (cf_max_lineage_records (so_config st)) (decision_entry ty seq d) (so_state st)
           in applied seq (if ty = RT_DecisionCommit then s\<lparr>ds_total_decisions := ds_total_decisions s + 1\<rparr> else s) st))"

definition apply_fence :: "record_type \<Rightarrow> u64 \<Rightarrow> bytes \<Rightarrow> store \<Rightarrow> outcome \<times> store" where
  "apply_fence ty seq payload st =
     (case decode_all decode_fence_state payload of
        Inl oc \<Rightarrow> (oc, st)
      | Inr f \<Rightarrow>
          (let s = so_state st; it = find_fence (fi_id (fp_intent f)) (ds_fences s) in
           if it = None \<and> length (ds_fences s) \<ge> unat (cf_max_prior_fences (so_config st))
           then (O_Exhausted, st)
           else
             (let s = s\<lparr>ds_fences := (case it of None \<Rightarrow> ds_fences s @ [f] | Some i \<Rightarrow> (ds_fences s)[i := f])\<rparr>;
                  s = (if ty = RT_FenceIntentCommit then s\<lparr>ds_total_fences := ds_total_fences s + 1\<rparr> else s)
              in applied seq (push_lineage (cf_max_lineage_records (so_config st)) (fence_entry ty seq f) s) st)))"

definition apply_interruption :: "u64 \<Rightarrow> bytes \<Rightarrow> store \<Rightarrow> outcome \<times> store" where
  "apply_interruption seq payload st =
     (case decode_all decode_interruption_payload payload of
        Inl oc \<Rightarrow> (oc, st)
      | Inr p \<Rightarrow>
          (let s = so_state st; s = s\<lparr>ds_total_interruptions := ds_total_interruptions s + 1\<rparr>
           in applied seq (push_lineage (cf_max_lineage_records (so_config st)) (interruption_entry seq p) s) st))"

definition apply_epoch :: "u64 \<Rightarrow> bytes \<Rightarrow> store \<Rightarrow> outcome \<times> store" where
  "apply_epoch seq payload st =
     (case decode_all r_u64 payload of
        Inl oc \<Rightarrow> (oc, st)
      | Inr e \<Rightarrow> if e \<le> ds_epoch (so_state st) then (O_Corrupt, st)
          else applied seq ((so_state st)\<lparr>ds_epoch := e\<rparr>) st)"

definition apply_record :: "store visitor" where
  "apply_record ty seq payload st =
     (case ty of
        RT_Boot \<Rightarrow> apply_boot seq payload st
      | RT_PolicyCommit \<Rightarrow> apply_policy seq payload st
      | RT_Checkpoint \<Rightarrow> apply_checkpoint seq payload st
      | RT_DecisionCommit \<Rightarrow> apply_decision ty seq payload st
      | RT_RestorationCommit \<Rightarrow> apply_decision ty seq payload st
      | RT_EvidenceLineageCommit \<Rightarrow> apply_decision ty seq payload st
      | RT_FenceIntentCommit \<Rightarrow> apply_fence ty seq payload st
      | RT_FenceAckCommit \<Rightarrow> apply_fence ty seq payload st
      | RT_FenceEffectCommit \<Rightarrow> apply_fence ty seq payload st
      | RT_FenceRevokeCommit \<Rightarrow> apply_fence ty seq payload st
      | RT_InterruptionCommit \<Rightarrow> apply_interruption seq payload st
      | RT_EpochAdvance \<Rightarrow> apply_epoch seq payload st)"

text \<open>\<open>ReplayVisitor::visit\<close>; its count of skipped records is never read.\<close>

definition replay_visit :: "u64 \<Rightarrow> store visitor" where
  "replay_visit snapshot_seq ty seq payload st =
     (if seq \<le> snapshot_seq then (O_Ok, st) else apply_record ty seq payload st)"

subsection \<open>Commits\<close>

definition append_commit :: "record_type \<Rightarrow> bytes \<Rightarrow> store \<Rightarrow> (outcome \<times> u64) \<times> store" where
  "append_commit ty payload st =
     (if \<not> so_opened st then ((O_Invalid, 0), st)
      else if so_journal_bytes st \<ge> cf_max_journal_bytes (so_config st) then ((O_Exhausted, 0), st)
      else
        (let seq = so_last_seq st + 1;
             (oc, jw, d) = jw_append ty seq payload (so_journal st) (so_disk st);
             st = st\<lparr>so_journal := jw, so_disk := d\<rparr>
         in if \<not> is_affirmative oc then ((oc, 0), st)
            else
              (let (oc, jw, d) = jw_commit (so_journal st) (so_disk st);
                   st = st\<lparr>so_journal := jw, so_disk := d\<rparr>
               in if \<not> is_affirmative oc then ((oc, 0), st)
                  else ((O_Ok, seq), st\<lparr>so_journal_bytes := jw_bytes jw, so_last_seq := seq\<rparr>))))"

definition commit_policy :: "fence_policy \<Rightarrow> store \<Rightarrow> outcome \<times> store" where
  "commit_policy policy st =
     (let w = encode_policy policy (writer_new 1024) in
      if \<not> wok w then (O_Exhausted, st)
      else
        (let ((oc, seq), st) = append_commit RT_PolicyCommit (wbuf w) st in
         if \<not> is_affirmative oc then (oc, st)
         else (O_Ok, st\<lparr>so_state := (so_state st)\<lparr>ds_policy := pol_version policy,
           ds_policy_fingerprint := policy_fingerprint policy\<rparr>\<rparr>)))"

definition commit_decision :: "decision \<Rightarrow> store \<Rightarrow> outcome \<times> store" where
  "commit_decision d st =
     (let w = encode_decision d (writer_new kDefaultMaxDocumentBytes) in
      if \<not> wok w then (O_Exhausted, st)
      else
        (let ((oc, seq), st) = append_commit RT_DecisionCommit (wbuf w) st in
         if \<not> is_affirmative oc then (oc, st)
         else
           (let s = so_state st; s = s\<lparr>ds_total_decisions := ds_total_decisions s + 1\<rparr>
            in (O_Ok, st\<lparr>so_state := push_lineage (cf_max_lineage_records (so_config st))
                 (decision_entry RT_DecisionCommit seq d) s\<rparr>))))"

definition commit_fence_state :: "record_type \<Rightarrow> fence_state_payload \<Rightarrow> store \<Rightarrow> outcome \<times> store" where
  "commit_fence_state ty f st =
     (let w = encode_fence_state f (writer_new 1024) in
      if \<not> wok w then (O_Exhausted, st)
      else
        (let ((oc, seq), st) = append_commit ty (wbuf w) st in
         if \<not> is_affirmative oc then (oc, st)
         else
           (let s = so_state st; it = find_fence (fi_id (fp_intent f)) (ds_fences s) in
            if it = None \<and> length (ds_fences s) \<ge> unat (cf_max_prior_fences (so_config st))
            then (O_Exhausted, st)
            else
              (let s = (case it of
                   None \<Rightarrow>
                     (let s = s\<lparr>ds_fences := ds_fences s @ [f]\<rparr> in
                      if ty = RT_FenceIntentCommit then s\<lparr>ds_total_fences := ds_total_fences s + 1\<rparr> else s)
                 | Some i \<Rightarrow> s\<lparr>ds_fences := (ds_fences s)[i := f]\<rparr>)
               in (O_Ok, st\<lparr>so_state := push_lineage (cf_max_lineage_records (so_config st))
                    (fence_entry ty seq f) s\<rparr>)))))"

definition commit_interruption :: "interruption_payload \<Rightarrow> store \<Rightarrow> outcome \<times> store" where
  "commit_interruption p st =
     (let w = encode_interruption_payload p (writer_new 512) in
      if \<not> wok w then (O_Exhausted, st)
      else
        (let ((oc, seq), st) = append_commit RT_InterruptionCommit (wbuf w) st in
         if \<not> is_affirmative oc then (oc, st)
         else
           (let s = so_state st; s = s\<lparr>ds_total_interruptions := ds_total_interruptions s + 1\<rparr>
            in (O_Ok, st\<lparr>so_state := push_lineage (cf_max_lineage_records (so_config st))
                 (interruption_entry seq p) s\<rparr>))))"

subsection \<open>Checkpoints\<close>

definition build_snapshot_state :: "store \<Rightarrow> durable_state" where
  "build_snapshot_state st = (so_state st)\<lparr>ds_snapshot_seq := so_last_seq st\<rparr>"

definition checkpoint :: "store \<Rightarrow> outcome \<times> store" where
  "checkpoint st =
     (if \<not> so_opened st then (O_Invalid, st)
      else
        (let snap = build_snapshot_state st;
             w = encode_durable_state snap (writer_new (unat (cf_max_snapshot_payload (so_config st))))
         in if \<not> wok w then (O_Exhausted, st)
            else
              (let (oc, d) = write_snapshot_atomic (ds_snapshot_seq snap) (wbuf w) (so_disk st);
                   st = st\<lparr>so_disk := d\<rparr>
               in if \<not> is_affirmative oc then (oc, st)
                  else
                    (let (oc, jw, d) = jw_close (so_journal st) (so_disk st);
                         st = st\<lparr>so_journal := jw, so_disk := d\<rparr>
                     in if \<not> is_affirmative oc then (oc, st)
                        else
                          (let (oc, jw, d) = open_append True (so_journal st) (so_disk st);
                               st = st\<lparr>so_journal := jw, so_disk := d\<rparr>
                           in if \<not> is_affirmative oc then (oc, st)
                              else
                                (let st = st\<lparr>so_journal_bytes := 0, so_last_seq := ds_snapshot_seq snap\<rparr>;
                                     cw = encode_checkpoint_payload
                                       \<lparr>cp_snapshot_seq = ds_snapshot_seq snap, cp_epoch = ds_epoch (so_state st),
                                        cp_journal_generation = 0\<rparr> (writer_new 128)
                                 in if \<not> wok cw then (O_Exhausted, st)
                                    else
                                      (let ((oc, seq), st) = append_commit RT_Checkpoint (wbuf cw) st
                                       in (oc, st))))))))"

definition store_close :: "store \<Rightarrow> outcome \<times> store" where
  "store_close st =
     (let (oc, jw, d) = jw_close (so_journal st) (so_disk st)
      in (oc, st\<lparr>so_journal := jw, so_disk := d, so_opened := False\<rparr>))"

subsection \<open>Opening\<close>

definition open_fail :: "outcome \<Rightarrow> string \<Rightarrow> store \<Rightarrow> outcome \<times> store" where
  "open_fail oc detail st =
     (oc, st\<lparr>so_report := (so_report st)\<lparr>or_outcome := oc, or_detail := detail\<rparr>\<rparr>)"

text \<open>The snapshot, if there is one.\<close>

definition load_snapshot :: "store \<Rightarrow> outcome \<times> store" where
  "load_snapshot st =
     (let (snap, d) = read_snapshot (cf_max_snapshot_payload (so_config st)) (so_disk st);
          st = st\<lparr>so_disk := d\<rparr>
      in if \<not> sr_present snap then (O_Ok, st)
         else
           (let st = st\<lparr>so_report := (so_report st)\<lparr>or_snapshot_present := True\<rparr>\<rparr> in
            if \<not> is_affirmative (sr_outcome snap) then
              open_fail (sr_outcome snap) (''snapshot rejected: '' @ sr_detail snap) st
            else
              (case decode_durable_state (reader_new (sr_payload snap)) of
                 (Inl oc, _) \<Rightarrow> open_fail oc ''snapshot payload rejected'' st
               | (Inr s, r) \<Rightarrow>
                   (let st = st\<lparr>so_state := s\<rparr>; oc = fst (r_finish r) in
                    if \<not> is_affirmative oc then open_fail oc ''trailing bytes after snapshot payload'' st
                    else if ds_snapshot_seq s \<noteq> sr_snapshot_seq snap then
                      open_fail O_Corrupt ''snapshot sequence disagrees with its payload'' st
                    else if length (ds_lineage s) > unat (cf_max_lineage_records (so_config st)) then
                      open_fail O_Oversized ''snapshot lineage exceeds the configured bound'' st
                    else (O_Ok, st)))))"

text \<open>The journal behind it, and the reclaiming of a torn tail.\<close>

definition replay_journal :: "store \<Rightarrow> outcome \<times> store" where
  "replay_journal st =
     (let snapshot_seq = ds_snapshot_seq (so_state st); config = so_config st;
          st = st\<lparr>so_last_seq := snapshot_seq\<rparr>;
          (scan, st, d) = scan_journal (cf_max_record_payload config) (cf_max_journal_bytes config)
            (cf_max_journal_records config) (snapshot_seq + 1) (replay_visit snapshot_seq) st (so_disk st);
          st = st\<lparr>so_disk := d\<rparr>
      in if \<not> is_affirmative (js_outcome scan) then
           open_fail (js_outcome scan) (''journal rejected: '' @ js_detail scan) st
         else
           (let st = st\<lparr>so_report := (so_report st)\<lparr>or_journal_records_replayed := js_records scan,
                  or_torn_tail_recovered := js_torn_tail scan, or_zero_tail_observed := js_zero_tail scan\<rparr>\<rparr>;
                (oc, d) = (if js_torn_tail scan then truncate_file (unat (js_valid_bytes scan)) (so_disk st)
                           else (O_Ok, so_disk st));
                st = st\<lparr>so_disk := d\<rparr>
            in if \<not> is_affirmative oc then open_fail oc ''torn tail could not be reclaimed'' st
               else
                 (let rep = so_report st;
                      rep = (if js_torn_tail scan then rep\<lparr>or_reclaimed_tail_bytes := js_tail_bytes scan\<rparr> else rep);
                      rep = (if js_records scan > 0 \<or> or_snapshot_present rep
                             then rep\<lparr>or_restart_detected := True\<rparr> else rep);
                      rep = rep\<lparr>or_policy_restored :=
                        (ds_policy_fingerprint (so_state st) = policy_fingerprint (so_policy st))\<rparr>
                  in (O_Ok, st\<lparr>so_report := rep\<rparr>))))"

text \<open>The new incarnation, and the journal opened for it.\<close>

definition advance_incarnation :: "u64 \<Rightarrow> u64 \<Rightarrow> store \<Rightarrow> outcome \<times> store" where
  "advance_incarnation boot incarnation st =
     (let s = so_state st;
          s = s\<lparr>ds_boot_count := ds_boot_count s + 1, ds_open_count := ds_open_count s + 1,
            ds_epoch := ds_epoch s + 1\<rparr>;
          st = st\<lparr>so_state := s, so_boot := boot, so_incarnation := incarnation\<rparr>
      in if boot = 0 \<or> incarnation = 0 then
           open_fail O_Unavailable ''nonce source produced a nil identity'' st
         else
           (let st = st\<lparr>so_report := (so_report st)\<lparr>or_boot := boot, or_incarnation := incarnation,
                  or_epoch := ds_epoch s, or_boot_count := ds_boot_count s, or_open_count := ds_open_count s,
                  or_prior_lineage_entries := of_nat (length (ds_lineage s))\<rparr>,
                  so_state := s\<lparr>ds_lineage := map (\<lambda>e. e\<lparr>ln_from_prior_incarnation := True\<rparr>) (ds_lineage s)\<rparr>\<rparr>;
                (oc, jw, d) = open_append False (so_journal st) (so_disk st);
                st = st\<lparr>so_journal := jw, so_disk := d\<rparr>
            in if \<not> is_affirmative oc then open_fail oc ''journal not openable for append'' st
               else
                 (let (n, d) = file_size (so_disk st)
                  in (O_Ok, st\<lparr>so_disk := d, so_journal_bytes := of_nat n, so_opened := True\<rparr>))))"

definition commit_boot :: "i64 \<Rightarrow> provenance \<Rightarrow> store \<Rightarrow> outcome \<times> store" where
  "commit_boot now label st =
     (let s = so_state st;
          bw = encode_boot_payload \<lparr>bp_boot = so_boot st, bp_incarnation = so_incarnation st, bp_epoch = ds_epoch s,
            bp_started_at = now, bp_boot_count = ds_boot_count s, bp_open_count = ds_open_count s,
            bp_policy = pol_version (so_policy st), bp_policy_fingerprint = policy_fingerprint (so_policy st),
            bp_provenance = label\<rparr> (writer_new 256)
      in if \<not> wok bw then open_fail O_Exhausted ''boot record not encodable'' st
         else
           (let ((oc, seq), st) = append_commit RT_Boot (wbuf bw) st in
            if \<not> is_affirmative oc then open_fail oc ''boot record not durable'' st else (O_Ok, st)))"

definition recommit_policy :: "store \<Rightarrow> outcome \<times> store" where
  "recommit_policy st =
     (if or_policy_restored (so_report st) then (O_Ok, st)
      else
        (let (oc, st) = commit_policy (so_policy st) st in
         if \<not> is_affirmative oc then open_fail oc ''policy commit failed'' st
         else (O_Ok, st\<lparr>so_state := (so_state st)\<lparr>ds_policy := pol_version (so_policy st),
           ds_policy_fingerprint := policy_fingerprint (so_policy st)\<rparr>\<rparr>)))"

definition lifecycle_open :: "u8 \<Rightarrow> bool" where
  "lifecycle_open raw \<longleftrightarrow> \<not> (raw \<noteq> fence_lifecycle_code L_Intent \<and> raw \<noteq> fence_lifecycle_code L_Acknowledged \<and>
     raw \<noteq> fence_lifecycle_code L_EffectReported)"

text \<open>The loop over the fences, by position: each open one is closed and recorded twice, as an
  interruption and as a revocation.\<close>

fun fence_prior :: "i64 \<Rightarrow> nat list \<Rightarrow> u64 \<Rightarrow> store \<Rightarrow> outcome \<times> u64 \<times> store" where
  "fence_prior now [] n_fenced st = (O_Ok, n_fenced, st)"
| "fence_prior now (i # is) n_fenced st =
     (let s = so_state st; f = ds_fences s ! i in
      if \<not> lifecycle_open (fp_lifecycle f) then fence_prior now is n_fenced st
      else
        (let f = f\<lparr>fp_lifecycle := fence_lifecycle_code L_FencedByRestart,
               fp_terminal_reason := R_RestartFencedPriorAuthority\<rparr>;
             st = st\<lparr>so_state := s\<lparr>ds_fences := (ds_fences s)[i := f]\<rparr>\<rparr>;
             (oc, st) = commit_interruption \<lparr>ip_reason = R_RestartFencedPriorAuthority, ip_fence = fi_id (fp_intent f),
               ip_decision = fi_decision (fp_intent f), ip_scope = fi_scope (fp_intent f),
               ip_prior_epoch = gv_epoch (fi_gens (fp_intent f)), ip_prior_boot = fi_boot (fp_intent f),
               ip_prior_incarnation = fi_incarnation (fp_intent f), ip_at = now\<rparr> st
         in if \<not> is_affirmative oc then
              (let (oc, st) = open_fail oc ''interruption record not durable'' st in (oc, n_fenced, st))
            else
              (let (oc, st) = commit_fence_state RT_FenceRevokeCommit f st in
               if \<not> is_affirmative oc then
                 (let (oc, st) = open_fail oc ''fence revoke record not durable'' st in (oc, n_fenced, st))
               else fence_prior now is (n_fenced + 1) st)))"

definition fence_prior_authority :: "i64 \<Rightarrow> store \<Rightarrow> outcome \<times> store" where
  "fence_prior_authority now st =
     (let (oc, n_fenced, st) = fence_prior now [0..<length (ds_fences (so_state st))] 0 st in
      if \<not> is_affirmative oc then (oc, st)
      else (O_Ok, st\<lparr>so_report := (so_report st)\<lparr>or_fenced_prior_fences := n_fenced, or_outcome := O_Ok,
        or_detail := ''store open''\<rparr>\<rparr>))"

definition and_then :: "(store \<Rightarrow> outcome \<times> store) \<Rightarrow> (store \<Rightarrow> outcome \<times> store) \<Rightarrow> store \<Rightarrow> outcome \<times> store" where
  "and_then f g st = (let (oc, st) = f st in if \<not> is_affirmative oc then (oc, st) else g st)"

text \<open>What is durable is loaded first; then the store becomes a new incarnation.\<close>

definition recover_state :: "store \<Rightarrow> outcome \<times> store" where
  "recover_state = and_then load_snapshot replay_journal"

definition prepare_root :: "store \<Rightarrow> outcome \<times> store" where
  "prepare_root st =
     (if \<not> is_safe_path_component ''journal.log'' \<or> \<not> is_safe_path_component ''lineage.snapshot'' then
        open_fail O_Invalid ''internal path constant rejected'' st
      else
        (let (ok, d) = io_ok (so_disk st); st = st\<lparr>so_disk := d\<rparr> in
         if \<not> ok then open_fail O_Rejected ''state root not creatable'' st
         else (O_Ok, st\<lparr>so_disk := clean_staging (so_disk st)\<rparr>)))"

definition store_open :: "u64 \<Rightarrow> u64 \<Rightarrow> i64 \<Rightarrow> provenance \<Rightarrow> store \<Rightarrow> outcome \<times> store" where
  "store_open boot incarnation now label st =
     (let st = st\<lparr>so_report := open_report_new\<rparr> in
      if so_opened st then (O_Invalid, st)
      else
        and_then prepare_root
          (and_then recover_state
            (and_then (advance_incarnation boot incarnation)
              (and_then (commit_boot now label)
                (and_then recommit_policy (fence_prior_authority now))))) st)"

subsection \<open>Codecs\<close>

definition wire_lineage_entry :: "lineage_entry \<Rightarrow> bytes" where
  "wire_lineage_entry v = concat
    [le_bytes 2 (record_type_code (ln_type v)), le_bytes 8 (ln_seq v), le_bytes 8 (ln_at v),
     le_bytes 8 (ln_decision v), le_bytes 8 (ln_fence v), wire_scope (ln_scope v),
     wire_generation_vector (ln_gens v), [outcome_code (ln_outcome v)],
     le_bytes 2 (classification_code (ln_classification v)),
     le_bytes 2 (reason_code_code (ln_reason v)), le_bytes 8 (ln_boot v),
     le_bytes 8 (ln_incarnation v), [if ln_from_prior_incarnation v then 1 else 0]]"

definition wire_durable_state :: "durable_state \<Rightarrow> bytes" where
  "wire_durable_state v = concat
    [le_bytes 2 (ds_format_version v), le_bytes 8 (ds_snapshot_seq v), le_bytes 8 (ds_epoch v),
     le_bytes 8 (ds_boot_count v), le_bytes 8 (ds_open_count v), le_bytes 8 (ds_policy v),
     le_bytes 8 (ds_policy_fingerprint v), le_bytes 8 (ds_last_boot v),
     le_bytes 8 (ds_last_incarnation v), le_bytes 8 (ds_total_decisions v),
     le_bytes 8 (ds_total_fences v), le_bytes 8 (ds_total_interruptions v),
     le_bytes 8 (ds_lineage_seen v), le_bytes 8 (ds_lineage_dropped v),
     wire_vector wire_lineage_entry (ds_lineage v), wire_vector wire_fence_state (ds_fences v)]"

lemmas store_enums = decision_enums record_type_enum.wire_enum_axioms

lemma lineage_entry_eta:
  "\<lparr>ln_type = ln_type v, ln_seq = ln_seq v, ln_at = ln_at v, ln_decision = ln_decision v,
    ln_fence = ln_fence v, ln_scope = ln_scope v, ln_gens = ln_gens v,
    ln_outcome = ln_outcome v, ln_classification = ln_classification v,
    ln_reason = ln_reason v, ln_boot = ln_boot v, ln_incarnation = ln_incarnation v,
    ln_from_prior_incarnation = ln_from_prior_incarnation v\<rparr> = v"
  by simp

lemma rt_lineage_entry [codec_intros]:
  "rt (encode_lineage_entry v) decode_lineage_entry v (wire_lineage_entry v)"
  unfolding encode_lineage_entry_def decode_lineage_entry_def wire_lineage_entry_def Let_def
  by (rule rt_eq) ((rule codec_intros store_enums | simp add: lineage_entry_eta)+)

lemma dsafe_lineage_entry [decoder_safe]: "dsafe decode_lineage_entry"
  unfolding decode_lineage_entry_def Let_def by (intro decoder_safe; simp)

lemma rt_format_version [codec_intros]: "v = kFormatVersion \<Longrightarrow> rt (w_u16 v) r_format_version v (le_bytes 2 v)"
proof -
  assume v: "v = kFormatVersion"
  have "parses r_u16 (le_bytes 2 v) v" by (simp add: r_u16_def parses_le)
  then have "parses r_format_version (le_bytes 2 v @ []) v"
    unfolding r_format_version_def
    by (rule parses_dbind, intro parses_bind_guard) (simp_all add: v parses_dret)
  then show ?thesis by (simp add: rt_def w_u16_def emits_le)
qed

lemma dsafe_format_version [decoder_safe]: "dsafe r_format_version"
  unfolding r_format_version_def by (intro decoder_safe) simp_all

lemma dsafe_vector [decoder_safe]: "dsafe d \<Longrightarrow> dsafe (r_vector limit width d)"
  unfolding r_vector_def by (intro decoder_safe; simp)

text \<open>A state the snapshot codec keeps: its vectors are within the decoder's limits and its
  fences are decodable.\<close>

definition ds_admissible :: "durable_state \<Rightarrow> bool" where
  "ds_admissible s \<longleftrightarrow> ds_format_version s = kFormatVersion \<and> length (ds_lineage s) \<le> 2 ^ 20 \<and>
     length (ds_fences s) \<le> 2 ^ 20 \<and> list_all fence_state_ok (ds_fences s)"

lemma length_wire_entries [simp]:
  "length (wire_lineage_entry e) = 122" "length (wire_fence_state f) = 161"
  by (simp_all add: wire_lineage_entry_def wire_fence_state_def length_wire_parts)

lemma rt_lineage_vector:
  "length es \<le> 2 ^ 20 \<Longrightarrow> rt (w_vector encode_lineage_entry es) (r_vector 0x100000 32 decode_lineage_entry) es
    (wire_vector wire_lineage_entry es)"
  by (rule rt_vector_counted) (auto intro: rt_lineage_entry)

lemma rt_fence_vector:
  "length fs \<le> 2 ^ 20 \<Longrightarrow> list_all fence_state_ok fs \<Longrightarrow>
    rt (w_vector encode_fence_state fs) (r_vector 0x100000 8 decode_fence_state) fs (wire_vector wire_fence_state fs)"
  by (rule rt_vector_counted) (auto simp: list_all_iff fence_state_ok_def intro: rt_fence_state)

lemma durable_state_eta:
  "\<lparr>ds_format_version = ds_format_version v, ds_snapshot_seq = ds_snapshot_seq v,
    ds_epoch = ds_epoch v, ds_boot_count = ds_boot_count v, ds_open_count = ds_open_count v,
    ds_policy = ds_policy v, ds_policy_fingerprint = ds_policy_fingerprint v,
    ds_last_boot = ds_last_boot v, ds_last_incarnation = ds_last_incarnation v,
    ds_total_decisions = ds_total_decisions v, ds_total_fences = ds_total_fences v,
    ds_total_interruptions = ds_total_interruptions v, ds_lineage_seen = ds_lineage_seen v,
    ds_lineage_dropped = ds_lineage_dropped v, ds_lineage = ds_lineage v,
    ds_fences = ds_fences v\<rparr> = v"
  by simp

lemma rt_durable_state [codec_intros]:
  "ds_admissible v \<Longrightarrow> rt (encode_durable_state v) decode_durable_state v (wire_durable_state v)"
  unfolding encode_durable_state_def decode_durable_state_def wire_durable_state_def Let_def
  by (rule rt_eq) ((rule codec_intros rt_lineage_vector rt_fence_vector store_enums | simp add: durable_state_eta ds_admissible_def)+)

lemma dsafe_durable_state [decoder_safe]: "dsafe decode_durable_state"
  unfolding decode_durable_state_def Let_def by (intro decoder_safe; simp)

interpretation durable_codec: codec encode_durable_state decode_durable_state ds_admissible
  by unfold_locales (blast intro: rt_durable_state, rule dsafe_durable_state)

end
