(* ===== verification/BHG_Recovery.thy ===== *)
theory BHG_Recovery
  imports BHG_Store
begin

text \<open>
  Crash safety of the store. An open store keeps the invariant \<open>logged\<close>: its files hold a base state
  and a log of records, and replaying the log over the base gives the state in memory, up to what an
  opening sets anew (\<open>same_durable\<close>). Every commit and every checkpoint keeps it; recovery reads the
  files back; a crash in the middle of an append leaves files that recovery understands.
\<close>

subsection \<open>Appending to the journal\<close>

text \<open>A store whose writer is open with an empty buffer and whose operating system does not fail.\<close>

definition writer_ready :: "store \<Rightarrow> bytes \<Rightarrow> bool" where
  "writer_ready st j \<longleftrightarrow> so_opened st \<and> jw_open (so_journal st) \<and> jw_buffer (so_journal st) = [] \<and>
     dk_faults (so_disk st) = [] \<and> dk_journal (so_disk st) = Some j \<and>
     jw_bytes (so_journal st) = of_nat (length j) \<and> so_journal_bytes st = of_nat (length j)"

text \<open>The store after a record was appended.\<close>

definition appended :: "record_type \<Rightarrow> bytes \<Rightarrow> store \<Rightarrow> store" where
  "appended ty payload st =
     (let bs = wire_record ty (so_last_seq st + 1) payload; jw = so_journal st;
          n = jw_bytes jw + of_nat (length bs)
      in st\<lparr>so_journal := jw\<lparr>jw_bytes := n, jw_pending := 0\<rparr>, so_disk := journal_write bs (so_disk st),
           so_journal_bytes := n, so_last_seq := so_last_seq st + 1\<rparr>)"

lemma appended_simps [simp]:
  "so_config (appended ty payload st) = so_config st" "so_policy (appended ty payload st) = so_policy st"
  "so_state (appended ty payload st) = so_state st" "so_report (appended ty payload st) = so_report st"
  "so_boot (appended ty payload st) = so_boot st" "so_incarnation (appended ty payload st) = so_incarnation st"
  "so_last_seq (appended ty payload st) = so_last_seq st + 1" "so_opened (appended ty payload st) = so_opened st"
  "dk_snapshot (so_disk (appended ty payload st)) = dk_snapshot (so_disk st)"
  by (simp_all add: appended_def Let_def journal_write_def)

lemma writer_ready_appended:
  "writer_ready st j \<Longrightarrow> writer_ready (appended ty payload st) (j @ wire_record ty (so_last_seq st + 1) payload)"
  by (simp add: writer_ready_def appended_def Let_def journal_write_def)

lemma writer_ready_state [simp]: "writer_ready (st\<lparr>so_state := s\<rparr>) j \<longleftrightarrow> writer_ready st j"
  by (simp add: writer_ready_def)

lemma jw_append_ready:
  assumes "jw_open jw" "length payload + 28 < 2 ^ 64"
  shows "jw_append ty seq payload jw d =
    (let (r, d) = io_call d; bs = wire_record ty seq payload;
         written = (case r of None \<Rightarrow> length bs | Some k \<Rightarrow> min k (length bs));
         jw' = jw\<lparr>jw_buffer := jw_buffer jw @ take written bs\<rparr>
     in if written \<noteq> length bs then (O_Rejected, jw', d)
        else (O_Ok, jw'\<lparr>jw_bytes := jw_bytes jw + of_nat (length bs),
            jw_pending := jw_pending jw + of_nat (length bs)\<rparr>, d))"
proof -
  have w: "encode_record ty seq payload (writer_new (28 + length payload)) =
      \<lparr>wbuf = wire_record ty seq payload, wmax = 28 + length payload, wok = True\<rparr>"
    using assms(2) by (intro encode_record_fresh) simp_all
  have c: "length payload + 24 + 4 = 28 + length payload" by simp
  show ?thesis
    using assms(1) unfolding jw_append_def kJournalHeaderSize_def kJournalTrailerSize_def c w
    by (simp add: Let_def split: prod.split option.split)
qed

lemma append_commit_ready:
  assumes "writer_ready st j" "length payload + 28 < 2 ^ 64"
  shows "append_commit ty payload st =
    (if so_journal_bytes st \<ge> cf_max_journal_bytes (so_config st) then ((O_Exhausted, 0), st)
     else ((O_Ok, so_last_seq st + 1), appended ty payload st))"
proof -
  have r: "so_opened st" "jw_open (so_journal st)" "jw_buffer (so_journal st) = []"
    "dk_faults (so_disk st) = []" using assms(1) by (simp_all add: writer_ready_def)
  show ?thesis
    using r by (simp add: append_commit_def jw_append_ready [OF r(2) assms(2)] io_call_def io_ok_def
        jw_commit_def flush_and_sync_def is_affirmative_def appended_def Let_def journal_write_def)
qed

subsection \<open>Replaying what was committed\<close>

text \<open>Two states that agree on everything but the snapshot position, the version of the policy, the
  identity of the last incarnation and the marks on the lineage, all of which an opening sets
  anew.\<close>

abbreviation unmarked :: "lineage_entry \<Rightarrow> lineage_entry" where
  "unmarked e \<equiv> e\<lparr>ln_from_prior_incarnation := False\<rparr>"

definition same_durable :: "durable_state \<Rightarrow> durable_state \<Rightarrow> bool" where
  "same_durable s t \<longleftrightarrow>
     ds_format_version s = ds_format_version t \<and> ds_epoch s = ds_epoch t \<and> ds_boot_count s = ds_boot_count t \<and>
     ds_open_count s = ds_open_count t \<and> ds_policy_fingerprint s = ds_policy_fingerprint t \<and>
     ds_total_decisions s = ds_total_decisions t \<and> ds_total_fences s = ds_total_fences t \<and>
     ds_total_interruptions s = ds_total_interruptions t \<and> ds_lineage_seen s = ds_lineage_seen t \<and>
     ds_lineage_dropped s = ds_lineage_dropped t \<and> map unmarked (ds_lineage s) = map unmarked (ds_lineage t) \<and>
     ds_fences s = ds_fences t"

lemma same_durable_refl [simp]: "same_durable s s"
  by (simp add: same_durable_def)

lemma same_durable_sym: "same_durable s t \<Longrightarrow> same_durable t s"
  by (simp add: same_durable_def)

lemma same_durable_trans: "same_durable s t \<Longrightarrow> same_durable t u \<Longrightarrow> same_durable s u"
  by (simp add: same_durable_def)

lemma same_durable_length: "same_durable s t \<Longrightarrow> length (ds_lineage s) = length (ds_lineage t)"
  by (metis same_durable_def length_map)

lemma same_durable_push:
  assumes "same_durable s t" "unmarked e = unmarked e'"
  shows "same_durable (push_lineage m e s) (push_lineage m e' t)"
  using assms same_durable_length [OF assms(1)]
  by (simp add: same_durable_def push_lineage_def Let_def map_tl)

text \<open>A record replays as a change of state, whatever the rest of the store is.\<close>

definition applies :: "store_config \<Rightarrow> record_type \<Rightarrow> u64 \<Rightarrow> bytes \<Rightarrow> durable_state \<Rightarrow> durable_state \<Rightarrow> bool" where
  "applies config ty seq payload s s' \<longleftrightarrow> (\<forall>z. so_config z = config \<longrightarrow> so_state z = s \<longrightarrow>
     apply_record ty seq payload z = (O_Ok, z\<lparr>so_state := s', so_last_seq := seq\<rparr>))"

definition replays :: "store_config \<Rightarrow> durable_state \<Rightarrow> log_entry list \<Rightarrow> durable_state \<Rightarrow> bool" where
  "replays config base rs s \<longleftrightarrow> (\<forall>z. so_config z = config \<longrightarrow> so_state z = base \<longrightarrow>
     so_last_seq z = ds_snapshot_seq base \<longrightarrow>
     visit_log (replay_visit (ds_snapshot_seq base)) (ds_snapshot_seq base + 1) rs z =
     (O_Ok, z\<lparr>so_state := s, so_last_seq := ds_snapshot_seq base + of_nat (length rs)\<rparr>))"

lemma replays_Nil: "replays config base [] base"
  by (simp add: replays_def)

lemma seq_advances:
  assumes "unat (a :: u64) + n < 18446744073709551616" "0 < n"
  shows "\<not> a + of_nat n \<le> a"
proof -
  have "unat (a + of_nat n) = unat a + n" using assms(1) by (simp add: unat_word_ariths(1) unat_of_nat)
  then show ?thesis using assms(2) by (simp add: word_le_nat_alt)
qed

lemma replays_snoc:
  assumes "replays config base rs s"
    and "applies config ty (ds_snapshot_seq base + of_nat (length rs) + 1) payload s s'"
    and "unat (ds_snapshot_seq base) + Suc (length rs) < 18446744073709551616"
  shows "replays config base (rs @ [(ty, payload)]) s'"
proof -
  let ?seq = "ds_snapshot_seq base + of_nat (length rs) + 1"
  have "\<not> ?seq \<le> ds_snapshot_seq base"
    using seq_advances [OF assms(3)] by (simp add: ac_simps)
  moreover have "ds_snapshot_seq base + 1 + of_nat (length rs) = ?seq" by simp
  ultimately show ?thesis
    using assms(1,2)
    by (simp add: replays_def applies_def visit_log_append is_affirmative_def replay_visit_def ac_simps)
qed

lemma rt_document:
  assumes "rt f d x bs" "length bs \<le> m" "m < 2 ^ 64"
  shows "wok (f (writer_new m))" "wbuf (f (writer_new m)) = bs" "decode_all d bs = Inr x"
proof -
  have e: "emits f bs" and p: "parses d bs x" using assms(1) by (simp_all add: rt_def)
  show "wok (f (writer_new m))" "wbuf (f (writer_new m)) = bs"
    using emits_fresh [OF e assms(3)] assms(2) by simp_all
  have "d \<lparr>rd = [] @ bs @ [], rp = length ([] :: bytes), rerr = O_Ok\<rparr> =
      (Inr x, \<lparr>rd = [] @ bs @ [], rp = length ([] :: bytes) + length bs, rerr = O_Ok\<rparr>)"
    using p unfolding parses_def by blast
  then show "decode_all d bs = Inr x"
    by (simp add: decode_all_def reader_new_def r_finish_def is_affirmative_def)
qed

lemma length_wire_payloads [simp]:
  "length (wire_boot_payload b) = 65" "length (wire_interruption_payload p) = 84"
  "length (wire_checkpoint_payload c) = 24"
  by (simp_all add: wire_boot_payload_def wire_interruption_payload_def wire_checkpoint_payload_def)

lemma length_wire_decision_4096:
  assumes "d_admissible d"
  shows "length (wire_decision d) \<le> 4096"
proof -
  have b: "length (d_reasons d) \<le> 256" "length (lr_elements (d_localization d)) \<le> 64"
    using assms by (auto simp: d_admissible_def result_new_def split: if_splits)
  have r: "length (wire_vector (\<lambda>c. le_bytes 2 (reason_code_code c)) (d_reasons d)) = 4 + length (d_reasons d) * 2"
    by (rule length_wire_vector) simp
  show ?thesis
    using b by (simp add: wire_decision_def r wire_when_def length_wire_parts)
qed

text \<open>What each document becomes on replay.\<close>

lemma document_decodes:
  "decode_all decode_boot_payload (wire_boot_payload b) = Inr b"
  "decode_all decode_interruption_payload (wire_interruption_payload p) = Inr p"
  "decode_all decode_checkpoint_payload (wire_checkpoint_payload c) = Inr c"
  "validate_policy pol = O_Ok \<Longrightarrow> decode_all decode_policy (wire_policy pol) = Inr pol"
  "d_admissible d \<Longrightarrow> decode_all decode_decision (wire_decision d) = Inr d"
  "fence_state_ok f \<Longrightarrow> decode_all decode_fence_state (wire_fence_state f) = Inr f"
  using length_wire_decision_4096 [of d]
  by (auto simp: fence_state_ok_def intro!: rt_document(3) [where m = 4096]
      rt_boot_payload rt_interruption_payload rt_checkpoint_payload rt_policy rt_decision rt_fence_state)

lemma applies_boot:
  assumes "ds_epoch s < bp_epoch b"
  shows "applies config RT_Boot seq (wire_boot_payload b) s
    (s\<lparr>ds_epoch := bp_epoch b, ds_boot_count := bp_boot_count b, ds_open_count := bp_open_count b,
      ds_policy := bp_policy b, ds_last_boot := bp_boot b, ds_last_incarnation := bp_incarnation b\<rparr>)"
  using assms less_le_not_le [of "ds_epoch s" "bp_epoch b"]
  by (auto simp: applies_def apply_record_def apply_boot_def document_decodes applied_def Let_def)

lemma applies_policy:
  assumes "validate_policy pol = O_Ok"
  shows "applies config RT_PolicyCommit seq (wire_policy pol) s
    (s\<lparr>ds_policy := pol_version pol, ds_policy_fingerprint := policy_fingerprint pol\<rparr>)"
  using assms by (simp add: applies_def apply_record_def apply_policy_def document_decodes applied_def)

lemma applies_checkpoint:
  assumes "\<not> cp_snapshot_seq c > seq"
  shows "applies config RT_Checkpoint seq (wire_checkpoint_payload c) s s"
  using assms by (simp add: applies_def apply_record_def apply_checkpoint_def document_decodes applied_def)

lemma applies_decision:
  assumes "d_admissible d"
  shows "applies config RT_DecisionCommit seq (wire_decision d) s
    ((push_lineage (cf_max_lineage_records config) (decision_entry RT_DecisionCommit seq d) s)
      \<lparr>ds_total_decisions := ds_total_decisions s + 1\<rparr>)"
  using assms by (simp add: applies_def apply_record_def apply_decision_def document_decodes applied_def
      push_lineage_def Let_def)

lemma applies_interruption:
  "applies config RT_InterruptionCommit seq (wire_interruption_payload p) s
    (push_lineage (cf_max_lineage_records config) (interruption_entry seq p)
      (s\<lparr>ds_total_interruptions := ds_total_interruptions s + 1\<rparr>))"
  by (simp add: applies_def apply_record_def apply_interruption_def document_decodes applied_def Let_def)

definition fence_record_type :: "record_type \<Rightarrow> bool" where
  "fence_record_type ty \<longleftrightarrow> ty \<in> {RT_FenceIntentCommit, RT_FenceAckCommit, RT_FenceEffectCommit, RT_FenceRevokeCommit}"

definition put_fence :: "fence_state_payload \<Rightarrow> fence_state_payload list \<Rightarrow> fence_state_payload list" where
  "put_fence f fs = (case find_fence (fi_id (fp_intent f)) fs of None \<Rightarrow> fs @ [f] | Some i \<Rightarrow> fs[i := f])"

definition fence_room :: "store_config \<Rightarrow> fence_state_payload \<Rightarrow> durable_state \<Rightarrow> bool" where
  "fence_room config f s \<longleftrightarrow> find_fence (fi_id (fp_intent f)) (ds_fences s) \<noteq> None \<or>
     length (ds_fences s) < unat (cf_max_prior_fences config)"

lemma apply_record_fence:
  "fence_record_type ty \<Longrightarrow> apply_record ty seq payload st = apply_fence ty seq payload st"
  by (auto simp: fence_record_type_def apply_record_def)

lemma applies_fence:
  assumes "fence_record_type ty" "fence_state_ok f" "fence_room config f s"
  shows "applies config ty seq (wire_fence_state f) s
    (push_lineage (cf_max_lineage_records config) (fence_entry ty seq f)
      (s\<lparr>ds_fences := put_fence f (ds_fences s),
        ds_total_fences := ds_total_fences s + (if ty = RT_FenceIntentCommit then 1 else 0)\<rparr>))"
  using assms
  by (auto simp: applies_def apply_record_fence apply_fence_def document_decodes applied_def Let_def
      fence_room_def put_fence_def split: option.splits)

subsection \<open>The invariant of an open store\<close>

text \<open>The snapshot file holds the base state, or there is none and the base is the initial state.\<close>

definition snapshot_holds :: "store_config \<Rightarrow> disk \<Rightarrow> durable_state \<Rightarrow> bool" where
  "snapshot_holds config d base \<longleftrightarrow>
     (case dk_snapshot d of
        None \<Rightarrow> base = durable_state_new
      | Some b \<Rightarrow> b = wire_snapshot (ds_snapshot_seq base) (wire_durable_state base) \<and> ds_admissible base \<and>
          payload_fits (cf_max_snapshot_payload config) (wire_durable_state base) \<and>
          length (ds_lineage base) \<le> unat (cf_max_lineage_records config))"

definition state_bounded :: "store_config \<Rightarrow> durable_state \<Rightarrow> bool" where
  "state_bounded config s \<longleftrightarrow> ds_format_version s = kFormatVersion \<and>
     length (ds_lineage s) \<le> unat (cf_max_lineage_records config) \<and>
     length (ds_fences s) \<le> unat (cf_max_prior_fences config) \<and> list_all fence_state_ok (ds_fences s) \<and>
     distinct (map (\<lambda>f. fi_id (fp_intent f)) (ds_fences s))"

text \<open>A configuration that can hold what the store writes.\<close>

definition config_ok :: "store_config \<Rightarrow> bool" where
  "config_ok config \<longleftrightarrow> 4096 \<le> unat (cf_max_record_payload config) \<and>
     0 < cf_max_lineage_records config \<and> unat (cf_max_lineage_records config) \<le> 2 ^ 20 \<and>
     unat (cf_max_prior_fences config) \<le> 2 ^ 20"

text \<open>The files hold a base state and a log of records whose replay gives the state in memory.\<close>

definition logged_as :: "store \<Rightarrow> durable_state \<Rightarrow> log_entry list \<Rightarrow> durable_state \<Rightarrow> bool" where
  "logged_as st base rs s \<longleftrightarrow>
     config_ok (so_config st) \<and> writer_ready st (wire_log (ds_snapshot_seq base + 1) rs) \<and>
     snapshot_holds (so_config st) (so_disk st) base \<and>
     log_fits (cf_max_record_payload (so_config st)) rs \<and>
     so_last_seq st = ds_snapshot_seq base + of_nat (length rs) \<and>
     unat (ds_snapshot_seq base) + length rs < 18446744073709551615 \<and>
     replays (so_config st) base rs s"

definition logged :: "store \<Rightarrow> durable_state \<Rightarrow> log_entry list \<Rightarrow> bool" where
  "logged st base rs \<longleftrightarrow> (\<exists>s. logged_as st base rs s \<and> same_durable s (so_state st)) \<and>
     state_bounded (so_config st) (so_state st)"

lemma logged_as_snoc:
  assumes "logged_as st base rs s" "unat (so_last_seq st) < 18446744073709551614" "length payload \<le> 4096"
    and "applies (so_config st) ty (so_last_seq st + 1) payload s s'"
  shows "logged_as ((appended ty payload st)\<lparr>so_state := t\<rparr>) base (rs @ [(ty, payload)]) s'"
proof -
  have l: "config_ok (so_config st)" "writer_ready st (wire_log (ds_snapshot_seq base + 1) rs)"
    "snapshot_holds (so_config st) (so_disk st) base" "log_fits (cf_max_record_payload (so_config st)) rs"
    "so_last_seq st = ds_snapshot_seq base + of_nat (length rs)" "replays (so_config st) base rs s"
    using assms(1) by (simp_all add: logged_as_def)
  have "unat (so_last_seq st) = unat (ds_snapshot_seq base) + length rs"
    using assms(1) by (simp add: logged_as_def unat_word_ariths(1) unat_of_nat)
  then have n: "unat (ds_snapshot_seq base) + Suc (length rs) < 18446744073709551615" using assms(2) by simp
  then have "replays (so_config st) base (rs @ [(ty, payload)]) s'"
    using replays_snoc [OF l(6)] assms(4) l(5) by simp
  moreover have "payload_fits (cf_max_record_payload (so_config st)) payload"
    using l(1) assms(3) by (simp add: payload_fits_def config_ok_def)
  moreover have "snapshot_holds (so_config st) (so_disk (appended ty payload st)) base"
    using l(3) by (simp add: snapshot_holds_def)
  ultimately show ?thesis
    using l n writer_ready_appended [OF l(2), of ty payload]
    by (auto simp: logged_as_def wire_log_append ac_simps)
qed

lemma logged_last_seq:
  assumes "logged st base rs"
  shows "unat (so_last_seq st) = unat (ds_snapshot_seq base) + length rs"
  using assms by (simp add: logged_def logged_as_def unat_word_ariths(1) unat_of_nat)

lemma logged_append:
  assumes "logged st base rs" "unat (so_last_seq st) < 18446744073709551614"
    and "length payload \<le> 4096"
    and "\<And>s. same_durable s (so_state st) \<Longrightarrow>
      \<exists>s'. applies (so_config st) ty (so_last_seq st + 1) payload s s' \<and> same_durable s' t"
    and "state_bounded (so_config st) t"
  shows "logged ((appended ty payload st)\<lparr>so_state := t\<rparr>) base (rs @ [(ty, payload)])"
proof -
  obtain s where s: "logged_as st base rs s" "same_durable s (so_state st)"
    using assms(1) by (auto simp: logged_def)
  obtain s' where "applies (so_config st) ty (so_last_seq st + 1) payload s s'" "same_durable s' t"
    using assms(4) [OF s(2)] by blast
  then show ?thesis using logged_as_snoc [OF s(1) assms(2,3)] assms(5) by (auto simp: logged_def)
qed

text \<open>The documents as the commits write them.\<close>

lemma commit_documents:
  "wok (encode_boot_payload b (writer_new 256))" "wbuf (encode_boot_payload b (writer_new 256)) = wire_boot_payload b"
  "wok (encode_interruption_payload p (writer_new 512))"
  "wbuf (encode_interruption_payload p (writer_new 512)) = wire_interruption_payload p"
  "wok (encode_checkpoint_payload c (writer_new 128))"
  "wbuf (encode_checkpoint_payload c (writer_new 128)) = wire_checkpoint_payload c"
  using rt_document [OF rt_boot_payload, of b 256] rt_document [OF rt_interruption_payload, of p 512]
    rt_document [OF rt_checkpoint_payload, of c 128] by simp_all

lemma policy_document:
  assumes "validate_policy pol = O_Ok"
  shows "wok (encode_policy pol (writer_new 1024))" "wbuf (encode_policy pol (writer_new 1024)) = wire_policy pol"
  using rt_document [OF rt_policy [OF assms], of 1024] by simp_all

lemma fence_document:
  assumes "fence_state_ok f"
  shows "wok (encode_fence_state f (writer_new 1024))" "wbuf (encode_fence_state f (writer_new 1024)) = wire_fence_state f"
  using rt_document [OF rt_fence_state, of f 1024] assms by (simp_all add: fence_state_ok_def)

text \<open>A commit on a ready store: refused because the journal is full, or appended and applied.\<close>

abbreviation journal_full :: "store \<Rightarrow> bool" where
  "journal_full st \<equiv> so_journal_bytes st \<ge> cf_max_journal_bytes (so_config st)"

lemma commit_policy_ready:
  assumes "writer_ready st j" "validate_policy pol = O_Ok"
  shows "commit_policy pol st =
    (if journal_full st then (O_Exhausted, st)
     else (O_Ok, (appended RT_PolicyCommit (wire_policy pol) st)\<lparr>so_state := (so_state st)
       \<lparr>ds_policy := pol_version pol, ds_policy_fingerprint := policy_fingerprint pol\<rparr>\<rparr>))"
  by (simp add: commit_policy_def policy_document [OF assms(2)] append_commit_ready [OF assms(1)]
      is_affirmative_def Let_def)

lemma commit_decision_ready:
  assumes "writer_ready st j" "d_admissible d"
  shows "commit_decision d st =
    (if journal_full st then (O_Exhausted, st)
     else (O_Ok, (appended RT_DecisionCommit (wire_decision d) st)\<lparr>so_state :=
       push_lineage (cf_max_lineage_records (so_config st)) (decision_entry RT_DecisionCommit (so_last_seq st + 1) d)
         ((so_state st)\<lparr>ds_total_decisions := ds_total_decisions (so_state st) + 1\<rparr>)\<rparr>))"
  using length_wire_decision_4096 [OF assms(2)]
  by (simp add: commit_decision_def encode_decision_fits [OF assms(2)] append_commit_ready [OF assms(1)]
      is_affirmative_def Let_def)

lemma commit_interruption_ready:
  assumes "writer_ready st j"
  shows "commit_interruption p st =
    (if journal_full st then (O_Exhausted, st)
     else (O_Ok, (appended RT_InterruptionCommit (wire_interruption_payload p) st)\<lparr>so_state :=
       push_lineage (cf_max_lineage_records (so_config st)) (interruption_entry (so_last_seq st + 1) p)
         ((so_state st)\<lparr>ds_total_interruptions := ds_total_interruptions (so_state st) + 1\<rparr>)\<rparr>))"
  by (simp add: commit_interruption_def commit_documents append_commit_ready [OF assms(1)]
      is_affirmative_def Let_def)

lemma commit_fence_state_ready:
  assumes "writer_ready st j" "fence_state_ok f"
  shows "commit_fence_state ty f st =
    (if journal_full st then (O_Exhausted, st)
     else if \<not> fence_room (so_config st) f (so_state st) then
       (O_Exhausted, appended ty (wire_fence_state f) st)
     else (O_Ok, (appended ty (wire_fence_state f) st)\<lparr>so_state :=
       push_lineage (cf_max_lineage_records (so_config st)) (fence_entry ty (so_last_seq st + 1) f)
         ((so_state st)\<lparr>ds_fences := put_fence f (ds_fences (so_state st)),
           ds_total_fences := ds_total_fences (so_state st) +
             (if ty = RT_FenceIntentCommit \<and> find_fence (fi_id (fp_intent f)) (ds_fences (so_state st)) = None
              then 1 else 0)\<rparr>)\<rparr>))"
  by (auto simp: commit_fence_state_def fence_document [OF assms(2)] append_commit_ready [OF assms(1)]
      is_affirmative_def fence_room_def put_fence_def Let_def split: option.splits)

subsection \<open>Every operation keeps the invariant\<close>

lemma find_fence_Some: "find_fence k fs = Some i \<Longrightarrow> i < length fs \<and> fi_id (fp_intent (fs ! i)) = k"
  by (induction fs arbitrary: i) (auto split: if_splits)

lemma find_fence_None: "find_fence k fs = None \<longleftrightarrow> k \<notin> set (map (\<lambda>f. fi_id (fp_intent f)) fs)"
  by (induction fs) auto

lemma distinct_put_fence:
  assumes "distinct (map (\<lambda>f. fi_id (fp_intent f)) fs)"
  shows "distinct (map (\<lambda>f. fi_id (fp_intent f)) (put_fence f fs))"
proof (cases "find_fence (fi_id (fp_intent f)) fs")
  case None
  then have "put_fence f fs = fs @ [f]" by (simp add: put_fence_def)
  then show ?thesis using assms None [unfolded find_fence_None] by simp
next
  case (Some i)
  then have "map (\<lambda>f. fi_id (fp_intent f)) (fs[i := f]) = map (\<lambda>f. fi_id (fp_intent f)) fs"
    using find_fence_Some [OF Some] by (metis (mono_tags, lifting) list_update_id map_update nth_map)
  then show ?thesis using assms Some by (simp add: put_fence_def)
qed

lemma list_all_list_update: "list_all P xs \<Longrightarrow> P x \<Longrightarrow> list_all P (xs[i := x])"
  by (auto simp: list_all_iff dest: set_update_subset_insert [THEN subsetD])

lemma state_bounded_counters [simp]:
  "state_bounded config (s\<lparr>ds_total_decisions := n\<rparr>) \<longleftrightarrow> state_bounded config s"
  "state_bounded config (s\<lparr>ds_total_interruptions := n\<rparr>) \<longleftrightarrow> state_bounded config s"
  "state_bounded config (s\<lparr>ds_policy := v, ds_policy_fingerprint := p\<rparr>) \<longleftrightarrow> state_bounded config s"
  by (simp_all add: state_bounded_def)

lemma state_bounded_push:
  assumes "state_bounded config s" "config_ok config"
  shows "state_bounded config (push_lineage (cf_max_lineage_records config) e s)"
proof -
  have "0 < unat (cf_max_lineage_records config)"
    using assms(2) by (simp add: config_ok_def word_less_nat_alt)
  then show ?thesis using assms(1) by (auto simp: state_bounded_def push_lineage_def Let_def)
qed

lemma state_bounded_fence:
  assumes "state_bounded config s" "fence_state_ok f" "fence_room config f s"
  shows "state_bounded config (s\<lparr>ds_fences := put_fence f (ds_fences s), ds_total_fences := n\<rparr>)"
  using assms distinct_put_fence [of "ds_fences s" f]
  by (auto simp: state_bounded_def put_fence_def fence_room_def list_all_list_update split: option.splits)

text \<open>
  The operations on an open store, and when they are given something the store can keep (\<open>op_ok\<close>).
  The code writes more than that: a decision that does not decode, a fence for which the table has no
  room and a second intent record under one id are written and make the journal unreadable or replay
  to another state, so they are excluded here.
\<close>

datatype store_op =
    SO_Policy fence_policy | SO_Decision decision | SO_Fence record_type fence_state_payload
  | SO_Interruption interruption_payload | SO_Checkpoint

fun store_step :: "store_op \<Rightarrow> store \<Rightarrow> outcome \<times> store" where
  "store_step (SO_Policy pol) st = commit_policy pol st"
| "store_step (SO_Decision d) st = commit_decision d st"
| "store_step (SO_Fence ty f) st = commit_fence_state ty f st"
| "store_step (SO_Interruption p) st = commit_interruption p st"
| "store_step SO_Checkpoint st = checkpoint st"

fun op_ok :: "store_op \<Rightarrow> store \<Rightarrow> bool" where
  "op_ok (SO_Policy pol) st \<longleftrightarrow> validate_policy pol = O_Ok"
| "op_ok (SO_Decision d) st \<longleftrightarrow> d_admissible d"
| "op_ok (SO_Fence ty f) st \<longleftrightarrow> fence_record_type ty \<and> fence_state_ok f \<and> fence_room (so_config st) f (so_state st) \<and>
     (ty = RT_FenceIntentCommit \<longrightarrow> find_fence (fi_id (fp_intent f)) (ds_fences (so_state st)) = None)"
| "op_ok (SO_Interruption p) st \<longleftrightarrow> True"
| "op_ok SO_Checkpoint st \<longleftrightarrow> True"

abbreviation seq_room :: "store \<Rightarrow> bool" where
  "seq_room st \<equiv> unat (so_last_seq st) < 18446744073709551614"

lemma logged_facts:
  assumes "logged st base rs"
  shows "config_ok (so_config st)" "writer_ready st (wire_log (ds_snapshot_seq base + 1) rs)"
    "state_bounded (so_config st) (so_state st)"
  using assms by (simp_all add: logged_def logged_as_def)

lemma same_durable_fences: "same_durable s t \<Longrightarrow> ds_fences s = ds_fences t"
  by (simp add: same_durable_def)

lemma logged_policy:
  assumes "logged st base rs" "seq_room st" "validate_policy pol = O_Ok"
  shows "logged ((appended RT_PolicyCommit (wire_policy pol) st)\<lparr>so_state := (so_state st)
       \<lparr>ds_policy := pol_version pol, ds_policy_fingerprint := policy_fingerprint pol\<rparr>\<rparr>) base
    (rs @ [(RT_PolicyCommit, wire_policy pol)])"
proof (rule logged_append [OF assms(1,2)])
  show "\<exists>s'. applies (so_config st) RT_PolicyCommit (so_last_seq st + 1) (wire_policy pol) s s' \<and>
      same_durable s' ((so_state st)\<lparr>ds_policy := pol_version pol, ds_policy_fingerprint := policy_fingerprint pol\<rparr>)"
    if "same_durable s (so_state st)" for s
    by (rule exI, rule conjI, rule applies_policy [OF assms(3)]) (use that in \<open>simp add: same_durable_def\<close>)
qed (use logged_facts [OF assms(1)] in \<open>simp_all\<close>)

lemma logged_decision:
  assumes "logged st base rs" "seq_room st" "d_admissible d"
  shows "logged ((appended RT_DecisionCommit (wire_decision d) st)\<lparr>so_state :=
       push_lineage (cf_max_lineage_records (so_config st)) (decision_entry RT_DecisionCommit (so_last_seq st + 1) d)
         ((so_state st)\<lparr>ds_total_decisions := ds_total_decisions (so_state st) + 1\<rparr>)\<rparr>) base
    (rs @ [(RT_DecisionCommit, wire_decision d)])"
proof (rule logged_append [OF assms(1,2) length_wire_decision_4096 [OF assms(3)]])
  let ?m = "cf_max_lineage_records (so_config st)" and ?e = "decision_entry RT_DecisionCommit (so_last_seq st + 1) d"
  let ?t = "push_lineage ?m ?e ((so_state st)\<lparr>ds_total_decisions := ds_total_decisions (so_state st) + 1\<rparr>)"
  show "\<exists>s'. applies (so_config st) RT_DecisionCommit (so_last_seq st + 1) (wire_decision d) s s' \<and> same_durable s' ?t"
    if "same_durable s (so_state st)" for s
  proof (rule exI, rule conjI, rule applies_decision [OF assms(3)])
    have "(push_lineage ?m ?e s)\<lparr>ds_total_decisions := ds_total_decisions s + 1\<rparr> =
        push_lineage ?m ?e (s\<lparr>ds_total_decisions := ds_total_decisions s + 1\<rparr>)"
      by (simp add: push_lineage_def Let_def)
    moreover have "same_durable \<dots> ?t"
      by (rule same_durable_push) (use that in \<open>simp_all add: same_durable_def\<close>)
    ultimately show "same_durable ((push_lineage ?m ?e s)\<lparr>ds_total_decisions := ds_total_decisions s + 1\<rparr>) ?t"
      by simp
  qed
qed (use logged_facts [OF assms(1)] in \<open>simp_all add: state_bounded_push\<close>)

lemma logged_interruption:
  assumes "logged st base rs" "seq_room st"
  shows "logged ((appended RT_InterruptionCommit (wire_interruption_payload p) st)\<lparr>so_state :=
       push_lineage (cf_max_lineage_records (so_config st)) (interruption_entry (so_last_seq st + 1) p)
         ((so_state st)\<lparr>ds_total_interruptions := ds_total_interruptions (so_state st) + 1\<rparr>)\<rparr>) base
    (rs @ [(RT_InterruptionCommit, wire_interruption_payload p)])"
proof (rule logged_append [OF assms])
  let ?m = "cf_max_lineage_records (so_config st)" and ?e = "interruption_entry (so_last_seq st + 1) p"
  let ?t = "push_lineage ?m ?e ((so_state st)\<lparr>ds_total_interruptions := ds_total_interruptions (so_state st) + 1\<rparr>)"
  show "\<exists>s'. applies (so_config st) RT_InterruptionCommit (so_last_seq st + 1) (wire_interruption_payload p) s s' \<and>
      same_durable s' ?t" if "same_durable s (so_state st)" for s
    by (rule exI, rule conjI, rule applies_interruption, rule same_durable_push)
      (use that in \<open>simp_all add: same_durable_def\<close>)
qed (use logged_facts [OF assms(1)] in \<open>simp_all add: state_bounded_push\<close>)

lemma logged_fence:
  assumes "logged st base rs" "seq_room st" "op_ok (SO_Fence ty f) st"
  shows "logged ((appended ty (wire_fence_state f) st)\<lparr>so_state :=
       push_lineage (cf_max_lineage_records (so_config st)) (fence_entry ty (so_last_seq st + 1) f)
         ((so_state st)\<lparr>ds_fences := put_fence f (ds_fences (so_state st)),
           ds_total_fences := ds_total_fences (so_state st) + (if ty = RT_FenceIntentCommit then 1 else 0)\<rparr>)\<rparr>) base
    (rs @ [(ty, wire_fence_state f)])"
proof (rule logged_append [OF assms(1,2)])
  let ?m = "cf_max_lineage_records (so_config st)" and ?e = "fence_entry ty (so_last_seq st + 1) f"
  let ?t = "push_lineage ?m ?e ((so_state st)\<lparr>ds_fences := put_fence f (ds_fences (so_state st)),
      ds_total_fences := ds_total_fences (so_state st) + (if ty = RT_FenceIntentCommit then 1 else 0)\<rparr>)"
  have f: "fence_record_type ty" "fence_state_ok f" "fence_room (so_config st) f (so_state st)" using assms(3) by simp_all
  show "\<exists>s'. applies (so_config st) ty (so_last_seq st + 1) (wire_fence_state f) s s' \<and> same_durable s' ?t"
    if "same_durable s (so_state st)" for s
  proof (rule exI, rule conjI, rule applies_fence [OF f(1,2)])
    show "fence_room (so_config st) f s" using f(3) same_durable_fences [OF that] by (simp add: fence_room_def)
    show "same_durable (push_lineage ?m ?e (s\<lparr>ds_fences := put_fence f (ds_fences s),
        ds_total_fences := ds_total_fences s + (if ty = RT_FenceIntentCommit then 1 else 0)\<rparr>)) ?t"
      by (rule same_durable_push) (use that in \<open>simp_all add: same_durable_def\<close>)
  qed
  show "state_bounded (so_config st) ?t"
    using logged_facts [OF assms(1)] f by (intro state_bounded_push state_bounded_fence)
qed simp

lemma write_snapshot_clean:
  assumes "dk_faults d = []" "length payload + 28 < 2 ^ 64"
  shows "write_snapshot_atomic seq payload d =
    (O_Ok, d\<lparr>dk_snapshot := Some (wire_snapshot seq payload), dk_staging := None\<rparr>)"
  using assms by (simp add: write_snapshot_atomic_def snapshot_document_wire io_ok_def io_call_def
      atomic_replace_def Let_def)

lemma journal_reset:
  assumes "jw_open jw" "jw_buffer jw = []" "dk_faults d = []" "dk_journal d = Some j"
  shows "jw_close jw d = (O_Ok, jw\<lparr>jw_open := False, jw_pending := 0\<rparr>, d)"
    "open_append True (jw\<lparr>jw_open := False, jw_pending := 0\<rparr>) d =
      (O_Ok, jw\<lparr>jw_open := True, jw_bytes := 0, jw_pending := 0\<rparr>, d\<lparr>dk_journal := Some []\<rparr>)"
  using assms
  by (cases jw; cases d; simp add: jw_close_def flush_and_sync_def journal_write_def io_ok_def io_call_def
      open_append_def Let_def)+

lemma logged_snapshot:
  assumes "logged st base rs"
    and "length (wire_durable_state (build_snapshot_state st)) \<le> unat (cf_max_snapshot_payload (so_config st))"
    and "writer_ready st' []" "so_config st' = so_config st" "so_state st' = so_state st"
    and "so_last_seq st' = so_last_seq st"
    and "dk_snapshot (so_disk st') = Some (wire_snapshot (so_last_seq st) (wire_durable_state (build_snapshot_state st)))"
  shows "logged st' (build_snapshot_state st) []"
proof -
  note f = logged_facts [OF assms(1)]
  have "ds_admissible (build_snapshot_state st)"
    using f(1,3) by (simp add: ds_admissible_def build_snapshot_state_def state_bounded_def config_ok_def)
  moreover have "unat (so_last_seq st) < 18446744073709551615"
    using logged_last_seq [OF assms(1)] assms(1) by (simp add: logged_def logged_as_def)
  moreover have "same_durable (build_snapshot_state st) (so_state st)"
    by (simp add: build_snapshot_state_def same_durable_def)
  moreover have "ds_snapshot_seq (build_snapshot_state st) = so_last_seq st"
    "length (ds_lineage (build_snapshot_state st)) \<le> unat (cf_max_lineage_records (so_config st))"
    using f(3) by (simp_all add: build_snapshot_state_def state_bounded_def)
  ultimately show ?thesis
    using assms(2-7) f replays_Nil [of "so_config st" "build_snapshot_state st"]
    by (auto simp: logged_def logged_as_def snapshot_holds_def payload_fits_def)
qed

text \<open>The store with its state in the snapshot file and an empty journal, before the checkpoint
  record is appended.\<close>

definition rotated :: "store \<Rightarrow> store" where
  "rotated st = st\<lparr>so_journal := (so_journal st)\<lparr>jw_open := True, jw_bytes := 0, jw_pending := 0\<rparr>,
     so_disk := (so_disk st)\<lparr>dk_snapshot := Some (wire_snapshot (so_last_seq st)
         (wire_durable_state (build_snapshot_state st))), dk_staging := None, dk_journal := Some []\<rparr>,
     so_journal_bytes := 0\<rparr>"

definition checkpoint_record :: "store \<Rightarrow> bytes" where
  "checkpoint_record st = wire_checkpoint_payload
     \<lparr>cp_snapshot_seq = so_last_seq st, cp_epoch = ds_epoch (so_state st), cp_journal_generation = 0\<rparr>"

lemma rotated_simps [simp]:
  "so_config (rotated st) = so_config st" "so_state (rotated st) = so_state st"
  "so_last_seq (rotated st) = so_last_seq st" "so_opened (rotated st) = so_opened st"
  by (simp_all add: rotated_def)

abbreviation snapshot_fits :: "store \<Rightarrow> bool" where
  "snapshot_fits st \<equiv>
     length (wire_durable_state (build_snapshot_state st)) \<le> unat (cf_max_snapshot_payload (so_config st))"

lemma logged_rotated:
  assumes "logged st base rs" "snapshot_fits st"
  shows "logged (rotated st) (build_snapshot_state st) []"
  by (rule logged_snapshot [OF assms])
    (use logged_facts(2) [OF assms(1)] in \<open>simp_all add: rotated_def writer_ready_def\<close>)

lemma checkpoint_run:
  assumes "logged st base rs"
  shows "checkpoint st =
    (if \<not> snapshot_fits st then (O_Exhausted, st)
     else if journal_full (rotated st) then (O_Exhausted, rotated st)
     else (O_Ok, appended RT_Checkpoint (checkpoint_record st) (rotated st)))"
proof -
  let ?snap = "build_snapshot_state st" and ?m = "unat (cf_max_snapshot_payload (so_config st))"
  let ?doc = "wire_durable_state ?snap"
  note f = logged_facts [OF assms]
  have r: "so_opened st" "jw_open (so_journal st)" "jw_buffer (so_journal st) = []" "dk_faults (so_disk st) = []"
    using f(2) by (simp_all add: writer_ready_def)
  have "ds_admissible ?snap"
    using f(1,3) by (simp add: ds_admissible_def build_snapshot_state_def state_bounded_def config_ok_def)
  then have e: "emits (encode_durable_state ?snap) ?doc" using rt_durable_state by (simp add: rt_def)
  have m: "?m < 4294967296" using unsigned_less [of "cf_max_snapshot_payload (so_config st)", where 'a = nat] by simp
  note w = emits_fresh [OF e, of ?m]
  have seq: "ds_snapshot_seq ?snap = so_last_seq st" by (simp add: build_snapshot_state_def)
  show ?thesis
  proof (cases "length ?doc \<le> ?m")
    case False
    then show ?thesis using r(1) w(1) m by (simp add: checkpoint_def Let_def)
  next
    case True
    then have fits: "length ?doc + 28 < 2 ^ 64" using m by simp
    let ?d = "(so_disk st)\<lparr>dk_snapshot := Some (wire_snapshot (so_last_seq st) ?doc), dk_staging := None\<rparr>"
    have d: "dk_faults ?d = []" "dk_journal ?d = Some (wire_log (ds_snapshot_seq base + 1) rs)"
      using f(2) by (simp_all add: writer_ready_def)
    have "checkpoint st =
        (let ((oc, seq), st) = append_commit RT_Checkpoint (checkpoint_record st) (rotated st) in (oc, st))"
      using True w m write_snapshot_clean [OF r(4) fits] journal_reset [OF r(2,3) d] r(1)
      by (simp add: checkpoint_def seq is_affirmative_def commit_documents rotated_def checkpoint_record_def Let_def)
    then show ?thesis
      using append_commit_ready [OF logged_facts(2) [OF logged_rotated [OF assms True]],
          of "checkpoint_record st" RT_Checkpoint] True
      by (simp add: checkpoint_record_def)
  qed
qed

lemma logged_checkpoint:
  assumes "logged st base rs" "seq_room st"
  shows "so_state (snd (checkpoint st)) = so_state st" "so_config (snd (checkpoint st)) = so_config st"
    and "\<exists>base' rs'. logged (snd (checkpoint st)) base' rs'"
proof -
  let ?rec = "checkpoint_record st"
  show "so_state (snd (checkpoint st)) = so_state st" "so_config (snd (checkpoint st)) = so_config st"
    unfolding checkpoint_run [OF assms(1)] by simp_all
  have lt: "\<not> so_last_seq st > so_last_seq st + 1"
    using assms(2) seq_advances [of "so_last_seq st" 1] by (simp add: not_less le_less_linear)
  have "logged ((appended RT_Checkpoint ?rec (rotated st))\<lparr>so_state := so_state st\<rparr>) (build_snapshot_state st)
      ([] @ [(RT_Checkpoint, ?rec)])" if fits: "snapshot_fits st"
  proof (rule logged_append [OF logged_rotated [OF assms(1) fits]])
    show "\<exists>s'. applies (so_config (rotated st)) RT_Checkpoint (so_last_seq (rotated st) + 1) ?rec s s' \<and>
        same_durable s' (so_state st)" if "same_durable s (so_state (rotated st))" for s
      unfolding checkpoint_record_def
      by (rule exI, rule conjI, rule applies_checkpoint) (use lt that in simp_all)
  qed (use assms(2) logged_facts(3) [OF assms(1)] in \<open>simp_all add: checkpoint_record_def\<close>)
  moreover have "(appended RT_Checkpoint ?rec (rotated st))\<lparr>so_state := so_state st\<rparr> =
      appended RT_Checkpoint ?rec (rotated st)"
    by (simp add: appended_def Let_def rotated_def)
  ultimately show "\<exists>base' rs'. logged (snd (checkpoint st)) base' rs'"
    using checkpoint_run [OF assms(1)] logged_rotated [OF assms(1)] assms(1) by (cases "snapshot_fits st") auto
qed

text \<open>The record a commit appends and the state it leaves.\<close>

fun op_record :: "store_op \<Rightarrow> record_type \<times> bytes" where
  "op_record (SO_Policy pol) = (RT_PolicyCommit, wire_policy pol)"
| "op_record (SO_Decision d) = (RT_DecisionCommit, wire_decision d)"
| "op_record (SO_Fence ty f) = (ty, wire_fence_state f)"
| "op_record (SO_Interruption p) = (RT_InterruptionCommit, wire_interruption_payload p)"
| "op_record SO_Checkpoint = (RT_Checkpoint, [])"

fun op_state :: "store_op \<Rightarrow> store \<Rightarrow> durable_state" where
  "op_state (SO_Policy pol) st = (so_state st)
     \<lparr>ds_policy := pol_version pol, ds_policy_fingerprint := policy_fingerprint pol\<rparr>"
| "op_state (SO_Decision d) st =
     push_lineage (cf_max_lineage_records (so_config st)) (decision_entry RT_DecisionCommit (so_last_seq st + 1) d)
       ((so_state st)\<lparr>ds_total_decisions := ds_total_decisions (so_state st) + 1\<rparr>)"
| "op_state (SO_Fence ty f) st =
     push_lineage (cf_max_lineage_records (so_config st)) (fence_entry ty (so_last_seq st + 1) f)
       ((so_state st)\<lparr>ds_fences := put_fence f (ds_fences (so_state st)),
         ds_total_fences := ds_total_fences (so_state st) + (if ty = RT_FenceIntentCommit then 1 else 0)\<rparr>)"
| "op_state (SO_Interruption p) st =
     push_lineage (cf_max_lineage_records (so_config st)) (interruption_entry (so_last_seq st + 1) p)
       ((so_state st)\<lparr>ds_total_interruptions := ds_total_interruptions (so_state st) + 1\<rparr>)"
| "op_state SO_Checkpoint st = so_state st"

abbreviation committed :: "store_op \<Rightarrow> store \<Rightarrow> store" where
  "committed op st \<equiv> (appended (fst (op_record op)) (snd (op_record op)) st)\<lparr>so_state := op_state op st\<rparr>"

lemma commit_ready:
  assumes "writer_ready st j" "op_ok op st" "op \<noteq> SO_Checkpoint"
  shows "store_step op st = (if journal_full st then (O_Exhausted, st) else (O_Ok, committed op st))"
  using assms by (cases op) (auto simp: commit_policy_ready commit_decision_ready commit_fence_state_ready
      commit_interruption_ready)

lemma logged_commit:
  assumes "logged st base rs" "seq_room st" "op_ok op st" "op \<noteq> SO_Checkpoint"
  shows "logged (committed op st) base (rs @ [op_record op])"
  using assms(3,4) logged_policy [OF assms(1,2)] logged_decision [OF assms(1,2)] logged_fence [OF assms(1,2)]
    logged_interruption [OF assms(1,2)]
  by (cases op) (simp_all only: op_record.simps op_state.simps op_ok.simps fst_conv snd_conv simp_thms)

text \<open>The invariant over every operation.\<close>

definition store_inv :: "store \<Rightarrow> bool" where
  "store_inv st \<longleftrightarrow> (\<exists>base rs. logged st base rs)"

lemma store_inv_step:
  assumes "store_inv st" "op_ok op st" "seq_room st"
  shows "store_inv (snd (store_step op st))"
proof -
  obtain base rs where l: "logged st base rs" using assms(1) by (auto simp: store_inv_def)
  show ?thesis
  proof (cases "op = SO_Checkpoint")
    case True
    then show ?thesis using logged_checkpoint(3) [OF l assms(3)] by (simp add: store_inv_def)
  next
    case False
    then show ?thesis
      using commit_ready [OF logged_facts(2) [OF l] assms(2)] logged_commit [OF l assms(3,2)] assms(1)
      by (auto simp: store_inv_def simp del: store_step.simps)
  qed
qed

fun run_ops :: "store_op list \<Rightarrow> store \<Rightarrow> store" where
  "run_ops [] st = st"
| "run_ops (op # ops) st = run_ops ops (snd (store_step op st))"

fun ops_ok :: "store_op list \<Rightarrow> store \<Rightarrow> bool" where
  "ops_ok [] st \<longleftrightarrow> True"
| "ops_ok (op # ops) st \<longleftrightarrow> op_ok op st \<and> seq_room st \<and> ops_ok ops (snd (store_step op st))"

lemma store_inv_run: "store_inv st \<Longrightarrow> ops_ok ops st \<Longrightarrow> store_inv (run_ops ops st)"
  by (induction ops arbitrary: st) (auto simp: store_inv_step)

subsection \<open>Recovery\<close>

text \<open>Files that hold a base state, a log and perhaps the beginning of one more record.\<close>

definition disk_holds :: "store_config \<Rightarrow> disk \<Rightarrow> durable_state \<Rightarrow> log_entry list \<Rightarrow> bytes \<Rightarrow> bool" where
  "disk_holds config d base rs tail \<longleftrightarrow>
     dk_faults d = [] \<and> snapshot_holds config d base \<and>
     dk_journal d = Some (wire_log (ds_snapshot_seq base + 1) rs @ tail) \<and>
     log_fits (cf_max_record_payload config) rs \<and>
     torn_part (cf_max_record_payload config) (ds_snapshot_seq base + 1 + of_nat (length rs)) tail \<and>
     unat (ds_snapshot_seq base) + length rs < 18446744073709551615"

abbreviation within_limits :: "store_config \<Rightarrow> disk \<Rightarrow> log_entry list \<Rightarrow> bool" where
  "within_limits config d rs \<equiv> length (the (dk_journal d)) \<le> unat (cf_max_journal_bytes config) \<and>
     length rs \<le> unat (cf_max_journal_records config)"

lemma load_snapshot_holds:
  assumes "snapshot_holds (so_config z) (so_disk z) base" "dk_faults (so_disk z) = []" "so_state z = durable_state_new"
  shows "\<exists>r. load_snapshot z = (O_Ok, z\<lparr>so_state := base, so_report := r\<rparr>)"
proof (cases "dk_snapshot (so_disk z)")
  case None
  then have "load_snapshot z = (O_Ok, z\<lparr>so_state := base, so_report := so_report z\<rparr>)"
    using assms by (cases z) (simp add: load_snapshot_def read_snapshot_def snapshot_result_new_def snapshot_holds_def)
  then show ?thesis by blast
next
  case (Some b)
  let ?doc = "wire_durable_state base"
  have h: "b = wire_snapshot (ds_snapshot_seq base) ?doc" "ds_admissible base"
    "payload_fits (cf_max_snapshot_payload (so_config z)) ?doc"
    "length (ds_lineage base) \<le> unat (cf_max_lineage_records (so_config z))"
    using assms(1) Some by (simp_all add: snapshot_holds_def)
  have r: "read_snapshot (cf_max_snapshot_payload (so_config z)) (so_disk z) =
      (\<lparr>sr_present = True, sr_outcome = O_Ok, sr_snapshot_seq = ds_snapshot_seq base, sr_payload = ?doc,
        sr_detail = ''snapshot loaded''\<rparr>, so_disk z)"
    using read_snapshot_wire [OF _ assms(2) h(3)] Some h(1) by simp
  have "parses decode_durable_state ?doc base" using rt_durable_state [OF h(2)] by (simp add: rt_def)
  then have "decode_durable_state \<lparr>rd = [] @ ?doc @ [], rp = length ([] :: bytes), rerr = O_Ok\<rparr> =
      (Inr base, \<lparr>rd = [] @ ?doc @ [], rp = length ([] :: bytes) + length ?doc, rerr = O_Ok\<rparr>)"
    unfolding parses_def by blast
  then have "load_snapshot z = (O_Ok, z\<lparr>so_state := base, so_report := (so_report z)\<lparr>or_snapshot_present := True\<rparr>\<rparr>)"
    using h(4) r by (cases z) (simp add: load_snapshot_def reader_new_def r_finish_def is_affirmative_def Let_def)
  then show ?thesis by blast
qed

lemma replay_journal_holds:
  assumes "disk_holds (so_config z) (so_disk z) base rs tail" "within_limits (so_config z) (so_disk z) rs"
    and "replays (so_config z) base rs s" "so_state z = base"
  shows "\<exists>r. replay_journal z = (O_Ok, z\<lparr>so_state := s, so_last_seq := ds_snapshot_seq base + of_nat (length rs),
      so_disk := (so_disk z)\<lparr>dk_journal := Some (wire_log (ds_snapshot_seq base + 1) rs)\<rparr>, so_report := r\<rparr>)"
proof -
  let ?first = "ds_snapshot_seq base + 1" and ?d = "so_disk z"
  let ?z = "z\<lparr>so_last_seq := ds_snapshot_seq base\<rparr>"
  let ?z' = "?z\<lparr>so_state := s, so_last_seq := ds_snapshot_seq base + of_nat (length rs)\<rparr>"
  have d: "dk_faults ?d = []" "dk_journal ?d = Some (wire_log ?first rs @ tail)"
    "log_fits (cf_max_record_payload (so_config z)) rs"
    "torn_part (cf_max_record_payload (so_config z)) (?first + of_nat (length rs)) tail"
    and n: "unat (ds_snapshot_seq base) + length rs < 18446744073709551615"
    using assms(1) by (simp_all add: disk_holds_def)
  have "unat (ds_snapshot_seq base + 1) = unat (ds_snapshot_seq base) + 1"
    using n by (simp add: unat_word_ariths(1))
  then have first: "?first \<noteq> 0" by (metis add_eq_0_iff_both_eq_0 one_neq_zero unsigned_0)
  have v: "visit_log (replay_visit (ds_snapshot_seq base)) ?first rs ?z = (O_Ok, ?z')"
    using assms(3,4) by (simp add: replays_def)
  have len: "length (wire_log ?first rs) < 18446744073709551616" "length rs \<le> unat (cf_max_journal_records (so_config z))"
    "length (wire_log ?first rs @ tail) \<le> unat (cf_max_journal_bytes (so_config z))"
    using assms(2) d(2) u64_less [of "cf_max_journal_bytes (so_config z)"] by simp_all
  note scan = scan_journal_log [OF d(2,1) len(3,2) d(3) first d(4) v]
  have vb: "js_valid_bytes (replayed (length rs) (length (wire_log ?first rs)) x scan_report_new) =
      of_nat (length (wire_log ?first rs))" for x
    by (simp add: replayed_def scan_report_new_def)
  have same: "(so_disk z)\<lparr>dk_journal := Some (wire_log ?first rs @ tail)\<rparr> = so_disk z" using d(2) by simp
  show ?thesis
  proof (cases "tail = []")
    case True
    have torn: "\<not> js_torn_tail (replayed (length rs) (length (wire_log ?first rs)) x scan_report_new)" for x
      by (simp add: replayed_def scan_report_new_def)
    show ?thesis
      unfolding replay_journal_def Let_def using assms(4) scan torn True same
      by (cases z) (simp add: scan_done_def is_affirmative_def)
  next
    case False
    then show ?thesis
      unfolding replay_journal_def Let_def using assms(4) scan vb d(1,2) len(1)
      by (cases z) (simp add: scan_done_def scan_torn_def is_affirmative_def truncate_file_def io_ok_def io_call_def
          unat_of_nat)
  qed
qed

text \<open>Recovery finds the state that the log describes and cuts off what is behind it.\<close>

lemma recover_state_holds:
  assumes "disk_holds (so_config z) (so_disk z) base rs tail" "within_limits (so_config z) (so_disk z) rs"
    and "replays (so_config z) base rs s" "so_state z = durable_state_new"
  shows "\<exists>r. recover_state z = (O_Ok, z\<lparr>so_state := s, so_last_seq := ds_snapshot_seq base + of_nat (length rs),
      so_disk := (so_disk z)\<lparr>dk_journal := Some (wire_log (ds_snapshot_seq base + 1) rs)\<rparr>, so_report := r\<rparr>)"
proof -
  have "snapshot_holds (so_config z) (so_disk z) base" "dk_faults (so_disk z) = []"
    using assms(1) by (simp_all add: disk_holds_def)
  then obtain r where l: "load_snapshot z = (O_Ok, z\<lparr>so_state := base, so_report := r\<rparr>)"
    using load_snapshot_holds assms(4) by blast
  then show ?thesis
    using replay_journal_holds [of "z\<lparr>so_state := base, so_report := r\<rparr>" base rs tail s] assms(1-3)
    by (cases z) (simp add: recover_state_def and_then_def is_affirmative_def)
qed

subsection \<open>Crashes\<close>

text \<open>What is on disk when the machine stops after \<open>n\<close> bytes of the record of an operation have
  reached the journal.\<close>

definition crash_disk :: "nat \<Rightarrow> store_op \<Rightarrow> store \<Rightarrow> disk" where
  "crash_disk n op st =
     journal_write (take n (wire_record (fst (op_record op)) (so_last_seq st + 1) (snd (op_record op)))) (so_disk st)"

text \<open>The number of records behind the snapshot.\<close>

definition base_seq :: "disk \<Rightarrow> u64" where
  "base_seq d = (case dk_snapshot d of None \<Rightarrow> 0 | Some b \<Rightarrow> get_u64 b 8)"

definition log_length :: "store \<Rightarrow> nat" where
  "log_length st = unat (so_last_seq st) - unat (base_seq (so_disk st))"

lemma snapshot_holds_seq: "snapshot_holds config d base \<Longrightarrow> base_seq d = ds_snapshot_seq base"
  by (auto simp: snapshot_holds_def base_seq_def durable_state_new_def wire_snapshot_def Let_def make_header_at(4)
      split: option.splits)

lemma logged_length: "logged st base rs \<Longrightarrow> log_length st = length rs"
  using logged_last_seq [of st base rs] snapshot_holds_seq [of "so_config st" "so_disk st" base]
  by (simp add: log_length_def logged_def logged_as_def)

lemma torn_part_Nil: "torn_part max_payload seq []"
proof -
  have "wire_record RT_Boot seq [] \<noteq> []" by (simp flip: length_greater_0_conv)
  then show ?thesis unfolding torn_part_def by (metis append_Nil payload_fits_def le0 list.size(3))
qed

lemma logged_disk: "logged st base rs \<Longrightarrow> disk_holds (so_config st) (so_disk st) base rs []"
  by (simp add: logged_def logged_as_def disk_holds_def writer_ready_def torn_part_Nil)

lemma commit_payload_length:
  "op_ok op st \<Longrightarrow> length (snd (op_record op)) \<le> 4096"
  by (cases op) (auto simp: length_wire_decision_4096)

lemma crash_disk_holds:
  assumes "logged st base rs" "op_ok op st" "op \<noteq> SO_Checkpoint" "n < 28 + length (snd (op_record op))"
  shows "disk_holds (so_config st) (crash_disk n op st) base rs
    (take n (wire_record (fst (op_record op)) (so_last_seq st + 1) (snd (op_record op))))"
proof -
  let ?r = "wire_record (fst (op_record op)) (so_last_seq st + 1) (snd (op_record op))"
  obtain s where s: "logged_as st base rs s" using assms(1) by (auto simp: logged_def)
  have seq: "so_last_seq st + 1 = ds_snapshot_seq base + 1 + of_nat (length rs)"
    using s by (simp add: logged_as_def)
  have "payload_fits (cf_max_record_payload (so_config st)) (snd (op_record op))"
    using s commit_payload_length [OF assms(2)] by (simp add: logged_as_def config_ok_def payload_fits_def)
  moreover have "drop n ?r \<noteq> []" using assms(4) by simp
  ultimately have "torn_part (cf_max_record_payload (so_config st)) (so_last_seq st + 1) (take n ?r)"
    unfolding torn_part_def using append_take_drop_id [of n ?r] by metis
  then have "torn_part (cf_max_record_payload (so_config st)) (ds_snapshot_seq base + 1 + of_nat (length rs)) (take n ?r)"
    by (simp only: seq)
  moreover have "snapshot_holds (so_config st) (crash_disk n op st) base"
    using s by (simp add: logged_as_def snapshot_holds_def crash_disk_def journal_write_def)
  moreover have "dk_journal (crash_disk n op st) = Some (wire_log (ds_snapshot_seq base + 1) rs @ take n ?r)"
    "dk_faults (crash_disk n op st) = []"
    using s by (simp_all add: logged_as_def writer_ready_def crash_disk_def journal_write_def)
  ultimately show ?thesis using s by (simp add: disk_holds_def logged_as_def)
qed

lemma crash_disk_complete:
  "28 + length (snd (op_record op)) \<le> n \<Longrightarrow> crash_disk n op st = so_disk (committed op st)"
  by (simp add: crash_disk_def appended_def Let_def)

lemma store_step_config:
  assumes "store_inv st" "op_ok op st" "seq_room st"
  shows "so_config (snd (store_step op st)) = so_config st"
proof -
  obtain base rs where l: "logged st base rs" using assms(1) by (auto simp: store_inv_def)
  show ?thesis
  proof (cases "op = SO_Checkpoint")
    case True
    then show ?thesis using logged_checkpoint(2) [OF l assms(3)] by simp
  next
    case False
    then show ?thesis using commit_ready [OF logged_facts(2) [OF l] assms(2)] by (simp del: store_step.simps)
  qed
qed

lemma store_new_simps [simp]:
  "so_config (store_new config policy d) = config" "so_disk (store_new config policy d) = d"
  "so_state (store_new config policy d) = durable_state_new" "so_policy (store_new config policy d) = policy"
  "so_opened (store_new config policy d) = False" "so_journal (store_new config policy d) = journal_writer_new"
  by (simp_all add: store_new_def)

lemma recover_logged:
  assumes "logged st base rs" "disk_holds (so_config st) d base rs tail"
    and "length (the (dk_journal d)) \<le> unat (cf_max_journal_bytes (so_config st))"
    and "log_length st \<le> unat (cf_max_journal_records (so_config st))"
  shows "\<exists>z. recover_state (store_new (so_config st) policy d) = (O_Ok, z) \<and> same_durable (so_state z) (so_state st) \<and>
    so_last_seq z = so_last_seq st \<and> dk_journal (so_disk z) = dk_journal (so_disk st)"
proof -
  obtain s where s: "replays (so_config st) base rs s" "same_durable s (so_state st)"
    using assms(1) by (auto simp: logged_def logged_as_def)
  have "\<exists>r. recover_state (store_new (so_config st) policy d) = (O_Ok, (store_new (so_config st) policy d)
      \<lparr>so_state := s, so_last_seq := ds_snapshot_seq base + of_nat (length rs),
      so_disk := d\<lparr>dk_journal := Some (wire_log (ds_snapshot_seq base + 1) rs)\<rparr>, so_report := r\<rparr>)"
    using recover_state_holds [of "store_new (so_config st) policy d" base rs tail s] assms(2-4) s(1)
      logged_length [OF assms(1)] by simp
  then show ?thesis using assms(1) s(2) by (auto simp: logged_def logged_as_def writer_ready_def)
qed


subsection \<open>Opening\<close>

lemma not_full:
  assumes "writer_ready st j" "length j < unat (cf_max_journal_bytes (so_config st))"
  shows "\<not> journal_full st"
proof -
  have "so_journal_bytes st = of_nat (length j)" using assms(1) by (simp add: writer_ready_def)
  moreover have "length j < 18446744073709551616" using assms(2) u64_less [of "cf_max_journal_bytes (so_config st)"] by simp
  ultimately show ?thesis using assms(2) by (simp add: word_le_nat_alt unat_of_nat)
qed

text \<open>The size of the journal and the room behind the last sequence number.\<close>

abbreviation journal_size :: "store \<Rightarrow> nat" where
  "journal_size st \<equiv> length (the (dk_journal (so_disk st)))"

definition room_for :: "nat \<Rightarrow> nat \<Rightarrow> store \<Rightarrow> bool" where
  "room_for k n st \<longleftrightarrow> journal_size st + n \<le> unat (cf_max_journal_bytes (so_config st)) \<and>
     unat (so_last_seq st) + k < 18446744073709551615"

lemma ready_room:
  assumes "writer_ready st j" "room_for (Suc k) n st" "0 < n"
  shows "\<not> journal_full st" "seq_room st"
  using not_full [OF assms(1)] assms by (simp_all add: room_for_def writer_ready_def)

lemma room_appended:
  assumes "writer_ready st j" "room_for (Suc k) (28 + length payload + n) st"
  shows "room_for k n ((appended ty payload st)\<lparr>so_state := t\<rparr>)"
proof -
  have "unat (so_last_seq st + 1) = unat (so_last_seq st) + 1"
    using assms(2) by (simp add: room_for_def unat_word_ariths(1))
  then show ?thesis
    using assms by (simp add: room_for_def writer_ready_def appended_def Let_def journal_write_def)
qed

definition interruption_of :: "i64 \<Rightarrow> fence_state_payload \<Rightarrow> interruption_payload" where
  "interruption_of now f = \<lparr>ip_reason = R_RestartFencedPriorAuthority, ip_fence = fi_id (fp_intent f),
     ip_decision = fi_decision (fp_intent f), ip_scope = fi_scope (fp_intent f),
     ip_prior_epoch = gv_epoch (fi_gens (fp_intent f)), ip_prior_boot = fi_boot (fp_intent f),
     ip_prior_incarnation = fi_incarnation (fp_intent f), ip_at = now\<rparr>"

definition close_fence :: "fence_state_payload \<Rightarrow> fence_state_payload" where
  "close_fence f = (if lifecycle_open (fp_lifecycle f)
     then f\<lparr>fp_lifecycle := fence_lifecycle_code L_FencedByRestart,
       fp_terminal_reason := R_RestartFencedPriorAuthority\<rparr>
     else f)"

lemma close_fence_simps [simp]:
  "fp_intent (close_fence f) = fp_intent f" "\<not> lifecycle_open (fp_lifecycle (close_fence f))"
  "fence_state_ok f \<Longrightarrow> fence_state_ok (close_fence f)"
  by (auto simp: close_fence_def lifecycle_open_def fence_state_ok_def is_valid_fence_lifecycle_def)

lemma find_fence_nth:
  "distinct (map (\<lambda>f. fi_id (fp_intent f)) fs) \<Longrightarrow> i < length fs \<Longrightarrow> find_fence (fi_id (fp_intent (fs ! i))) fs = Some i"
proof (induction fs arbitrary: i)
  case (Cons f fs)
  then show ?case by (cases i) auto
qed simp

lemma put_close_fence:
  assumes "distinct (map (\<lambda>f. fi_id (fp_intent f)) fs)" "i < length fs"
  shows "put_fence (close_fence (fs ! i)) fs = fs[i := close_fence (fs ! i)]"
    "put_fence (close_fence (fs ! i)) (fs[i := close_fence (fs ! i)]) = fs[i := close_fence (fs ! i)]"
    "find_fence (fi_id (fp_intent (fs ! i))) fs = Some i"
    "find_fence (fi_id (fp_intent (fs ! i))) (fs[i := close_fence (fs ! i)]) = Some i"
proof -
  have "map (\<lambda>f. fi_id (fp_intent f)) (fs[i := close_fence (fs ! i)]) = map (\<lambda>f. fi_id (fp_intent f)) fs"
    using assms(2) by (simp add: map_update list_update_same_conv)
  then show found: "find_fence (fi_id (fp_intent (fs ! i))) (fs[i := close_fence (fs ! i)]) = Some i"
    using find_fence_nth [of "fs[i := close_fence (fs ! i)]" i] assms by simp
  show "find_fence (fi_id (fp_intent (fs ! i))) fs = Some i" by (rule find_fence_nth [OF assms])
  show "put_fence (close_fence (fs ! i)) fs = fs[i := close_fence (fs ! i)]"
    "put_fence (close_fence (fs ! i)) (fs[i := close_fence (fs ! i)]) = fs[i := close_fence (fs ! i)]"
    using find_fence_nth [OF assms] found by (simp_all add: put_fence_def)
qed

lemma push_lineage_fields [simp]:
  "ds_fences (push_lineage m e s) = ds_fences s" "ds_epoch (push_lineage m e s) = ds_epoch s"
  "ds_total_fences (push_lineage m e s) = ds_total_fences s"
  "ds_total_interruptions (push_lineage m e s) = ds_total_interruptions s"
  by (simp_all add: push_lineage_def Let_def)

lemma push_lineage_update:
  "(push_lineage m e s)\<lparr>ds_fences := fs\<rparr> = push_lineage m e (s\<lparr>ds_fences := fs\<rparr>)"
  by (simp add: push_lineage_def Let_def)

text \<open>One round of the loop over the fences: an open fence is closed and costs two records. While
  they are written the memory is ahead of the log by the closed fence.\<close>

lemma commit_logged:
  assumes "logged_as st base rs s" "op_ok op st" "op \<noteq> SO_Checkpoint"
    and "room_for (Suc k) (28 + length (snd (op_record op)) + n) st"
    and "applies (so_config st) (fst (op_record op)) (so_last_seq st + 1) (snd (op_record op)) s s'"
  shows "store_step op st = (O_Ok, committed op st)" "room_for k n (committed op st)"
    "logged_as (committed op st) base (rs @ [op_record op]) s'"
proof -
  have w: "writer_ready st (wire_log (ds_snapshot_seq base + 1) rs)" using assms(1) by (simp add: logged_as_def)
  have r: "\<not> journal_full st" "seq_room st" using ready_room [OF w assms(4)] by simp_all
  show "store_step op st = (O_Ok, committed op st)" using commit_ready [OF w assms(2,3)] r(1) by simp
  show "room_for k n (committed op st)" by (rule room_appended [OF w assms(4)])
  show "logged_as (committed op st) base (rs @ [op_record op]) s'"
    using logged_as_snoc [OF assms(1) r(2) commit_payload_length [OF assms(2)] assms(5)] by simp
qed

lemma fence_prior_open:
  assumes "logged st base rs" "i < length (ds_fences (so_state st))"
    and "lifecycle_open (fp_lifecycle (ds_fences (so_state st) ! i))" "room_for (Suc (Suc k)) (301 + n) st"
  shows "\<exists>st' rs'. fence_prior now (i # is) m st = fence_prior now is (m + 1) st' \<and> logged st' base rs' \<and>
    room_for k n st' \<and> so_boot st' = so_boot st \<and> so_incarnation st' = so_incarnation st \<and>
    so_config st' = so_config st \<and> ds_epoch (so_state st') = ds_epoch (so_state st) \<and>
    ds_fences (so_state st') = (ds_fences (so_state st))[i := close_fence (ds_fences (so_state st) ! i)]"
proof -
  let ?s = "so_state st"
  let ?f = "close_fence (ds_fences ?s ! i)" and ?p = "interruption_of now (ds_fences ?s ! i)"
  let ?st1 = "st\<lparr>so_state := ?s\<lparr>ds_fences := (ds_fences ?s)[i := ?f]\<rparr>\<rparr>"
  let ?op1 = "SO_Interruption ?p" and ?op2 = "SO_Fence RT_FenceRevokeCommit ?f"
  define st2 where "st2 = committed ?op1 ?st1"
  define st3 where "st3 = committed ?op2 st2"
  obtain s where s: "logged_as st base rs s" "same_durable s ?s" using assms(1) by (auto simp: logged_def)
  have b: "state_bounded (so_config st) ?s" "config_ok (so_config st)" using logged_facts [OF assms(1)] by simp_all
  then have ids: "distinct (map (\<lambda>f. fi_id (fp_intent f)) (ds_fences ?s))" and ok: "fence_state_ok ?f"
    using assms(2) by (simp_all add: state_bounded_def list_all_length)
  note put = put_close_fence [OF ids assms(2)] and fs = same_durable_fences [OF s(2)]
  define s2 where "s2 = push_lineage (cf_max_lineage_records (so_config st)) (interruption_entry (so_last_seq st + 1) ?p)
      (s\<lparr>ds_total_interruptions := ds_total_interruptions s + 1\<rparr>)"
  have la: "logged_as ?st1 base rs s" using s(1) by (simp add: logged_as_def)
  have rm: "room_for (Suc (Suc k)) (28 + length (snd (op_record ?op1)) + (189 + n)) ?st1"
    using assms(4) by (simp add: room_for_def)
  have ap: "applies (so_config ?st1) (fst (op_record ?op1)) (so_last_seq ?st1 + 1) (snd (op_record ?op1)) s s2"
    using applies_interruption by (simp add: s2_def)
  have op: "op_ok ?op1 ?st1" "?op1 \<noteq> SO_Checkpoint" by simp_all
  note c2 = commit_logged [OF la op rm ap, folded st2_def]
  have st2: "ds_fences (so_state st2) = (ds_fences ?s)[i := ?f]" "ds_fences s2 = ds_fences ?s"
    "so_config st2 = so_config st" by (simp_all add: st2_def s2_def fs)
  have room: "fence_room (so_config st) ?f (so_state st2)" "fence_room (so_config st) ?f s2"
    by (simp_all add: fence_room_def st2 put)
  define s3 where "s3 = push_lineage (cf_max_lineage_records (so_config st))
      (fence_entry RT_FenceRevokeCommit (so_last_seq st2 + 1) ?f) (s2\<lparr>ds_fences := put_fence ?f (ds_fences s2)\<rparr>)"
  have rm2: "room_for (Suc k) (28 + length (snd (op_record ?op2)) + n) st2" using c2(2) by simp
  have ap2: "applies (so_config st2) (fst (op_record ?op2)) (so_last_seq st2 + 1) (snd (op_record ?op2)) s2 s3"
    using applies_fence [OF _ ok room(2), of RT_FenceRevokeCommit] by (simp add: fence_record_type_def s3_def st2)
  have op2: "op_ok ?op2 st2" "?op2 \<noteq> SO_Checkpoint" using ok room by (simp_all add: fence_record_type_def st2)
  note c3 = commit_logged [OF c2(3) op2 rm2 ap2, folded st3_def]
  have eq: "so_state st3 = push_lineage (cf_max_lineage_records (so_config st))
      (fence_entry RT_FenceRevokeCommit (so_last_seq st2 + 1) ?f) ((so_state st2)\<lparr>ds_fences := (ds_fences ?s)[i := ?f]\<rparr>)"
    by (simp add: st3_def st2 put)
  have "same_durable (s2\<lparr>ds_fences := (ds_fences ?s)[i := ?f]\<rparr>) ((so_state st2)\<lparr>ds_fences := (ds_fences ?s)[i := ?f]\<rparr>)"
    unfolding s2_def st2_def by (simp add: push_lineage_update, rule same_durable_push)
      (use s(2) in \<open>simp_all add: same_durable_def\<close>)
  then have "same_durable s3 (so_state st3)" unfolding s3_def eq st2 put by (rule same_durable_push) simp
  moreover have "state_bounded (so_config st) (?s\<lparr>ds_fences := put_fence ?f (ds_fences ?s), ds_total_fences := ds_total_fences ?s\<rparr>)"
    by (rule state_bounded_fence [OF b(1) ok]) (simp add: fence_room_def put)
  then have "state_bounded (so_config st) (so_state st3)"
    unfolding eq st2_def
    by (simp add: push_lineage_update put, intro state_bounded_push b(2), simp add: state_bounded_def)
  ultimately have "logged st3 base ((rs @ [op_record ?op1]) @ [op_record ?op2])"
    using c3(3) by (auto simp: logged_def st3_def st2)
  moreover have "fence_prior now (i # is) m st = fence_prior now is (m + 1) st3"
    using c2(1) c3(1) assms(3) by (simp add: Let_def interruption_of_def close_fence_def is_affirmative_def)
  ultimately show ?thesis using c3(2) by (auto simp: st3_def st2_def put)
qed

abbreviation is_open_at :: "store \<Rightarrow> nat \<Rightarrow> bool" where
  "is_open_at st i \<equiv> lifecycle_open (fp_lifecycle (ds_fences (so_state st) ! i))"

definition close_at :: "nat \<Rightarrow> fence_state_payload list \<Rightarrow> fence_state_payload list" where
  "close_at i fs = fs[i := close_fence (fs ! i)]"

lemma length_close_at [simp]: "length (close_at i fs) = length fs"
  by (simp add: close_at_def)

lemma close_at_closed: "\<not> lifecycle_open (fp_lifecycle (fs ! i)) \<Longrightarrow> close_at i fs = fs"
  by (simp add: close_at_def close_fence_def)

lemma fence_prior_run:
  assumes "logged st base rs" "\<forall>i \<in> set is. i < length (ds_fences (so_state st))" "distinct is"
    and "room_for (2 * length is + k) (301 * length is + n) st"
  shows "\<exists>st' rs'. fence_prior now is m st = (O_Ok, m + of_nat (length (filter (is_open_at st) is)), st') \<and>
    logged st' base rs' \<and> room_for k n st' \<and> so_boot st' = so_boot st \<and> so_incarnation st' = so_incarnation st \<and>
    so_config st' = so_config st \<and> ds_epoch (so_state st') = ds_epoch (so_state st) \<and>
    ds_fences (so_state st') = fold close_at is (ds_fences (so_state st))"
  using assms
proof (induction "is" arbitrary: st rs m)
  case Nil
  then show ?case by auto
next
  case (Cons i "is")
  show ?case
  proof (cases "is_open_at st i")
    case False
    have "room_for (2 * length is + k) (301 * length is + n) st" using Cons.prems(4) by (simp add: room_for_def)
    then show ?thesis
      using Cons.IH [of st rs m] Cons.prems False by (simp add: close_at_closed Let_def)
  next
    case True
    have "room_for (Suc (Suc (2 * length is + k))) (301 + (301 * length is + n)) st"
      using Cons.prems(4) by (simp add: ac_simps)
    moreover have "i < length (ds_fences (so_state st))" using Cons.prems(2) by simp
    ultimately obtain st1 rs1 where st1: "fence_prior now (i # is) m st = fence_prior now is (m + 1) st1"
      "logged st1 base rs1" "room_for (2 * length is + k) (301 * length is + n) st1" "so_boot st1 = so_boot st"
      "so_incarnation st1 = so_incarnation st" "so_config st1 = so_config st"
      "ds_epoch (so_state st1) = ds_epoch (so_state st)"
      "ds_fences (so_state st1) = close_at i (ds_fences (so_state st))"
      using fence_prior_open [OF Cons.prems(1) _ True, of "2 * length is + k" "301 * length is + n" now "is" m]
      unfolding close_at_def by blast
    have "filter (is_open_at st1) is = filter (is_open_at st) is"
      using Cons.prems(3) by (intro filter_cong) (auto simp: st1(8) close_at_def, (metis nth_list_update_neq)+)
    then show ?thesis
      unfolding st1(1) using Cons.IH [OF st1(2), of "m + 1"] Cons.prems(2,3) st1(3-8) True by (simp add: ac_simps)
  qed
qed

lemma fold_close_at:
  "\<forall>i \<in> set is. i < length fs \<Longrightarrow> j < length fs \<Longrightarrow>
    length (fold close_at is fs) = length fs \<and>
    fold close_at is fs ! j = (if j \<in> set is then close_fence (fs ! j) else fs ! j)"
proof (induction "is" arbitrary: fs)
  case (Cons i "is")
  have "close_fence (close_fence f) = close_fence f" for f by (simp add: close_fence_def lifecycle_open_def)
  then show ?case using Cons by (auto simp: close_at_def nth_list_update)
qed simp

lemma fold_close_all: "fold close_at [0..<length fs] fs = map close_fence fs"
proof (cases "fs = []")
  case False
  then have "length (fold close_at [0..<length fs] fs) = length fs" using fold_close_at [of "[0..<length fs]" fs 0] by simp
  then show ?thesis by (intro nth_equalityI) (simp_all add: fold_close_at)
qed simp

lemma fence_prior_authority_run:
  assumes "logged st base rs"
    and "room_for (2 * length (ds_fences (so_state st)) + k) (301 * length (ds_fences (so_state st)) + n) st"
  shows "\<exists>st' rs'. fence_prior_authority now st = (O_Ok, st') \<and> logged st' base rs' \<and> room_for k n st' \<and>
    so_boot st' = so_boot st \<and> so_incarnation st' = so_incarnation st \<and> so_config st' = so_config st \<and>
    ds_epoch (so_state st') = ds_epoch (so_state st) \<and>
    ds_fences (so_state st') = map close_fence (ds_fences (so_state st)) \<and>
    or_fenced_prior_fences (so_report st') =
      of_nat (length (filter (\<lambda>f. lifecycle_open (fp_lifecycle f)) (ds_fences (so_state st))))"
proof -
  let ?fs = "ds_fences (so_state st)"
  obtain st' rs' where r: "fence_prior now [0..<length ?fs] 0 st =
      (O_Ok, of_nat (length (filter (is_open_at st) [0..<length ?fs])), st')"
    "logged st' base rs'" "so_boot st' = so_boot st" "so_incarnation st' = so_incarnation st" "so_config st' = so_config st"
    "ds_epoch (so_state st') = ds_epoch (so_state st)" "ds_fences (so_state st') = map close_fence ?fs" "room_for k n st'"
    using fence_prior_run [OF assms(1), of "[0..<length ?fs]" k n now 0] assms(2) by (auto simp: fold_close_all)
  have "filter (\<lambda>f. lifecycle_open (fp_lifecycle f)) ?fs = map ((!) ?fs) (filter (is_open_at st) [0..<length ?fs])"
    by (metis (mono_tags, lifting) filter_map map_nth comp_def filter_cong)
  then have count: "length (filter (is_open_at st) [0..<length ?fs]) =
      length (filter (\<lambda>f. lifecycle_open (fp_lifecycle f)) ?fs)" by simp
  have "logged (st'\<lparr>so_report := r\<rparr>) base rs'" "room_for k n (st'\<lparr>so_report := r\<rparr>)" for r
    using r(2,8) by (simp_all add: logged_def logged_as_def writer_ready_def room_for_def)
  then show ?thesis
    using r count by (auto simp: fence_prior_authority_def is_affirmative_def Let_def)
qed

text \<open>A store whose durable state has been recovered and whose journal is not open yet.\<close>

definition file_bytes :: "bytes option \<Rightarrow> bytes" where
  "file_bytes j = (case j of None \<Rightarrow> [] | Some b \<Rightarrow> b)"

definition recovered :: "store \<Rightarrow> durable_state \<Rightarrow> log_entry list \<Rightarrow> bool" where
  "recovered z base rs \<longleftrightarrow>
     config_ok (so_config z) \<and> so_journal z = journal_writer_new \<and> dk_faults (so_disk z) = [] \<and>
     file_bytes (dk_journal (so_disk z)) = wire_log (ds_snapshot_seq base + 1) rs \<and>
     snapshot_holds (so_config z) (so_disk z) base \<and> log_fits (cf_max_record_payload (so_config z)) rs \<and>
     so_last_seq z = ds_snapshot_seq base + of_nat (length rs) \<and>
     unat (ds_snapshot_seq base) + length rs < 18446744073709551615 \<and>
     replays (so_config z) base rs (so_state z) \<and> state_bounded (so_config z) (so_state z)"

definition advanced :: "durable_state \<Rightarrow> durable_state" where
  "advanced s = s\<lparr>ds_boot_count := ds_boot_count s + 1, ds_open_count := ds_open_count s + 1, ds_epoch := ds_epoch s + 1,
     ds_lineage := map (\<lambda>e. e\<lparr>ln_from_prior_incarnation := True\<rparr>) (ds_lineage s)\<rparr>"

lemma snapshot_holds_files [simp]:
  "snapshot_holds config (d\<lparr>dk_journal := j\<rparr>) base \<longleftrightarrow> snapshot_holds config d base"
  "snapshot_holds config (d\<lparr>dk_staging := j\<rparr>) base \<longleftrightarrow> snapshot_holds config d base"
  by (simp_all add: snapshot_holds_def)

lemma advance_incarnation_run:
  assumes "recovered z base rs" "boot \<noteq> 0" "incarnation \<noteq> 0"
  shows "\<exists>z'. advance_incarnation boot incarnation z = (O_Ok, z') \<and> logged_as z' base rs (so_state z) \<and>
    so_state z' = advanced (so_state z) \<and> so_boot z' = boot \<and> so_incarnation z' = incarnation \<and>
    so_config z' = so_config z \<and> so_policy z' = so_policy z \<and> so_last_seq z' = so_last_seq z \<and>
    journal_size z' = length (file_bytes (dk_journal (so_disk z)))"
proof -
  let ?j = "wire_log (ds_snapshot_seq base + 1) rs"
  have z: "so_journal z = journal_writer_new" "dk_faults (so_disk z) = []" "file_bytes (dk_journal (so_disk z)) = ?j"
    using assms(1) by (simp_all add: recovered_def)
  have o: "open_append False journal_writer_new (so_disk z) =
      (O_Ok, \<lparr>jw_open = True, jw_buffer = [], jw_bytes = of_nat (length ?j), jw_pending = 0\<rparr>,
        (so_disk z)\<lparr>dk_journal := Some ?j\<rparr>)"
    using z(2,3) by (auto simp: open_append_def journal_writer_new_def io_ok_def io_call_def file_size_def file_bytes_def
        Let_def split: option.splits)
  have f: "file_size ((so_disk z)\<lparr>dk_journal := Some ?j\<rparr>) = (length ?j, (so_disk z)\<lparr>dk_journal := Some ?j\<rparr>)"
    using z(2) by (simp add: file_size_def io_ok_def io_call_def)
  show ?thesis
    using assms z o f
    by (simp add: advance_incarnation_def is_affirmative_def Let_def logged_as_def recovered_def writer_ready_def
        advanced_def)
qed

lemma commit_boot_run:
  assumes "logged_as z base rs s" "so_state z = advanced s" "ds_epoch s + 1 \<noteq> 0" "state_bounded (so_config z) s"
    and "room_for (Suc k) (93 + n) z"
  shows "\<exists>z' rs'. commit_boot now label z = (O_Ok, z') \<and> logged z' base rs' \<and> so_state z' = advanced s \<and>
    room_for k n z' \<and> so_boot z' = so_boot z \<and> so_incarnation z' = so_incarnation z \<and>
    so_config z' = so_config z \<and> so_policy z' = so_policy z"
proof -
  define b where "b = \<lparr>bp_boot = so_boot z, bp_incarnation = so_incarnation z, bp_epoch = ds_epoch s + 1,
      bp_started_at = now, bp_boot_count = ds_boot_count s + 1, bp_open_count = ds_open_count s + 1,
      bp_policy = pol_version (so_policy z), bp_policy_fingerprint = policy_fingerprint (so_policy z),
      bp_provenance = label\<rparr>"
  let ?z = "appended RT_Boot (wire_boot_payload b) z"
  have w: "writer_ready z (wire_log (ds_snapshot_seq base + 1) rs)" using assms(1) by (simp add: logged_as_def)
  have r: "\<not> journal_full z" "seq_room z" using ready_room [OF w assms(5)] by simp_all
  have c: "commit_boot now label z = (O_Ok, ?z)"
    using append_commit_ready [OF w, of "wire_boot_payload b" RT_Boot] r(1)
    by (simp add: commit_boot_def assms(2) advanced_def commit_documents is_affirmative_def Let_def b_def)
  have "ds_epoch s < ds_epoch s + 1"
    using assms(3) unatSuc [of "ds_epoch s"] by (simp add: word_less_nat_alt add.commute)
  then have ap: "applies (so_config z) RT_Boot (so_last_seq z + 1) (wire_boot_payload b) s
    (s\<lparr>ds_epoch := bp_epoch b, ds_boot_count := bp_boot_count b, ds_open_count := bp_open_count b,
      ds_policy := bp_policy b, ds_last_boot := bp_boot b, ds_last_incarnation := bp_incarnation b\<rparr>)"
    (is "applies _ _ _ _ _ ?s") by (intro applies_boot) (simp add: b_def)
  have id: "?z\<lparr>so_state := advanced s\<rparr> = ?z" using assms(2) by (simp add: appended_def Let_def)
  have "logged_as (?z\<lparr>so_state := advanced s\<rparr>) base (rs @ [(RT_Boot, wire_boot_payload b)]) ?s"
    by (rule logged_as_snoc [OF assms(1) r(2) _ ap]) simp
  moreover have "same_durable ?s (advanced s)" by (simp add: same_durable_def advanced_def b_def comp_def)
  moreover have "state_bounded (so_config z) (advanced s)" using assms(4) by (simp add: state_bounded_def advanced_def)
  ultimately have "logged ?z base (rs @ [(RT_Boot, wire_boot_payload b)])"
    unfolding id logged_def using assms(2) by auto
  moreover have "room_for k n (?z\<lparr>so_state := advanced s\<rparr>)"
    using assms(5) by (intro room_appended [OF w]) simp
  ultimately show ?thesis using c assms(2) unfolding id by auto
qed

lemma recommit_policy_run:
  assumes "logged z base rs" "room_for (Suc k) (194 + n) z" "validate_policy (so_policy z) = O_Ok"
  shows "\<exists>z' rs'. recommit_policy z = (O_Ok, z') \<and> logged z' base rs' \<and> room_for k n z' \<and>
    ds_fences (so_state z') = ds_fences (so_state z) \<and> ds_epoch (so_state z') = ds_epoch (so_state z) \<and>
    so_boot z' = so_boot z \<and> so_incarnation z' = so_incarnation z \<and> so_config z' = so_config z"
proof (cases "or_policy_restored (so_report z)")
  case True
  have "room_for k n z" using assms(2) by (simp add: room_for_def)
  then show ?thesis using True assms(1) by (auto simp: recommit_policy_def)
next
  case False
  let ?op = "SO_Policy (so_policy z)"
  note w = logged_facts(2) [OF assms(1)]
  have r: "\<not> journal_full z" "seq_room z" using ready_room [OF w assms(2)] by simp_all
  have "commit_policy (so_policy z) z = (O_Ok, committed ?op z)"
    using commit_ready [OF w, of ?op] r(1) assms(3) by simp
  then have "recommit_policy z = (O_Ok, committed ?op z)"
    using False by (simp add: recommit_policy_def is_affirmative_def Let_def)
  moreover have "logged (committed ?op z) base (rs @ [op_record ?op])"
    using assms(3) by (intro logged_commit [OF assms(1) r(2)]) simp_all
  moreover have "room_for k n (committed ?op z)" using assms(2) by (intro room_appended [OF w]) simp
  ultimately show ?thesis by auto
qed

lemma and_then_Ok: "f st = (O_Ok, st') \<Longrightarrow> and_then f g st = g st'"
  by (simp add: and_then_def is_affirmative_def)

lemma incarnate:
  assumes "recovered z base rs" "boot \<noteq> 0" "incarnation \<noteq> 0" "ds_epoch (so_state z) + 1 \<noteq> 0"
    and "validate_policy (so_policy z) = O_Ok"
    and "length (file_bytes (dk_journal (so_disk z))) + 287 + 301 * length (ds_fences (so_state z)) + n
          \<le> unat (cf_max_journal_bytes (so_config z))"
    and "unat (so_last_seq z) + 2 + 2 * length (ds_fences (so_state z)) + k < 18446744073709551615"
  shows "\<exists>st. and_then (advance_incarnation boot incarnation) (and_then (commit_boot now label)
      (and_then recommit_policy (fence_prior_authority now))) z = (O_Ok, st) \<and> store_inv st \<and> room_for k n st \<and>
    so_boot st = boot \<and> so_incarnation st = incarnation \<and> so_config st = so_config z \<and>
    ds_epoch (so_state st) = ds_epoch (so_state z) + 1 \<and>
    ds_fences (so_state st) = map close_fence (ds_fences (so_state z)) \<and>
    or_fenced_prior_fences (so_report st) =
      of_nat (length (filter (\<lambda>f. lifecycle_open (fp_lifecycle f)) (ds_fences (so_state z))))"
proof -
  let ?k = "2 * length (ds_fences (so_state z)) + k" and ?n = "301 * length (ds_fences (so_state z)) + n"
  obtain z1 where z1: "advance_incarnation boot incarnation z = (O_Ok, z1)" "logged_as z1 base rs (so_state z)"
    "so_state z1 = advanced (so_state z)" "so_boot z1 = boot" "so_incarnation z1 = incarnation"
    "so_config z1 = so_config z" "so_policy z1 = so_policy z" "so_last_seq z1 = so_last_seq z"
    "journal_size z1 = length (file_bytes (dk_journal (so_disk z)))"
    using advance_incarnation_run [OF assms(1-3)] by blast
  have "room_for (Suc (Suc ?k)) (93 + (194 + ?n)) z1" using assms(6,7) z1 by (simp add: room_for_def)
  moreover have "state_bounded (so_config z1) (so_state z)" using assms(1) z1(6) by (simp add: recovered_def)
  ultimately obtain z2 rs2 where z2: "commit_boot now label z1 = (O_Ok, z2)" "logged z2 base rs2"
    "so_state z2 = advanced (so_state z)" "room_for (Suc ?k) (194 + ?n) z2" "so_boot z2 = boot"
    "so_incarnation z2 = incarnation" "so_config z2 = so_config z" "so_policy z2 = so_policy z"
    using commit_boot_run [OF z1(2,3) assms(4)] z1 by metis
  obtain z3 rs3 where z3: "recommit_policy z2 = (O_Ok, z3)" "logged z3 base rs3" "room_for ?k ?n z3"
    "ds_fences (so_state z3) = ds_fences (so_state z)" "ds_epoch (so_state z3) = ds_epoch (so_state z) + 1"
    "so_boot z3 = boot" "so_incarnation z3 = incarnation" "so_config z3 = so_config z"
    using recommit_policy_run [OF z2(2,4)] assms(5) z2 by (auto simp: advanced_def)
  show ?thesis
    using fence_prior_authority_run [OF z3(2), of k n now] z3
    unfolding and_then_Ok [where f = "advance_incarnation boot incarnation", OF z1(1)]
      and_then_Ok [where f = "commit_boot now label", OF z2(1)] and_then_Ok [where f = recommit_policy, OF z3(1)]
    by (auto simp: store_inv_def)
qed

lemma prepare_root_run:
  assumes "dk_faults (so_disk z) = []"
  shows "prepare_root z = (O_Ok, z\<lparr>so_disk := (so_disk z)\<lparr>dk_staging := None\<rparr>\<rparr>)"
proof -
  have "is_safe_path_component ''journal.log''" "is_safe_path_component ''lineage.snapshot''" by code_simp+
  then show ?thesis using assms by (simp add: prepare_root_def io_ok_def io_call_def clean_staging_def Let_def)
qed

lemma store_open_run:
  assumes "config_ok config" "validate_policy policy = O_Ok" "boot \<noteq> 0" "incarnation \<noteq> 0"
    and "disk_holds config d base rs tail" "within_limits config d rs"
    and "replays config base rs s" "state_bounded config s" "ds_epoch s + 1 \<noteq> 0"
    and "length (wire_log (ds_snapshot_seq base + 1) rs) + 287 + 301 * length (ds_fences s) + n
          \<le> unat (cf_max_journal_bytes config)"
    and "unat (ds_snapshot_seq base) + length rs + 2 + 2 * length (ds_fences s) + k < 18446744073709551615"
  shows "\<exists>st. store_open boot incarnation now label (store_new config policy d) = (O_Ok, st) \<and> store_inv st \<and>
    room_for k n st \<and>
    so_boot st = boot \<and> so_incarnation st = incarnation \<and> so_config st = config \<and>
    ds_epoch (so_state st) = ds_epoch s + 1 \<and> ds_fences (so_state st) = map close_fence (ds_fences s) \<and>
    or_fenced_prior_fences (so_report st) = of_nat (length (filter (\<lambda>f. lifecycle_open (fp_lifecycle f)) (ds_fences s)))"
proof -
  let ?d = "d\<lparr>dk_staging := None\<rparr>" and ?seq = "ds_snapshot_seq base + of_nat (length rs)"
  let ?z0 = "(store_new config policy d)\<lparr>so_report := open_report_new\<rparr>"
  let ?z1 = "?z0\<lparr>so_disk := ?d\<rparr>"
  have d: "dk_faults d = []" "disk_holds config ?d base rs tail" "within_limits config ?d rs"
    using assms(5,6) by (simp_all add: disk_holds_def)
  obtain r where rec: "recover_state ?z1 = (O_Ok, ?z1\<lparr>so_state := s, so_last_seq := ?seq,
      so_disk := ?d\<lparr>dk_journal := Some (wire_log (ds_snapshot_seq base + 1) rs)\<rparr>, so_report := r\<rparr>)" (is "_ = (_, ?z2)")
    using recover_state_holds [of ?z1 base rs tail s] d(2,3) assms(7) by auto
  have seq: "unat ?seq = unat (ds_snapshot_seq base) + length rs"
    using assms(11) by (simp add: unat_word_ariths(1) unat_of_nat)
  have "recovered ?z2 base rs"
    using assms(1,7,8) d(1,2) by (simp add: recovered_def disk_holds_def file_bytes_def)
  from incarnate [OF this assms(3,4), of n k now label] rec prepare_root_run [of ?z0] d(1) seq assms(2,9-11)
  show ?thesis
    by (auto simp: store_open_def and_then_def is_affirmative_def file_bytes_def)
qed

text \<open>The first opening, in an empty directory.\<close>

definition empty_disk :: disk where
  "empty_disk = \<lparr>dk_journal = None, dk_snapshot = None, dk_staging = None, dk_faults = []\<rparr>"

lemma first_open:
  assumes "config_ok config" "validate_policy policy = O_Ok" "boot \<noteq> 0" "incarnation \<noteq> 0"
    and "287 + n \<le> unat (cf_max_journal_bytes config)" "2 + k < 18446744073709551615"
  shows "\<exists>st. store_open boot incarnation now label (store_new config policy empty_disk) = (O_Ok, st) \<and> store_inv st \<and>
    room_for k n st \<and> so_boot st = boot \<and> so_incarnation st = incarnation \<and> so_config st = config \<and>
    ds_epoch (so_state st) = 1 \<and> ds_fences (so_state st) = []"
proof -
  let ?z0 = "(store_new config policy empty_disk)\<lparr>so_report := open_report_new\<rparr>"
  have e: "dk_faults empty_disk = []" "dk_journal empty_disk = None" "dk_snapshot empty_disk = None"
    "empty_disk\<lparr>dk_staging := None\<rparr> = empty_disk" by (simp_all add: empty_disk_def)
  define z where "z = snd (recover_state ?z0)"
  have rec: "recover_state ?z0 = (O_Ok, z)" and z: "so_state z = durable_state_new" "so_last_seq z = 0"
    "so_config z = config" "so_policy z = policy" "so_disk z = empty_disk" "so_journal z = journal_writer_new"
    by (simp_all add: z_def recover_state_def and_then_def load_snapshot_def read_snapshot_def e snapshot_result_new_def
        is_affirmative_def replay_journal_def scan_journal_def scan_report_new_def durable_state_new_def Let_def)
  have "recovered z durable_state_new []"
    using assms(1) replays_Nil [of config durable_state_new]
    by (simp add: recovered_def z e file_bytes_def snapshot_holds_def state_bounded_def durable_state_new_def)
  from incarnate [OF this assms(3,4), of n k now label] assms(2,5,6) z e
  obtain st where st: "and_then (advance_incarnation boot incarnation) (and_then (commit_boot now label)
      (and_then recommit_policy (fence_prior_authority now))) z = (O_Ok, st)" "store_inv st" "room_for k n st" "so_boot st = boot"
    "so_incarnation st = incarnation" "so_config st = config" "ds_epoch (so_state st) = 1" "ds_fences (so_state st) = []"
    by (auto simp: file_bytes_def durable_state_new_def)
  have "prepare_root ?z0 = (O_Ok, ?z0)" using prepare_root_run [of ?z0] e by (simp add: store_new_def)
  then have "store_open boot incarnation now label (store_new config policy empty_disk) = (O_Ok, st)"
    using st(1) by (simp add: store_open_def and_then_Ok [where f = prepare_root] and_then_Ok [where f = recover_state, OF rec])
  with st show ?thesis by blast
qed

text \<open>
  C21. Crash safety of the journal. Take a store that satisfies the store invariant (open on a disk
  without faults, its files and its state agreeing) and any sequence of operations that it can keep:
  validated policies, admissible decisions, interruptions, checkpoints, and fence states that are valid
  and find room in the table of prior fences, an intent record only under an id that is not yet there
  (\<open>op_ok\<close>, at every step of \<open>ops_ok\<close>, with sequence numbers left). Stop the machine while the record of one more
  such commit is being written, when the journal with that record is within the bounds on its bytes and
  records that recovery applies. However many bytes of the record reached the disk, recovery succeeds:
  an incomplete record is cut off and the recovered state is the one before the commit, a complete one
  is replayed and the recovered state is the one the commit leaves. Outside these conditions the store
  can write files that it cannot read again; see the limits of recovery.
\<close>
theorem crash_recovery:
  assumes "store_inv st" "ops_ok ops st" "st1 = run_ops ops st"
    and "op_ok op st1" "op \<noteq> SO_Checkpoint" "seq_room st1" "\<not> journal_full st1"
    and "length (the (dk_journal (so_disk st1))) + 28 + length (snd (op_record op))
          \<le> unat (cf_max_journal_bytes (so_config st1))"
    and "log_length st1 < unat (cf_max_journal_records (so_config st1))"
  shows "\<exists>z. recover_state (store_new (so_config st1) policy (crash_disk n op st1)) = (O_Ok, z) \<and>
    (if n < 28 + length (snd (op_record op))
     then same_durable (so_state z) (so_state st1) \<and> so_last_seq z = so_last_seq st1
       \<and> dk_journal (so_disk z) = dk_journal (so_disk st1)
     else same_durable (so_state z) (so_state (snd (store_step op st1))) \<and> so_last_seq z = so_last_seq st1 + 1)"
proof -
  obtain base rs where l: "logged st1 base rs"
    using store_inv_run [OF assms(1,2)] by (auto simp: store_inv_def assms(3))
  have j: "dk_journal (so_disk st1) = Some (wire_log (ds_snapshot_seq base + 1) rs)"
    using l by (simp add: logged_def logged_as_def writer_ready_def)
  show ?thesis
  proof (cases "n < 28 + length (snd (op_record op))")
    case True
    have "length (the (dk_journal (crash_disk n op st1))) \<le> unat (cf_max_journal_bytes (so_config st1))"
      using assms(8) j by (simp add: crash_disk_def journal_write_def)
    then show ?thesis
      using recover_logged [OF l crash_disk_holds [OF l assms(4,5) True], of policy] assms(9) True by auto
  next
    case False
    let ?st = "committed op st1"
    have l': "logged ?st base (rs @ [op_record op])" by (rule logged_commit [OF l assms(6,4,5)])
    have "length (the (dk_journal (so_disk ?st))) \<le> unat (cf_max_journal_bytes (so_config st1))"
      using assms(8) j by (simp add: appended_def Let_def journal_write_def)
    moreover have "log_length ?st \<le> unat (cf_max_journal_records (so_config st1))"
      using logged_length [OF l] logged_length [OF l'] assms(9) by simp
    moreover have "snd (store_step op st1) = ?st"
      using commit_ready [OF logged_facts(2) [OF l] assms(4,5)] assms(7) by simp
    ultimately show ?thesis
      using recover_logged [OF l' logged_disk [OF l'], of policy] False crash_disk_complete [of op n st1] by auto
  qed
qed

text \<open>The store opened for the first time with the default configuration and policy.\<close>

lemma sample_config: "config_ok default_store_config" "unat (cf_max_journal_bytes default_store_config) = 67108864"
  "unat (cf_max_journal_records default_store_config) = 65536"
  by (simp_all add: config_ok_def default_store_config_def)

lemma sample_opened:
  "\<exists>st. store_open 7 8 0 P_Synthetic (store_new default_store_config default_policy empty_disk) = (O_Ok, st) \<and>
    store_inv st \<and> so_config st = default_store_config \<and> unat (so_last_seq st) < 100 \<and> journal_size st \<le> 10000 \<and>
    ds_epoch (so_state st) = 1 \<and> ds_fences (so_state st) = []"
  using first_open [of default_store_config default_policy 7 8 67098864 18446744073709551515 0 P_Synthetic]
    sample_config default_policy_valid by (auto simp: room_for_def)

definition sample_interruption :: interruption_payload where
  "sample_interruption = \<lparr>ip_reason = R_RestartFencedPriorAuthority, ip_fence = 1, ip_decision = 2, ip_scope = scope_nil,
     ip_prior_epoch = 1, ip_prior_boot = 3, ip_prior_incarnation = 4, ip_at = 5\<rparr>"

theorem crash_recovery_witness:
  "\<exists>st z. store_open 7 8 0 P_Synthetic (store_new default_store_config default_policy empty_disk) = (O_Ok, st) \<and>
    recover_state (store_new default_store_config default_policy
      (crash_disk 40 (SO_Interruption sample_interruption) st)) = (O_Ok, z) \<and>
    same_durable (so_state z) (so_state st)"
proof -
  let ?op = "SO_Interruption sample_interruption"
  obtain st where st: "store_open 7 8 0 P_Synthetic (store_new default_store_config default_policy empty_disk) = (O_Ok, st)"
    "store_inv st" "so_config st = default_store_config" "unat (so_last_seq st) < 100" "journal_size st \<le> 10000"
    using sample_opened by blast
  obtain base rs where l: "logged st base rs" using st(2) by (auto simp: store_inv_def)
  have full: "\<not> journal_full st" using not_full [OF logged_facts(2) [OF l]] st(3,5) sample_config(2) logged_facts(2) [OF l]
    by (simp add: writer_ready_def)
  have len: "log_length st < 65536" using st(4) by (simp add: log_length_def)
  show ?thesis
    using crash_recovery [of st "[]" st ?op default_policy 40] st full len sample_config by auto
qed

text \<open>
  C22. A restart confers no authority. Take a store that satisfies the store invariant, stop the machine
  in the middle of a commit that it can keep, and open the store again with a validated policy and
  fresh boot and incarnation ids, when the journal has room in bytes, records and sequence numbers for
  the records of the opening and the epoch does not wrap: the opening succeeds, the epoch is one higher,
  every fence intent of the previous incarnation is still there and none of them is open any more, the
  report counts those that were, and the reopened store satisfies the invariant again.
\<close>
theorem restart_after_crash:
  assumes "store_inv st" "op_ok op st" "op \<noteq> SO_Checkpoint" "n < 28 + length (snd (op_record op))"
    and "validate_policy policy = O_Ok" "boot \<noteq> 0" "incarnation \<noteq> 0" "ds_epoch (so_state st) + 1 \<noteq> 0"
    and "journal_size st + 4124 + 301 * length (ds_fences (so_state st)) \<le> unat (cf_max_journal_bytes (so_config st))"
    and "log_length st \<le> unat (cf_max_journal_records (so_config st))"
    and "unat (so_last_seq st) + 2 + 2 * length (ds_fences (so_state st)) < 18446744073709551615"
  shows "\<exists>st'. store_open boot incarnation now label (store_new (so_config st) policy (crash_disk n op st)) = (O_Ok, st') \<and>
    store_inv st' \<and> so_boot st' = boot \<and> so_incarnation st' = incarnation \<and>
    ds_epoch (so_state st') = ds_epoch (so_state st) + 1 \<and>
    map fp_intent (ds_fences (so_state st')) = map fp_intent (ds_fences (so_state st)) \<and>
    (\<forall>f \<in> set (ds_fences (so_state st')). \<not> lifecycle_open (fp_lifecycle f)) \<and>
    or_fenced_prior_fences (so_report st') =
      of_nat (length (filter (\<lambda>f. lifecycle_open (fp_lifecycle f)) (ds_fences (so_state st))))"
proof -
  obtain base rs where l: "logged st base rs" using assms(1) by (auto simp: store_inv_def)
  obtain s where s: "logged_as st base rs s" "same_durable s (so_state st)" using l by (auto simp: logged_def)
  have j: "journal_size st = length (wire_log (ds_snapshot_seq base + 1) rs)"
    using logged_facts(2) [OF l] by (simp add: writer_ready_def)
  have "length (the (dk_journal (crash_disk n op st))) \<le> unat (cf_max_journal_bytes (so_config st))"
    using logged_facts(2) [OF l] assms(9) commit_payload_length [OF assms(2)]
    by (simp add: crash_disk_def journal_write_def writer_ready_def)
  moreover have "state_bounded (so_config st) s"
    using logged_facts(3) [OF l] same_durable_length [OF s(2)] s(2) by (simp add: state_bounded_def same_durable_def)
  moreover have "ds_epoch s = ds_epoch (so_state st)" "ds_fences s = ds_fences (so_state st)"
    "replays (so_config st) base rs s"
    using s by (simp_all add: same_durable_def logged_as_def)
  ultimately show ?thesis
    using store_open_run [OF logged_facts(1) [OF l] assms(5-7) crash_disk_holds [OF l assms(2-4)], of s 0 0 now label]
      assms(8-11) j logged_length [OF l] logged_last_seq [OF l] by (auto simp: comp_def)
qed

theorem restart_after_crash_witness:
  "\<exists>st st'. store_open 7 8 0 P_Synthetic (store_new default_store_config default_policy empty_disk) = (O_Ok, st) \<and>
    store_open 9 10 1 P_Synthetic (store_new default_store_config default_policy
      (crash_disk 40 (SO_Interruption sample_interruption) st)) = (O_Ok, st') \<and>
    store_inv st' \<and> ds_epoch (so_state st') = 2"
proof -
  let ?op = "SO_Interruption sample_interruption"
  obtain st where st: "store_open 7 8 0 P_Synthetic (store_new default_store_config default_policy empty_disk) = (O_Ok, st)"
    "store_inv st" "so_config st = default_store_config" "unat (so_last_seq st) < 100" "journal_size st \<le> 10000"
    "ds_epoch (so_state st) = 1" "ds_fences (so_state st) = []"
    using sample_opened by blast
  have "log_length st \<le> 65536" using st(4) by (simp add: log_length_def)
  then show ?thesis
    using restart_after_crash [of st ?op 40 default_policy 9 10 1 P_Synthetic] st sample_config default_policy_valid by auto
qed

end
