(* ===== verification/BHG_Recovery_Limits.thy ===== *)
theory BHG_Recovery_Limits
  imports BHG_Recovery
begin

text \<open>
  Where recovery refuses files that the store itself wrote: a crash between the two steps of a
  checkpoint, an append behind a preallocated tail, a fence recorded although the table of fences
  is full, and a journal that an append took past its bound.
\<close>

lemma scan_refuse_outcome [simp]: "js_outcome (scan_refuse oc detail rep) = oc"
  by (simp add: scan_refuse_def)

lemma next_nonzero: "unat (x :: u64) < 18446744073709551615 \<Longrightarrow> x + 1 \<noteq> 0"
proof -
  assume "unat x < 18446744073709551615"
  then have "unat (x + 1) = unat x + 1" by (simp add: unat_word_ariths(1))
  then show ?thesis by (metis add_is_0 one_neq_zero unsigned_0)
qed

lemma scan_step_gap:
  assumes "take 24 data = make_header kJournalMagic (record_type_code ty) seq (length payload)"
    and "payload_fits max_payload payload" "seq \<noteq> expected"
  shows "scan_step visit max_payload max_records data 0 expected rep y =
    Inl (scan_refuse O_Corrupt ''record sequence regression or gap'' rep, y)"
proof -
  have "length (take 24 data) = 24" by (simp add: assms(1))
  then have len: "24 \<le> length data" "data \<noteq> []" by auto
  have "get_u32 (take 24 data) 0 = kJournalMagic"
    unfolding assms(1) by (rule make_header_at(1) [where rest = "[]" and kind = "record_type_code ty"]) simp
  then show ?thesis
    using len assms(3) decode_record_header_wire [OF assms(2), of ty seq]
    by (simp add: scan_step_def Let_def kJournalHeaderSize_def flip: assms(1))
qed

text \<open>A scan that the loop refuses makes the recovery of the store fail with its outcome.\<close>

lemma recover_refused:
  assumes "snapshot_holds (so_config z) (so_disk z) base" "dk_faults (so_disk z) = []" "so_state z = durable_state_new"
    and "dk_journal (so_disk z) = Some j" "length j \<le> unat (cf_max_journal_bytes (so_config z))"
    and "ds_snapshot_seq base + 1 \<noteq> 0"
    and "\<And>y. so_config y = so_config z \<Longrightarrow> so_state y = base \<Longrightarrow> so_last_seq y = ds_snapshot_seq base \<Longrightarrow>
      js_outcome (fst (scan_loop (replay_visit (ds_snapshot_seq base)) (cf_max_record_payload (so_config z))
        (cf_max_journal_records (so_config z)) j 0 (ds_snapshot_seq base + 1) scan_report_new y)) = oc"
    and "oc \<noteq> O_Ok"
  shows "fst (recover_state z) = oc"
proof -
  obtain r where l: "load_snapshot z = (O_Ok, z\<lparr>so_state := base, so_report := r\<rparr>)"
    using load_snapshot_holds [OF assms(1-3)] by blast
  let ?y = "z\<lparr>so_state := base, so_report := r, so_last_seq := ds_snapshot_seq base\<rparr>"
  have "js_outcome (fst (scan_loop (replay_visit (ds_snapshot_seq base)) (cf_max_record_payload (so_config z))
        (cf_max_journal_records (so_config z)) j 0 (ds_snapshot_seq base + 1) scan_report_new ?y)) = oc"
    by (rule assms(7)) simp_all
  then show ?thesis
    using assms(6,8) read_whole_file_ok [OF assms(4,2,5)] assms(4)
    by (auto simp: recover_state_def and_then_Ok [where f = load_snapshot, OF l] replay_journal_def scan_journal_def
        open_fail_def is_affirmative_def Let_def split: prod.splits)
qed

text \<open>
  C37. A crash inside a checkpoint, after the new snapshot has replaced the old one and before the
  journal is truncated, leaves files that the store refuses to open: the scan expects the journal
  to begin behind the snapshot, but its records are older. The branch of the replay visitor that
  would skip such records is never reached.
\<close>
theorem checkpoint_crash_refused:
  assumes "store_inv st" "0 < log_length st" "snapshot_fits st"
    and "journal_size st \<le> unat (cf_max_journal_bytes (so_config st))"
  shows "fst (recover_state (store_new (so_config st) policy ((so_disk st)\<lparr>dk_snapshot :=
    Some (wire_snapshot (so_last_seq st) (wire_durable_state (build_snapshot_state st)))\<rparr>))) = O_Corrupt"
proof -
  obtain base rs where l: "logged st base rs" using assms(1) by (auto simp: store_inv_def)
  let ?snap = "build_snapshot_state st" and ?max = "cf_max_record_payload (so_config st)"
  let ?d = "(so_disk st)\<lparr>dk_snapshot := Some (wire_snapshot (so_last_seq st) (wire_durable_state ?snap))\<rparr>"
  have seq: "ds_snapshot_seq ?snap = so_last_seq st" by (simp add: build_snapshot_state_def)
  note last = logged_last_seq [OF l]
  obtain ty payload rs' where rs: "rs = (ty, payload) # rs'" using assms(2) logged_length [OF l] by (cases rs) auto
  have fits: "payload_fits ?max payload" using l by (auto simp: logged_def logged_as_def rs)
  let ?j = "wire_log (ds_snapshot_seq base + 1) rs"
  have j: "dk_journal ?d = Some ?j" "dk_faults ?d = []" using logged_facts(2) [OF l] by (simp_all add: writer_ready_def)
  have bound: "unat (ds_snapshot_seq base) + length rs < 18446744073709551615" using l by (auto simp: logged_def logged_as_def)
  have snap: "snapshot_holds (so_config st) ?d ?snap"
    using logged_rotated [OF l assms(3)] by (auto simp: logged_def logged_as_def rotated_def snapshot_holds_def)
  have ne: "ds_snapshot_seq base + 1 \<noteq> so_last_seq st + 1"
  proof
    assume "ds_snapshot_seq base + 1 = so_last_seq st + 1"
    then show False using last rs by simp
  qed
  have h: "take 24 ?j = make_header kJournalMagic (record_type_code ty) (ds_snapshot_seq base + 1) (length payload)"
    by (simp add: rs wire_record_def Let_def)
  have "js_outcome (fst (scan_loop v ?max m ?j 0 (so_last_seq st + 1) scan_report_new y)) = O_Corrupt"
    for v m and y :: store
    by (subst scan_loop.simps, subst scan_step_gap [OF h fits ne]) simp
  moreover have "so_last_seq st + 1 \<noteq> 0" using bound last by (intro next_nonzero) simp
  ultimately show ?thesis
    using recover_refused [of "store_new (so_config st) policy ?d" ?snap ?j O_Corrupt] snap j assms(4) seq by simp
qed

lemma length_wire_durable_state:
  "length (wire_durable_state s) = 114 + 122 * length (ds_lineage s) + 161 * length (ds_fences s)"
proof -
  have "length (wire_vector wire_lineage_entry (ds_lineage s)) = 4 + length (ds_lineage s) * 122"
    "length (wire_vector wire_fence_state (ds_fences s)) = 4 + length (ds_fences s) * 161"
    by (rule length_wire_vector, simp)+
  then show ?thesis by (simp add: wire_durable_state_def)
qed

lemma default_snapshot_fits:
  assumes "state_bounded default_store_config (so_state st)" "so_config st = default_store_config"
  shows "snapshot_fits st"
  using assms by (simp add: length_wire_durable_state build_snapshot_state_def state_bounded_def default_store_config_def)

theorem checkpoint_crash_refused_witness:
  "\<exists>st st1. store_open 7 8 0 P_Synthetic (store_new default_store_config default_policy empty_disk) = (O_Ok, st) \<and>
    store_step (SO_Interruption sample_interruption) st = (O_Ok, st1) \<and>
    fst (recover_state (store_new default_store_config default_policy ((so_disk st1)\<lparr>dk_snapshot :=
      Some (wire_snapshot (so_last_seq st1) (wire_durable_state (build_snapshot_state st1)))\<rparr>))) = O_Corrupt"
proof -
  let ?op = "SO_Interruption sample_interruption"
  obtain st where st: "store_open 7 8 0 P_Synthetic (store_new default_store_config default_policy empty_disk) = (O_Ok, st)"
    "store_inv st" "so_config st = default_store_config" "unat (so_last_seq st) < 100" "journal_size st \<le> 10000"
    using sample_opened by blast
  obtain base rs where l: "logged st base rs" using st(2) by (auto simp: store_inv_def)
  note w = logged_facts(2) [OF l]
  have full: "\<not> journal_full st" using not_full [OF w] st(3,5) sample_config(2) w by (simp add: writer_ready_def)
  have l1: "logged (committed ?op st) base (rs @ [op_record ?op])" using st(4) by (intro logged_commit [OF l]) simp_all
  have c: "store_step ?op st = (O_Ok, committed ?op st)" using commit_ready [OF w, of ?op] full by simp
  have "journal_size (committed ?op st) \<le> 67108864"
    using st(5) w by (simp add: appended_def Let_def journal_write_def writer_ready_def)
  moreover have "store_inv (committed ?op st)" "0 < log_length (committed ?op st)"
    using l1 logged_length [OF l1] by (auto simp: store_inv_def)
  moreover have "snapshot_fits (committed ?op st)"
    by (rule default_snapshot_fits) (use logged_facts(3) [OF l1] st(3) in simp_all)
  ultimately show ?thesis
    using checkpoint_crash_refused [of "committed ?op st" default_policy] st(1,3) c sample_config by auto
qed

lemma scan_loop_refused_record:
  assumes "log_fits max_payload rs" "length rs < unat max_records" "visit_log visit first rs y = (O_Ok, y')"
    and "payload_fits max_payload payload" "visit ty (first + of_nat (length rs)) payload y' = (oc, y'')" "oc \<noteq> O_Ok"
  shows "js_outcome (fst (scan_loop visit max_payload max_records
    (wire_log first rs @ wire_record ty (first + of_nat (length rs)) payload @ rest) 0 first scan_report_new y)) = oc"
proof -
  let ?seq = "first + of_nat (length rs)"
  let ?tail = "wire_record ty ?seq payload @ rest" and ?n = "length (wire_log first rs)"
  let ?h = "make_header kJournalMagic (record_type_code ty) ?seq (length payload)"
  let ?rep = "replayed (length rs) ?n (?seq - 1) scan_report_new"
  have "scan_loop visit max_payload max_records (wire_log first rs @ ?tail) 0 first scan_report_new y =
      scan_loop visit max_payload max_records (wire_log first rs @ ?tail) ?n ?seq ?rep y'"
    using scan_loop_log [of "wire_log first rs @ ?tail" "[]" first rs ?tail 0 max_payload scan_report_new max_records visit y y']
      assms(1-3) by (simp add: scan_report_new_def)
  moreover have tail: "wire_log first rs @ ?tail = wire_log first rs @ ?h @ payload @ le_bytes 4 (crc32c (?h @ payload) 0) @ rest"
    by (simp add: wire_record_def Let_def)
  moreover have "\<not> js_records ?rep \<ge> max_records"
    using assms(2) u64_less [of max_records] by (simp add: replayed_def scan_report_new_def word_le_nat_alt unat_of_nat)
  then have "scan_loop visit max_payload max_records (wire_log first rs @ ?tail) ?n ?seq ?rep y' =
      (scan_refuse oc ''record payload rejected during replay'' ?rep, y'')"
    using scan_step_header [OF tail refl assms(4) refl, of visit max_records ?rep y'] assms(5,6)
    by (subst scan_loop.simps) (simp add: is_affirmative_def)
  ultimately show ?thesis by simp
qed

text \<open>
  C38. A full fence table blocks the next opening. In a store within its invariant, with room in the
  sequence numbers and in the journal for the record, and with the table of prior fences full,
  committing a fence with a new id writes its record and then reports \<open>Exhausted\<close>; recovering the files
  that this leaves fails with \<open>Exhausted\<close>, and so does recovering them after any further bytes were
  appended to the journal within its bound: nothing that is written behind the record helps. (A
  checkpoint, which starts the journal anew, does.)
\<close>
theorem full_fence_table_blocks_reopen:
  assumes "store_inv st" "fence_record_type ty" "fence_state_ok f" "\<not> fence_room (so_config st) f (so_state st)"
    and "seq_room st" "journal_size st + 189 \<le> unat (cf_max_journal_bytes (so_config st))"
    and "log_length st < unat (cf_max_journal_records (so_config st))"
  shows "fst (commit_fence_state ty f st) = O_Exhausted \<and>
    fst (recover_state (store_new (so_config st) policy (so_disk (snd (commit_fence_state ty f st))))) = O_Exhausted \<and>
    (\<exists>j. dk_journal (so_disk (snd (commit_fence_state ty f st))) = Some j \<and>
      (\<forall>more. length j + length more \<le> unat (cf_max_journal_bytes (so_config st)) \<longrightarrow>
        fst (recover_state (store_new (so_config st) policy
          ((so_disk (snd (commit_fence_state ty f st)))\<lparr>dk_journal := Some (j @ more)\<rparr>))) = O_Exhausted))"
proof -
  obtain base rs s where l: "logged st base rs" and s: "logged_as st base rs s" "same_durable s (so_state st)"
    using assms(1) by (auto simp: store_inv_def logged_def)
  note w = logged_facts(2) [OF l]
  let ?st = "appended ty (wire_fence_state f) st" and ?seq = "ds_snapshot_seq base + 1 + of_nat (length rs)"
  let ?j = "wire_log (ds_snapshot_seq base + 1) rs" and ?r = "wire_record ty (so_last_seq st + 1) (wire_fence_state f)"
  have len: "length ?j + 189 \<le> unat (cf_max_journal_bytes (so_config st))" "length rs < unat (cf_max_journal_records (so_config st))"
    using assms(6,7) w logged_length [OF l] by (simp_all add: writer_ready_def)
  have c: "commit_fence_state ty f st = (O_Exhausted, ?st)"
    using commit_fence_state_ready [OF w assms(3), of ty] not_full [OF w] len(1) assms(4) by simp
  have seq: "so_last_seq st + 1 = ?seq" and cfg: "config_ok (so_config st)" using s(1) by (simp_all add: logged_as_def)
  have fits: "log_fits (cf_max_record_payload (so_config st)) rs" "payload_fits (cf_max_record_payload (so_config st)) (wire_fence_state f)"
    using s(1) cfg by (simp_all add: logged_as_def config_ok_def payload_fits_def)
  have last: "unat (so_last_seq st) = unat (ds_snapshot_seq base) + length rs" by (rule logged_last_seq [OF l])
  have later: "\<not> so_last_seq st + 1 \<le> ds_snapshot_seq base"
    using seq_advances [of "ds_snapshot_seq base" "Suc (length rs)"] last assms(5) s(1) by (simp add: logged_as_def ac_simps)
  have "js_outcome (fst (scan_loop (replay_visit (ds_snapshot_seq base)) (cf_max_record_payload (so_config st))
        (cf_max_journal_records (so_config st)) (?j @ ?r @ more) 0 (ds_snapshot_seq base + 1) scan_report_new y)) = O_Exhausted"
    if y: "so_config y = so_config st" "so_state y = base" "so_last_seq y = ds_snapshot_seq base" for y more
  proof -
    let ?y = "y\<lparr>so_state := s, so_last_seq := ds_snapshot_seq base + of_nat (length rs)\<rparr>"
    have v: "visit_log (replay_visit (ds_snapshot_seq base)) (ds_snapshot_seq base + 1) rs y = (O_Ok, ?y)"
      using s(1) y by (simp add: logged_as_def replays_def)
    have "replay_visit (ds_snapshot_seq base) ty (so_last_seq st + 1) (wire_fence_state f) ?y = (O_Exhausted, ?y)"
      using later assms(2-4) y(1) same_durable_fences [OF s(2)]
      by (simp add: replay_visit_def apply_record_fence apply_fence_def document_decodes fence_room_def Let_def)
    then show ?thesis
      using scan_loop_refused_record [OF fits(1) len(2) v fits(2), of ty _ _ more] by (simp add: seq)
  qed
  note scan = this
  have disk: "dk_journal (so_disk ?st) = Some (?j @ ?r)" "dk_faults (so_disk ?st) = []"
    "snapshot_holds (so_config st) (so_disk ?st) base" "length (?j @ ?r) \<le> unat (cf_max_journal_bytes (so_config st))"
    using w s(1) len(1)
    by (simp_all add: appended_def Let_def journal_write_def writer_ready_def logged_as_def snapshot_holds_def)
  have base: "ds_snapshot_seq base + 1 \<noteq> 0" using last assms(5) by (intro next_nonzero) simp
  have more: "fst (recover_state (store_new (so_config st) policy ((so_disk ?st)\<lparr>dk_journal := Some ((?j @ ?r) @ more)\<rparr>))) = O_Exhausted"
    if "length (?j @ ?r) + length more \<le> unat (cf_max_journal_bytes (so_config st))" for more
    by (rule recover_refused [where base = base and j = "?j @ ?r @ more"])
      (use scan disk base that in \<open>simp_all add: snapshot_holds_def\<close>)
  have "(so_disk ?st)\<lparr>dk_journal := Some (?j @ ?r)\<rparr> = so_disk ?st" using disk(1) by simp
  with more [of "[]"] disk(4) have "fst (recover_state (store_new (so_config st) policy (so_disk ?st))) = O_Exhausted" by simp
  with more disk(1) c show ?thesis by simp
qed

definition tight_config :: store_config where
  "tight_config = default_store_config\<lparr>cf_max_prior_fences := 0\<rparr>"

definition sample_fence_state :: fence_state_payload where
  "sample_fence_state = \<lparr>fp_intent = sample_intent, fp_lifecycle = 0, fp_effect_verified = False, fp_ack_owner = 0,
     fp_effect_owner = 0, fp_acked_at = 0, fp_effected_at = 0, fp_terminal_reason = R_None\<rparr>"

lemma sample_intent_valid: "fi_is_valid sample_intent"
  by (simp add: fi_is_valid_def sample_intent_def sample_simps)

theorem full_fence_table_blocks_reopen_witness:
  "\<exists>st. store_open 7 8 0 P_Synthetic (store_new tight_config default_policy empty_disk) = (O_Ok, st) \<and>
    fst (commit_fence_state RT_FenceIntentCommit sample_fence_state st) = O_Exhausted \<and>
    fst (recover_state (store_new tight_config default_policy
      (so_disk (snd (commit_fence_state RT_FenceIntentCommit sample_fence_state st))))) = O_Exhausted"
proof -
  have c: "config_ok tight_config" "unat (cf_max_journal_bytes tight_config) = 67108864"
    "unat (cf_max_journal_records tight_config) = 65536" "cf_max_prior_fences tight_config = 0"
    by (simp_all add: tight_config_def config_ok_def default_store_config_def)
  obtain st where st: "store_open 7 8 0 P_Synthetic (store_new tight_config default_policy empty_disk) = (O_Ok, st)"
    "store_inv st" "so_config st = tight_config" "room_for 18446744073709551515 67098864 st" "ds_fences (so_state st) = []"
    using first_open [OF c(1) default_policy_valid, of 7 8 67098864 18446744073709551515 0 P_Synthetic] c by auto
  have r: "seq_room st" "journal_size st + 189 \<le> 67108864" "log_length st < 65536"
    using st(3,4) c by (auto simp: room_for_def log_length_def)
  have f: "fence_state_ok sample_fence_state" "\<not> fence_room (so_config st) sample_fence_state (so_state st)"
    using sample_intent_valid st(3,5) c(4)
    by (simp_all add: fence_state_ok_def sample_fence_state_def is_valid_fence_lifecycle_def fence_room_def)
  show ?thesis
    using full_fence_table_blocks_reopen [OF st(2) _ f, of RT_FenceIntentCommit default_policy] r st(1,3) c
    by (auto simp: fence_record_type_def)
qed

text \<open>An append that takes the journal past its bound succeeds, and the file is then too large to be
  recovered: the bound is looked at before the record is added, not after.\<close>

lemma append_past_bound_refused:
  assumes "store_inv st" "length payload \<le> 4096" "journal_size st < unat (cf_max_journal_bytes (so_config st))"
    and "journal_size st + 28 + length payload > unat (cf_max_journal_bytes (so_config st))"
  shows "fst (fst (append_commit ty payload st)) = O_Ok \<and>
    fst (recover_state (store_new (so_config st) policy (so_disk (snd (append_commit ty payload st))))) = O_Oversized"
proof -
  obtain base rs where l: "logged st base rs" using assms(1) by (auto simp: store_inv_def)
  note w = logged_facts(2) [OF l]
  let ?z = "store_new (so_config st) policy (so_disk (appended ty payload st))"
  have c: "append_commit ty payload st = ((O_Ok, so_last_seq st + 1), appended ty payload st)"
    using append_commit_ready [OF w, of payload ty] not_full [OF w] assms(2,3) w by (simp add: writer_ready_def)
  have d: "dk_journal (so_disk ?z) = Some (wire_log (ds_snapshot_seq base + 1) rs @ wire_record ty (so_last_seq st + 1) payload)"
    "dk_faults (so_disk ?z) = []" "snapshot_holds (so_config ?z) (so_disk ?z) base"
    using w l by (auto simp: appended_def Let_def journal_write_def writer_ready_def logged_def logged_as_def snapshot_holds_def)
  obtain r where "load_snapshot ?z = (O_Ok, ?z\<lparr>so_state := base, so_report := r\<rparr>)"
    using load_snapshot_holds [OF d(3,2)] by auto
  then show ?thesis
    using c d assms(4) w
    by (simp add: recover_state_def and_then_def replay_journal_def scan_journal_def read_whole_file_def io_ok_def
        io_call_def open_fail_def scan_refuse_def is_affirmative_def writer_ready_def Let_def)
qed

lemma zero_is_not_magic: "get_u32 (0 # bs) 0 \<noteq> kJournalMagic"
proof -
  have "\<not> bit (get_u32 (0 # bs) 0) 1" by (simp add: get_u32_def le_value_def upt_rec bit_simps)
  moreover have "bit kJournalMagic 1" by (simp add: kJournalMagic_def)
  ultimately show ?thesis by metis
qed

lemma scan_step_zero_byte:
  assumes "data = pre @ 0 # bs" "is_all_zero (0 # bs) \<or> 23 \<le> length bs"
  shows "scan_step visit max_payload max_records data (length pre) expected rep s =
    Inl (if is_all_zero (0 # bs) then scan_done (scan_zero (Suc (length bs)) rep)
         else scan_refuse O_Corrupt ''bad record magic'' rep, s)"
  using assms zero_is_not_magic by (auto simp: scan_step_def Let_def kJournalHeaderSize_def)

text \<open>A preallocated tail of zeros is accepted, but it is not removed: the record that the same opening
  appends behind it makes the journal corrupt.\<close>

lemma append_behind_zero_tail_refused:
  assumes "length (wire_log first rs) + Suc k + 28 + length payload \<le> unat max_bytes" "length rs \<le> unat max_records"
    and "log_fits max_payload rs" "first \<noteq> 0" "visit_log visit first rs s = (O_Ok, s')" "dk_faults d = []"
  shows "js_outcome (fst (scan_journal max_payload max_bytes max_records first visit s
      (d\<lparr>dk_journal := Some (wire_log first rs @ replicate (Suc k) 0)\<rparr>))) = O_Ok \<and>
    js_outcome (fst (scan_journal max_payload max_bytes max_records first visit s
      (d\<lparr>dk_journal := Some (wire_log first rs @ replicate (Suc k) 0 @ wire_record ty seq payload)\<rparr>))) = O_Corrupt"
proof -
  let ?n = "length (wire_log first rs)" and ?seq = "first + of_nat (length rs)"
  let ?rep = "replayed (length rs) ?n (?seq - 1) scan_report_new"
  have run: "scan_loop visit max_payload max_records (wire_log first rs @ tail) 0 first scan_report_new s =
      scan_loop visit max_payload max_records (wire_log first rs @ tail) ?n ?seq ?rep s'" for tail
    using scan_loop_log [of "wire_log first rs @ tail" "[]" first rs tail 0 max_payload scan_report_new max_records visit s s']
      assms(2,3,5) by (simp add: scan_report_new_def)
  let ?tail = "replicate (Suc k) 0 @ wire_record ty seq payload"
  have zero: "is_all_zero (replicate (Suc k) 0)" by (simp add: is_all_zero_def list_all_iff)
  have "\<not> is_all_zero (wire_record ty seq payload)"
    by (rule record_prefix_not_zero [where missing = "[]"]) (simp_all flip: length_greater_0_conv)
  then have nz: "\<not> is_all_zero ?tail" by (auto simp: is_all_zero_def list_all_iff)
  have a: "scan_loop visit max_payload max_records (wire_log first rs @ replicate (Suc k) 0) ?n ?seq ?rep s' =
      (scan_done (scan_zero (Suc k) ?rep), s')"
    using scan_step_zero_byte [where visit = visit and pre = "wire_log first rs" and bs = "replicate k 0", OF refl] zero by (subst scan_loop.simps) simp
  have b: "scan_loop visit max_payload max_records (wire_log first rs @ ?tail) ?n ?seq ?rep s' =
      (scan_refuse O_Corrupt ''bad record magic'' ?rep, s')"
    using scan_step_zero_byte [where visit = visit and pre = "wire_log first rs" and bs = "replicate k 0 @ wire_record ty seq payload", OF refl] nz
    by (subst scan_loop.simps) simp
  have r: "read_whole_file max_bytes (d\<lparr>dk_journal := Some j\<rparr>) = (Inr j, d\<lparr>dk_journal := Some j\<rparr>)"
    if "length j \<le> unat max_bytes" for j
    using that assms(6) by (intro read_whole_file_ok) simp_all
  show ?thesis
    using r [of "wire_log first rs @ replicate (Suc k) 0"] r [of "wire_log first rs @ ?tail"] run a b assms(1,4)
    by (simp add: scan_journal_def scan_done_def)
qed

end
