(* ===== verification/BHG_Engine.thy ===== *)
theory BHG_Engine
  imports BHG_Recovery
begin

text \<open>
  The coordinator (\<open>service/engine.hpp\<close>, \<open>service/engine.cpp\<close>): the ledger, the classifier, the
  localizer, the fence registry and the store under one mutex. Every public operation is one
  function on the engine state; what it reads from the clock is the argument \<open>clk\<close>, where \<open>clk n\<close> is
  the n-th reading of the call. \<open>localize\<close> releases the mutex between its diagnosis and its result,
  so it is two functions, and other calls may run in between.
\<close>

section \<open>State\<close>

record engine_config =
  ec_store :: store_config
  ec_policy :: fence_policy
  ec_label :: provenance
  ec_role :: string

record engine_stats =
  es_evidence_submitted :: u64
  es_evidence_admitted :: u64
  es_evidence_rejected :: u64
  es_evaluations :: u64
  es_localization_enrichments :: u64
  es_decisions_produced :: u64
  es_decisions_committed :: u64
  es_decision_commit_failures :: u64
  es_durable_commit_failures :: u64
  es_fence_intents_issued :: u64
  es_localizations :: u64
  es_restorations_authorized :: u64
  es_restorations_refused :: u64
  es_refusals_fail_closed :: u64
  es_fence_revocations :: u64

definition engine_stats_new :: engine_stats where
  "engine_stats_new = \<lparr>es_evidence_submitted = 0, es_evidence_admitted = 0, es_evidence_rejected = 0,
     es_evaluations = 0, es_localization_enrichments = 0, es_decisions_produced = 0,
     es_decisions_committed = 0, es_decision_commit_failures = 0, es_durable_commit_failures = 0,
     es_fence_intents_issued = 0, es_localizations = 0, es_restorations_authorized = 0,
     es_restorations_refused = 0, es_refusals_fail_closed = 0, es_fence_revocations = 0\<rparr>"

definition es_accounting_closed :: "engine_stats \<Rightarrow> bool" where
  "es_accounting_closed s \<longleftrightarrow>
     es_evidence_submitted s = es_evidence_admitted s + es_evidence_rejected s \<and>
     es_decisions_produced s = es_evaluations s + es_localization_enrichments s \<and>
     es_decisions_produced s = es_decisions_committed s + es_decision_commit_failures s"

record engine =
  en_config :: engine_config
  en_policy :: fence_policy
  en_ledger :: ledger
  en_fences :: fence_registry
  en_store :: store
  en_stats :: engine_stats
  en_opened :: bool

text \<open>The constructor; the disk stands for the state root the store is configured with.\<close>

definition engine_new :: "engine_config \<Rightarrow> disk \<Rightarrow> engine" where
  "engine_new config d = \<lparr>en_config = config, en_policy = ec_policy config,
     en_ledger = ledger_new (ec_policy config), en_fences = registry_new (ec_policy config),
     en_store = store_new (ec_store config) (ec_policy config) d, en_stats = engine_stats_new,
     en_opened = False\<rparr>"

type_synonym clock = "nat \<Rightarrow> i64"

section \<open>Opening, closing, evidence\<close>

definition engine_open :: "u64 \<Rightarrow> u64 \<Rightarrow> clock \<Rightarrow> engine \<Rightarrow> outcome \<times> engine" where
  "engine_open boot incarnation clk e =
     (if en_opened e then (O_Invalid, e)
      else
        (let (oc, st) = store_open boot incarnation (clk 0) (ec_label (en_config e)) (en_store e);
             e = e\<lparr>en_store := st\<rparr>
         in if \<not> is_affirmative oc then (oc, e)
            else (O_Ok, e\<lparr>en_ledger := ledger_reset (en_ledger e), en_fences := registry_clear (en_fences e),
              en_opened := True\<rparr>)))"

definition engine_close :: "engine \<Rightarrow> outcome \<times> engine" where
  "engine_close e =
     (if \<not> en_opened e then (O_Ok, e)
      else
        (let (oc, st) = store_close (en_store e)
         in (oc, e\<lparr>en_store := st, en_ledger := ledger_reset (en_ledger e),
              en_fences := registry_clear (en_fences e), en_opened := False\<rparr>)))"

definition submit :: "delivery_evidence \<Rightarrow> clock \<Rightarrow> engine \<Rightarrow> (outcome \<times> admission \<times> reason_code) \<times> engine" where
  "submit ev clk e =
     (let s = en_stats e; s = s\<lparr>es_evidence_submitted := es_evidence_submitted s + 1\<rparr> in
      if \<not> en_opened e then
        ((O_Rejected, A_CapacityExhausted, R_UnsupportedInput),
         e\<lparr>en_stats := s\<lparr>es_evidence_rejected := es_evidence_rejected s + 1\<rparr>\<rparr>)
      else
        (let ((admission, reason), l) = admit ev (clk 0) (en_ledger e); e = e\<lparr>en_ledger := l\<rparr> in
         if admission = A_Accepted \<or> admission = A_RolloverAccepted then
           ((O_Ok, admission, reason), e\<lparr>en_stats := s\<lparr>es_evidence_admitted := es_evidence_admitted s + 1\<rparr>\<rparr>)
         else
           ((O_Rejected, admission, reason), e\<lparr>en_stats := s\<lparr>es_evidence_rejected := es_evidence_rejected s + 1\<rparr>\<rparr>)))"

section \<open>Fences and decisions on record\<close>

definition durable_failure :: "engine \<Rightarrow> engine" where
  "durable_failure e = e\<lparr>en_stats := (en_stats e)
     \<lparr>es_durable_commit_failures := es_durable_commit_failures (en_stats e) + 1\<rparr>\<rparr>"

definition refusal_fail_closed :: "engine \<Rightarrow> engine" where
  "refusal_fail_closed e = e\<lparr>en_stats := (en_stats e)
     \<lparr>es_refusals_fail_closed := es_refusals_fail_closed (en_stats e) + 1\<rparr>\<rparr>"

text \<open>The payload that records the present state of a fence.\<close>

definition fence_payload :: "fence_record \<Rightarrow> fence_state_payload" where
  "fence_payload r = \<lparr>fp_intent = rc_intent r, fp_lifecycle = fence_lifecycle_code (rc_lifecycle r),
     fp_effect_verified = rc_effect_verified r, fp_ack_owner = rc_ack_owner r,
     fp_effect_owner = rc_effect_owner r, fp_acked_at = rc_acked_at r,
     fp_effected_at = rc_effected_at r, fp_terminal_reason = rc_terminal_reason r\<rparr>"

text \<open>A commit of a fence state whose failure is only counted.\<close>

definition record_fence :: "record_type \<Rightarrow> fence_record \<Rightarrow> engine \<Rightarrow> engine" where
  "record_fence ty r e =
     (let (oc, st) = commit_fence_state ty (fence_payload r) (en_store e); e = e\<lparr>en_store := st\<rparr> in
      if \<not> is_affirmative oc then durable_failure e else e)"

fun record_revocations :: "u64 list \<Rightarrow> engine \<Rightarrow> engine" where
  "record_revocations [] e = e"
| "record_revocations (k # ks) e =
     (case registry_find (en_fences e) k of
        None \<Rightarrow> record_revocations ks e
      | Some r \<Rightarrow>
          (let e = record_fence RT_FenceRevokeCommit r e;
               e = e\<lparr>en_stats := (en_stats e)\<lparr>es_fence_revocations := es_fence_revocations (en_stats e) + 1\<rparr>\<rparr>
           in record_revocations ks e))"

definition revalidate_fences_locked :: "generation_vector \<Rightarrow> i64 \<Rightarrow> engine \<Rightarrow> engine" where
  "revalidate_fences_locked current now e =
     (let (revoked, g) = revalidate now current (en_fences e)
      in record_revocations revoked (e\<lparr>en_fences := g\<rparr>))"

definition authority_nil :: authority_vector where
  "authority_nil = \<lparr>av_stage = S_None, av_decision = 0, av_fence = 0, av_gens = gens_nil, av_boot = 0,
     av_incarnation = 0, av_policy = 0, av_issued_at = 0, av_expires_at = 0, av_revoked = False,
     av_revoke_reason = R_None, av_provenance = P_Synthetic\<rparr>"

definition decision_nil :: decision where
  "decision_nil = \<lparr>d_id = 0, d_kind = D_Diagnosis, d_outcome = O_NoEvidence, d_scope = scope_nil,
     d_gens = gens_nil, d_classification = C_NoEvidence, d_primary_reason = R_None, d_reasons = [],
     d_authority = authority_nil, d_census = census_new, d_corroborated = False,
     d_corroboration_reason = R_None, d_has_localization = False, d_localization = result_new,
     d_has_intent = False, d_intent = intent_nil, d_provenance = P_Synthetic, d_policy = 0, d_boot = 0,
     d_incarnation = 0, d_decided_at = 0\<rparr>"

definition push_reason :: "fence_policy \<Rightarrow> reason_code \<Rightarrow> decision \<Rightarrow> decision" where
  "push_reason policy c d =
     (if length (d_reasons d) < unat (pol_max_reasons_per_decision policy)
      then d\<lparr>d_reasons := d_reasons d @ [c]\<rparr> else d)"

text \<open>The id of a decision is derived from its content and copied into its authority.\<close>

definition sign_decision :: "decision \<Rightarrow> decision" where
  "sign_decision d =
     (let k = derive_decision_id d in d\<lparr>d_id := k, d_authority := (d_authority d)\<lparr>av_decision := k\<rparr>\<rparr>)"

definition make_refusal ::
  "scope \<Rightarrow> generation_vector \<Rightarrow> outcome \<Rightarrow> reason_code \<Rightarrow> i64 \<Rightarrow> engine \<Rightarrow> decision" where
  "make_refusal scope gens oc reason now e =
     (let policy = en_policy e; label = ec_label (en_config e);
          boot = so_boot (en_store e); incarnation = so_incarnation (en_store e);
          d = push_reason policy reason (decision_nil\<lparr>d_kind := D_Diagnosis, d_outcome := oc,
            d_scope := scope, d_gens := gens, d_classification := C_Unknown, d_primary_reason := reason\<rparr>)
      in sign_decision (d\<lparr>d_provenance := label, d_policy := pol_version policy, d_boot := boot,
           d_incarnation := incarnation, d_decided_at := now,
           d_authority := (d_authority d)\<lparr>av_stage := S_None, av_gens := gens, av_boot := boot,
             av_incarnation := incarnation, av_policy := pol_version policy, av_provenance := label\<rparr>\<rparr>))"

definition engine_commit_decision :: "decision \<Rightarrow> engine \<Rightarrow> outcome \<times> engine" where
  "engine_commit_decision d e =
     (let s = en_stats e; s = s\<lparr>es_decisions_produced := es_decisions_produced s + 1\<rparr>;
          (oc, st) = commit_decision d (en_store e); e = e\<lparr>en_store := st\<rparr>
      in if \<not> is_affirmative oc then
           (oc, e\<lparr>en_stats := s\<lparr>es_decision_commit_failures := es_decision_commit_failures s + 1,
              es_durable_commit_failures := es_durable_commit_failures s + 1\<rparr>\<rparr>)
         else (O_Ok, e\<lparr>en_stats := s\<lparr>es_decisions_committed := es_decisions_committed s + 1\<rparr>\<rparr>))"

section \<open>Evaluation\<close>

text \<open>The request the engine classifies, from the evidence retained for the subject.\<close>

definition classify_subject :: "scope \<Rightarrow> generation_vector \<Rightarrow> i64 \<Rightarrow> engine \<Rightarrow> diagnosis" where
  "classify_subject scope gens now e =
     classify \<lparr>rq_scope = scope, rq_current = gens, rq_now = now, rq_policy = Some (en_policy e),
       rq_evidence = evidence_for (en_ledger e) scope\<rparr>"

definition diagnosis_stage :: "diagnosis \<Rightarrow> authority_stage" where
  "diagnosis_stage diag =
     (let s = (if ce_total (di_census diag) > 0 then S_Observation else S_None) in
      if di_classification diag = C_Blackhole then
        (if di_corroborated diag then S_Authorization else S_Eligibility)
      else s)"

text \<open>The decision before any intent.\<close>

definition draft_decision :: "scope \<Rightarrow> generation_vector \<Rightarrow> i64 \<Rightarrow> diagnosis \<Rightarrow> engine \<Rightarrow> decision" where
  "draft_decision scope gens now diag e =
     (let policy = en_policy e; label = ec_label (en_config e);
          boot = so_boot (en_store e); incarnation = so_incarnation (en_store e)
      in decision_nil\<lparr>d_kind := D_Diagnosis, d_outcome := di_outcome diag, d_scope := scope, d_gens := gens,
           d_classification := di_classification diag, d_primary_reason := di_primary_reason diag,
           d_reasons := di_reasons diag, d_census := di_census diag, d_corroborated := di_corroborated diag,
           d_corroboration_reason := di_corroboration_reason diag, d_provenance := label,
           d_policy := pol_version policy, d_boot := boot, d_incarnation := incarnation, d_decided_at := now,
           d_authority := authority_nil\<lparr>av_stage := diagnosis_stage diag, av_gens := gens, av_boot := boot,
             av_incarnation := incarnation, av_policy := pol_version policy, av_issued_at := now,
             av_provenance := label\<rparr>\<rparr>)"

definition attach_intent :: "fence_intent \<Rightarrow> decision \<Rightarrow> decision" where
  "attach_intent intent d = d\<lparr>d_has_intent := True, d_intent := intent,
     d_authority := (d_authority d)\<lparr>av_stage := S_Intent, av_fence := fi_id intent,
       av_expires_at := fi_expires_at intent\<rparr>\<rparr>"

text \<open>The branch of an authorized decision: the intent is staged, recorded, and only then issued.\<close>

definition issue_intent :: "diagnosis \<Rightarrow> decision \<Rightarrow> engine \<Rightarrow> decision \<times> engine" where
  "issue_intent diag d e =
     (let policy = en_policy e;
          ((so, fence_reason, intent), g) = stage \<lparr>ia_scope = d_scope d, ia_gens = d_gens d, ia_boot = d_boot d,
            ia_incarnation = d_incarnation d, ia_provenance = ec_label (en_config e),
            ia_reason = di_primary_reason diag, ia_now = d_decided_at d\<rparr> (en_fences e);
          e = e\<lparr>en_fences := g\<rparr>
      in if is_affirmative so then
           (let (co, st) = commit_fence_state RT_FenceIntentCommit (fence_payload (record_new intent)) (en_store e);
                e = e\<lparr>en_store := st\<rparr>
            in if is_affirmative co then
                 (let (po, g) = commit_staged intent (en_fences e); e = e\<lparr>en_fences := g\<rparr> in
                  if is_affirmative po then
                    (push_reason policy R_FenceIntentIssued (attach_intent intent d),
                     e\<lparr>en_stats := (en_stats e)
                       \<lparr>es_fence_intents_issued := es_fence_intents_issued (en_stats e) + 1\<rparr>\<rparr>)
                  else (d, durable_failure e))
               else (push_reason policy R_BudgetExhausted d, refusal_fail_closed (durable_failure e)))
         else if so = O_Duplicate then
           (case open_for (en_fences e) (d_scope d) of
              Some r \<Rightarrow> (attach_intent (rc_intent r) d, e)
            | None \<Rightarrow> (d, e))
         else (push_reason policy fence_reason d, refusal_fail_closed e))"

text \<open>The decision is signed, its authority names its fence.\<close>

definition seal_decision :: "decision \<Rightarrow> decision" where
  "seal_decision d =
     (let d = sign_decision d
      in if d_has_intent d then d\<lparr>d_authority := (d_authority d)\<lparr>av_fence := fi_id (d_intent d)\<rparr>\<rparr> else d)"

text \<open>The decision is recorded; an intent does not outlive a failure to record it.\<close>

definition settle_decision :: "decision \<Rightarrow> clock \<Rightarrow> engine \<Rightarrow> decision \<times> engine" where
  "settle_decision d clk e =
     (let d = seal_decision d; (oc, e) = engine_commit_decision d e
      in if \<not> is_affirmative oc \<and> d_has_intent d then
           (push_reason (en_policy e) R_FenceIntentRevoked (d\<lparr>d_has_intent := False,
              d_authority := (d_authority d)\<lparr>av_stage := S_Authorization, av_fence := 0\<rparr>\<rparr>),
            e\<lparr>en_fences := snd (revoke (fi_id (d_intent d)) R_FenceIntentRevoked (clk 2) (en_fences e))\<rparr>)
         else (d, e))"

text \<open>A call that is counted as an evaluation first closes the fences that have lapsed.\<close>

definition evaluation_start :: "generation_vector \<Rightarrow> clock \<Rightarrow> engine \<Rightarrow> engine" where
  "evaluation_start gens clk e = revalidate_fences_locked gens (clk 0)
     (e\<lparr>en_stats := (en_stats e)\<lparr>es_evaluations := es_evaluations (en_stats e) + 1\<rparr>\<rparr>)"

text \<open>Readings of the clock: for the revalidation, for the request, for the revocation.\<close>

definition evaluate :: "scope \<Rightarrow> generation_vector \<Rightarrow> clock \<Rightarrow> engine \<Rightarrow> (outcome \<times> decision) \<times> engine" where
  "evaluate scope gens clk e =
     (if \<not> en_opened e then
        (let e = refusal_fail_closed e
         in ((O_Unavailable, make_refusal scope gens O_Unavailable R_UnsupportedInput (clk 0) e), e))
      else if \<not> sc_is_valid scope \<or> \<not> gv_is_complete gens then
        (let e = refusal_fail_closed e
         in ((O_Invalid, make_refusal scope gens O_Invalid R_UnsupportedInput (clk 0) e), e))
      else
        (let e = evaluation_start gens clk e;
             diag = classify_subject scope gens (clk 1) e;
             d = draft_decision scope gens (clk 1) diag e;
             (d, e) = (if av_stage (d_authority d) = S_Authorization then issue_intent diag d e else (d, e));
             (d, e) = settle_decision d clk e
         in ((d_outcome d, d), e)))"

section \<open>Localization\<close>

text \<open>The search, outside the mutex: its result, and whether its validation failed.\<close>

definition localize_search ::
  "u32 \<Rightarrow> hop_probe list \<Rightarrow> fence_policy \<Rightarrow> outcome \<times> localization_result \<times> bool" where
  "localize_search hops probes policy =
     (case build_localization_input hops probes (ucast (pol_max_localization_search_nodes policy))
         (pol_max_localization_solutions policy) of
        Inl (bo, _) \<Rightarrow> (bo, result_new\<lparr>lr_status := Loc_InvalidInput, lr_reason := R_LocalizationInvalid\<rparr>, False)
      | Inr inp \<Rightarrow>
          (let result = localize inp in
           if \<not> vr_valid (verify_localization inp result) then
             (O_Ok, result\<lparr>lr_status := Loc_Indeterminate, lr_optimality_proven := False,
                lr_uniqueness_proven := False, lr_elements := [], lr_reason := R_LocalizationInvalid\<rparr>, True)
           else (O_Ok, result, False)))"

text \<open>The second locked part, on the decision of the first.\<close>

definition localize_finish ::
  "outcome \<times> localization_result \<times> bool \<Rightarrow> decision \<Rightarrow> engine \<Rightarrow> (outcome \<times> decision) \<times> engine" where
  "localize_finish found out e =
     (let (bo, result, validation_failed) = found; policy = en_policy e;
          e = e\<lparr>en_stats := (en_stats e)\<lparr>es_localizations := es_localizations (en_stats e) + 1\<rparr>\<rparr>
      in if \<not> is_affirmative bo then
           ((bo, push_reason policy R_UnsupportedInput (out\<lparr>d_localization := result, d_has_localization := True,
              d_primary_reason := R_UnsupportedInput\<rparr>)), e)
         else
           (let out = (if validation_failed then push_reason policy R_InternalInvariantViolation out
                  else if lr_status result = Loc_Ambiguous then push_reason policy R_LocalizationAmbiguous out
                  else if lr_status result = Loc_Indeterminate then push_reason policy R_LocalizationSearchLimit out
                  else if lr_status result = Loc_ProvenInfeasible then push_reason policy R_LocalizationInfeasible out
                  else out);
                out = out\<lparr>d_localization := result, d_has_localization := True\<rparr>;
                previous = d_id out; out = sign_decision out
            in if d_id out \<noteq> previous then
                 (let e = e\<lparr>en_stats := (en_stats e)
                        \<lparr>es_localization_enrichments := es_localization_enrichments (en_stats e) + 1\<rparr>\<rparr>
                  in ((O_Ok, out), snd (engine_commit_decision out e)))
               else ((O_Ok, out), e)))"

text \<open>A call that no other call interleaves with.\<close>

definition engine_localize :: "scope \<Rightarrow> generation_vector \<Rightarrow> u32 \<Rightarrow> hop_probe list \<Rightarrow> clock \<Rightarrow> engine
    \<Rightarrow> (outcome \<times> decision) \<times> engine" where
  "engine_localize scope gens hops probes clk e =
     (let ((eo, out), e) = evaluate scope gens clk e
      in localize_finish (localize_search hops probes (en_policy e)) out e)"

section \<open>Downstream reports\<close>

definition acknowledge_fence :: "u64 \<Rightarrow> u64 \<Rightarrow> clock \<Rightarrow> engine \<Rightarrow> (outcome \<times> reason_code) \<times> engine" where
  "acknowledge_fence k downstream clk e =
     (if \<not> en_opened e then ((O_Rejected, R_UnsupportedInput), e)
      else
        (let ((oc, reason), g) = acknowledge k downstream (clk 0) (en_fences e); e = e\<lparr>en_fences := g\<rparr> in
         if \<not> is_affirmative oc then ((oc, reason), e)
         else
           (case registry_find (en_fences e) k of
              None \<Rightarrow> ((O_NotFound, R_PolicyRefused), e)
            | Some r \<Rightarrow> ((oc, reason), record_fence RT_FenceAckCommit r e))))"

definition engine_report_effect :: "u64 \<Rightarrow> u64 \<Rightarrow> bool \<Rightarrow> clock \<Rightarrow> engine \<Rightarrow> (outcome \<times> reason_code) \<times> engine" where
  "engine_report_effect k downstream verified clk e =
     (if \<not> en_opened e then ((O_Rejected, R_UnsupportedInput), e)
      else
        (let ((oc, reason), g) = report_effect k downstream verified (clk 0) (en_fences e); e = e\<lparr>en_fences := g\<rparr> in
         if \<not> is_affirmative oc then ((oc, reason), e)
         else
           (case registry_find (en_fences e) k of
              None \<Rightarrow> ((O_NotFound, R_PolicyRefused), e)
            | Some r \<Rightarrow> ((oc, reason), record_fence RT_FenceEffectCommit r e))))"

section \<open>Restoration\<close>

text \<open>An authorized restoration withdraws the open fence of its subject, once that is on record;
  the result carries the stage the decision ends with.\<close>

definition withdraw_fence :: "fence_record option \<Rightarrow> i64 \<Rightarrow> decision \<Rightarrow> engine
    \<Rightarrow> (authority_stage \<times> decision) \<times> engine" where
  "withdraw_fence open_fence now d e =
     (case open_fence of
        None \<Rightarrow> ((S_Authorization, d), e)
      | Some r \<Rightarrow>
          (let (co, st) = commit_fence_state RT_FenceRevokeCommit ((fence_payload r)
                 \<lparr>fp_lifecycle := fence_lifecycle_code L_Revoked, fp_effected_at := now,
                  fp_terminal_reason := R_FenceIntentRevoked\<rparr>) (en_store e);
               e = e\<lparr>en_store := st\<rparr>
           in if is_affirmative co then
                ((S_Authorization, d),
                 e\<lparr>en_fences := snd (revoke (fi_id (rc_intent r)) R_FenceIntentRevoked now (en_fences e))\<rparr>)
              else
                ((S_Eligibility, push_reason (en_policy e) R_PolicyRefused (d\<lparr>d_primary_reason := R_PolicyRefused\<rparr>)),
                 refusal_fail_closed (durable_failure e))))"

definition draft_restoration ::
  "scope \<Rightarrow> generation_vector \<Rightarrow> i64 \<Rightarrow> diagnosis \<Rightarrow> restoration_decision \<Rightarrow> engine \<Rightarrow> decision" where
  "draft_restoration scope gens now diag rst e =
     (let d = push_reason (en_policy e) (rs_reason rst) (decision_nil\<lparr>d_kind := D_Restoration,
            d_outcome := rs_outcome rst, d_scope := scope, d_gens := gens,
            d_classification := di_classification diag, d_primary_reason := rs_reason rst,
            d_reasons := di_reasons diag\<rparr>)
      in d\<lparr>d_census := di_census diag, d_provenance := ec_label (en_config e),
           d_policy := pol_version (en_policy e), d_boot := so_boot (en_store e),
           d_incarnation := so_incarnation (en_store e), d_decided_at := now\<rparr>)"

definition restore_refused :: "engine \<Rightarrow> engine" where
  "restore_refused e = e\<lparr>en_stats := (en_stats e)
     \<lparr>es_restorations_refused := es_restorations_refused (en_stats e) + 1\<rparr>\<rparr>"

text \<open>The branch on the gate: the stage, the decision and the engine it leads to.\<close>

definition apply_restoration :: "restoration_decision \<Rightarrow> diagnosis \<Rightarrow> i64 \<Rightarrow> decision \<Rightarrow> engine
    \<Rightarrow> (authority_stage \<times> decision) \<times> engine" where
  "apply_restoration rst diag now d e =
     (if rs_authorized rst then
        withdraw_fence (open_for (en_fences e) (d_scope d)) now d (e\<lparr>en_stats := (en_stats e)
          \<lparr>es_restorations_authorized := es_restorations_authorized (en_stats e) + 1\<rparr>\<rparr>)
      else ((if ce_total (di_census diag) > 0 then S_Observation else S_None, d), restore_refused e))"

text \<open>The decision is signed with its stage and recorded; without its record it confers nothing.\<close>

definition settle_restoration :: "authority_stage \<Rightarrow> decision \<Rightarrow> engine \<Rightarrow> decision \<times> engine" where
  "settle_restoration stg d e =
     (let d = sign_decision (d\<lparr>d_authority := (d_authority d)\<lparr>av_stage := stg, av_gens := d_gens d,
            av_boot := d_boot d, av_incarnation := d_incarnation d, av_policy := pol_version (en_policy e),
            av_issued_at := d_decided_at d, av_expires_at := 0, av_provenance := ec_label (en_config e)\<rparr>\<rparr>);
          (oc, e) = engine_commit_decision d e
      in if \<not> is_affirmative oc
         then (d\<lparr>d_authority := (d_authority d)\<lparr>av_stage := S_Observation\<rparr>\<rparr>, refusal_fail_closed e)
         else (d, e))"

text \<open>Readings of the clock: for the revalidation and for the request.\<close>

definition restore :: "scope \<Rightarrow> generation_vector \<Rightarrow> clock \<Rightarrow> engine \<Rightarrow> (outcome \<times> decision) \<times> engine" where
  "restore scope gens clk e =
     (if \<not> en_opened e then
        (let e = restore_refused (refusal_fail_closed e)
         in ((O_Unavailable, make_refusal scope gens O_Unavailable R_UnsupportedInput (clk 0) e), e))
      else if \<not> sc_is_valid scope \<or> \<not> gv_is_complete gens then
        (let e = restore_refused (refusal_fail_closed e)
         in ((O_Invalid, make_refusal scope gens O_Invalid R_UnsupportedInput (clk 0) e), e))
      else
        (let e = evaluation_start gens clk e;
             diag = classify_subject scope gens (clk 1) e;
             rst = evaluate_restoration diag (en_policy e) (open_for (en_fences e) scope) (clk 1);
             d = draft_restoration scope gens (clk 1) diag rst e;
             ((stg, d), e) = apply_restoration rst diag (clk 1) d e;
             (d, e) = settle_restoration stg d e
         in ((d_outcome d, d), e)))"

section \<open>Checkpoints and queries\<close>

text \<open>The clock reading of a checkpoint is not used by the store.\<close>

definition engine_checkpoint :: "engine \<Rightarrow> (outcome \<times> u64 option) \<times> engine" where
  "engine_checkpoint e =
     (if \<not> en_opened e then ((O_Unavailable, None), e)
      else
        (let (oc, st) = checkpoint (en_store e)
         in ((oc, Some (so_last_seq (en_store e))), e\<lparr>en_store := st\<rparr>)))"

definition fence_state :: "u64 \<Rightarrow> engine \<Rightarrow> outcome \<times> fence_record option" where
  "fence_state k e =
     (case registry_find (en_fences e) k of None \<Rightarrow> (O_NotFound, None) | Some r \<Rightarrow> (O_Ok, Some r))"

definition lineage :: "u32 \<Rightarrow> engine \<Rightarrow> lineage_entry list \<times> u64 \<times> u64" where
  "lineage limit e =
     (let s = so_state (en_store e); n = min (unat limit) (length (ds_lineage s)); start = length (ds_lineage s) - n
      in (map (\<lambda>i. ds_lineage s ! i) [start..<length (ds_lineage s)], ds_lineage_seen s, ds_lineage_dropped s))"

definition engine_open_report :: "engine \<Rightarrow> open_report" where
  "engine_open_report e = so_report (en_store e)"

definition engine_epoch :: "engine \<Rightarrow> u64" where
  "engine_epoch e = ds_epoch (so_state (en_store e))"

definition engine_policy_version :: "engine \<Rightarrow> u64" where
  "engine_policy_version e = pol_version (en_policy e)"

definition engine_policy_fingerprint :: "engine \<Rightarrow> u64" where
  "engine_policy_fingerprint e = policy_fingerprint (en_policy e)"

definition last_record :: "engine \<Rightarrow> u64" where
  "last_record e = so_last_seq (en_store e)"

section \<open>What the operations leave alone\<close>

subsection \<open>The store\<close>

text \<open>The ids of the fences on record.\<close>

definition recorded_ids :: "store \<Rightarrow> u64 set" where
  "recorded_ids st = (\<lambda>f. fi_id (fp_intent f)) ` set (ds_fences (so_state st))"

text \<open>A commit keeps the identity of the store and every id on record.\<close>

definition store_extends :: "store \<Rightarrow> store \<Rightarrow> bool" where
  "store_extends st st' \<longleftrightarrow> so_config st' = so_config st \<and> so_boot st' = so_boot st \<and>
     so_incarnation st' = so_incarnation st \<and> so_opened st' = so_opened st \<and> recorded_ids st \<subseteq> recorded_ids st'"

lemma store_extends_refl [simp]: "store_extends st st"
  by (simp add: store_extends_def)

lemma store_extends_trans: "store_extends st st' \<Longrightarrow> store_extends st' st'' \<Longrightarrow> store_extends st st''"
  by (auto simp: store_extends_def)

lemma append_commit_keeps:
  assumes "append_commit ty payload st = (r, st')"
  shows "so_state st' = so_state st \<and> so_config st' = so_config st \<and> so_boot st' = so_boot st \<and>
    so_incarnation st' = so_incarnation st \<and> so_opened st' = so_opened st"
  using assms by (auto simp: append_commit_def Let_def split: if_splits prod.splits)

lemma commit_decision_keeps:
  assumes "commit_decision d st = (oc, st')"
  shows "ds_fences (so_state st') = ds_fences (so_state st)" "store_extends st st'"
proof -
  have "ds_fences (so_state st') = ds_fences (so_state st) \<and> store_extends st st'"
    using assms by (auto simp: commit_decision_def Let_def store_extends_def recorded_ids_def
        split: if_splits prod.splits dest!: append_commit_keeps)
  then show "ds_fences (so_state st') = ds_fences (so_state st)" "store_extends st st'" by simp_all
qed

lemma put_fence_ids:
  "(\<lambda>f. fi_id (fp_intent f)) ` set (put_fence f fs) = insert (fi_id (fp_intent f)) ((\<lambda>f. fi_id (fp_intent f)) ` set fs)"
proof (cases "find_fence (fi_id (fp_intent f)) fs")
  case None
  then show ?thesis by (auto simp: put_fence_def)
next
  case (Some i)
  note i = find_fence_Some [OF Some]
  have "map (\<lambda>f. fi_id (fp_intent f)) (fs[i := f]) = map (\<lambda>f. fi_id (fp_intent f)) fs"
    using i by (simp add: map_update list_update_id [of _ i, symmetric] del: list_update_id) (metis list_update_id nth_map)
  then have "(\<lambda>f. fi_id (fp_intent f)) ` set (fs[i := f]) = (\<lambda>f. fi_id (fp_intent f)) ` set fs"
    by (metis set_map)
  moreover have "fi_id (fp_intent f) \<in> (\<lambda>f. fi_id (fp_intent f)) ` set fs" using i by (metis image_eqI nth_mem)
  ultimately show ?thesis using Some by (auto simp: put_fence_def)
qed

lemma put_fence_mem: "f \<in> set (put_fence f fs)"
  by (auto simp: put_fence_def set_update_memI dest: find_fence_Some split: option.splits)

lemma commit_fence_state_keeps:
  assumes "commit_fence_state ty f st = (oc, st')"
  shows "store_extends st st'" "oc = O_Ok \<Longrightarrow> f \<in> set (ds_fences (so_state st'))"
proof -
  have "store_extends st st' \<and> (oc = O_Ok \<longrightarrow> ds_fences (so_state st') = put_fence f (ds_fences (so_state st)))"
    using assms put_fence_ids [of f "ds_fences (so_state st)"]
    by (auto simp: commit_fence_state_def Let_def store_extends_def recorded_ids_def is_affirmative_def put_fence_def
        split: if_splits prod.splits option.splits dest!: append_commit_keeps)
  then show "store_extends st st'" "oc = O_Ok \<Longrightarrow> f \<in> set (ds_fences (so_state st'))"
    by (simp_all add: put_fence_mem)
qed

lemma checkpoint_keeps:
  assumes "checkpoint st = (oc, st')"
  shows "so_state st' = so_state st" "store_extends st st'"
proof -
  have "so_state st' = so_state st \<and> store_extends st st'"
    using assms by (auto simp: checkpoint_def Let_def store_extends_def recorded_ids_def
        split: if_splits prod.splits dest!: append_commit_keeps)
  then show "so_state st' = so_state st" "store_extends st st'" by simp_all
qed

subsection \<open>The engine\<close>

text \<open>What every step inside an operation keeps: the configuration, the evidence, whether the engine is
  open, and the ids on record.\<close>

definition engine_extends :: "engine \<Rightarrow> engine \<Rightarrow> bool" where
  "engine_extends e e' \<longleftrightarrow> en_config e' = en_config e \<and> en_policy e' = en_policy e \<and>
     en_ledger e' = en_ledger e \<and> en_opened e' = en_opened e \<and> store_extends (en_store e) (en_store e')"

lemma engine_extends_refl [simp]: "engine_extends e e"
  by (simp add: engine_extends_def)

lemma engine_extends_trans: "engine_extends e e' \<Longrightarrow> engine_extends e' e'' \<Longrightarrow> engine_extends e e''"
  by (auto simp: engine_extends_def intro: store_extends_trans)

text \<open>The counters, while a number of decisions is announced and not yet produced.\<close>

definition accounts :: "u64 \<Rightarrow> engine_stats \<Rightarrow> bool" where
  "accounts n s \<longleftrightarrow>
     es_evidence_submitted s = es_evidence_admitted s + es_evidence_rejected s \<and>
     es_decisions_produced s + n = es_evaluations s + es_localization_enrichments s \<and>
     es_decisions_produced s = es_decisions_committed s + es_decision_commit_failures s"

lemma accounts_closed: "es_accounting_closed s \<longleftrightarrow> accounts 0 s"
  by (simp add: accounts_def es_accounting_closed_def)

lemma counting [simp]:
  "engine_extends e (durable_failure e)" "en_fences (durable_failure e) = en_fences e"
  "accounts n (en_stats (durable_failure e)) = accounts n (en_stats e)"
  "engine_extends e (refusal_fail_closed e)" "en_fences (refusal_fail_closed e) = en_fences e"
  "accounts n (en_stats (refusal_fail_closed e)) = accounts n (en_stats e)"
  "engine_extends e (restore_refused e)" "en_fences (restore_refused e) = en_fences e"
  "accounts n (en_stats (restore_refused e)) = accounts n (en_stats e)"
  by (simp_all add: durable_failure_def refusal_fail_closed_def restore_refused_def engine_extends_def accounts_def)

lemma accounts_other [simp]:
  "accounts n (s\<lparr>es_fence_revocations := x\<rparr>) = accounts n s"
  "accounts n (s\<lparr>es_fence_intents_issued := x\<rparr>) = accounts n s"
  "accounts n (s\<lparr>es_localizations := x\<rparr>) = accounts n s"
  "accounts n (s\<lparr>es_restorations_authorized := x\<rparr>) = accounts n s"
  by (simp_all add: accounts_def)

lemma engine_extends_stats [simp]:
  "engine_extends e (e'\<lparr>en_stats := s\<rparr>) = engine_extends e e'"
  "engine_extends e (e'\<lparr>en_fences := g\<rparr>) = engine_extends e e'"
  "engine_extends (e\<lparr>en_stats := s\<rparr>) e' = engine_extends e e'"
  "engine_extends (e\<lparr>en_fences := g\<rparr>) e' = engine_extends e e'"
  by (simp_all add: engine_extends_def)

lemma engine_extends_store: "store_extends (en_store e) st \<Longrightarrow> engine_extends e (e\<lparr>en_store := st\<rparr>)"
  by (simp add: engine_extends_def)

lemma record_fence_keeps [simp]:
  "engine_extends e (record_fence ty r e)" "en_fences (record_fence ty r e) = en_fences e"
  "accounts n (en_stats (record_fence ty r e)) = accounts n (en_stats e)"
proof -
  obtain oc st where c: "commit_fence_state ty (fence_payload r) (en_store e) = (oc, st)"
    by (cases "commit_fence_state ty (fence_payload r) (en_store e)")
  have "engine_extends e (e\<lparr>en_store := st\<rparr>)"
    using commit_fence_state_keeps(1) [OF c] by (rule engine_extends_store)
  then show "engine_extends e (record_fence ty r e)" "en_fences (record_fence ty r e) = en_fences e"
    "accounts n (en_stats (record_fence ty r e)) = accounts n (en_stats e)"
    by (auto simp: record_fence_def c Let_def intro: engine_extends_trans)
qed

lemma record_revocations_keeps:
  "engine_extends e (record_revocations ks e) \<and> en_fences (record_revocations ks e) = en_fences e \<and>
    accounts n (en_stats (record_revocations ks e)) = accounts n (en_stats e)"
proof (induction ks e rule: record_revocations.induct)
  case (2 k ks e)
  show ?case
  proof (cases "registry_find (en_fences e) k")
    case None
    then show ?thesis using 2(1) by simp
  next
    case (Some r)
    then show ?thesis
      using 2(2) [OF Some refl refl] engine_extends_trans [OF record_fence_keeps(1) [of e RT_FenceRevokeCommit r]]
      by (simp add: Let_def)
  qed
qed simp

lemma revalidate_fences_keeps [simp]:
  "engine_extends e (revalidate_fences_locked gens now e)"
  "en_fences (revalidate_fences_locked gens now e) = snd (revalidate now gens (en_fences e))"
  "accounts n (en_stats (revalidate_fences_locked gens now e)) = accounts n (en_stats e)"
proof -
  obtain ids g where r: "revalidate now gens (en_fences e) = (ids, g)" by (cases "revalidate now gens (en_fences e)")
  show "engine_extends e (revalidate_fences_locked gens now e)"
    "en_fences (revalidate_fences_locked gens now e) = snd (revalidate now gens (en_fences e))"
    "accounts n (en_stats (revalidate_fences_locked gens now e)) = accounts n (en_stats e)"
    using record_revocations_keeps [of "e\<lparr>en_fences := g\<rparr>" ids n] by (simp_all add: revalidate_fences_locked_def r)
qed

lemma engine_commit_keeps:
  assumes "engine_commit_decision d e = (oc, e')"
  shows "engine_extends e e'" "en_fences e' = en_fences e" "accounts n (en_stats e') = accounts (n + 1) (en_stats e)"
proof -
  obtain oc' st where c: "commit_decision d (en_store e) = (oc', st)" by (cases "commit_decision d (en_store e)")
  have "engine_extends e (e\<lparr>en_store := st\<rparr>)"
    using commit_decision_keeps(2) [OF c] by (rule engine_extends_store)
  then show "engine_extends e e'" "en_fences e' = en_fences e" "accounts n (en_stats e') = accounts (n + 1) (en_stats e)"
    using assms by (auto simp: engine_commit_decision_def c Let_def accounts_def algebra_simps split: if_splits)
qed

subsection \<open>The registry\<close>

lemma registry_wf_stage: "registry_wf g \<Longrightarrow> registry_wf (snd (stage a g))"
  by (auto simp: stage_def Let_def split: sum.splits)

lemma registry_wf_commit_staged: "registry_wf g \<Longrightarrow> registry_wf (snd (commit_staged intent g))"
  using registry_wf_put_new [of g intent]
  by (auto simp: commit_staged_def)

lemma registry_wf_report:
  assumes "registry_wf g"
  shows "registry_wf (snd (acknowledge k d t g))" "registry_wf (snd (report_effect k d v t g))"
    "registry_wf (snd (revoke k reason t g))"
proof -
  have put: "registry_wf (g\<lparr>fr_records := omap_put (fr_records g) k r'\<rparr>)"
    if "omap_find (fr_records g) k = Some r" "rc_is_open r" "rc_intent r' = rc_intent r" for r r'
    using registry_wf_put_old [OF assms that(1,3,2)] .
  show "registry_wf (snd (acknowledge k d t g))" "registry_wf (snd (report_effect k d v t g))"
    "registry_wf (snd (revoke k reason t g))"
    using assms by (auto simp: acknowledge_def report_effect_def revoke_def unknown_id_def expire_def Let_def
        intro!: put split: option.splits)
qed

lemma registry_wf_revalidate: "registry_wf g \<Longrightarrow> registry_wf (snd (revalidate now current g))"
  using registry_wf_map [of g "revalidated now current"]
  by (simp add: revalidate_def revalidate_loop_eq revalidated_intent revalidated_open)

lemma registry_wf_clear: "registry_wf (registry_clear g)"
  by (simp add: registry_wf_def registry_clear_def omap_find_def)

lemma registry_find_revalidate:
  "registry_find (snd (revalidate now current g)) k = map_option (revalidated now current) (registry_find g k)"
  by (simp add: registry_find_def revalidate_def revalidate_loop_eq)

lemma registry_find_stage: "registry_find (snd (stage a g)) = registry_find g"
  by (simp add: registry_find_def fun_eq_iff stage_record)

text \<open>The keys of the registry are those on record.\<close>

definition fences_recorded :: "engine \<Rightarrow> bool" where
  "fences_recorded e \<longleftrightarrow> (\<forall>k. registry_find (en_fences e) k \<noteq> None \<longrightarrow> k \<in> recorded_ids (en_store e))"

lemma fences_recorded_extends:
  "fences_recorded e \<Longrightarrow> engine_extends e e' \<Longrightarrow>
    (\<And>k. registry_find (en_fences e') k \<noteq> None \<Longrightarrow> registry_find (en_fences e) k \<noteq> None \<or> k \<in> recorded_ids (en_store e')) \<Longrightarrow>
    fences_recorded e'"
  unfolding fences_recorded_def engine_extends_def store_extends_def by blast

text \<open>The known keys stay the same when a record evolves.\<close>

lemma registry_keys_report [simp]:
  "registry_find (snd (acknowledge k d t g)) k' = None \<longleftrightarrow> registry_find g k' = None"
  "registry_find (snd (report_effect k d v t g)) k' = None \<longleftrightarrow> registry_find g k' = None"
  "registry_find (snd (revoke k reason t g)) k' = None \<longleftrightarrow> registry_find g k' = None"
  by (auto simp: registry_find_def acknowledge_def report_effect_def revoke_def unknown_id_def expire_def Let_def
      split: option.splits if_splits)

subsection \<open>Issuing an intent\<close>

lemma push_reason_only: "\<exists>rs. push_reason policy c d = d\<lparr>d_reasons := rs\<rparr>"
  by (auto simp: push_reason_def intro: exI [of _ "d_reasons d"])

lemma stage_Ok:
  assumes "stage a g = ((O_Ok, reason, intent), g')"
  shows "fi_scope intent = ia_scope a" "fi_gens intent = ia_gens a" "fr_records g' = fr_records g"
  using assms by (auto simp: stage_def mint_intent_eq Let_def split: if_splits sum.splits)

lemma commit_staged_Ok:
  assumes "commit_staged intent g = (O_Ok, g')"
  shows "fi_is_valid intent" "omap_find (fr_records g) (fi_id intent) = None"
    "fr_records g' = omap_put (fr_records g) (fi_id intent) (record_new intent)"
  using assms by (auto simp: commit_staged_def split: if_splits)

lemma commit_staged_refused: "commit_staged intent g = (oc, g') \<Longrightarrow> oc \<noteq> O_Ok \<Longrightarrow> g' = g"
  by (auto simp: commit_staged_def split: if_splits)

text \<open>The three ways the branch of an authorized decision ends.\<close>

lemma issue_intent_unstaged:
  assumes "issue_intent diag d e = (d', e')" and s: "stage \<lparr>ia_scope = d_scope d, ia_gens = d_gens d, ia_boot = d_boot d,
      ia_incarnation = d_incarnation d, ia_provenance = ec_label (en_config e), ia_reason = di_primary_reason diag,
      ia_now = d_decided_at d\<rparr> (en_fences e) = ((so, reason, intent), g)" and "so \<noteq> O_Ok"
  obtains (existing) r where "open_for (en_fences e) (d_scope d) = Some r" "d' = attach_intent (rc_intent r) d"
      "open_duplicate (fr_records (en_fences e)) (d_scope d) (d_gens d) \<noteq> None"
      "fr_records (en_fences e') = fr_records (en_fences e)"
  | (refused) rs where "d' = d\<lparr>d_reasons := rs\<rparr>" "fr_records (en_fences e') = fr_records (en_fences e)"
proof -
  let ?a = "\<lparr>ia_scope = d_scope d, ia_gens = d_gens d, ia_boot = d_boot d, ia_incarnation = d_incarnation d,
    ia_provenance = ec_label (en_config e), ia_reason = di_primary_reason diag, ia_now = d_decided_at d\<rparr>"
  have rec: "fr_records g = fr_records (en_fences e)" using stage_record [of ?a "en_fences e"] by (simp add: s)
  have dup: "open_duplicate (fr_records (en_fences e)) (d_scope d) (d_gens d) \<noteq> None" if "so = O_Duplicate"
    using s that by (auto simp: stage_def mint_intent_eq Let_def split: if_splits sum.splits)
  have same: "open_for g (d_scope d) = open_for (en_fences e) (d_scope d)" by (simp add: open_for_def rec)
  obtain rs where rs: "push_reason (en_policy e) reason d = d\<lparr>d_reasons := rs\<rparr>" using push_reason_only by blast
  show ?thesis
  proof (cases "so = O_Duplicate \<and> open_for (en_fences e) (d_scope d) \<noteq> None")
    case True
    then show ?thesis using assms(1) existing dup s rec same by (auto simp: issue_intent_def is_affirmative_def Let_def)
  next
    case dup_unknown: False
    have "d' = d\<lparr>d_reasons := if so = O_Duplicate then d_reasons d else rs\<rparr>"
      "fr_records (en_fences e') = fr_records (en_fences e)"
      using assms(1,3) dup_unknown s rec same rs
      by (auto simp: issue_intent_def is_affirmative_def Let_def split: if_splits)
    then show ?thesis by (rule refused)
  qed
qed

lemma issue_intent_cases:
  assumes "issue_intent diag d e = (d', e')"
  obtains (issued) intent rs where "d' = (attach_intent intent d)\<lparr>d_reasons := rs\<rparr>" "fi_is_valid intent"
      "fi_scope intent = d_scope d" "fi_gens intent = d_gens d"
      "registry_find (en_fences e) (fi_id intent) = None"
      "fr_records (en_fences e') = omap_put (fr_records (en_fences e)) (fi_id intent) (record_new intent)"
      "fence_payload (record_new intent) \<in> set (ds_fences (so_state (en_store e')))"
  | (existing) r where "open_for (en_fences e) (d_scope d) = Some r" "d' = attach_intent (rc_intent r) d"
      "open_duplicate (fr_records (en_fences e)) (d_scope d) (d_gens d) \<noteq> None"
      "fr_records (en_fences e') = fr_records (en_fences e)"
  | (refused) rs where "d' = d\<lparr>d_reasons := rs\<rparr>" "fr_records (en_fences e') = fr_records (en_fences e)"
proof -
  let ?a = "\<lparr>ia_scope = d_scope d, ia_gens = d_gens d, ia_boot = d_boot d, ia_incarnation = d_incarnation d,
    ia_provenance = ec_label (en_config e), ia_reason = di_primary_reason diag, ia_now = d_decided_at d\<rparr>"
  obtain so reason intent g where s: "stage ?a (en_fences e) = ((so, reason, intent), g)"
    by (metis prod.exhaust)
  have rec: "fr_records g = fr_records (en_fences e)" using stage_record [of ?a "en_fences e"] by (simp add: s)
  obtain co st where c: "commit_fence_state RT_FenceIntentCommit (fence_payload (record_new intent)) (en_store e) = (co, st)"
    by (metis prod.exhaust)
  obtain po g' where p: "commit_staged intent g = (po, g')" by (metis prod.exhaust)
  show ?thesis
  proof (cases "so = O_Ok")
    case True
    show ?thesis
    proof (cases "co = O_Ok \<and> po = O_Ok")
      case True
      with \<open>so = O_Ok\<close> c p show ?thesis
        using assms issued [where intent = intent] s c p rec push_reason_only [of "en_policy e" R_FenceIntentIssued "attach_intent intent d"]
          stage_Ok [of ?a "en_fences e" reason intent g] commit_staged_Ok [of intent g g'] commit_fence_state_keeps(2) [OF c]
        by (auto simp: issue_intent_def is_affirmative_def Let_def registry_find_def)
    next
      case False
      obtain rs where rs: "push_reason (en_policy e) R_BudgetExhausted d = d\<lparr>d_reasons := rs\<rparr>"
        using push_reason_only by blast
      have "d' = d\<lparr>d_reasons := if co = O_Ok then d_reasons d else rs\<rparr>" "fr_records (en_fences e') = fr_records (en_fences e)"
        using assms False \<open>so = O_Ok\<close> s c p rec rs commit_staged_refused [OF p]
        by (auto simp: issue_intent_def is_affirmative_def Let_def split: if_splits)
      then show ?thesis by (rule refused)
    qed
  next
    case False
    then show ?thesis using issue_intent_unstaged [OF assms s] existing refused by blast
  qed
qed

lemma issue_intent_keeps:
  assumes "issue_intent diag d e = (d', e')"
  shows "engine_extends e e'" "accounts n (en_stats e') = accounts n (en_stats e)"
    "registry_wf (en_fences e) \<Longrightarrow> registry_wf (en_fences e')"
proof -
  let ?a = "\<lparr>ia_scope = d_scope d, ia_gens = d_gens d, ia_boot = d_boot d, ia_incarnation = d_incarnation d,
    ia_provenance = ec_label (en_config e), ia_reason = di_primary_reason diag, ia_now = d_decided_at d\<rparr>"
  obtain so reason intent g where s: "stage ?a (en_fences e) = ((so, reason, intent), g)"
    by (metis prod.exhaust)
  obtain co st where c: "commit_fence_state RT_FenceIntentCommit (fence_payload (record_new intent)) (en_store e) = (co, st)"
    by (metis prod.exhaust)
  obtain po g' where p: "commit_staged intent g = (po, g')" by (metis prod.exhaust)
  have x: "engine_extends e (e\<lparr>en_store := st\<rparr>)" by (rule engine_extends_store [OF commit_fence_state_keeps(1) [OF c]])
  show "engine_extends e e'" "accounts n (en_stats e') = accounts n (en_stats e)"
    using assms s c p x
    by (auto simp: issue_intent_def Let_def engine_extends_def durable_failure_def refusal_fail_closed_def accounts_def
        split: if_splits option.splits)
  show "registry_wf (en_fences e')" if "registry_wf (en_fences e)"
    using assms s c p registry_wf_stage [OF that, of ?a] registry_wf_commit_staged [of g intent]
    by (auto simp: issue_intent_def Let_def split: if_splits option.splits)
qed

subsection \<open>Settling and evaluating\<close>

lemma sign_decision_fields [simp]:
  "d_has_intent (sign_decision d) = d_has_intent d" "d_intent (sign_decision d) = d_intent d"
  "d_scope (sign_decision d) = d_scope d" "d_gens (sign_decision d) = d_gens d"
  "d_classification (sign_decision d) = d_classification d" "d_outcome (sign_decision d) = d_outcome d"
  "av_stage (d_authority (sign_decision d)) = av_stage (d_authority d)"
  by (simp_all add: sign_decision_def Let_def)

lemma push_reason_fields [simp]:
  "d_has_intent (push_reason policy c d) = d_has_intent d" "d_intent (push_reason policy c d) = d_intent d"
  "d_scope (push_reason policy c d) = d_scope d" "d_gens (push_reason policy c d) = d_gens d"
  "d_classification (push_reason policy c d) = d_classification d" "d_outcome (push_reason policy c d) = d_outcome d"
  "d_authority (push_reason policy c d) = d_authority d"
  by (simp_all add: push_reason_def)

lemma seal_decision_fields [simp]:
  "d_has_intent (seal_decision d) = d_has_intent d" "d_intent (seal_decision d) = d_intent d"
  "d_scope (seal_decision d) = d_scope d" "d_gens (seal_decision d) = d_gens d"
  "d_classification (seal_decision d) = d_classification d" "d_outcome (seal_decision d) = d_outcome d"
  "av_stage (d_authority (seal_decision d)) = av_stage (d_authority d)"
  by (simp_all add: seal_decision_def Let_def)

lemma settle_decision_keeps:
  assumes "settle_decision d clk e = (d', e')"
  shows "engine_extends e e'" "accounts n (en_stats e') = accounts (n + 1) (en_stats e)"
    "registry_wf (en_fences e) \<Longrightarrow> registry_wf (en_fences e')"
    "registry_find (en_fences e') k = None \<longleftrightarrow> registry_find (en_fences e) k = None"
    "ds_fences (so_state (en_store e')) = ds_fences (so_state (en_store e))"
    "d_classification d' = d_classification d" "d_outcome d' = d_outcome d" "d_scope d' = d_scope d" "d_gens d' = d_gens d"
    "\<not> d_has_intent d \<Longrightarrow> en_fences e' = en_fences e \<and> \<not> d_has_intent d' \<and> av_stage (d_authority d') = av_stage (d_authority d)"
proof -
  obtain oc e1 where c: "engine_commit_decision (seal_decision d) e = (oc, e1)" by (metis prod.exhaust)
  have f: "ds_fences (so_state (en_store e1)) = ds_fences (so_state (en_store e))"
    using c by (auto simp: engine_commit_decision_def Let_def dest: commit_decision_keeps(1) split: if_splits prod.splits)
  note k = engine_commit_keeps [OF c]
  show "engine_extends e e'" "accounts n (en_stats e') = accounts (n + 1) (en_stats e)"
    "registry_wf (en_fences e) \<Longrightarrow> registry_wf (en_fences e')"
    "registry_find (en_fences e') k = None \<longleftrightarrow> registry_find (en_fences e) k = None"
    "ds_fences (so_state (en_store e')) = ds_fences (so_state (en_store e))"
    "d_classification d' = d_classification d" "d_outcome d' = d_outcome d" "d_scope d' = d_scope d" "d_gens d' = d_gens d"
    "\<not> d_has_intent d \<Longrightarrow> en_fences e' = en_fences e \<and> \<not> d_has_intent d' \<and> av_stage (d_authority d') = av_stage (d_authority d)"
    using assms k f registry_wf_report(3) [of "en_fences e"]
    by (auto simp: settle_decision_def c Let_def split: if_splits)
qed

text \<open>An intent survives only with the record of its decision.\<close>

lemma settle_decision_intent:
  assumes "settle_decision d clk e = (d', e')" "d_has_intent d'"
  shows "d_has_intent d" "d_intent d' = d_intent d" "en_fences e' = en_fences e"
    "av_stage (d_authority d') = av_stage (d_authority d)" "commit_decision d' (en_store e) = (O_Ok, en_store e')"
proof -
  obtain oc e1 where c: "engine_commit_decision (seal_decision d) e = (oc, e1)" by (metis prod.exhaust)
  have r: "d' = seal_decision d \<and> e' = e1 \<and> oc = O_Ok"
    using assms c by (auto simp: settle_decision_def is_affirmative_def Let_def split: if_splits)
  moreover have "commit_decision (seal_decision d) (en_store e) = (O_Ok, en_store e1)" if "oc = O_Ok"
    using c that by (auto simp: engine_commit_decision_def is_affirmative_def Let_def split: if_splits prod.splits)
  ultimately show "d_has_intent d" "d_intent d' = d_intent d" "en_fences e' = en_fences e"
    "av_stage (d_authority d') = av_stage (d_authority d)" "commit_decision d' (en_store e) = (O_Ok, en_store e')"
    using assms(2) engine_commit_keeps(2) [OF c] by auto
qed

abbreviation evaluable :: "scope \<Rightarrow> generation_vector \<Rightarrow> engine \<Rightarrow> bool" where
  "evaluable scope gens e \<equiv> en_opened e \<and> sc_is_valid scope \<and> gv_is_complete gens"

lemma evaluation_start_keeps [simp]:
  "engine_extends e (evaluation_start gens clk e)"
  "en_fences (evaluation_start gens clk e) = snd (revalidate (clk 0) gens (en_fences e))"
  "accounts (n + 1) (en_stats (evaluation_start gens clk e)) = accounts n (en_stats e)"
proof -
  let ?e = "e\<lparr>en_stats := (en_stats e)\<lparr>es_evaluations := es_evaluations (en_stats e) + 1\<rparr>\<rparr>"
  show "engine_extends e (evaluation_start gens clk e)"
    using revalidate_fences_keeps(1) [of ?e gens "clk 0"] unfolding evaluation_start_def engine_extends_stats .
  show "en_fences (evaluation_start gens clk e) = snd (revalidate (clk 0) gens (en_fences e))"
    by (simp add: evaluation_start_def)
  show "accounts (n + 1) (en_stats (evaluation_start gens clk e)) = accounts n (en_stats e)"
    by (simp add: evaluation_start_def) (auto simp: accounts_def algebra_simps)
qed

lemma evaluate_run:
  assumes "evaluable scope gens e" "evaluate scope gens clk e = ((oc, d'), e')"
  obtains d1 e1 where
    "(if diagnosis_stage (classify_subject scope gens (clk 1) e) = S_Authorization
      then issue_intent (classify_subject scope gens (clk 1) e)
        (draft_decision scope gens (clk 1) (classify_subject scope gens (clk 1) e) (evaluation_start gens clk e))
        (evaluation_start gens clk e)
      else (draft_decision scope gens (clk 1) (classify_subject scope gens (clk 1) e) (evaluation_start gens clk e),
        evaluation_start gens clk e)) = (d1, e1)"
    "settle_decision d1 clk e1 = (d', e')" "oc = d_outcome d'"
proof -
  have "classify_subject scope gens (clk 1) (evaluation_start gens clk e) = classify_subject scope gens (clk 1) e"
    using evaluation_start_keeps(1) [of e gens clk] by (simp add: classify_subject_def engine_extends_def)
  moreover have "av_stage (d_authority (draft_decision scope gens now diag z)) = diagnosis_stage diag" for now diag z
    by (simp add: draft_decision_def Let_def)
  ultimately show ?thesis
    using assms that by (auto simp: evaluate_def Let_def simp del: One_nat_def cong: if_cong split: prod.splits)
qed

lemma draft_decision_fields [simp]:
  "d_has_intent (draft_decision scope gens now diag e) = False"
  "d_scope (draft_decision scope gens now diag e) = scope" "d_gens (draft_decision scope gens now diag e) = gens"
  "d_classification (draft_decision scope gens now diag e) = di_classification diag"
  "d_outcome (draft_decision scope gens now diag e) = di_outcome diag"
  "av_stage (d_authority (draft_decision scope gens now diag e)) = diagnosis_stage diag"
  by (simp_all add: draft_decision_def decision_nil_def Let_def)

lemma attach_intent_fields [simp]:
  "d_has_intent (attach_intent intent d) = True" "d_intent (attach_intent intent d) = intent"
  "d_scope (attach_intent intent d) = d_scope d" "d_gens (attach_intent intent d) = d_gens d"
  "av_stage (d_authority (attach_intent intent d)) = S_Intent"
  by (simp_all add: attach_intent_def)

lemma diagnosis_stage_authorization:
  "diagnosis_stage diag = S_Authorization \<longleftrightarrow> di_classification diag = C_Blackhole \<and> di_corroborated diag"
  by (auto simp: diagnosis_stage_def Let_def)


end
