(* ===== verification/BHG_Engine_Steps.thy ===== *)
theory BHG_Engine_Steps
  imports BHG_Engine
begin

text \<open>
  The invariant of the coordinator, kept by every operation, and the interleaving of its calls as a
  step relation with its reachable states.
\<close>

section \<open>The invariant\<close>

definition engine_ok :: "u64 \<Rightarrow> engine \<Rightarrow> bool" where
  "engine_ok n e \<longleftrightarrow> accounts n (en_stats e) \<and> ledger_inv (en_ledger e) \<and> registry_wf (en_fences e) \<and>
     fences_recorded e \<and> en_policy e = ec_policy (en_config e) \<and>
     (\<not> en_opened e \<longrightarrow> fr_records (en_fences e) = [] \<and> lg_scopes (en_ledger e) = [])"

lemma engine_ok_extends:
  assumes "engine_ok n e" "engine_extends e e'" "accounts m (en_stats e')" "registry_wf (en_fences e')"
    and "\<And>k. registry_find (en_fences e') k \<noteq> None \<Longrightarrow> registry_find (en_fences e) k \<noteq> None \<or> k \<in> recorded_ids (en_store e')"
    and "\<not> en_opened e \<Longrightarrow> fr_records (en_fences e') = []"
  shows "engine_ok m e'"
  using assms(1,2,3,4,6) fences_recorded_extends [OF _ assms(2,5)]
  by (auto simp: engine_ok_def engine_extends_def)

lemma engine_ok_same:
  assumes "engine_ok n e" "engine_extends e e'" "accounts m (en_stats e')" "en_fences e' = en_fences e"
  shows "engine_ok m e'"
  using assms by (intro engine_ok_extends [OF assms(1-3)]) (auto simp: engine_ok_def)

lemma engine_ok_parts:
  assumes "engine_ok n e"
  shows "accounts n (en_stats e)" "ledger_inv (en_ledger e)" "registry_wf (en_fences e)" "fences_recorded e"
    "en_policy e = ec_policy (en_config e)"
  using assms by (simp_all add: engine_ok_def)

lemma engine_new_ok: "validate_policy (ec_policy config) = O_Ok \<Longrightarrow> engine_ok 0 (engine_new config d)"
  by (simp add: engine_ok_def engine_new_def accounts_def engine_stats_new_def ledger_new_inv registry_new_def
      registry_wf_def fences_recorded_def registry_find_def omap_find_def) (simp add: ledger_new_def)

subsection \<open>Opening, closing, evidence\<close>

lemma engine_ok_cleared:
  assumes "engine_ok 0 e"
  shows "engine_ok 0 (e\<lparr>en_store := st, en_ledger := ledger_reset (en_ledger e),
    en_fences := registry_clear (en_fences e), en_opened := b\<rparr>)"
  using assms ledger_reset_inv [of "en_ledger e"] registry_wf_clear
  by (auto simp: engine_ok_def fences_recorded_def registry_find_def registry_clear_def omap_find_def ledger_reset_def)

lemma engine_open_ok:
  assumes "engine_ok 0 e"
  shows "engine_ok 0 (snd (engine_open boot incarnation clk e))"
proof -
  have "engine_ok 0 (e\<lparr>en_store := st\<rparr>)" if "\<not> en_opened e" for st
    using assms that by (auto simp: engine_ok_def fences_recorded_def registry_find_def omap_find_def)
  moreover note engine_ok_cleared [OF assms]
  ultimately show ?thesis using assms
    by (auto simp: engine_open_def Let_def split: prod.splits)
qed

lemma engine_close_ok:
  assumes "engine_ok 0 e"
  shows "engine_ok 0 (snd (engine_close e))"
  using assms engine_ok_cleared [OF assms] by (simp add: engine_close_def split: prod.splits)

lemma submit_ok:
  assumes "engine_ok 0 e"
  shows "engine_ok 0 (snd (submit ev clk e))"
proof -
  have "engine_ok 0 (e\<lparr>en_stats := (en_stats e)\<lparr>es_evidence_submitted := es_evidence_submitted (en_stats e) + 1,
      es_evidence_rejected := es_evidence_rejected (en_stats e) + 1\<rparr>\<rparr>)"
    using assms by (intro engine_ok_same [OF assms]) (auto simp: engine_ok_def accounts_def algebra_simps)
  moreover have "ledger_inv (snd (admit ev (clk 0) (en_ledger e)))"
    using assms admit_inv by (auto simp: engine_ok_def)
  ultimately show ?thesis
    using assms by (auto simp: submit_def Let_def engine_ok_def accounts_def fences_recorded_def algebra_simps
        split: prod.splits)
qed

subsection \<open>Downstream reports and checkpoints\<close>

lemma engine_ok_record:
  assumes "engine_ok n e" "registry_wf g" "\<And>k. registry_find g k = None \<longleftrightarrow> registry_find (en_fences e) k = None"
    and "en_opened e"
  shows "engine_ok n (e\<lparr>en_fences := g\<rparr>)" "engine_ok n (record_fence ty r (e\<lparr>en_fences := g\<rparr>))"
proof -
  show 1: "engine_ok n (e\<lparr>en_fences := g\<rparr>)"
    using assms by (intro engine_ok_extends [OF assms(1)]) (auto simp: engine_ok_def)
  show "engine_ok n (record_fence ty r (e\<lparr>en_fences := g\<rparr>))"
    using 1 by (intro engine_ok_same [OF 1]) (auto simp: engine_ok_def simp del: engine_extends_stats)
qed

lemma acknowledge_fence_ok:
  assumes "engine_ok 0 e"
  shows "engine_ok 0 (snd (acknowledge_fence k downstream clk e))"
proof -
  let ?r = "acknowledge k downstream (clk 0) (en_fences e)"
  have "registry_wf (snd ?r)" using assms registry_wf_report(1) by (auto simp: engine_ok_def)
  note ok = engine_ok_record [OF assms this registry_keys_report(1)]
  show ?thesis
    using assms ok by (cases ?r) (auto simp: acknowledge_fence_def Let_def split: option.splits)
qed

lemma engine_report_effect_ok:
  assumes "engine_ok 0 e"
  shows "engine_ok 0 (snd (engine_report_effect k downstream v clk e))"
proof -
  let ?r = "report_effect k downstream v (clk 0) (en_fences e)"
  have "registry_wf (snd ?r)" using assms registry_wf_report(2) by (auto simp: engine_ok_def)
  note ok = engine_ok_record [OF assms this registry_keys_report(2)]
  show ?thesis
    using assms ok by (cases ?r) (auto simp: engine_report_effect_def Let_def split: option.splits)
qed

lemma engine_checkpoint_ok:
  assumes "engine_ok 0 e"
  shows "engine_ok 0 (snd (engine_checkpoint e))"
proof -
  obtain oc st where c: "checkpoint (en_store e) = (oc, st)" by (metis prod.exhaust)
  have "engine_ok 0 (e\<lparr>en_store := st\<rparr>)"
    using assms checkpoint_keeps(2) [OF c]
    by (intro engine_ok_same [OF assms]) (auto simp: engine_ok_def engine_extends_store)
  with assms show ?thesis by (simp add: engine_checkpoint_def c)
qed

subsection \<open>Evaluation, localization, restoration\<close>

lemma revalidate_ok:
  assumes "engine_ok 0 e" "en_opened e"
  shows "engine_ok 1 (evaluation_start gens clk e)"
proof (rule engine_ok_extends [OF assms(1)])
  show "accounts 1 (en_stats (evaluation_start gens clk e))"
    using assms evaluation_start_keeps(3) [of 0 gens clk e] by (simp add: engine_ok_def)
  show "registry_wf (en_fences (evaluation_start gens clk e))"
    using assms registry_wf_revalidate by (auto simp: engine_ok_def)
qed (use assms in \<open>auto simp: registry_find_revalidate\<close>)

lemma evaluation_opened:
  assumes "engine_ok 0 e" "en_opened e"
  shows "engine_ok 1 (evaluation_start gens clk e)" "en_opened (evaluation_start gens clk e)"
  using revalidate_ok [OF assms] assms(2) evaluation_start_keeps(1) [of e gens clk] by (auto simp: engine_extends_def)

lemma issue_intent_ok:
  assumes "engine_ok n e" "en_opened e" "issue_intent diag d e = (d', e')"
  shows "engine_ok n e'"
proof (rule engine_ok_extends [OF assms(1) issue_intent_keeps(1) [OF assms(3)]])
  show "accounts n (en_stats e')" using assms issue_intent_keeps(2) [OF assms(3)] by (simp add: engine_ok_def)
  show "registry_wf (en_fences e')" using assms issue_intent_keeps(3) [OF assms(3)] by (simp add: engine_ok_def)
  show "registry_find (en_fences e) k \<noteq> None \<or> k \<in> recorded_ids (en_store e')"
    if "registry_find (en_fences e') k \<noteq> None" for k
    using assms(3)
  proof (cases rule: issue_intent_cases)
    case (issued intent rs)
    then have "fi_id intent \<in> recorded_ids (en_store e')"
      by (force simp: recorded_ids_def fence_payload_def record_new_def)
    with issued that show ?thesis by (auto simp: registry_find_def split: if_splits)
  qed (use that in \<open>auto simp: registry_find_def\<close>)
qed (use assms in simp)

lemma settle_decision_ok:
  assumes "engine_ok (n + 1) e" "en_opened e" "settle_decision d clk e = (d', e')"
  shows "engine_ok n e'"
proof -
  note k = settle_decision_keeps [OF assms(3)]
  show ?thesis
    using assms k by (intro engine_ok_extends [OF assms(1) k(1)]) (auto simp: engine_ok_def)
qed

lemma evaluate_ok:
  assumes "engine_ok 0 e" "evaluate scope gens clk e = ((oc, d), e')"
  shows "engine_ok 0 e'"
proof (cases "evaluable scope gens e")
  case True
  from assms(2) obtain d1 e1 where
    r: "(if diagnosis_stage (classify_subject scope gens (clk 1) e) = S_Authorization
      then issue_intent (classify_subject scope gens (clk 1) e)
        (draft_decision scope gens (clk 1) (classify_subject scope gens (clk 1) e) (evaluation_start gens clk e))
        (evaluation_start gens clk e)
      else (draft_decision scope gens (clk 1) (classify_subject scope gens (clk 1) e) (evaluation_start gens clk e),
        evaluation_start gens clk e)) = (d1, e1)"
    and s: "settle_decision d1 clk e1 = (d, e')"
    using evaluate_run [OF True] by metis
  note start = evaluation_opened [OF assms(1) conjunct1 [OF True], of gens clk]
  have e1: "engine_ok 1 e1 \<and> en_opened e1"
    using r start issue_intent_ok [OF start] issue_intent_keeps(1) by (auto simp: engine_extends_def split: if_splits)
  then show ?thesis using settle_decision_ok [of 0 e1 d1 clk d e'] s by simp
next
  case False
  then have "e' = refusal_fail_closed e" using assms(2) by (auto simp: evaluate_def Let_def split: if_splits)
  then show ?thesis using assms(1) engine_ok_same [OF assms(1), of "refusal_fail_closed e" 0] by (simp add: engine_ok_def)
qed

lemma engine_commit_ok:
  assumes "engine_ok (n + 1) e" "engine_commit_decision d e = (oc, e')"
  shows "engine_ok n e'"
proof (rule engine_ok_same [OF assms(1) engine_commit_keeps(1) [OF assms(2)]])
  show "accounts n (en_stats e')" "en_fences e' = en_fences e"
    using engine_ok_parts(1) [OF assms(1)] engine_commit_keeps(2,3) [OF assms(2)] by simp_all
qed

lemma localize_finish_ok:
  assumes "engine_ok 0 e"
  shows "engine_ok 0 (snd (localize_finish found out e))"
proof -
  let ?e = "e\<lparr>en_stats := (en_stats e)\<lparr>es_localizations := es_localizations (en_stats e) + 1\<rparr>\<rparr>"
  let ?e2 = "?e\<lparr>en_stats := (en_stats ?e)\<lparr>es_localization_enrichments := es_localization_enrichments (en_stats ?e) + 1\<rparr>\<rparr>"
  have 1: "engine_ok 0 ?e" using assms by (intro engine_ok_same [OF assms]) (auto simp: engine_ok_def)
  have "engine_ok (0 + 1) ?e2"
    using assms by (intro engine_ok_same [OF assms]) (auto simp: engine_ok_def accounts_def algebra_simps)
  then have 2: "engine_ok 0 (snd (engine_commit_decision d ?e2))" for d
    using engine_commit_ok [of 0 ?e2 d] by (cases "engine_commit_decision d ?e2") simp
  show ?thesis
    unfolding localize_finish_def Let_def using 1 2
    by (auto split: prod.splits if_splits)
qed

lemma withdraw_fence_ok:
  assumes "engine_ok n e" "en_opened e" "withdraw_fence fence now d e = ((s, d'), e')"
  shows "engine_ok n e'" "en_opened e'"
proof -
  have "engine_ok n e' \<and> en_opened e'"
  proof (cases fence)
    case None
    then show ?thesis using assms by (simp add: withdraw_fence_def)
  next
    case (Some r)
    let ?p = "(fence_payload r)\<lparr>fp_lifecycle := fence_lifecycle_code L_Revoked, fp_effected_at := now,
      fp_terminal_reason := R_FenceIntentRevoked\<rparr>"
    obtain co st where c: "commit_fence_state RT_FenceRevokeCommit ?p (en_store e) = (co, st)" by (metis prod.exhaust)
    let ?e = "e\<lparr>en_store := st\<rparr>"
    have x: "engine_extends e ?e" by (rule engine_extends_store [OF commit_fence_state_keeps(1) [OF c]])
    have ok: "engine_ok n ?e" using assms(1) x by (intro engine_ok_same [OF assms(1)]) (auto simp: engine_ok_def)
    have "engine_ok n (?e\<lparr>en_fences := snd (revoke k reason now (en_fences ?e))\<rparr>)" for k reason
      using assms(1,2) engine_ok_record(1) [OF ok] registry_wf_report(3) by (auto simp: engine_ok_def)
    moreover have "engine_ok n (refusal_fail_closed (durable_failure ?e))"
      by (rule engine_ok_same [OF ok engine_extends_trans [OF counting(1) counting(4)]])
        (use engine_ok_parts(1) [OF ok] in simp_all)
    ultimately show ?thesis
      using assms(2,3) c Some
      by (auto simp: withdraw_fence_def Let_def refusal_fail_closed_def durable_failure_def split: if_splits)
  qed
  then show "engine_ok n e'" "en_opened e'" by simp_all
qed

lemma apply_restoration_ok:
  assumes "engine_ok n e" "en_opened e" "apply_restoration rst diag now d e = ((s, d'), e')"
  shows "engine_ok n e'"
proof -
  have "engine_ok n (e\<lparr>en_stats := (en_stats e)\<lparr>es_restorations_authorized := k\<rparr>\<rparr>)" for k
    using engine_ok_parts(1) [OF assms(1)] by (intro engine_ok_same [OF assms(1)]) simp_all
  note withdrawn = withdraw_fence_ok(1) [OF this]
  have "engine_ok n (restore_refused e)"
    using engine_ok_parts(1) [OF assms(1)] by (intro engine_ok_same [OF assms(1)]) simp_all
  then show ?thesis
    using assms(2,3) withdrawn by (auto simp: apply_restoration_def split: if_splits)
qed

lemma settle_restoration_ok:
  assumes "engine_ok (n + 1) e" "settle_restoration stg d e = (d', e')"
  shows "engine_ok n e'"
proof -
  have "engine_ok n e1 \<and> engine_ok n (refusal_fail_closed e1)" if "engine_commit_decision d1 e = (oc, e1)" for d1 oc e1
  proof -
    have ok: "engine_ok n e1" by (rule engine_commit_ok [OF assms(1) that])
    moreover have "engine_ok n (refusal_fail_closed e1)"
      using engine_ok_parts(1) [OF ok] by (intro engine_ok_same [OF ok]) simp_all
    ultimately show ?thesis by simp
  qed
  then show ?thesis
    using assms(2) by (auto simp: settle_restoration_def Let_def split: prod.splits if_splits)
qed

lemma restore_run:
  assumes "evaluable scope gens e" "restore scope gens clk e = ((oc, d'), e')"
  obtains stg d1 e1 rst where
    "rst = evaluate_restoration (classify_subject scope gens (clk 1) e) (en_policy e)
       (open_for (en_fences (evaluation_start gens clk e)) scope) (clk 1)"
    "apply_restoration rst (classify_subject scope gens (clk 1) e) (clk 1)
       (draft_restoration scope gens (clk 1) (classify_subject scope gens (clk 1) e) rst (evaluation_start gens clk e))
       (evaluation_start gens clk e) = ((stg, d1), e1)"
    "settle_restoration stg d1 e1 = (d', e')"
proof -
  have "classify_subject scope gens (clk 1) (evaluation_start gens clk e) = classify_subject scope gens (clk 1) e"
    "en_policy (evaluation_start gens clk e) = en_policy e"
    using evaluation_start_keeps(1) [of e gens clk] by (simp_all add: classify_subject_def engine_extends_def)
  then show ?thesis
    using assms that by (auto simp: restore_def Let_def simp del: One_nat_def evaluation_start_keeps split: prod.splits)
qed

lemma restore_ok:
  assumes "engine_ok 0 e" "restore scope gens clk e = ((oc, d), e')"
  shows "engine_ok 0 e'"
proof (cases "evaluable scope gens e")
  case True
  then show ?thesis
    using restore_run [OF True assms(2)] apply_restoration_ok [OF evaluation_opened [OF assms(1)]]
      settle_restoration_ok [of 0] by (metis add_0)
next
  case False
  have "engine_ok 0 (restore_refused (refusal_fail_closed e))"
    by (rule engine_ok_same [OF assms(1) engine_extends_trans [OF counting(4) counting(7)]])
      (use engine_ok_parts(1) [OF assms(1)] in simp_all)
  then show ?thesis using False assms(2) by (auto simp: restore_def Let_def split: if_splits)
qed

section \<open>Interleaved calls\<close>

text \<open>The calls that hold the mutex from beginning to end.\<close>

datatype engine_call =
    Call_Open u64 u64 | Call_Close | Call_Submit delivery_evidence | Call_Evaluate scope generation_vector
  | Call_Acknowledge u64 u64 | Call_Effect u64 u64 bool | Call_Restore scope generation_vector | Call_Checkpoint

fun run_call :: "engine_call \<Rightarrow> clock \<Rightarrow> engine \<Rightarrow> engine" where
  "run_call (Call_Open boot incarnation) clk e = snd (engine_open boot incarnation clk e)"
| "run_call Call_Close clk e = snd (engine_close e)"
| "run_call (Call_Submit ev) clk e = snd (submit ev clk e)"
| "run_call (Call_Evaluate scope gens) clk e = snd (evaluate scope gens clk e)"
| "run_call (Call_Acknowledge k downstream) clk e = snd (acknowledge_fence k downstream clk e)"
| "run_call (Call_Effect k downstream verified) clk e = snd (engine_report_effect k downstream verified clk e)"
| "run_call (Call_Restore scope gens) clk e = snd (restore scope gens clk e)"
| "run_call Call_Checkpoint clk e = snd (engine_checkpoint e)"

text \<open>A localization in flight: the decision of its first part, and what it searches.\<close>

type_synonym in_flight = "decision \<times> u32 \<times> hop_probe list"

inductive engine_step :: "engine \<times> in_flight multiset \<Rightarrow> engine \<times> in_flight multiset \<Rightarrow> bool" where
  call: "engine_step (e, fl) (run_call c clk e, fl)"
| localize_begin: "evaluate scope gens clk e = ((oc, d), e') \<Longrightarrow>
    engine_step (e, fl) (e', add_mset (d, hops, probes) fl)"
| localize_end: "engine_step (e, add_mset (d, hops, probes) fl)
    (snd (localize_finish (localize_search hops probes (en_policy e)) d e), fl)"

inductive_cases engine_stepE: "engine_step (e, fl) (e', fl')"

inductive engine_reachable :: "engine_config \<Rightarrow> disk \<Rightarrow> engine \<times> in_flight multiset \<Rightarrow> bool" for config d where
  start: "engine_reachable config d (engine_new config d, {#})"
| step: "engine_reachable config d s \<Longrightarrow> engine_step s s' \<Longrightarrow> engine_reachable config d s'"

lemma run_call_ok:
  assumes "engine_ok 0 e"
  shows "engine_ok 0 (run_call c clk e)"
proof (cases c)
  case (Call_Evaluate scope gens)
  obtain oc d e' where "evaluate scope gens clk e = ((oc, d), e')" by (metis prod.exhaust)
  with evaluate_ok [OF assms this] Call_Evaluate show ?thesis by simp
next
  case (Call_Restore scope gens)
  obtain oc d e' where "restore scope gens clk e = ((oc, d), e')" by (metis prod.exhaust)
  with restore_ok [OF assms this] Call_Restore show ?thesis by simp
qed (use assms in \<open>simp_all add: engine_open_ok engine_close_ok submit_ok acknowledge_fence_ok
      engine_report_effect_ok engine_checkpoint_ok\<close>)

lemma engine_step_ok: "engine_step s s' \<Longrightarrow> engine_ok 0 (fst s) \<Longrightarrow> engine_ok 0 (fst s')"
  by (induction rule: engine_step.induct) (auto simp: run_call_ok evaluate_ok localize_finish_ok)

lemma reachable_ok:
  assumes "engine_reachable config d s" "validate_policy (ec_policy config) = O_Ok"
  shows "engine_ok 0 (fst s)"
  using assms by (induction rule: engine_reachable.induct) (auto simp: engine_new_ok engine_step_ok)


end
