(* ===== verification/BHG_Engine_Progress.thy ===== *)
theory BHG_Engine_Progress
  imports BHG_Engine_Steps
begin

text \<open>
  When the coordinator does issue a fence: on a healthy disk with room, for a corroborated
  blackhole. The run of a small engine, from its first opening to its first fence, shows that the
  conditions can be met.
\<close>

section \<open>Encodable decisions\<close>

text \<open>Every decision within its limits is encodable, whatever its id.\<close>

definition decision_fits :: "decision \<Rightarrow> bool" where
  "decision_fits d \<longleftrightarrow> length (d_reasons d) \<le> 256 \<and>
     (d_has_localization d \<longrightarrow> length (lr_elements (d_localization d)) \<le> 64) \<and>
     (d_has_intent d \<longrightarrow> fi_is_valid (d_intent d))"

lemma emits_when: "(p \<Longrightarrow> emits f b) \<Longrightarrow> emits (w_when p f) (wire_when p b)"
  using emits_nil by (auto simp: w_when_def wire_when_def wseq_def id_def)

lemma emits_decision:
  assumes "decision_fits d"
  shows "emits (encode_decision d) (wire_decision d)"
proof -
  note rts = rt_u64 rt_u16 rt_u8 rt_boolean rt_i64 rt_scope rt_generation_vector rt_authority rt_census
  have parts: "emits (w_vector (\<lambda>c. w_u16 (reason_code_code c)) (d_reasons d))
      (wire_vector (\<lambda>c. le_bytes 2 (reason_code_code c)) (d_reasons d))"
    "d_has_localization d \<Longrightarrow> emits (encode_localization (d_localization d)) (wire_localization (d_localization d))"
    "d_has_intent d \<Longrightarrow> emits (encode_intent (d_intent d)) (wire_intent (d_intent d))"
    using assms rt_reasons [of "d_reasons d"] rt_localization [of "d_localization d"] rt_intent [of "d_intent d"]
    by (simp_all add: decision_fits_def rt_def)
  show ?thesis
    unfolding encode_decision_def wire_decision_def concat.simps
    by (intro emits_Cons emits_nil emits_when parts) (use rts in \<open>unfold rt_def, blast\<close>)+
qed

lemma length_fitting_decision:
  assumes "decision_fits d"
  shows "length (wire_decision d) \<le> 4096"
proof -
  have "length (wire_when (d_has_localization d) (wire_localization (d_localization d))) \<le> 287"
    using assms by (simp add: decision_fits_def wire_when_def length_wire_parts)
  moreover have "length (wire_when (d_has_intent d) (wire_intent (d_intent d))) \<le> 125"
    by (simp add: wire_when_def length_wire_parts)
  moreover have "length (wire_vector (\<lambda>c. le_bytes 2 (reason_code_code c)) (d_reasons d)) \<le> 516"
    using assms by (simp add: decision_fits_def length_wire_vector)
  ultimately show ?thesis by (simp add: wire_decision_def length_wire_parts)
qed

lemma commit_decision_fits:
  assumes "writer_ready st j" "decision_fits d" "\<not> journal_full st"
  shows "commit_decision d st = (O_Ok, (appended RT_DecisionCommit (wire_decision d) st)\<lparr>so_state :=
    push_lineage (cf_max_lineage_records (so_config st)) (decision_entry RT_DecisionCommit (so_last_seq st + 1) d)
      ((so_state st)\<lparr>ds_total_decisions := ds_total_decisions (so_state st) + 1\<rparr>)\<rparr>)"
proof -
  note e = emits_decision [OF assms(2)] and l = length_fitting_decision [OF assms(2)]
  have "wok (encode_decision d (writer_new kDefaultMaxDocumentBytes))"
    "wbuf (encode_decision d (writer_new kDefaultMaxDocumentBytes)) = wire_decision d"
    using emits_fresh [OF e, of kDefaultMaxDocumentBytes] l by (simp_all add: kDefaultMaxDocumentBytes_def)
  then show ?thesis
    using l assms(3) append_commit_ready [OF assms(1), of "wire_decision d"]
    by (simp add: commit_decision_def is_affirmative_def Let_def)
qed

lemma add_reason_keeps:
  "di_classification (add_reason c m d) = di_classification d" "di_outcome (add_reason c m d) = di_outcome d"
  "length (di_reasons (add_reason c m d)) \<le> Suc (length (di_reasons d))"
  by (simp_all add: add_reason_def)

lemma verdict_keeps:
  "di_classification (verdict oc c reason m d) = c" "di_outcome (verdict oc c reason m d) = oc"
  "length (di_reasons (verdict oc c reason m d)) \<le> Suc (length (di_reasons d))"
  by (simp_all add: verdict_def add_reason_def)

lemma nothing_usable_unknown: "di_classification (nothing_usable m s d) = C_Unknown"
  by (simp add: nothing_usable_def add_reason_keeps Let_def)

lemma apply_rules_blackhole:
  assumes "di_classification (apply_rules policy s d) = C_Blackhole"
  shows "apply_rules policy s d = declare_blackhole policy (pol_max_reasons_per_decision policy) d"
  using assms by (auto simp: apply_rules_def verdict_keeps nothing_usable_unknown Let_def split: if_splits)

lemma declare_blackhole_keeps:
  "di_outcome (declare_blackhole policy m d) = O_Ok"
  "length (di_reasons (declare_blackhole policy m d)) \<le> Suc (Suc (length (di_reasons d)))"
proof -
  let ?v = "verdict O_Ok C_Blackhole R_CompleteDeliveryFailure m d"
  obtain ok reason where c: "evaluate_corroboration ?v policy = (ok, reason)" by (metis prod.exhaust)
  let ?w = "?v\<lparr>di_corroborated := ok, di_corroboration_reason := reason\<rparr>"
  have "length (di_reasons (add_reason reason m ?w)) \<le> Suc (length (di_reasons ?w))" by (rule add_reason_keeps(3))
  then show "di_outcome (declare_blackhole policy m d) = O_Ok"
    "length (di_reasons (declare_blackhole policy m d)) \<le> Suc (Suc (length (di_reasons d)))"
    using verdict_keeps(3) [of O_Ok C_Blackhole R_CompleteDeliveryFailure m d]
    by (simp_all add: declare_blackhole_def c verdict_keeps(2) add_reason_keeps(2) Let_def)
qed

lemma blackhole_reasons:
  assumes "di_classification (classify req) = C_Blackhole"
  shows "length (di_reasons (classify req)) \<le> 2" "di_outcome (classify req) = O_Ok"
proof -
  obtain policy s d0 where "classify req = apply_rules policy s d0" "di_reasons d0 = []"
    using assms by (auto simp: classify_def diagnosis_new_def refuse_input_def verdict_keeps(1) Let_def
        split: option.splits if_splits)
  then have "classify req = declare_blackhole policy (pol_max_reasons_per_decision policy) d0" "di_reasons d0 = []"
    using assms apply_rules_blackhole by simp_all
  then show "length (di_reasons (classify req)) \<le> 2" "di_outcome (classify req) = O_Ok"
    using declare_blackhole_keeps [of policy "pol_max_reasons_per_decision policy" d0] by simp_all
qed

section \<open>Issuing a fence\<close>

lemma revalidate_idle:
  assumes "registry_wf g" "\<forall>k r. registry_find g k = Some r \<longrightarrow> \<not> lapsed now gens r"
  shows "revalidate now gens g = ([], g)"
proof -
  have "\<not> lapsed now gens r" if "(k, r) \<in> set (fr_records g)" for k r
    using assms that by (auto simp: registry_wf_def registry_find_def omap_find_iff)
  then have "map (\<lambda>(k, r). (k, revalidated now gens r)) (fr_records g) = fr_records g"
    "filter (\<lambda>kr. lapsed now gens (snd kr)) (fr_records g) = []"
    "filter (\<lambda>kr. run_out now (snd kr)) (fr_records g) = []"
    "filter (\<lambda>kr. moved_on now gens (snd kr)) (fr_records g) = []"
    by (force simp: revalidated_def lapsed_def intro: map_idI simp: filter_empty_conv)+
  then show ?thesis by (simp add: revalidate_def revalidate_loop_eq)
qed

text \<open>The arguments an evaluation stages with, and the intent they give.\<close>

definition evaluation_args :: "scope \<Rightarrow> generation_vector \<Rightarrow> i64 \<Rightarrow> engine \<Rightarrow> issue_args" where
  "evaluation_args scope gens now e = \<lparr>ia_scope = scope, ia_gens = gens, ia_boot = so_boot (en_store e),
     ia_incarnation = so_incarnation (en_store e), ia_provenance = ec_label (en_config e),
     ia_reason = di_primary_reason (classify_subject scope gens now e), ia_now = now\<rparr>"

definition evaluation_intent :: "scope \<Rightarrow> generation_vector \<Rightarrow> i64 \<Rightarrow> engine \<Rightarrow> fence_intent" where
  "evaluation_intent scope gens now e = minted (fr_policy (en_fences e))
     (fs_issue_attempts (fr_stats (en_fences e)) + 1) (evaluation_args scope gens now e)"

text \<open>The registry can take the intent: there is no open fence for the subject, there is a free slot, the
  lifetime does not overflow and the derived ids are usable.\<close>

definition issuable :: "scope \<Rightarrow> generation_vector \<Rightarrow> i64 \<Rightarrow> engine \<Rightarrow> bool" where
  "issuable scope gens now e \<longleftrightarrow>
     so_boot (en_store e) \<noteq> 0 \<and> so_incarnation (en_store e) \<noteq> 0 \<and> open_for (en_fences e) scope = None \<and>
     length (fr_records (en_fences e)) < unat (pol_max_fences (fr_policy (en_fences e))) \<and>
     ttl_fits (fr_policy (en_fences e)) (evaluation_args scope gens now e) \<and>
     fi_is_valid (evaluation_intent scope gens now e) \<and>
     registry_find (en_fences e) (fi_id (evaluation_intent scope gens now e)) = None"

text \<open>The store can take a number of further records.\<close>

definition has_room :: "nat \<Rightarrow> store \<Rightarrow> bool" where
  "has_room n st \<longleftrightarrow> (\<exists>j. writer_ready st j) \<and> room_for n (4124 * n) st \<and>
     length (ds_fences (so_state st)) + n \<le> unat (cf_max_prior_fences (so_config st))"

lemma has_room_appended:
  assumes "has_room (Suc n) st" "length payload \<le> 4096"
    and "length (ds_fences t) \<le> Suc (length (ds_fences (so_state st)))"
  shows "has_room n ((appended ty payload st)\<lparr>so_state := t\<rparr>)"
proof -
  obtain j where w: "writer_ready st j" using assms(1) by (auto simp: has_room_def)
  have "room_for (Suc n) (28 + length payload + 4124 * n) st"
    using assms(1,2) by (simp add: has_room_def room_for_def)
  then have "room_for n (4124 * n) ((appended ty payload st)\<lparr>so_state := t\<rparr>)" by (rule room_appended [OF w])
  then show ?thesis using assms(1,3) writer_ready_appended [OF w] by (auto simp: has_room_def)
qed

lemma has_room_open:
  assumes "has_room (Suc n) st"
  obtains j where "writer_ready st j" "\<not> journal_full st"
  using assms ready_room(1) [of st _ n "4124 * Suc n"] by (auto simp: has_room_def)

lemma has_room_mono: "has_room n st \<Longrightarrow> m \<le> n \<Longrightarrow> has_room m st"
  by (auto simp: has_room_def room_for_def)

lemma length_put_fence: "length (put_fence f fs) \<le> Suc (length fs)"
  by (simp add: put_fence_def split: option.splits)

lemma has_room_fence:
  assumes "has_room (Suc n) st" "fence_state_ok f"
  obtains st' where "commit_fence_state ty f st = (O_Ok, st')" "has_room n st'"
proof -
  obtain j where w: "writer_ready st j" "\<not> journal_full st" by (rule has_room_open [OF assms(1)])
  have "fence_room (so_config st) f (so_state st)" using assms(1) by (simp add: has_room_def fence_room_def)
  then obtain t where c: "commit_fence_state ty f st = (O_Ok, (appended ty (wire_fence_state f) st)\<lparr>so_state := t\<rparr>)"
    and t: "ds_fences t = put_fence f (ds_fences (so_state st))"
    using commit_fence_state_ready [OF w(1) assms(2), of ty] w(2) by auto
  have "has_room n ((appended ty (wire_fence_state f) st)\<lparr>so_state := t\<rparr>)"
    by (rule has_room_appended [OF assms(1)]) (simp_all add: t length_put_fence)
  with c that show ?thesis by blast
qed

lemma has_room_decision:
  assumes "has_room (Suc n) st" "decision_fits d"
  obtains st' where "commit_decision d st = (O_Ok, st')" "has_room n st'"
proof -
  obtain j where w: "writer_ready st j" "\<not> journal_full st" by (rule has_room_open [OF assms(1)])
  obtain t where c: "commit_decision d st = (O_Ok, (appended RT_DecisionCommit (wire_decision d) st)\<lparr>so_state := t\<rparr>)"
    and t: "ds_fences t = ds_fences (so_state st)"
    using commit_decision_fits [OF w(1) assms(2) w(2)] by auto
  have "has_room n ((appended RT_DecisionCommit (wire_decision d) st)\<lparr>so_state := t\<rparr>)"
    by (rule has_room_appended [OF assms(1) length_fitting_decision [OF assms(2)]]) (simp add: t)
  with c that show ?thesis by blast
qed

lemma open_for_None_duplicate: "open_for g scope = None \<Longrightarrow> open_duplicate (fr_records g) scope gens = None"
  by (auto simp: open_for_def open_duplicate_def find_None_iff)

lemma record_new_intent [simp]: "rc_intent (record_new intent) = intent"
  by (simp add: record_new_def)

lemma fence_payload_ok: "fi_is_valid (rc_intent r) \<Longrightarrow> fence_state_ok (fence_payload r)"
  by (simp add: fence_state_ok_def fence_payload_def)

lemma stage_issuable:
  assumes "issuable scope gens now e" "sc_is_valid scope" "gv_is_complete gens"
  shows "\<exists>g. stage (evaluation_args scope gens now e) (en_fences e) = ((O_Ok, R_None, evaluation_intent scope gens now e), g) \<and>
    fr_records g = fr_records (en_fences e) \<and> fr_policy g = fr_policy (en_fences e)"
  using assms open_for_None_duplicate [of "en_fences e" scope gens]
  by (simp add: stage_def issuable_def issue_input_ok_def evaluation_args_def evaluation_intent_def mint_intent_eq Let_def)

lemma evaluation_intent_subject:
  "fi_scope (evaluation_intent scope gens now e) = scope" "fi_gens (evaluation_intent scope gens now e) = gens"
  by (simp_all add: evaluation_intent_def evaluation_args_def)

lemma commit_issuable:
  assumes "issuable scope gens now e" "fr_records g = fr_records (en_fences e)" "fr_policy g = fr_policy (en_fences e)"
  shows "\<exists>g'. commit_staged (evaluation_intent scope gens now e) g = (O_Ok, g') \<and>
    fr_records g' = omap_put (fr_records (en_fences e)) (fi_id (evaluation_intent scope gens now e))
      (record_new (evaluation_intent scope gens now e))"
  using assms open_for_None_duplicate [of "en_fences e" scope gens]
  by (simp add: commit_staged_def issuable_def registry_find_def evaluation_intent_subject)

lemma push_reason_length:
  "push_reason policy c d = d\<lparr>d_reasons := d_reasons (push_reason policy c d)\<rparr>"
  "length (d_reasons (push_reason policy c d)) \<le> Suc (length (d_reasons d))"
  by (simp_all add: push_reason_def)

lemma issue_intent_succeeds:
  fixes scope gens now e
  defines "diag \<equiv> classify_subject scope gens now e" and "intent \<equiv> evaluation_intent scope gens now e"
  assumes "issuable scope gens now e" "has_room (Suc n) (en_store e)" "sc_is_valid scope" "gv_is_complete gens"
  shows "\<exists>rs e1. issue_intent diag (draft_decision scope gens now diag e) e =
      ((attach_intent intent (draft_decision scope gens now diag e))\<lparr>d_reasons := rs\<rparr>, e1) \<and>
    length rs \<le> Suc (length (di_reasons diag)) \<and>
    fr_records (en_fences e1) = omap_put (fr_records (en_fences e)) (fi_id intent) (record_new intent) \<and>
    has_room n (en_store e1)"
proof -
  let ?d = "draft_decision scope gens now diag e"
  have args: "\<lparr>ia_scope = d_scope ?d, ia_gens = d_gens ?d, ia_boot = d_boot ?d, ia_incarnation = d_incarnation ?d,
      ia_provenance = ec_label (en_config e), ia_reason = di_primary_reason diag, ia_now = d_decided_at ?d\<rparr> =
      evaluation_args scope gens now e"
    by (simp add: evaluation_args_def draft_decision_def decision_nil_def diag_def Let_def)
  obtain g where g: "stage (evaluation_args scope gens now e) (en_fences e) = ((O_Ok, R_None, intent), g)"
    "fr_records g = fr_records (en_fences e)" "fr_policy g = fr_policy (en_fences e)"
    using stage_issuable [OF assms(3,5,6)] by (auto simp: intent_def)
  have valid: "fi_is_valid intent" using assms(3) by (simp add: issuable_def intent_def)
  obtain st where st: "commit_fence_state RT_FenceIntentCommit (fence_payload (record_new intent)) (en_store e) = (O_Ok, st)"
    "has_room n st"
    using has_room_fence [OF assms(4) fence_payload_ok] valid by (metis record_new_intent)
  obtain g' where g': "commit_staged intent g = (O_Ok, g')"
    "fr_records g' = omap_put (fr_records (en_fences e)) (fi_id intent) (record_new intent)"
    using commit_issuable [OF assms(3) g(2,3)] by (auto simp: intent_def)
  let ?p = "push_reason (en_policy e) R_FenceIntentIssued (attach_intent intent ?d)"
  have "length (d_reasons (attach_intent intent ?d)) = length (di_reasons diag)"
    by (simp add: attach_intent_def draft_decision_def Let_def)
  then have len: "length (d_reasons ?p) \<le> Suc (length (di_reasons diag))"
    using push_reason_length(2) [of "en_policy e" R_FenceIntentIssued "attach_intent intent ?d"] by simp
  have "\<exists>e1. issue_intent diag ?d e = (?p, e1) \<and> en_fences e1 = g' \<and> en_store e1 = st"
    unfolding issue_intent_def Let_def args using g(1) st(1) g'(1) by (simp add: is_affirmative_def)
  then show ?thesis
    using len g'(2) st(2) push_reason_length(1) [of "en_policy e" R_FenceIntentIssued "attach_intent intent ?d"] by metis
qed

text \<open>An evaluation that issues: nothing lapses, the diagnosis is a corroborated blackhole, and both the
  registry and the store can take the fence.\<close>

definition will_issue :: "scope \<Rightarrow> generation_vector \<Rightarrow> clock \<Rightarrow> engine \<Rightarrow> bool" where
  "will_issue scope gens clk e \<longleftrightarrow> evaluable scope gens e \<and>
     di_classification (classify_subject scope gens (clk 1) e) = C_Blackhole \<and>
     di_corroborated (classify_subject scope gens (clk 1) e) \<and>
     (\<forall>k r. registry_find (en_fences e) k = Some r \<longrightarrow> \<not> lapsed (clk 0) gens r) \<and>
     issuable scope gens (clk 1) e \<and> has_room 2 (en_store e)"

lemma settle_decision_commits:
  assumes "commit_decision (seal_decision d) (en_store e) = (O_Ok, st)"
  shows "\<exists>e'. settle_decision d clk e = (seal_decision d, e') \<and> en_fences e' = en_fences e \<and> en_store e' = st"
  using assms by (simp add: settle_decision_def engine_commit_decision_def is_affirmative_def Let_def)

lemma seal_decision_fits: "decision_fits (seal_decision d) = decision_fits d"
  by (simp add: decision_fits_def seal_decision_def sign_decision_def Let_def)

lemma evaluate_will_issue:
  assumes "registry_wf (en_fences e)" "will_issue scope gens clk e" "has_room (Suc (Suc n)) (en_store e)"
  shows "\<exists>d e'. evaluate scope gens clk e = ((O_Ok, d), e') \<and> av_stage (d_authority d) = S_Intent \<and>
    d_intent d = evaluation_intent scope gens (clk 1) e \<and>
    fr_records (en_fences e') = omap_put (fr_records (en_fences e)) (fi_id (d_intent d)) (record_new (d_intent d)) \<and>
    has_room n (en_store e')"
proof -
  let ?diag = "classify_subject scope gens (clk 1) e" and ?i = "evaluation_intent scope gens (clk 1) e"
  let ?z = "evaluation_start gens clk e"
  have "?z = e\<lparr>en_stats := (en_stats e)\<lparr>es_evaluations := es_evaluations (en_stats e) + 1\<rparr>\<rparr>"
    using assms by (simp add: evaluation_start_def revalidate_fences_locked_def revalidate_idle will_issue_def)
  then have same: "classify_subject scope gens (clk 1) ?z = ?diag" "issuable scope gens (clk 1) ?z"
    "has_room (Suc (Suc n)) (en_store ?z)" "evaluation_intent scope gens (clk 1) ?z = ?i"
    "fr_records (en_fences ?z) = fr_records (en_fences e)"
    using assms(2,3) by (simp_all add: will_issue_def classify_subject_def issuable_def evaluation_intent_def evaluation_args_def)
  have ev: "evaluable scope gens e" using assms(2) by (simp add: will_issue_def)
  let ?d = "draft_decision scope gens (clk 1) ?diag ?z"
  obtain rs e1 where i: "issue_intent ?diag ?d ?z = ((attach_intent ?i ?d)\<lparr>d_reasons := rs\<rparr>, e1)"
    "length rs \<le> Suc (length (di_reasons ?diag))" "fr_records (en_fences e1) = omap_put (fr_records (en_fences e)) (fi_id ?i) (record_new ?i)"
    "has_room (Suc n) (en_store e1)"
    using issue_intent_succeeds [OF same(2,3)] ev unfolding same by blast
  let ?d1 = "(attach_intent ?i ?d)\<lparr>d_reasons := rs\<rparr>"
  have bh: "di_classification ?diag = C_Blackhole" "di_corroborated ?diag" using assms(2) by (simp_all add: will_issue_def)
  have "length (di_reasons ?diag) \<le> 2" and ok: "di_outcome ?diag = O_Ok"
    using bh(1) blackhole_reasons unfolding classify_subject_def by blast+
  then have "length rs \<le> 256" using i(2) by linarith
  moreover have "fi_is_valid ?i" using same(2,4) by (simp add: issuable_def)
  ultimately have "decision_fits ?d1"
    by (simp add: decision_fits_def attach_intent_def draft_decision_def decision_nil_def Let_def)
  then have "decision_fits (seal_decision ?d1)" by (simp only: seal_decision_fits)
  then obtain st where st: "commit_decision (seal_decision ?d1) (en_store e1) = (O_Ok, st)" "has_room n st"
    by (rule has_room_decision [OF i(4)])
  then obtain e' where s: "settle_decision ?d1 clk e1 = (seal_decision ?d1, e')" "en_fences e' = en_fences e1" "en_store e' = st"
    using settle_decision_commits by blast
  have "diagnosis_stage ?diag = S_Authorization" using bh by (simp add: diagnosis_stage_authorization)
  moreover obtain oc d2 e2 where r: "evaluate scope gens clk e = ((oc, d2), e2)" by (metis prod.exhaust)
  ultimately have "d2 = seal_decision ?d1" "e2 = e'" "oc = d_outcome d2"
    using evaluate_run [OF ev r] i(1) s(1) by (metis Pair_inject)+
  then show ?thesis
    using r i(3) s(2,3) st(2) ok by (simp add: attach_intent_def)
qed


section \<open>A run\<close>

definition sample_engine_config :: engine_config where
  "sample_engine_config = \<lparr>ec_store = default_store_config, ec_policy = default_policy, ec_label = P_Synthetic,
     ec_role = ''coordinator''\<rparr>"

definition tick :: clock where "tick n = 1"

definition sample_ledger :: ledger where
  "sample_ledger = snd (admit second_evidence 1 (snd (admit sample_evidence 1 (ledger_new default_policy))))"

lemma sample_ledger_evidence: "evidence_for sample_ledger sample_scope = [sample_evidence, second_evidence]"
  by code_simp

definition sample_args :: issue_args where
  "sample_args = \<lparr>ia_scope = sample_scope, ia_gens = sample_gens, ia_boot = 7, ia_incarnation = 8,
     ia_provenance = P_Synthetic, ia_reason = di_primary_reason (classify sample_request), ia_now = 1\<rparr>"

lemma sample_args_issuable: "fi_is_valid (minted default_policy 1 sample_args)" "ttl_fits default_policy sample_args"
  by code_simp+

lemma sample_diagnosis:
  "di_classification (classify sample_request) = C_Blackhole" "di_corroborated (classify sample_request)"
  by code_simp+

text \<open>The engine is opened in an empty directory and given the two observations.\<close>

lemma sample_engine_opened:
  "\<exists>e. e = run_call (Call_Open 7 8) tick (engine_new sample_engine_config empty_disk) \<and> en_opened e \<and>
    en_ledger e = ledger_new default_policy \<and> en_fences e = registry_new default_policy \<and>
    en_policy e = default_policy \<and> en_config e = sample_engine_config \<and>
    so_boot (en_store e) = 7 \<and> so_incarnation (en_store e) = 8 \<and> has_room 9 (en_store e)"
proof -
  obtain st where st: "store_open 7 8 1 P_Synthetic (store_new default_store_config default_policy empty_disk) = (O_Ok, st)"
    "store_inv st" "room_for 9 37116 st" "so_boot st = 7" "so_incarnation st = 8" "so_config st = default_store_config"
    "ds_fences (so_state st) = []"
    using first_open [of default_store_config default_policy 7 8 37116 9 1 P_Synthetic] sample_config default_policy_valid by auto
  then have "has_room 9 st"
    using logged_facts(2) by (fastforce simp: has_room_def store_inv_def default_store_config_def)
  with st show ?thesis
    by (simp add: engine_open_def engine_new_def sample_engine_config_def tick_def is_affirmative_def
        ledger_reset_def ledger_new_def registry_clear_def registry_new_def)
qed

definition sample_engine :: engine where
  "sample_engine = run_call (Call_Submit second_evidence) tick (run_call (Call_Submit sample_evidence) tick
     (run_call (Call_Open 7 8) tick (engine_new sample_engine_config empty_disk)))"

lemma submit_fields:
  assumes "en_opened e"
  shows "en_ledger (snd (submit ev clk e)) = snd (admit ev (clk 0) (en_ledger e))"
    "en_opened (snd (submit ev clk e))" "en_fences (snd (submit ev clk e)) = en_fences e"
    "en_policy (snd (submit ev clk e)) = en_policy e" "en_config (snd (submit ev clk e)) = en_config e"
    "en_store (snd (submit ev clk e)) = en_store e"
  using assms by (simp_all add: submit_def Let_def split: prod.splits)

lemma sample_engine_state:
  "en_opened sample_engine" "en_ledger sample_engine = sample_ledger" "en_fences sample_engine = registry_new default_policy"
  "en_policy sample_engine = default_policy" "en_config sample_engine = sample_engine_config"
  "so_boot (en_store sample_engine) = 7" "so_incarnation (en_store sample_engine) = 8" "has_room 9 (en_store sample_engine)"
  using sample_engine_opened by (auto simp: sample_engine_def submit_fields sample_ledger_def tick_def)

lemma sample_engine_reachable: "engine_reachable sample_engine_config empty_disk (sample_engine, {#})"
  unfolding sample_engine_def
  by (intro engine_reachable.step [OF _ engine_step.call] engine_reachable.start)

lemma sample_will_issue: "will_issue sample_scope sample_gens tick sample_engine"
proof -
  have c: "classify_subject sample_scope sample_gens 1 sample_engine = classify sample_request"
    by (simp add: classify_subject_def sample_engine_state sample_ledger_evidence sample_request_def)
  have a: "evaluation_args sample_scope sample_gens 1 sample_engine = sample_args"
    by (simp add: evaluation_args_def c sample_args_def sample_engine_state sample_engine_config_def)
  have "evaluation_intent sample_scope sample_gens 1 sample_engine = minted default_policy 1 sample_args"
    by (simp add: evaluation_intent_def a sample_engine_state registry_new_def stats_new_def)
  moreover have "evaluable sample_scope sample_gens sample_engine"
    using sample_request_ok by (simp add: request_ok_def sample_request_def sample_engine_state)
  ultimately show ?thesis
    using sample_diagnosis sample_args_issuable sample_engine_state has_room_mono [of 9 _ 2]
    by (simp add: will_issue_def issuable_def tick_def c a registry_new_def registry_find_def omap_find_def open_for_def
        default_policy_def)
qed


end
