(* ===== verification/BHG_Engine_Safety.thy ===== *)
theory BHG_Engine_Safety
  imports BHG_Engine_Progress
begin

text \<open>
  What the coordinator guarantees: its invariant in every reachable state, and the safety of the
  authority it grants and withdraws, with calls interleaved and the disk failing at will.
\<close>

lemma will_issue_open:
  assumes "engine_ok 0 e" "will_issue scope gens clk e"
  shows "\<exists>d e'. evaluate scope gens clk e = ((O_Ok, d), e') \<and> av_stage (d_authority d) = S_Intent \<and>
    d_intent d = evaluation_intent scope gens (clk 1) e \<and>
    registry_find (en_fences e') (fi_id (d_intent d)) = Some (record_new (d_intent d))"
proof -
  have "has_room (Suc (Suc 0)) (en_store e)" using assms(2) by (simp add: will_issue_def numeral_2_eq_2)
  from evaluate_will_issue [OF engine_ok_parts(3) [OF assms(1)] assms(2) this] show ?thesis
    by (auto simp: registry_find_def)
qed

section \<open>Properties\<close>

text \<open>
  C4. In every state the coordinator can reach, with any calls interleaved and any faults of the disk:
  the counters close as documented, the ledger and the registry satisfy their invariants, every
  fence of the registry has a record in the durable state, and a closed engine holds no fence and no
  evidence.
\<close>
theorem engine_invariant:
  assumes "engine_reachable config d (e, fl)" "validate_policy (ec_policy config) = O_Ok"
  shows "es_accounting_closed (en_stats e) \<and> ledger_inv (en_ledger e) \<and> registry_wf (en_fences e) \<and>
    (\<forall>k r. registry_find (en_fences e) k = Some r \<longrightarrow>
       (\<exists>f \<in> set (ds_fences (so_state (en_store e))). fi_id (fp_intent f) = k)) \<and>
    (\<not> en_opened e \<longrightarrow> registry_all (en_fences e) = [] \<and> lg_scopes (en_ledger e) = [])"
  using reachable_ok [OF assms]
  by (auto simp: engine_ok_def accounts_closed fences_recorded_def recorded_ids_def registry_all_def)

theorem engine_invariant_witness: "es_accounting_closed (en_stats sample_engine) \<and> registry_wf (en_fences sample_engine)"
  using engine_invariant [OF sample_engine_reachable] default_policy_valid by (simp add: sample_engine_config_def)

subsection \<open>No fence without evidence\<close>

lemma restore_keys:
  assumes "restore scope gens clk e = ((oc, d), e')"
  shows "registry_find (en_fences e') k = None \<longleftrightarrow> registry_find (en_fences e) k = None"
proof (cases "evaluable scope gens e")
  case True
  from restore_run [OF True assms] obtain stg d1 e1 rst where
    r: "apply_restoration rst (classify_subject scope gens (clk 1) e) (clk 1)
       (draft_restoration scope gens (clk 1) (classify_subject scope gens (clk 1) e) rst (evaluation_start gens clk e))
       (evaluation_start gens clk e) = ((stg, d1), e1)"
    and s: "settle_restoration stg d1 e1 = (d, e')" by metis
  have "en_fences e' = en_fences e1"
    using s by (auto simp: settle_restoration_def Let_def dest: engine_commit_keeps(2) split: prod.splits if_splits)
  moreover have "registry_find (en_fences e1) k = None \<longleftrightarrow> registry_find (en_fences e) k = None"
    using r by (auto simp: apply_restoration_def withdraw_fence_def Let_def registry_find_revalidate
        split: if_splits option.splits prod.splits)
  ultimately show ?thesis by simp
next
  case False
  then show ?thesis using assms by (auto simp: restore_def Let_def split: if_splits)
qed

lemma run_call_keys:
  assumes "registry_find (en_fences (run_call c clk e)) k \<noteq> None" "registry_find (en_fences e) k = None"
  shows "\<exists>scope gens. c = Call_Evaluate scope gens"
proof (cases c)
  case (Call_Open boot incarnation)
  then show ?thesis using assms
    by (auto simp: engine_open_def Let_def registry_clear_def registry_find_def omap_find_def split: prod.splits if_splits)
next
  case Call_Close
  then show ?thesis using assms
    by (auto simp: engine_close_def registry_clear_def registry_find_def omap_find_def split: prod.splits if_splits)
next
  case (Call_Submit ev)
  then show ?thesis using assms by (auto simp: submit_def Let_def split: prod.splits if_splits)
next
  case (Call_Acknowledge i downstream)
  then show ?thesis using assms registry_keys_report(1) [of i downstream "clk 0" "en_fences e" k]
    by (cases "acknowledge i downstream (clk 0) (en_fences e)")
      (auto simp: acknowledge_fence_def Let_def split: option.splits if_splits)
next
  case (Call_Effect i downstream v)
  then show ?thesis using assms registry_keys_report(2) [of i downstream v "clk 0" "en_fences e" k]
    by (cases "report_effect i downstream v (clk 0) (en_fences e)")
      (auto simp: engine_report_effect_def Let_def split: option.splits if_splits)
next
  case (Call_Restore scope gens)
  then show ?thesis using assms restore_keys [of scope gens clk e _ _ _ k] by (cases "restore scope gens clk e") auto
next
  case Call_Checkpoint
  then show ?thesis using assms by (auto simp: engine_checkpoint_def split: prod.splits if_splits)
qed simp

lemma localize_finish_fences: "en_fences (snd (localize_finish found d e)) = en_fences e"
proof -
  have "en_fences (snd (engine_commit_decision d' e')) = en_fences e'" for d' e'
    using engine_commit_keeps(2) [of d' e'] by (cases "engine_commit_decision d' e'") simp
  then show ?thesis by (auto simp: localize_finish_def Let_def split: prod.splits)
qed

lemma new_fence_evaluated:
  assumes "engine_step (e, fl) (e', fl')" "registry_find (en_fences e') k \<noteq> None" "registry_find (en_fences e) k = None"
  obtains scope gens clk oc d where "evaluate scope gens clk e = ((oc, d), e')"
  using assms(1)
proof (rule engine_stepE)
  fix c clk
  assume c: "e' = run_call c clk e"
  then obtain scope gens where "c = Call_Evaluate scope gens" using run_call_keys [of c clk e k] assms(2,3) by blast
  with c that show ?thesis by (cases "evaluate scope gens clk e") auto
next
  fix scope gens clk oc d hops probes
  assume "evaluate scope gens clk e = ((oc, d), e')"
  with that show ?thesis by blast
next
  fix d hops probes
  assume "e' = snd (localize_finish (localize_search hops probes (en_policy e)) d e)"
  with assms(2,3) show ?thesis by (simp add: localize_finish_fences)
qed


subsection \<open>What a call keeps\<close>

lemma evaluate_extends:
  assumes "evaluate scope gens clk e = ((oc, d), e')"
  shows "engine_extends e e'"
proof (cases "evaluable scope gens e")
  case True
  let ?diag = "classify_subject scope gens (clk 1) e" and ?e = "evaluation_start gens clk e"
  let ?d = "draft_decision scope gens (clk 1) ?diag ?e"
  from evaluate_run [OF True assms] obtain d1 e1 where
    r: "(if diagnosis_stage ?diag = S_Authorization then issue_intent ?diag ?d ?e else (?d, ?e)) = (d1, e1)"
    and s: "settle_decision d1 clk e1 = (d, e')" by metis
  have "engine_extends ?e e1" using r issue_intent_keeps(1) by (auto split: if_splits)
  then show ?thesis
    using engine_extends_trans [OF evaluation_start_keeps(1) engine_extends_trans] settle_decision_keeps(1) [OF s] by blast
next
  case False
  then show ?thesis using assms by (auto simp: evaluate_def Let_def split: if_splits)
qed

lemma settle_restoration_keeps:
  assumes "settle_restoration stg d e = (d', e')"
  shows "engine_extends e e'" "en_fences e' = en_fences e"
proof -
  have "engine_extends e e1 \<and> engine_extends e (refusal_fail_closed e1) \<and> en_fences e1 = en_fences e"
    if "engine_commit_decision d1 e = (oc, e1)" for d1 oc e1
    using engine_commit_keeps(1,2) [OF that] engine_extends_trans [OF _ counting(4)] by blast
  then show "engine_extends e e'" "en_fences e' = en_fences e"
    using assms by (auto simp: settle_restoration_def Let_def split: prod.splits if_splits)
qed

lemma apply_restoration_extends:
  assumes "apply_restoration rst diag now d e = ((s, d'), e')"
  shows "engine_extends e e'"
proof -
  have "engine_extends e e1" if w: "withdraw_fence fence now d e = ((s, d'), e1)" for fence e e1
  proof (cases fence)
    case None
    then show ?thesis using w by (simp add: withdraw_fence_def)
  next
    case (Some r)
    then show ?thesis
      using w commit_fence_state_keeps(1) engine_extends_store
      by (fastforce simp: withdraw_fence_def Let_def engine_extends_def refusal_fail_closed_def durable_failure_def
          split: prod.splits if_splits)
  qed
  from this [of _ "e\<lparr>en_stats := x\<rparr>" for x] assms show ?thesis
    by (auto simp: apply_restoration_def split: if_splits)
qed

lemma restore_extends:
  assumes "restore scope gens clk e = ((oc, d), e')"
  shows "engine_extends e e'"
proof (cases "evaluable scope gens e")
  case True
  from restore_run [OF True assms] show ?thesis
    using engine_extends_trans [OF evaluation_start_keeps(1) engine_extends_trans]
      apply_restoration_extends settle_restoration_keeps(1) by metis
next
  case False
  then show ?thesis
    using assms engine_extends_trans [OF counting(4) counting(7), of e] by (auto simp: restore_def Let_def split: if_splits)
qed

lemma localize_finish_extends: "engine_extends e (snd (localize_finish found d e))"
proof -
  have "engine_extends e' (snd (engine_commit_decision d' e'))" for d' e'
    using engine_commit_keeps(1) [of d' e'] by (cases "engine_commit_decision d' e'") simp
  from this [of "e\<lparr>en_stats := x\<rparr>" for x] show ?thesis
    by (auto simp: localize_finish_def Let_def split: prod.splits)
qed

lemma record_fence_config [simp]: "en_config (record_fence ty r e) = en_config e"
  using record_fence_keeps(1) [of e ty r] by (simp add: engine_extends_def)

lemma run_call_config: "en_config (run_call c clk e) = en_config e"
proof (cases c)
  case (Call_Evaluate scope gens)
  obtain oc d e' where ev: "evaluate scope gens clk e = ((oc, d), e')" by (metis prod.exhaust)
  then show ?thesis using evaluate_extends [OF ev] Call_Evaluate by (simp add: engine_extends_def)
next
  case (Call_Restore scope gens)
  obtain oc d e' where r: "restore scope gens clk e = ((oc, d), e')" by (metis prod.exhaust)
  then show ?thesis using restore_extends [OF r] Call_Restore by (simp add: engine_extends_def)
qed (auto simp: engine_open_def engine_close_def submit_def acknowledge_fence_def engine_report_effect_def
    engine_checkpoint_def Let_def split: prod.splits option.splits)

lemma evidence_bound:
  assumes "engine_ok n e"
  shows "length (evidence_for (en_ledger e) scope) < 2 ^ 32"
proof (cases "omap_find (lg_scopes (en_ledger e)) scope")
  case None
  then show ?thesis by (simp add: evidence_for_def)
next
  case (Some st)
  then have "length (ss_items st) \<le> unat (pol_max_evidence_per_scope (lg_policy (en_ledger e)))"
    using engine_ok_parts(2) [OF assms] by (auto simp: ledger_inv_def ledger_wf_def scope_inv_def)
  also have "\<dots> < 2 ^ 32" using unsigned_less [of "pol_max_evidence_per_scope (lg_policy (en_ledger e))", where 'a = nat] by simp
  finally show ?thesis using Some by (simp add: evidence_for_def)
qed

text \<open>A fence that an evaluation adds: its intent, its record, and the diagnosis behind it.\<close>

lemma evaluate_new_fence:
  assumes "evaluate scope gens clk e = ((oc, d), e')"
    and "registry_find (en_fences e') k = Some r" "registry_find (en_fences e) k = None"
  shows "evaluable scope gens e" "di_corroborated (classify_subject scope gens (clk 1) e)"
    "di_classification (classify_subject scope gens (clk 1) e) = C_Blackhole"
    "fi_scope (rc_intent r) = scope" "fi_gens (rc_intent r) = gens"
    "\<exists>f \<in> set (ds_fences (so_state (en_store e'))). fp_intent f = rc_intent r"
proof -
  have ev: "evaluable scope gens e"
    using assms by (auto simp: evaluate_def Let_def split: if_splits)
  let ?diag = "classify_subject scope gens (clk 1) e" and ?e = "evaluation_start gens clk e"
  let ?d = "draft_decision scope gens (clk 1) ?diag ?e"
  from evaluate_run [OF ev assms(1)] obtain d1 e1 where
    r: "(if diagnosis_stage ?diag = S_Authorization then issue_intent ?diag ?d ?e else (?d, ?e)) = (d1, e1)"
    and s: "settle_decision d1 clk e1 = (d, e')" by metis
  note k = settle_decision_keeps [OF s]
  have start: "registry_find (en_fences ?e) k = None" using assms(3) by (simp add: registry_find_revalidate)
  have e1: "registry_find (en_fences e1) k \<noteq> None" using assms(2) k(4) [of k] by auto
  have auth: "diagnosis_stage ?diag = S_Authorization" using r start e1 by (auto split: if_splits)
  then have i: "issue_intent ?diag ?d ?e = (d1, e1)" using r by simp
  have "fi_scope (rc_intent r) = scope \<and> fi_gens (rc_intent r) = gens \<and>
      (\<exists>f \<in> set (ds_fences (so_state (en_store e'))). fp_intent f = rc_intent r)"
    using i
  proof (cases rule: issue_intent_cases)
    case (issued intent rs)
    then have new: "registry_find (en_fences e1) k = Some (record_new intent)" "k = fi_id intent"
      using start e1 by (auto simp: registry_find_def split: if_splits)
    from s consider "en_fences e' = en_fences e1"
      | k' reason t where "en_fences e' = snd (revoke k' reason t (en_fences e1))"
      using engine_commit_keeps(2) by (auto simp: settle_decision_def Let_def split: prod.splits if_splits)
    then have "rc_intent r = intent"
    proof cases
      case 1
      then show ?thesis using new assms(2) by (auto simp: record_new_def)
    next
      case (2 k' reason t)
      from revoke_record [of "en_fences e1" k "record_new intent" k' reason t] new assms(2) 2
      show ?thesis by (auto simp: registry_find_def record_evolves_def record_new_def split: if_splits)
    qed
    then show ?thesis using issued k(5) by (auto simp: fence_payload_def record_new_def intro!: bexI)
  qed (use start e1 in \<open>auto simp: registry_find_def\<close>)
  with ev auth show "evaluable scope gens e" "di_corroborated ?diag" "di_classification ?diag = C_Blackhole"
    "fi_scope (rc_intent r) = scope" "fi_gens (rc_intent r) = gens"
    "\<exists>f \<in> set (ds_fences (so_state (en_store e'))). fp_intent f = rc_intent r"
    by (simp_all add: diagnosis_stage_authorization)
qed

text \<open>What a corroborated blackhole diagnosis of the engine rests on.\<close>

lemma corroborated_evidence:
  assumes "engine_ok 0 e" "evaluable scope gens e" "validate_policy (en_policy e) = O_Ok"
    and "di_corroborated (classify_subject scope gens now e)"
  shows "\<exists>o1 \<in> set (evidence_for (en_ledger e) scope). \<exists>o2 \<in> set (evidence_for (en_ledger e) scope).
      usable_failure (en_policy e) gens now o1 \<and> usable_failure (en_policy e) gens now o2 \<and>
      sr_incarnation (ev_source o1) \<noteq> sr_incarnation (ev_source o2)"
    "\<forall>obs \<in> set (evidence_for (en_ledger e) scope). \<not> usable_success (en_policy e) gens now obs"
proof -
  let ?req = "\<lparr>rq_scope = scope, rq_current = gens, rq_now = now, rq_policy = Some (en_policy e),
    rq_evidence = evidence_for (en_ledger e) scope\<rparr>"
  have ok: "request_ok ?req (en_policy e)" using assms(2) by (simp add: request_ok_def)
  have len: "length (rq_evidence ?req) < 2 ^ 32" using evidence_bound [OF assms(1)] by simp
  show "\<exists>o1 \<in> set (evidence_for (en_ledger e) scope). \<exists>o2 \<in> set (evidence_for (en_ledger e) scope).
      usable_failure (en_policy e) gens now o1 \<and> usable_failure (en_policy e) gens now o2 \<and>
      sr_incarnation (ev_source o1) \<noteq> sr_incarnation (ev_source o2)"
    using two_failing_incarnations [OF ok len assms(3)] assms(4) by (simp add: classify_subject_def)
  have "di_classification (classify ?req) = C_Blackhole"
    using assms(4) classify_corroborated [OF ok len] by (simp add: classify_subject_def)
  then show "\<forall>obs \<in> set (evidence_for (en_ledger e) scope). \<not> usable_success (en_policy e) gens now obs"
    using classify_rules [OF ok len] by (auto simp: coded_rules_def list_ex_iff Let_def split: if_splits)
qed

lemma reachable_config:
  assumes "engine_reachable config d s"
  shows "en_config (fst s) = config"
  using assms
proof (induction rule: engine_reachable.induct)
  case (step s s')
  from step.hyps(2) have "en_config (fst s') = en_config (fst s)"
  proof (induction rule: engine_step.induct)
    case (call e fl c clk)
    then show ?case by (simp add: run_call_config)
  next
    case (localize_begin scope gens clk e oc d e' fl hops probes)
    then show ?case using run_call_config [of "Call_Evaluate scope gens" clk e] by simp
  next
    case (localize_end e d hops probes fl)
    then show ?case using localize_finish_extends [of e] by (simp add: engine_extends_def)
  qed
  with step.IH show ?case by simp
qed (simp add: engine_new_def)

text \<open>
  C1. No fence without evidence. Whenever a step of the interleaved coordinator brings a fence into the
  registry, the retained evidence for the subject of the fence held two usable complete failures
  from sources with different incarnations and no usable success, under the generations of the
  fence, and the intent is on record in the durable state.
\<close>
theorem fence_needs_evidence:
  assumes "engine_reachable config d (e, fl)" "validate_policy (ec_policy config) = O_Ok"
    and "engine_step (e, fl) (e', fl')"
    and "registry_find (en_fences e') k = Some r" "registry_find (en_fences e) k = None"
  shows "\<exists>now. (\<exists>o1 \<in> set (evidence_for (en_ledger e) (fi_scope (rc_intent r))).
      \<exists>o2 \<in> set (evidence_for (en_ledger e) (fi_scope (rc_intent r))).
        usable_failure (ec_policy config) (fi_gens (rc_intent r)) now o1 \<and>
        usable_failure (ec_policy config) (fi_gens (rc_intent r)) now o2 \<and>
        sr_incarnation (ev_source o1) \<noteq> sr_incarnation (ev_source o2)) \<and>
    (\<forall>obs \<in> set (evidence_for (en_ledger e) (fi_scope (rc_intent r))).
       \<not> usable_success (ec_policy config) (fi_gens (rc_intent r)) now obs) \<and>
    (\<exists>f \<in> set (ds_fences (so_state (en_store e'))). fp_intent f = rc_intent r)"
proof -
  have ok: "engine_ok 0 e" using reachable_ok [OF assms(1,2)] by simp
  have policy: "en_policy e = ec_policy config"
    using engine_ok_parts(5) [OF ok] reachable_config [OF assms(1)] by simp
  from new_fence_evaluated [OF assms(3)] assms(4,5) obtain scope gens clk oc dec
    where ev: "evaluate scope gens clk e = ((oc, dec), e')" by (metis option.distinct(1))
  note f = evaluate_new_fence [OF ev assms(4,5)]
  show ?thesis
    using corroborated_evidence [OF ok f(1) _ f(2)] assms(2) f(4-6) policy by auto
qed


theorem fence_needs_evidence_witness:
  "\<exists>now. \<exists>o1 \<in> {sample_evidence, second_evidence}. \<exists>o2 \<in> {sample_evidence, second_evidence}.
    usable_failure default_policy sample_gens now o1 \<and> usable_failure default_policy sample_gens now o2 \<and>
    sr_incarnation (ev_source o1) \<noteq> sr_incarnation (ev_source o2)"
proof -
  have p: "validate_policy (ec_policy sample_engine_config) = O_Ok" "ec_policy sample_engine_config = default_policy"
    using default_policy_valid by (simp_all add: sample_engine_config_def)
  have "engine_ok 0 sample_engine" using reachable_ok [OF sample_engine_reachable p(1)] by simp
  from will_issue_open [OF this sample_will_issue] obtain d e' where
    e': "evaluate sample_scope sample_gens tick sample_engine = ((O_Ok, d), e')"
    "d_intent d = evaluation_intent sample_scope sample_gens (tick 1) sample_engine"
    "registry_find (en_fences e') (fi_id (d_intent d)) = Some (record_new (d_intent d))" by blast
  have "engine_step (sample_engine, {#}) (e', {#})"
    using engine_step.call [of sample_engine "{#}" "Call_Evaluate sample_scope sample_gens" tick] e'(1) by simp
  moreover have "registry_find (en_fences sample_engine) k = None" for k
    by (simp add: sample_engine_state registry_find_def registry_new_def omap_find_def)
  ultimately show ?thesis
    using fence_needs_evidence [OF sample_engine_reachable p(1) _ e'(3), of "{#}"] e'(2) p(2)
    by (auto simp: record_new_def evaluation_intent_subject sample_engine_state sample_ledger_evidence)
qed

subsection \<open>Authority is on record\<close>

lemma registry_open_for:
  assumes "registry_wf g" "open_for g scope = Some r"
  shows "registry_find g (fi_id (rc_intent r)) = Some r" "rc_is_open r" "fi_scope (rc_intent r) = scope"
proof -
  have r: "r \<in> set (map snd (fr_records g))" "rc_is_open r \<and> fi_scope (rc_intent r) = scope"
    using assms(2) unfolding open_for_def find_Some_iff by (metis nth_mem)+
  then obtain k where k: "(k, r) \<in> set (fr_records g)" "rc_is_open r" "fi_scope (rc_intent r) = scope" by auto
  have "omap_find (fr_records g) k = Some r" using assms(1) k(1) by (simp add: registry_wf_def omap_find_iff)
  with assms(1) k show "registry_find g (fi_id (rc_intent r)) = Some r" "rc_is_open r" "fi_scope (rc_intent r) = scope"
    by (auto simp: registry_wf_def registry_find_def)
qed

lemma commit_decision_lineage:
  assumes "commit_decision d st = (O_Ok, st')"
  shows "last (ds_lineage (so_state st')) = decision_entry RT_DecisionCommit (so_last_seq st') d"
  using assms
  by (auto simp: commit_decision_def append_commit_def push_lineage_def is_affirmative_def Let_def
      split: prod.splits if_splits)

lemma settle_decision_stage:
  assumes "settle_decision d clk e = (d', e')" "av_stage (d_authority d') = S_Intent"
    and "\<not> d_has_intent d \<Longrightarrow> av_stage (d_authority d) \<noteq> S_Intent"
  shows "d_has_intent d'"
  using assms by (cases "d_has_intent d") (auto simp: settle_decision_def Let_def split: prod.splits if_splits)

text \<open>
  C2. Authority is on record. When an evaluation returns a decision at the intent stage, the subject was
  diagnosed as a corroborated blackhole, the intent names this subject and these generations, the
  registry holds it open, the durable state has a record of the fence, and the decision itself is
  the newest entry of the durable lineage.
\<close>
theorem authority_on_record:
  assumes "engine_reachable config disk (e, fl)" "validate_policy (ec_policy config) = O_Ok"
    and "evaluate scope gens clk e = ((oc, d), e')" "av_stage (d_authority d) = S_Intent"
  shows "di_classification (classify_subject scope gens (clk 1) e) = C_Blackhole \<and>
    di_corroborated (classify_subject scope gens (clk 1) e) \<and>
    fi_scope (d_intent d) = scope \<and> fi_gens (d_intent d) = gens \<and>
    (\<exists>r. registry_find (en_fences e') (fi_id (d_intent d)) = Some r \<and> rc_is_open r \<and> rc_intent r = d_intent d) \<and>
    (\<exists>f \<in> set (ds_fences (so_state (en_store e'))). fi_id (fp_intent f) = fi_id (d_intent d)) \<and>
    last (ds_lineage (so_state (en_store e'))) = decision_entry RT_DecisionCommit (so_last_seq (en_store e')) d"
proof -
  have ok: "engine_ok 0 e" using reachable_ok [OF assms(1,2)] by simp
  have ev: "evaluable scope gens e"
    using assms(3,4) by (auto simp: evaluate_def make_refusal_def push_reason_def Let_def split: if_splits)
  let ?diag = "classify_subject scope gens (clk 1) e" and ?e = "evaluation_start gens clk e"
  let ?d = "draft_decision scope gens (clk 1) ?diag ?e"
  from evaluate_run [OF ev assms(3)] obtain d1 e1 where
    r: "(if diagnosis_stage ?diag = S_Authorization then issue_intent ?diag ?d ?e else (?d, ?e)) = (d1, e1)"
    and s: "settle_decision d1 clk e1 = (d, e')" by metis
  have none: "diagnosis_stage ?diag \<noteq> S_Intent" by (simp add: diagnosis_stage_def Let_def)
  have auth: "diagnosis_stage ?diag = S_Authorization"
    using r settle_decision_keeps(10) [OF s] assms(4) none by (auto split: if_splits)
  then have i: "issue_intent ?diag ?d ?e = (d1, e1)" using r by simp
  have wf: "registry_wf (en_fences ?e)" using evaluation_opened(1) [OF ok] ev engine_ok_parts(3) by blast
  have "(d_has_intent d1 \<or> av_stage (d_authority d1) \<noteq> S_Intent) \<and> (d_has_intent d1 \<longrightarrow>
      (\<exists>r. registry_find (en_fences e1) (fi_id (d_intent d1)) = Some r \<and> rc_is_open r \<and> rc_intent r = d_intent d1) \<and>
      fi_scope (d_intent d1) = scope \<and> fi_gens (d_intent d1) = gens)"
    using i
  proof (cases rule: issue_intent_cases)
    case (issued intent rs)
    then show ?thesis by (auto simp: registry_find_def record_new_def rc_is_open_def)
  next
    case (existing r)
    note o = registry_open_for [OF wf existing(1)]
    obtain r0 where "registry_find (en_fences e) (fi_id (rc_intent r)) = Some r0" "r = revalidated (clk 0) gens r0"
      using o(1) by (auto simp: registry_find_revalidate)
    then have "fi_gens (rc_intent r) = gens"
      using o(2) by (auto simp: revalidated_open revalidated_intent lapsed_def)
    with o existing show ?thesis by (auto simp: registry_find_def)
  next
    case (refused rs)
    then show ?thesis using none by simp
  qed
  then have d1: "d_has_intent d" "fi_scope (d_intent d1) = scope" "fi_gens (d_intent d1) = gens"
    "\<exists>r. registry_find (en_fences e1) (fi_id (d_intent d1)) = Some r \<and> rc_is_open r \<and> rc_intent r = d_intent d1"
    using settle_decision_stage [OF s assms(4)] settle_decision_intent(1) [OF s] by blast+
  note f = settle_decision_intent [OF s d1(1)]
  have "fences_recorded e'" using engine_ok_parts(4) [OF evaluate_ok [OF ok assms(3)]] .
  then have "fi_id (d_intent d) \<in> recorded_ids (en_store e')"
    using d1(4) f(2,3) by (auto simp: fences_recorded_def)
  then show ?thesis
    using auth d1 f commit_decision_lineage [OF f(5)]
    by (auto simp: diagnosis_stage_authorization recorded_ids_def)
qed

theorem authority_on_record_witness:
  "\<exists>d e'. evaluate sample_scope sample_gens tick sample_engine = ((O_Ok, d), e') \<and> av_stage (d_authority d) = S_Intent \<and>
    last (ds_lineage (so_state (en_store e'))) = decision_entry RT_DecisionCommit (so_last_seq (en_store e')) d"
proof -
  have p: "validate_policy (ec_policy sample_engine_config) = O_Ok"
    using default_policy_valid by (simp add: sample_engine_config_def)
  have "engine_ok 0 sample_engine" using reachable_ok [OF sample_engine_reachable p] by simp
  from will_issue_open [OF this sample_will_issue] show ?thesis
    using authority_on_record [OF sample_engine_reachable p] by blast
qed

text \<open>
  C5. A fence is issued when it is due. In a reachable state of a coordinator with a validated policy
  that is open, for a valid subject under a complete generation vector, an evaluation that diagnoses a
  corroborated blackhole ends with \<open>Ok\<close> at the intent stage, and the registry holds the new fence of the
  subject open, under these conditions (\<open>will_issue\<close>): no open fence of the registry, of any subject,
  lapses at the time of the evaluation or was minted under another generation vector; the subject has
  no open fence; the registry has a free slot; the lifetime added to the time does not overflow; the
  boot and the incarnation of the store are set; the intent derived by hashing is valid and its id is
  unused; and the store is ready on a disk without faults, with room in the journal, in the sequence
  numbers and in the table of fences for two further records.
\<close>
theorem evaluation_issues_fence:
  assumes "engine_reachable config disk (e, fl)" "validate_policy (ec_policy config) = O_Ok"
    and "will_issue scope gens clk e"
  shows "\<exists>d e' r. evaluate scope gens clk e = ((O_Ok, d), e') \<and> av_stage (d_authority d) = S_Intent \<and>
    registry_find (en_fences e') (fi_id (d_intent d)) = Some r \<and> rc_is_open r \<and> rc_intent r = d_intent d \<and>
    fi_scope (d_intent d) = scope \<and> fi_gens (d_intent d) = gens"
proof -
  have "engine_ok 0 e" using reachable_ok [OF assms(1,2)] by simp
  from will_issue_open [OF this assms(3)] show ?thesis
    by (fastforce simp: record_new_def rc_is_open_def evaluation_intent_subject)
qed

theorem evaluation_issues_fence_witness:
  "\<exists>d e'. evaluate sample_scope sample_gens tick sample_engine = ((O_Ok, d), e') \<and> av_stage (d_authority d) = S_Intent"
  using evaluation_issues_fence [OF sample_engine_reachable _ sample_will_issue] default_policy_valid
  by (auto simp: sample_engine_config_def)

subsection \<open>Withdrawal\<close>

lemma apply_restoration_cases:
  assumes "apply_restoration rst diag now d e = ((s, d'), e')"
  obtains (kept) "en_fences e' = en_fences e"
  | (withdrawn) r f where "rs_authorized rst" "open_for (en_fences e) (d_scope d) = Some r"
      "en_fences e' = snd (revoke (fi_id (rc_intent r)) R_FenceIntentRevoked now (en_fences e))"
      "f \<in> set (ds_fences (so_state (en_store e')))" "fp_intent f = rc_intent r"
      "fp_lifecycle f = fence_lifecycle_code L_Revoked"
proof (cases "rs_authorized rst \<and> open_for (en_fences e) (d_scope d) \<noteq> None")
  case True
  then obtain r where r: "rs_authorized rst" "open_for (en_fences e) (d_scope d) = Some r" by blast
  let ?p = "(fence_payload r)\<lparr>fp_lifecycle := fence_lifecycle_code L_Revoked, fp_effected_at := now,
    fp_terminal_reason := R_FenceIntentRevoked\<rparr>"
  obtain co st where c: "commit_fence_state RT_FenceRevokeCommit ?p (en_store e) = (co, st)" by (metis prod.exhaust)
  show ?thesis
  proof (cases "co = O_Ok")
    case True
    with assms r c show ?thesis
      using withdrawn [OF r, of ?p] commit_fence_state_keeps(2) [OF c]
      by (auto simp: apply_restoration_def withdraw_fence_def is_affirmative_def fence_payload_def Let_def)
  next
    case False
    with assms r c show ?thesis
      using kept by (auto simp: apply_restoration_def withdraw_fence_def is_affirmative_def Let_def)
  qed
next
  case False
  then have "en_fences e' = en_fences e"
    using assms by (auto simp: apply_restoration_def withdraw_fence_def split: if_splits)
  then show ?thesis by (rule kept)
qed

lemma settle_restoration_fences:
  assumes "settle_restoration stg d e = (d', e')"
  shows "ds_fences (so_state (en_store e')) = ds_fences (so_state (en_store e))"
proof -
  have "ds_fences (so_state (en_store e1)) = ds_fences (so_state (en_store e))"
    if "engine_commit_decision d1 e = (oc, e1)" for d1 oc e1
    using that by (auto simp: engine_commit_decision_def Let_def dest: commit_decision_keeps(1) split: if_splits prod.splits)
  then show ?thesis
    using assms by (auto simp: settle_restoration_def refusal_fail_closed_def Let_def split: prod.splits if_splits)
qed

lemma revoke_other:
  "k \<noteq> k' \<Longrightarrow> registry_find (snd (revoke k' reason t g)) k = registry_find g k"
  by (auto simp: registry_find_def revoke_def unknown_id_def split: option.splits)

text \<open>
  C3. A restoration withdraws a fence only on fresh evidence. When a restoration closes an open fence
  that had neither expired nor been minted under other generations, the fence is one of the
  subject, the retained evidence shows usable successes from at least the number of sources the
  policy demands and no usable failure, and the durable state records the fence as revoked.
\<close>
theorem restore_needs_evidence:
  assumes "engine_reachable config disk (e, fl)" "validate_policy (ec_policy config) = O_Ok"
    and "restore scope gens clk e = ((oc, d), e')"
    and "registry_find (en_fences e) k = Some r" "rc_is_open r" "\<not> lapsed (clk 0) gens r"
    and "registry_find (en_fences e') k = Some r'" "\<not> rc_is_open r'"
  shows "fi_scope (rc_intent r) = scope \<and>
    unat (pol_restore_min_sources (ec_policy config)) \<le> card (ev_source `
      {obs \<in> set (evidence_for (en_ledger e) scope). usable_success (ec_policy config) gens (clk 1) obs}) \<and>
    (\<forall>obs \<in> set (evidence_for (en_ledger e) scope). \<not> usable_failure (ec_policy config) gens (clk 1) obs) \<and>
    (\<exists>f \<in> set (ds_fences (so_state (en_store e'))).
       fp_intent f = rc_intent r \<and> fp_lifecycle f = fence_lifecycle_code L_Revoked)"
proof -
  have ok: "engine_ok 0 e" using reachable_ok [OF assms(1,2)] by simp
  have policy: "en_policy e = ec_policy config"
    using engine_ok_parts(5) [OF ok] reachable_config [OF assms(1)] by simp
  have ev: "evaluable scope gens e"
    using assms(3,4,5,7,8) by (auto simp: restore_def Let_def split: if_splits)
  let ?diag = "classify_subject scope gens (clk 1) e" and ?e = "evaluation_start gens clk e"
  from restore_run [OF ev assms(3)] obtain stg d1 e1 rst where
    rst: "rst = evaluate_restoration ?diag (en_policy e) (open_for (en_fences ?e) scope) (clk 1)"
    and a: "apply_restoration rst ?diag (clk 1) (draft_restoration scope gens (clk 1) ?diag rst ?e) ?e = ((stg, d1), e1)"
    and s: "settle_restoration stg d1 e1 = (d, e')" by metis
  have start: "registry_find (en_fences ?e) k = Some r"
    using assms(4,6) by (simp add: registry_find_revalidate revalidated_def)
  have e1: "registry_find (en_fences e1) k = Some r'" using settle_restoration_keeps(2) [OF s] assms(7) by simp
  have wf: "registry_wf (en_fences ?e)" using evaluation_opened(1) [OF ok] ev engine_ok_parts(3) by blast
  have sc: "d_scope (draft_restoration scope gens (clk 1) ?diag rst ?e) = scope"
    by (simp add: draft_restoration_def Let_def)
  have len: "length (evidence_for (en_ledger e) scope) < 2 ^ 32" by (rule evidence_bound [OF ok])
  let ?req = "\<lparr>rq_scope = scope, rq_current = gens, rq_now = clk 1, rq_policy = Some (en_policy e),
    rq_evidence = evidence_for (en_ledger e) scope\<rparr>"
  have rq: "request_ok ?req (en_policy e)" using ev by (simp add: request_ok_def)
  from a show ?thesis
  proof (cases rule: apply_restoration_cases)
    case kept
    then show ?thesis using e1 start assms(5,8) by simp
  next
    case (withdrawn r0 f)
    note o = registry_open_for [OF wf withdrawn(2) [unfolded sc]]
    have "k = fi_id (rc_intent r0)"
      using revoke_other [of k "fi_id (rc_intent r0)"] withdrawn(3) e1 start assms(5,8) by (metis option.inject)
    then have r0: "r0 = r" using o(1) start by simp
    have "rs_authorized (evaluate_restoration (classify ?req) (en_policy e) (open_for (en_fences ?e) scope) (clk 1))"
      using withdrawn(1) rst by (simp add: classify_subject_def)
    note fs = fresh_successes [OF rq _ _ this]
    have "usable_failure p g t x \<Longrightarrow> usable p g t x" for p g t x by (simp add: usable_failure_def)
    then show ?thesis
      using fs len assms(2) policy o(3) r0 withdrawn(4-6) settle_restoration_fences [OF s] by auto
  qed
qed


text \<open>The run goes on: the fence is issued, both sources report success in a later window, and the
  restoration withdraws the fence.\<close>

definition recovery_evidence :: "delivery_evidence \<Rightarrow> delivery_evidence" where
  "recovery_evidence e = e\<lparr>ev_kind := K_DeliverySuccess, ev_failures := 0, ev_loss_ppm := 0, ev_seq := 2,
     ev_attempt := 2, ev_observed_at := 2000, ev_fresh := \<lparr>fw_open = 2000, fw_close = 3000\<rparr>\<rparr>"

definition tock :: clock where "tock n = 2000"

definition recovered_ledger :: ledger where
  "recovered_ledger = snd (admit (recovery_evidence second_evidence) 2000
     (snd (admit (recovery_evidence sample_evidence) 2000 sample_ledger)))"

lemma recovered_evidence: "evidence_for recovered_ledger sample_scope =
    [sample_evidence, second_evidence, recovery_evidence sample_evidence, recovery_evidence second_evidence]"
  by code_simp

definition recovered_request :: classify_request where
  "recovered_request = sample_request\<lparr>rq_now := 2000, rq_evidence := [sample_evidence, second_evidence,
     recovery_evidence sample_evidence, recovery_evidence second_evidence]\<rparr>"

lemma recovered_authorized: "rs_authorized (evaluate_restoration (classify recovered_request) default_policy None 2000)"
  by code_simp

lemma authorized_any_fence:
  "rs_authorized (evaluate_restoration diag policy f now) = rs_authorized (evaluate_restoration diag policy None now)"
  by (simp add: evaluate_restoration_def Let_def split: outcome.splits)

definition fenced_engine :: engine where
  "fenced_engine = run_call (Call_Submit (recovery_evidence second_evidence)) tock
     (run_call (Call_Submit (recovery_evidence sample_evidence)) tock
       (run_call (Call_Evaluate sample_scope sample_gens) tick sample_engine))"

lemma fenced_engine_reachable: "engine_reachable sample_engine_config empty_disk (fenced_engine, {#})"
  unfolding fenced_engine_def
  by (intro engine_reachable.step [OF _ engine_step.call] sample_engine_reachable)

lemma sample_policy: "validate_policy (ec_policy sample_engine_config) = O_Ok" "ec_policy sample_engine_config = default_policy"
  using default_policy_valid by (simp_all add: sample_engine_config_def)

lemma sample_engine_ok: "engine_ok 0 sample_engine" "engine_ok 0 fenced_engine"
  using reachable_ok [OF sample_engine_reachable sample_policy(1)] reachable_ok [OF fenced_engine_reachable sample_policy(1)]
  by simp_all

definition fenced_intent :: fence_intent where
  "fenced_intent = evaluation_intent sample_scope sample_gens 1 sample_engine"

lemma fenced_engine_state:
  "en_opened fenced_engine" "en_ledger fenced_engine = recovered_ledger" "en_policy fenced_engine = default_policy"
  "fr_records (en_fences fenced_engine) = [(fi_id fenced_intent, record_new fenced_intent)]"
  "has_room 7 (en_store fenced_engine)"
proof -
  have "has_room (Suc (Suc 7)) (en_store sample_engine)" using sample_engine_state(8) by simp
  from evaluate_will_issue [OF engine_ok_parts(3) [OF sample_engine_ok(1)] sample_will_issue this]
  obtain d e' where e': "evaluate sample_scope sample_gens tick sample_engine = ((O_Ok, d), e')"
    "d_intent d = fenced_intent" "fr_records (en_fences e') = [(fi_id fenced_intent, record_new fenced_intent)]"
    "has_room 7 (en_store e')"
    by (auto simp: fenced_intent_def tick_def sample_engine_state registry_new_def)
  note x = evaluate_extends [OF e'(1)]
  show "en_opened fenced_engine" "en_ledger fenced_engine = recovered_ledger" "en_policy fenced_engine = default_policy"
    "fr_records (en_fences fenced_engine) = [(fi_id fenced_intent, record_new fenced_intent)]"
    "has_room 7 (en_store fenced_engine)"
    using e' x sample_engine_state
    by (simp_all add: fenced_engine_def engine_extends_def submit_fields recovered_ledger_def tock_def)
qed

lemma fenced_intent_fields:
  "fi_is_valid fenced_intent" "fi_scope fenced_intent = sample_scope" "fi_gens fenced_intent = sample_gens"
  "sint (fi_expires_at fenced_intent) > 2000"
proof -
  show "fi_is_valid fenced_intent" using sample_will_issue by (simp add: fenced_intent_def will_issue_def issuable_def tick_def)
  show "fi_scope fenced_intent = sample_scope" "fi_gens fenced_intent = sample_gens"
    by (simp_all add: fenced_intent_def evaluation_intent_subject)
  show "sint (fi_expires_at fenced_intent) > 2000"
    by (simp add: fenced_intent_def evaluation_intent_def evaluation_args_def sample_engine_state registry_new_def
        default_policy_def seconds_def kNsPerSecond_def)
qed

lemma fenced_not_lapsed: "\<not> lapsed 2000 sample_gens (record_new fenced_intent)"
  using fenced_intent_fields by (simp add: lapsed_def record_new_def)

lemma fenced_withdrawn:
  assumes "en_store e = en_store fenced_engine"
  shows "\<exists>st. withdraw_fence (Some (record_new fenced_intent)) now d e = ((S_Authorization, d), e\<lparr>en_store := st,
    en_fences := snd (revoke (fi_id fenced_intent) R_FenceIntentRevoked now (en_fences e))\<rparr>)"
proof -
  let ?p = "(fence_payload (record_new fenced_intent))\<lparr>fp_lifecycle := fence_lifecycle_code L_Revoked,
    fp_effected_at := now, fp_terminal_reason := R_FenceIntentRevoked\<rparr>"
  have "fence_state_ok ?p"
    using fenced_intent_fields(1) by (simp add: fence_state_ok_def is_valid_fence_lifecycle_def fence_payload_def)
  moreover have "has_room (Suc 6) (en_store fenced_engine)" using fenced_engine_state(5) by simp
  ultimately obtain st where "commit_fence_state RT_FenceRevokeCommit ?p (en_store fenced_engine) = (O_Ok, st)"
    by (metis has_room_fence)
  then show ?thesis by (intro exI [of _ st]) (simp add: withdraw_fence_def assms is_affirmative_def Let_def)
qed

lemma fenced_engine_restored:
  "\<exists>oc d e' r. restore sample_scope sample_gens tock fenced_engine = ((oc, d), e') \<and>
    registry_find (en_fences e') (fi_id fenced_intent) = Some r \<and> \<not> rc_is_open r"
proof -
  let ?r = "record_new fenced_intent" and ?z = "evaluation_start sample_gens tock fenced_engine"
  have ev: "evaluable sample_scope sample_gens fenced_engine"
    using sample_request_ok by (simp add: request_ok_def sample_request_def fenced_engine_state)
  obtain oc d e' where r: "restore sample_scope sample_gens tock fenced_engine = ((oc, d), e')" by (metis prod.exhaust)
  have idle: "revalidate 2000 sample_gens (en_fences fenced_engine) = ([], en_fences fenced_engine)"
    using revalidate_idle [OF engine_ok_parts(3) [OF sample_engine_ok(2)]] fenced_not_lapsed
    by (simp add: registry_find_def fenced_engine_state omap_find_def)
  then have z: "en_fences ?z = en_fences fenced_engine" "en_store ?z = en_store fenced_engine"
    by (simp_all add: tock_def evaluation_start_def revalidate_fences_locked_def)
  have o: "open_for (en_fences fenced_engine) sample_scope = Some ?r"
    using fenced_intent_fields by (simp add: open_for_def fenced_engine_state record_new_def rc_is_open_def)
  have "classify_subject sample_scope sample_gens (tock 1) fenced_engine = classify recovered_request"
    by (simp add: classify_subject_def fenced_engine_state recovered_evidence tock_def recovered_request_def sample_request_def)
  then have "rs_authorized (evaluate_restoration (classify_subject sample_scope sample_gens (tock 1) fenced_engine)
      (en_policy fenced_engine) (open_for (en_fences ?z) sample_scope) (tock 1))"
    using recovered_authorized unfolding tock_def fenced_engine_state(3) by (metis authorized_any_fence)
  with restore_run [OF ev r] obtain stg d1 e1 rst where
    a: "apply_restoration rst (classify_subject sample_scope sample_gens (tock 1) fenced_engine) (tock 1)
       (draft_restoration sample_scope sample_gens (tock 1) (classify_subject sample_scope sample_gens (tock 1) fenced_engine) rst ?z)
       ?z = ((stg, d1), e1)" "rs_authorized rst" and s: "settle_restoration stg d1 e1 = (d, e')" by metis
  have sc: "d_scope (draft_restoration sample_scope sample_gens t diag rst ?z) = sample_scope" for t diag
    by (simp add: draft_restoration_def Let_def)
  let ?z' = "?z\<lparr>en_stats := (en_stats ?z)\<lparr>es_restorations_authorized := es_restorations_authorized (en_stats ?z) + 1\<rparr>\<rparr>"
  have w: "withdraw_fence (Some ?r) (tock 1) (draft_restoration sample_scope sample_gens (tock 1)
      (classify_subject sample_scope sample_gens (tock 1) fenced_engine) rst ?z) ?z' = ((stg, d1), e1)"
    using a unfolding apply_restoration_def z(1) sc o by simp
  have "en_store ?z' = en_store fenced_engine" "en_fences ?z' = en_fences fenced_engine" using z by simp_all
  then have "en_fences e1 = snd (revoke (fi_id fenced_intent) R_FenceIntentRevoked (tock 1) (en_fences fenced_engine))"
    using fenced_withdrawn [of ?z' "tock 1"] w by (metis (no_types, lifting) Pair_inject engine.select_convs(4) engine.surjective engine.update_convs(4,5))
  then have "registry_find (en_fences e') (fi_id fenced_intent) = Some (?r\<lparr>rc_lifecycle := L_Revoked,
      rc_terminal_reason := R_FenceIntentRevoked, rc_effected_at := tock 1\<rparr>)"
    using settle_restoration_keeps(2) [OF s]
    by (simp add: registry_find_def revoke_def fenced_engine_state omap_find_def record_new_def rc_is_open_def)
  with r show ?thesis by force
qed

theorem restore_needs_evidence_witness:
  "unat (pol_restore_min_sources default_policy) \<le> card (ev_source `
    {obs \<in> set (evidence_for recovered_ledger sample_scope). usable_success default_policy sample_gens 2000 obs})"
proof -
  obtain oc d e' r where r: "restore sample_scope sample_gens tock fenced_engine = ((oc, d), e')"
    "registry_find (en_fences e') (fi_id fenced_intent) = Some r" "\<not> rc_is_open r"
    using fenced_engine_restored by blast
  have "registry_find (en_fences fenced_engine) (fi_id fenced_intent) = Some (record_new fenced_intent)"
    "rc_is_open (record_new fenced_intent)"
    by (simp_all add: registry_find_def fenced_engine_state omap_find_def record_new_def rc_is_open_def)
  from restore_needs_evidence [OF fenced_engine_reachable sample_policy(1) r(1) this _ r(2,3)] show ?thesis
    using fenced_not_lapsed by (simp add: tock_def sample_policy(2) fenced_engine_state)
qed

section \<open>Restarts and revalidation\<close>

text \<open>
  C6. A restart confers no authority. After a successful opening the registry is empty and there is no
  evidence; a first evaluation of any subject finds nothing, issues nothing, and leaves the
  registry empty.
\<close>
theorem restart_confers_no_authority:
  assumes "engine_open boot incarnation clk e = (O_Ok, e1)" "sc_is_valid scope" "gv_is_complete gens"
    and "evaluate scope gens clk' e1 = ((oc, d), e2)"
  shows "registry_all (en_fences e1) = [] \<and> evidence_for (en_ledger e1) scope = [] \<and>
    d_classification d = C_NoEvidence \<and> oc = O_NoEvidence \<and> \<not> d_has_intent d \<and> av_stage (d_authority d) = S_None \<and>
    registry_all (en_fences e2) = []"
proof -
  have e1: "en_opened e1" "fr_records (en_fences e1) = []" "lg_scopes (en_ledger e1) = []"
    using assms(1) by (auto simp: engine_open_def Let_def ledger_reset_def registry_clear_def is_affirmative_def
        split: if_splits prod.splits)
  let ?diag = "classify_subject scope gens (clk' 1) e1"
  have none: "evidence_for (en_ledger e1) scope = []" using e1 by (simp add: evidence_for_def omap_find_def)
  have "di_classification ?diag = C_NoEvidence" "di_outcome ?diag = O_NoEvidence" "ce_total (di_census ?diag) = 0"
    using assms(2,3) by (simp_all add: classify_subject_def none classify_def apply_rules_def take_census_def
        census_start_def census_new_def verdict_def add_reason_def diagnosis_new_def Let_def)
  then have diag: "diagnosis_stage ?diag = S_None" "di_classification ?diag = C_NoEvidence" "di_outcome ?diag = O_NoEvidence"
    by (simp_all add: diagnosis_stage_def)
  have ev: "evaluable scope gens e1" using assms(2,3) e1(1) by simp
  let ?d = "draft_decision scope gens (clk' 1) ?diag (evaluation_start gens clk' e1)"
  have s: "settle_decision ?d clk' (evaluation_start gens clk' e1) = (d, e2)" "oc = d_outcome d"
    using evaluate_run [OF ev assms(4)] diag(1) by (metis Pair_inject authority_stage.distinct(5))+
  have "en_fences e2 = snd (revalidate (clk' 0) gens (en_fences e1))"
    using settle_decision_keeps(10) [OF s(1)] by simp
  then have "registry_all (en_fences e2) = []"
    using e1(2) by (simp add: registry_all_def revalidate_def revalidate_loop_eq)
  then show ?thesis
    using e1 none diag s(2) settle_decision_keeps(6,7,10) [OF s(1)] by (simp add: registry_all_def)
qed

theorem restart_confers_no_authority_witness:
  "\<exists>e1 oc d e2. engine_open 7 8 tick (engine_new sample_engine_config empty_disk) = (O_Ok, e1) \<and>
    evaluate sample_scope sample_gens tock e1 = ((oc, d), e2) \<and> d_classification d = C_NoEvidence"
proof -
  obtain oc e1 where o: "engine_open 7 8 tick (engine_new sample_engine_config empty_disk) = (oc, e1)" by (metis prod.exhaust)
  have "oc = O_Ok"
    using o sample_engine_opened by (auto simp: engine_open_def engine_new_def Let_def is_affirmative_def split: if_splits prod.splits)
  moreover obtain oc' d e2 where "evaluate sample_scope sample_gens tock e1 = ((oc', d), e2)" by (metis prod.exhaust)
  moreover have "sc_is_valid sample_scope" "gv_is_complete sample_gens"
    using sample_request_ok by (simp_all add: request_ok_def sample_request_def)
  ultimately show ?thesis using restart_confers_no_authority o by blast
qed

text \<open>
  C39. The generations of one request decide about the fences of every subject: an evaluation closes
  each open fence that was minted under other generations, also when its subject is another one,
  although a generation vector carries the generation of a single path.
\<close>
theorem evaluation_closes_other_subjects:
  assumes "evaluable scope gens e" "registry_find (en_fences e) k = Some r" "fi_gens (rc_intent r) \<noteq> gens"
    and "evaluate scope gens clk e = ((oc, d), e')"
  shows "\<exists>r'. registry_find (en_fences e') k = Some r' \<and> \<not> rc_is_open r'"
proof -
  let ?diag = "classify_subject scope gens (clk 1) e" and ?e = "evaluation_start gens clk e"
  let ?d = "draft_decision scope gens (clk 1) ?diag ?e"
  let ?r = "revalidated (clk 0) gens r"
  have r: "registry_find (en_fences ?e) k = Some ?r" "\<not> rc_is_open ?r"
    using assms(2,3) by (auto simp: registry_find_revalidate revalidated_open lapsed_def)
  from evaluate_run [OF assms(1,4)] obtain d1 e1 where
    i: "(if diagnosis_stage ?diag = S_Authorization then issue_intent ?diag ?d ?e else (?d, ?e)) = (d1, e1)"
    and s: "settle_decision d1 clk e1 = (d, e')" by metis
  have "registry_find (en_fences e1) k = Some ?r"
  proof (cases "diagnosis_stage ?diag = S_Authorization")
    case True
    then have "issue_intent ?diag ?d ?e = (d1, e1)" using i by simp
    then show ?thesis using r(1) by (cases rule: issue_intent_cases) (auto simp: registry_find_def)
  next
    case False
    then show ?thesis using i r(1) by simp
  qed
  then have "registry_find (en_fences e') k = Some ?r"
    using s r(2) engine_commit_keeps(2)
    by (auto simp: settle_decision_def revoke_def unknown_id_def registry_find_def Let_def
        split: prod.splits if_splits option.splits)
  with r(2) show ?thesis by blast
qed

theorem evaluation_closes_other_subjects_witness:
  "\<exists>oc d e' r. evaluate (sample_scope\<lparr>sc_path := 2\<rparr>) (sample_gens\<lparr>gv_path := 2\<rparr>) tock fenced_engine = ((oc, d), e') \<and>
    registry_find (en_fences e') (fi_id fenced_intent) = Some r \<and> \<not> rc_is_open r"
proof -
  obtain oc d e' where "evaluate (sample_scope\<lparr>sc_path := 2\<rparr>) (sample_gens\<lparr>gv_path := 2\<rparr>) tock fenced_engine = ((oc, d), e')"
    by (metis prod.exhaust)
  moreover have "evaluable (sample_scope\<lparr>sc_path := 2\<rparr>) (sample_gens\<lparr>gv_path := 2\<rparr>) fenced_engine"
    by (simp add: fenced_engine_state sample_scope_def sample_gens_def sc_is_valid_def gv_is_complete_def)
  moreover have "fi_gens fenced_intent \<noteq> sample_gens\<lparr>gv_path := 2\<rparr>"
    by (simp add: fenced_intent_fields sample_gens_def)
  moreover have "registry_find (en_fences fenced_engine) (fi_id fenced_intent) = Some (record_new fenced_intent)"
    by (simp add: registry_find_def fenced_engine_state omap_find_def)
  ultimately show ?thesis using evaluation_closes_other_subjects by (metis record_new_intent)
qed


end
