(* ===== verification/BHG_Session.thy ===== *)
theory BHG_Session
  imports BHG_Domain
begin

text \<open>
  Sessions (\<open>session.hpp\<close>, \<open>session.cpp\<close>): the table that binds a session id to one client boot
  and incarnation and admits its requests in strict sequence. Every entry point of the code runs
  under one mutex, so that each is one atomic function here.
\<close>

subsection \<open>The table\<close>

record session_record =
  sn_id :: u64
  sn_client_boot :: u64
  sn_client_incarnation :: u64
  sn_last_seq :: u64
  sn_established :: i64
  sn_label :: provenance
  sn_requests :: u64
  sn_rejected :: u64
  sn_active :: bool

record session_table =
  st_policy :: fence_policy
  st_sessions :: "(u64, session_record) omap"
  st_established :: u64
  st_rejected :: u64
  st_counter :: u64

definition session_table_new :: "fence_policy \<Rightarrow> session_table" where
  "session_table_new policy = \<lparr>st_policy = policy, st_sessions = [], st_established = 0,
     st_rejected = 0, st_counter = 0\<rparr>"

text \<open>\<open>std::map::emplace\<close>: an existing entry is kept.\<close>

definition omap_emplace :: "('k::linorder, 'v) omap \<Rightarrow> 'k \<Rightarrow> 'v \<Rightarrow> ('k, 'v) omap" where
  "omap_emplace m k v = (if omap_find m k = None then omap_put m k v else m)"

definition establish :: "u64 \<Rightarrow> u64 \<Rightarrow> provenance \<Rightarrow> i64 \<Rightarrow> session_table \<Rightarrow> (outcome \<times> u64) \<times> session_table" where
  "establish boot incarnation label now t =
     (if boot = 0 \<or> incarnation = 0 then ((O_Invalid, 0), t\<lparr>st_rejected := st_rejected t + 1\<rparr>)
      else if length (st_sessions t) \<ge> unat (pol_max_sessions (st_policy t)) then
        ((O_Exhausted, 0), t\<lparr>st_rejected := st_rejected t + 1\<rparr>)
      else
        (let t = t\<lparr>st_counter := st_counter t + 1\<rparr>;
             sid = mix64 (mix64 boot incarnation) (st_counter t);
             rec = \<lparr>sn_id = sid, sn_client_boot = boot, sn_client_incarnation = incarnation,
               sn_last_seq = 0, sn_established = now, sn_label = label, sn_requests = 0,
               sn_rejected = 0, sn_active = True\<rparr>
         in ((O_Ok, sid), t\<lparr>st_sessions := omap_emplace (st_sessions t) sid rec,
               st_established := st_established t + 1\<rparr>)))"

definition session_refuse :: "u64 \<Rightarrow> session_record \<Rightarrow> session_table \<Rightarrow> session_table" where
  "session_refuse sid rec t =
     t\<lparr>st_sessions := omap_put (st_sessions t) sid (rec\<lparr>sn_rejected := sn_rejected rec + 1\<rparr>),
       st_rejected := st_rejected t + 1\<rparr>"

definition validate :: "u64 \<Rightarrow> u64 \<Rightarrow> u64 \<Rightarrow> u64 \<Rightarrow> session_table \<Rightarrow> (outcome \<times> reason_code) \<times> session_table" where
  "validate sid boot incarnation seq t =
     (case omap_find (st_sessions t) sid of
        None \<Rightarrow> ((O_Rejected, R_PolicyRefused), t)
      | Some rec \<Rightarrow>
          if \<not> sn_active rec then ((O_Rejected, R_PolicyRefused), t)
          else if boot \<noteq> sn_client_boot rec \<or> incarnation \<noteq> sn_client_incarnation rec then
            ((O_Rejected, R_SourceIncarnationChanged), session_refuse sid rec t)
          else if seq \<noteq> sn_last_seq rec + 1 then
            ((O_Rejected, if seq \<le> sn_last_seq rec then R_ReplayedSequence else R_WindowViolation),
             session_refuse sid rec t)
          else
            ((O_Ok, R_None), t\<lparr>st_sessions := omap_put (st_sessions t) sid
               (rec\<lparr>sn_last_seq := seq, sn_requests := sn_requests rec + 1\<rparr>)\<rparr>))"

definition release :: "u64 \<Rightarrow> session_table \<Rightarrow> session_table" where
  "release sid t =
     (if omap_find (st_sessions t) sid \<noteq> None
      then t\<lparr>st_sessions := omap_erase (st_sessions t) sid\<rparr> else t)"

definition session_clear :: "session_table \<Rightarrow> session_table" where
  "session_clear t = t\<lparr>st_sessions := []\<rparr>"

definition session_size :: "session_table \<Rightarrow> nat" where
  "session_size t = length (st_sessions t)"

definition session_accounting_closed :: "session_table \<Rightarrow> bool" where
  "session_accounting_closed t \<longleftrightarrow>
     unat (st_established t) \<ge> length (filter (\<lambda>kv. sn_active (snd kv)) (st_sessions t))"

subsection \<open>Sequences of operations\<close>

datatype session_op =
    SO_Establish u64 u64 provenance i64
  | SO_Validate u64 u64 u64 u64
  | SO_Release u64
  | SO_Clear

fun session_step :: "session_op \<Rightarrow> session_table \<Rightarrow> session_table" where
  "session_step (SO_Establish boot incarnation label now) t = snd (establish boot incarnation label now t)"
| "session_step (SO_Validate sid boot incarnation seq) t = snd (validate sid boot incarnation seq t)"
| "session_step (SO_Release sid) t = release sid t"
| "session_step SO_Clear t = session_clear t"

text \<open>The requests that a run of operations accepts under one session id, in order.\<close>

fun accepted :: "u64 \<Rightarrow> session_op list \<Rightarrow> session_table \<Rightarrow> (u64 \<times> u64 \<times> u64) list" where
  "accepted sid [] t = []"
| "accepted sid (op # ops) t =
     (case op of
        SO_Validate sid' boot incarnation seq \<Rightarrow>
          (if sid' = sid \<and> fst (fst (validate sid' boot incarnation seq t)) = O_Ok
           then [(boot, incarnation, seq)] else [])
      | _ \<Rightarrow> []) @ accepted sid ops (session_step op t)"

definition keeps_session :: "u64 \<Rightarrow> session_op \<Rightarrow> bool" where
  "keeps_session sid op \<longleftrightarrow> op \<noteq> SO_Release sid \<and> op \<noteq> SO_Clear"

definition session_inv :: "session_table \<Rightarrow> bool" where
  "session_inv t \<longleftrightarrow> omap_inv (st_sessions t) \<and>
     length (st_sessions t) \<le> unat (pol_max_sessions (st_policy t)) \<and>
     (\<forall>k r. omap_find (st_sessions t) k = Some r \<longrightarrow>
        sn_id r = k \<and> sn_active r \<and> sn_client_boot r \<noteq> 0 \<and> sn_client_incarnation r \<noteq> 0)"

lemma length_omap_put_le: "omap_inv m \<Longrightarrow> length (omap_put m k v) \<le> Suc (length m)"
  by (cases "omap_find m k") (simp_all add: length_omap_put_new length_omap_put_old)

lemma session_inv_put_old:
  assumes "session_inv t" "omap_find (st_sessions t) k = Some r"
    "sn_id r' = sn_id r" "sn_active r' = sn_active r" "sn_client_boot r' = sn_client_boot r"
    "sn_client_incarnation r' = sn_client_incarnation r"
  shows "session_inv (t\<lparr>st_sessions := omap_put (st_sessions t) k r'\<rparr>)"
  using assms length_omap_put_old [of "st_sessions t" k r r'] unfolding session_inv_def by auto

lemma session_inv_cong [simp]:
  "session_inv (t\<lparr>st_rejected := n\<rparr>) = session_inv t" "session_inv (t\<lparr>st_counter := n\<rparr>) = session_inv t"
  "session_inv (t\<lparr>st_established := n\<rparr>) = session_inv t"
  by (simp_all add: session_inv_def)

lemma session_inv_step: "session_inv t \<Longrightarrow> session_inv (session_step op t)"
proof (cases op)
  case (SO_Establish boot incarnation label now)
  assume "session_inv t"
  then show ?thesis using SO_Establish
    by (auto simp: establish_def omap_emplace_def session_inv_def Let_def length_omap_put_new
        split: if_splits)
next
  case (SO_Validate sid boot incarnation seq)
  assume inv: "session_inv t"
  show ?thesis
  proof (cases "omap_find (st_sessions t) sid")
    case (Some r)
    then show ?thesis using SO_Validate inv session_inv_put_old [OF inv Some]
      by (auto simp: validate_def session_refuse_def)
  qed (use SO_Validate inv in \<open>simp add: validate_def\<close>)
next
  case (SO_Release sid)
  assume inv: "session_inv t"
  have "length (omap_erase (st_sessions t) sid) \<le> length (st_sessions t)"
    by (simp add: omap_erase_def)
  then show ?thesis using SO_Release inv by (auto simp: release_def session_inv_def)
next
  case SO_Clear
  assume "session_inv t"
  then show ?thesis using SO_Clear by (simp add: session_clear_def session_inv_def omap_find_def)
qed

lemma session_inv_run: "session_inv t \<Longrightarrow> session_inv (fold session_step ops t)"
  by (induction ops arbitrary: t) (simp_all add: session_inv_step)

lemma session_inv_new: "session_inv (session_table_new policy)"
  by (simp add: session_inv_def session_table_new_def omap_find_def)

text \<open>A session record under operations that do not end it: its client stays, its sequence number
  advances by the accepted requests.\<close>

lemma session_record_step:
  assumes "omap_find (st_sessions t) sid = Some r" "sn_active r" "keeps_session sid op"
  shows "\<exists>r'. omap_find (st_sessions (session_step op t)) sid = Some r' \<and> sn_active r'
    \<and> sn_client_boot r' = sn_client_boot r \<and> sn_client_incarnation r' = sn_client_incarnation r
    \<and> sn_last_seq r' = sn_last_seq r + of_nat (length (accepted sid [op] t))
    \<and> (accepted sid [op] t = []
        \<or> accepted sid [op] t = [(sn_client_boot r, sn_client_incarnation r, sn_last_seq r + 1)])"
proof (cases op)
  case (SO_Establish boot incarnation label now)
  then show ?thesis using assms
    by (auto simp: establish_def omap_emplace_def Let_def)
next
  case (SO_Validate sid' boot incarnation seq)
  then show ?thesis using assms
    by (cases "omap_find (st_sessions t) sid'") (auto simp: validate_def session_refuse_def)
next
  case (SO_Release sid')
  then show ?thesis using assms by (auto simp: release_def keeps_session_def)
next
  case SO_Clear
  then show ?thesis using assms(3) by (simp add: keeps_session_def)
qed

text \<open>
  Whatever sequence of operations a session table has been through, it holds at most the
  configured number of sessions, each under its own id, active and bound to a complete client
  identity.
\<close>
theorem session_table_invariant: "session_inv (fold session_step ops (session_table_new policy))"
  by (rule session_inv_run [OF session_inv_new])

text \<open>
  C30. Under one session id, requests are accepted exactly once and in order: over any operations
  that do not end the session, the accepted requests carry the client identity of the session and
  consecutive sequence numbers, starting after the last one already accepted.
\<close>
theorem session_requests_in_order:
  assumes "omap_find (st_sessions t) sid = Some r" and "sn_active r"
    and "list_all (keeps_session sid) ops"
  shows "accepted sid ops t =
    map (\<lambda>i. (sn_client_boot r, sn_client_incarnation r, sn_last_seq r + 1 + of_nat i))
      [0..<length (accepted sid ops t)]"
  using assms
proof (induction ops arbitrary: t r)
  case (Cons op ops)
  define a where "a = accepted sid [op] t"
  define b where "b = accepted sid ops (session_step op t)"
  have "keeps_session sid op" using Cons(4) by simp
  from session_record_step [OF Cons(2,3) this] obtain r' where
      r': "omap_find (st_sessions (session_step op t)) sid = Some r'" "sn_active r'"
      "sn_client_boot r' = sn_client_boot r" "sn_client_incarnation r' = sn_client_incarnation r"
      "sn_last_seq r' = sn_last_seq r + of_nat (length a)"
      and a: "a = [] \<or> a = [(sn_client_boot r, sn_client_incarnation r, sn_last_seq r + 1)]"
    unfolding a_def by (elim exE conjE)
  have b: "b = map (\<lambda>i. (sn_client_boot r, sn_client_incarnation r, sn_last_seq r' + 1 + of_nat i)) [0..<length b]"
    using Cons(1) [OF r'(1,2)] Cons(4) unfolding b_def r'(3,4) by simp
  have ab: "accepted sid (op # ops) t = a @ b" by (simp add: a_def b_def)
  from a show ?case
  proof
    assume "a = []"
    then show ?thesis using b r'(5) unfolding ab by simp
  next
    assume a1: "a = [(sn_client_boot r, sn_client_incarnation r, sn_last_seq r + 1)]"
    then have s: "sn_last_seq r' = sn_last_seq r + 1" using r'(5) by simp
    have u: "[0..<length (a @ b)] = 0 # map Suc [0..<length b]"
      using upt_conv_Cons [of 0 "Suc (length b)"] by (simp add: a1 map_Suc_upt)
    have "a @ b = (sn_client_boot r, sn_client_incarnation r, sn_last_seq r + 1)
        # map (\<lambda>i. (sn_client_boot r, sn_client_incarnation r, sn_last_seq r + 1 + of_nat (Suc i))) [0..<length b]"
      using a1 b unfolding s by (simp add: add.commute add.left_commute)
    then show ?thesis unfolding ab u by (simp add: comp_def)
  qed
qed simp

definition sample_table :: session_table where
  "sample_table = snd (establish 5 6 P_Synthetic 1 (session_table_new default_policy))"

lemma sample_table_session:
  "omap_find (st_sessions sample_table) (mix64 (mix64 5 6) 1) = Some
     \<lparr>sn_id = mix64 (mix64 5 6) 1, sn_client_boot = 5, sn_client_incarnation = 6, sn_last_seq = 0,
      sn_established = 1, sn_label = P_Synthetic, sn_requests = 0, sn_rejected = 0, sn_active = True\<rparr>"
  by (simp add: sample_table_def establish_def session_table_new_def default_policy_def omap_emplace_def
      Let_def omap_find_def)

theorem session_requests_in_order_witness:
  "accepted (mix64 (mix64 5 6) 1) [SO_Validate (mix64 (mix64 5 6) 1) 5 6 1] sample_table = [(5, 6, 1)]"
proof -
  have "fst (fst (validate (mix64 (mix64 5 6) 1) 5 6 1 sample_table)) = O_Ok"
    by (simp add: validate_def sample_table_session)
  then show ?thesis
    using session_requests_in_order [OF sample_table_session,
      of "[SO_Validate (mix64 (mix64 5 6) 1) 5 6 1]"]
    by (simp add: keeps_session_def)
qed

text \<open>
  A request is accepted exactly when its session exists and is active, its client identity is
  the session's and its sequence number is the next one; a refused request never changes which
  sequence number is next.
\<close>
theorem session_validate_exact:
  "(fst (fst (validate sid boot incarnation seq t)) = O_Ok \<longleftrightarrow>
     (\<exists>r. omap_find (st_sessions t) sid = Some r \<and> sn_active r \<and> sn_client_boot r = boot \<and>
        sn_client_incarnation r = incarnation \<and> seq = sn_last_seq r + 1)) \<and>
   map_option sn_last_seq (omap_find (st_sessions (snd (validate sid boot incarnation seq t))) k) =
     (if k = sid \<and> fst (fst (validate sid boot incarnation seq t)) = O_Ok then Some seq
      else map_option sn_last_seq (omap_find (st_sessions t) k))"
  by (cases "omap_find (st_sessions t) sid") (auto simp: validate_def session_refuse_def)

text \<open>
  A client can name another client's session: for every live session in a table with room there
  is a client identity whose \<open>establish\<close> succeeds and reports that session's id, while the table
  keeps the other client's record under it. The id is a bijective mix of values the client
  chooses, and the result of \<open>emplace\<close> is not looked at.
\<close>
theorem session_id_takeover:
  assumes "omap_find (st_sessions t) sid = Some r"
    and "length (st_sessions t) < unat (pol_max_sessions (st_policy t))"
  shows "\<exists>boot incarnation. fst (establish boot incarnation label now t) = (O_Ok, sid)
    \<and> omap_find (st_sessions (snd (establish boot incarnation label now t))) sid = Some r"
proof -
  have sl: "surj (\<lambda>a. mix64 a b)" for b
    by (rule finite_UNIV_inj_surj) (auto simp: inj_def mix64_inject_left)
  obtain h where h: "sid = mix64 h (st_counter t + 1)" using surjD [OF sl] by blast
  obtain b1 where b1: "h = mix64 b1 1" using surjD [OF sl] by blast
  obtain b2 where b2: "h = mix64 b2 2" using surjD [OF sl] by blast
  have "\<exists>b i. b \<noteq> 0 \<and> i \<noteq> 0 \<and> mix64 b i = h"
  proof (cases "b1 = 0")
    case False
    then show ?thesis using b1 by (intro exI [of _ b1] exI [of _ 1]) simp
  next
    case True
    then have "b2 \<noteq> 0" using b1 b2 mix64_inject_right [of 0 1 2] by auto
    then show ?thesis using b2 by (intro exI [of _ b2] exI [of _ 2]) simp
  qed
  then obtain b i where bi: "b \<noteq> 0" "i \<noteq> 0" "mix64 b i = h" by blast
  then have "fst (establish b i label now t) = (O_Ok, sid)
    \<and> omap_find (st_sessions (snd (establish b i label now t))) sid = Some r"
    using assms h by (simp add: establish_def omap_emplace_def Let_def)
  then show ?thesis by blast
qed

theorem session_id_takeover_witness:
  "\<exists>boot incarnation. fst (establish boot incarnation P_Synthetic 2 sample_table)
     = (O_Ok, mix64 (mix64 5 6) 1)"
proof -
  have "length (st_sessions sample_table) < unat (pol_max_sessions (st_policy sample_table))"
    by (simp add: sample_table_def establish_def session_table_new_def default_policy_def
        omap_emplace_def Let_def omap_find_def)
  from session_id_takeover [OF sample_table_session this, of P_Synthetic 2] show ?thesis by blast
qed

end
