(* ===== verification/BHG_Messages.thy ===== *)
theory BHG_Messages
  imports BHG_Store BHG_Session
begin

text \<open>
  The messages of the protocol (\<open>messages.hpp\<close>, \<open>messages.cpp\<close>): the session token every request
  carries, the request and response of each operation, and their codecs. Text fields are held as
  their bytes. The sum \<open>message\<close> and its dispatch on the frame type gather the codecs that the server
  and the client select by that type.
\<close>

subsection \<open>Limits and parts\<close>

definition kMaxDetailBytes :: nat where "kMaxDetailBytes = 192"
definition kMaxClientNameBytes :: nat where "kMaxClientNameBytes = 64"
definition kMaxLineagePage :: u32 where "kMaxLineagePage = 512"
definition kMaxProbesPerRequest :: u32 where "kMaxProbesPerRequest = of_nat kMaxLocalizationSets"

definition encode_probe :: "hop_probe \<Rightarrow> writer \<Rightarrow> writer" where
  "encode_probe p = wseq [w_u32 (hp_begin_hop p), w_u32 (hp_end_hop p), w_boolean (hp_success p)]"

definition decode_probe :: "hop_probe decoder" where
  "decode_probe = dbind r_u32 (\<lambda>begin_hop. dbind r_u32 (\<lambda>end_hop. dbind r_boolean (\<lambda>success.
     dret \<lparr>hp_begin_hop = begin_hop, hp_end_hop = end_hop, hp_success = success\<rparr>)))"

text \<open>Too many probes are written as an impossible count, which no reader accepts.\<close>

definition encode_probes :: "hop_probe list \<Rightarrow> writer \<Rightarrow> writer" where
  "encode_probes ps = (if length ps > unat kMaxProbesPerRequest then w_u32 0xFFFFFFFF else w_vector encode_probe ps)"

definition decode_probes :: "hop_probe list decoder" where
  "decode_probes = r_vector kMaxProbesPerRequest 9 decode_probe"

subsection \<open>Messages\<close>

record session_token =
  tk_session :: u64
  tk_request :: u64
  tk_seq :: u64
  tk_client_boot :: u64
  tk_client_incarnation :: u64

definition encode_session_token :: "session_token \<Rightarrow> writer \<Rightarrow> writer" where
  "encode_session_token v =
     wseq [w_u64 (tk_session v), w_u64 (tk_request v), w_u64 (tk_seq v),
       w_u64 (tk_client_boot v), w_u64 (tk_client_incarnation v)]"

definition decode_session_token :: "session_token decoder" where
  "decode_session_token =
     dbind r_u64 (\<lambda>session. dbind r_u64 (\<lambda>request. dbind r_u64 (\<lambda>seq.
     dbind r_u64 (\<lambda>client_boot. dbind r_u64 (\<lambda>client_incarnation.
     dret \<lparr>tk_session = session, tk_request = request, tk_seq = seq, tk_client_boot = client_boot,
       tk_client_incarnation = client_incarnation\<rparr>)))))"

record hello_request =
  hq_token :: session_token
  hq_client_name :: bytes
  hq_label :: provenance

definition encode_hello_request :: "hello_request \<Rightarrow> writer \<Rightarrow> writer" where
  "encode_hello_request v =
     wseq [encode_session_token (hq_token v), w_string (hq_client_name v) kMaxClientNameBytes,
       w_u8 (provenance_code (hq_label v))]"

definition decode_hello_request :: "hello_request decoder" where
  "decode_hello_request =
     dbind decode_session_token (\<lambda>token.
     dbind (r_string kMaxClientNameBytes) (\<lambda>client_name.
     dbind (r_enum8 is_valid_provenance provenance_of_code) (\<lambda>label.
     dret \<lparr>hq_token = token, hq_client_name = client_name, hq_label = label\<rparr>)))"

record hello_response =
  hs_session :: u64
  hs_server_boot :: u64
  hs_server_incarnation :: u64
  hs_epoch :: u64
  hs_policy :: u64
  hs_policy_fingerprint :: u64
  hs_protocol_version :: u16
  hs_label :: provenance

definition encode_hello_response :: "hello_response \<Rightarrow> writer \<Rightarrow> writer" where
  "encode_hello_response v =
     wseq [w_u64 (hs_session v), w_u64 (hs_server_boot v), w_u64 (hs_server_incarnation v),
       w_u64 (hs_epoch v), w_u64 (hs_policy v), w_u64 (hs_policy_fingerprint v),
       w_u16 (hs_protocol_version v), w_u8 (provenance_code (hs_label v))]"

definition decode_hello_response :: "hello_response decoder" where
  "decode_hello_response =
     dbind r_u64 (\<lambda>session. dbind r_u64 (\<lambda>server_boot.
     dbind r_u64 (\<lambda>server_incarnation. dbind r_u64 (\<lambda>epoch.
     dbind r_u64 (\<lambda>policy. dbind r_u64 (\<lambda>policy_fingerprint.
     dbind r_u16 (\<lambda>protocol_version.
     dbind (r_enum8 is_valid_provenance provenance_of_code) (\<lambda>label.
     dret \<lparr>hs_session = session, hs_server_boot = server_boot,
       hs_server_incarnation = server_incarnation, hs_epoch = epoch, hs_policy = policy,
       hs_policy_fingerprint = policy_fingerprint, hs_protocol_version = protocol_version,
       hs_label = label\<rparr>))))))))"

record submit_evidence_request =
  sq_token :: session_token
  sq_evidence :: delivery_evidence

definition encode_submit_evidence_request :: "submit_evidence_request \<Rightarrow> writer \<Rightarrow> writer" where
  "encode_submit_evidence_request v =
     wseq [encode_session_token (sq_token v), encode_evidence (sq_evidence v)]"

definition decode_submit_evidence_request :: "submit_evidence_request decoder" where
  "decode_submit_evidence_request =
     dbind decode_session_token (\<lambda>token. dbind decode_evidence (\<lambda>evidence.
     dret \<lparr>sq_token = token, sq_evidence = evidence\<rparr>))"

record submit_evidence_response =
  ss_outcome :: outcome
  ss_admission :: admission
  ss_reason :: reason_code

definition encode_submit_evidence_response :: "submit_evidence_response \<Rightarrow> writer \<Rightarrow> writer" where
  "encode_submit_evidence_response v =
     wseq [w_u8 (outcome_code (ss_outcome v)), w_u8 (admission_code (ss_admission v)),
       w_u16 (reason_code_code (ss_reason v))]"

definition decode_submit_evidence_response :: "submit_evidence_response decoder" where
  "decode_submit_evidence_response =
     dbind (r_enum8 is_valid_outcome outcome_of_code) (\<lambda>outcome.
     dbind (r_enum8 is_valid_admission admission_of_code) (\<lambda>admission.
     dbind (decode_enum is_valid_reason_code reason_code_of_code) (\<lambda>reason.
     dret \<lparr>ss_outcome = outcome, ss_admission = admission, ss_reason = reason\<rparr>)))"

record evaluate_request =
  eq_token :: session_token
  eq_scope :: scope
  eq_gens :: generation_vector

definition encode_evaluate_request :: "evaluate_request \<Rightarrow> writer \<Rightarrow> writer" where
  "encode_evaluate_request v =
     wseq [encode_session_token (eq_token v), encode_scope (eq_scope v),
       encode_generation_vector (eq_gens v)]"

definition decode_evaluate_request :: "evaluate_request decoder" where
  "decode_evaluate_request =
     dbind decode_session_token (\<lambda>token. dbind decode_scope (\<lambda>scope.
     dbind decode_generation_vector (\<lambda>gens.
     dret \<lparr>eq_token = token, eq_scope = scope, eq_gens = gens\<rparr>)))"

record evaluate_response =
  es_outcome :: outcome
  es_decision :: decision

definition encode_evaluate_response :: "evaluate_response \<Rightarrow> writer \<Rightarrow> writer" where
  "encode_evaluate_response v =
     wseq [w_u8 (outcome_code (es_outcome v)), encode_decision (es_decision v)]"

definition decode_evaluate_response :: "evaluate_response decoder" where
  "decode_evaluate_response =
     dbind (r_enum8 is_valid_outcome outcome_of_code) (\<lambda>outcome.
     dbind decode_decision (\<lambda>decision.
     dret \<lparr>es_outcome = outcome, es_decision = decision\<rparr>))"

record localize_request =
  lq_token :: session_token
  lq_scope :: scope
  lq_gens :: generation_vector
  lq_hop_count :: u32
  lq_probes :: "hop_probe list"

definition encode_localize_request :: "localize_request \<Rightarrow> writer \<Rightarrow> writer" where
  "encode_localize_request v =
     wseq [encode_session_token (lq_token v), encode_scope (lq_scope v),
       encode_generation_vector (lq_gens v), w_u32 (lq_hop_count v), encode_probes (lq_probes v)]"

definition decode_localize_request :: "localize_request decoder" where
  "decode_localize_request =
     dbind decode_session_token (\<lambda>token. dbind decode_scope (\<lambda>scope.
     dbind decode_generation_vector (\<lambda>gens. dbind r_u32 (\<lambda>hop_count.
     dbind decode_probes (\<lambda>probes.
     dret \<lparr>lq_token = token, lq_scope = scope, lq_gens = gens, lq_hop_count = hop_count,
       lq_probes = probes\<rparr>)))))"

record localize_response =
  ls_outcome :: outcome
  ls_decision :: decision

definition encode_localize_response :: "localize_response \<Rightarrow> writer \<Rightarrow> writer" where
  "encode_localize_response v =
     wseq [w_u8 (outcome_code (ls_outcome v)), encode_decision (ls_decision v)]"

definition decode_localize_response :: "localize_response decoder" where
  "decode_localize_response =
     dbind (r_enum8 is_valid_outcome outcome_of_code) (\<lambda>outcome.
     dbind decode_decision (\<lambda>decision.
     dret \<lparr>ls_outcome = outcome, ls_decision = decision\<rparr>))"

record ack_fence_request =
  aq_token :: session_token
  aq_fence :: u64
  aq_downstream :: u64

definition encode_ack_fence_request :: "ack_fence_request \<Rightarrow> writer \<Rightarrow> writer" where
  "encode_ack_fence_request v =
     wseq [encode_session_token (aq_token v), w_u64 (aq_fence v), w_u64 (aq_downstream v)]"

definition decode_ack_fence_request :: "ack_fence_request decoder" where
  "decode_ack_fence_request =
     dbind decode_session_token (\<lambda>token. dbind r_u64 (\<lambda>fence.
     dbind r_u64 (\<lambda>downstream.
     dret \<lparr>aq_token = token, aq_fence = fence, aq_downstream = downstream\<rparr>)))"

record ack_fence_response =
  as_outcome :: outcome
  as_reason :: reason_code

definition encode_ack_fence_response :: "ack_fence_response \<Rightarrow> writer \<Rightarrow> writer" where
  "encode_ack_fence_response v =
     wseq [w_u8 (outcome_code (as_outcome v)), w_u16 (reason_code_code (as_reason v))]"

definition decode_ack_fence_response :: "ack_fence_response decoder" where
  "decode_ack_fence_response =
     dbind (r_enum8 is_valid_outcome outcome_of_code) (\<lambda>outcome.
     dbind (decode_enum is_valid_reason_code reason_code_of_code) (\<lambda>reason.
     dret \<lparr>as_outcome = outcome, as_reason = reason\<rparr>))"

record report_effect_request =
  rq_token :: session_token
  rq_fence :: u64
  rq_downstream :: u64
  rq_verified :: bool

definition encode_report_effect_request :: "report_effect_request \<Rightarrow> writer \<Rightarrow> writer" where
  "encode_report_effect_request v =
     wseq [encode_session_token (rq_token v), w_u64 (rq_fence v), w_u64 (rq_downstream v),
       w_boolean (rq_verified v)]"

definition decode_report_effect_request :: "report_effect_request decoder" where
  "decode_report_effect_request =
     dbind decode_session_token (\<lambda>token. dbind r_u64 (\<lambda>fence.
     dbind r_u64 (\<lambda>downstream. dbind r_boolean (\<lambda>verified.
     dret \<lparr>rq_token = token, rq_fence = fence, rq_downstream = downstream, rq_verified = verified\<rparr>))))"

record report_effect_response =
  rs_outcome :: outcome
  rs_reason :: reason_code

definition encode_report_effect_response :: "report_effect_response \<Rightarrow> writer \<Rightarrow> writer" where
  "encode_report_effect_response v =
     wseq [w_u8 (outcome_code (rs_outcome v)), w_u16 (reason_code_code (rs_reason v))]"

definition decode_report_effect_response :: "report_effect_response decoder" where
  "decode_report_effect_response =
     dbind (r_enum8 is_valid_outcome outcome_of_code) (\<lambda>outcome.
     dbind (decode_enum is_valid_reason_code reason_code_of_code) (\<lambda>reason.
     dret \<lparr>rs_outcome = outcome, rs_reason = reason\<rparr>))"

record restore_request =
  tq_token :: session_token
  tq_scope :: scope
  tq_gens :: generation_vector

definition encode_restore_request :: "restore_request \<Rightarrow> writer \<Rightarrow> writer" where
  "encode_restore_request v =
     wseq [encode_session_token (tq_token v), encode_scope (tq_scope v),
       encode_generation_vector (tq_gens v)]"

definition decode_restore_request :: "restore_request decoder" where
  "decode_restore_request =
     dbind decode_session_token (\<lambda>token. dbind decode_scope (\<lambda>scope.
     dbind decode_generation_vector (\<lambda>gens.
     dret \<lparr>tq_token = token, tq_scope = scope, tq_gens = gens\<rparr>)))"

record restore_response =
  ts_outcome :: outcome
  ts_decision :: decision

definition encode_restore_response :: "restore_response \<Rightarrow> writer \<Rightarrow> writer" where
  "encode_restore_response v =
     wseq [w_u8 (outcome_code (ts_outcome v)), encode_decision (ts_decision v)]"

definition decode_restore_response :: "restore_response decoder" where
  "decode_restore_response =
     dbind (r_enum8 is_valid_outcome outcome_of_code) (\<lambda>outcome.
     dbind decode_decision (\<lambda>decision.
     dret \<lparr>ts_outcome = outcome, ts_decision = decision\<rparr>))"

record lineage_request =
  nq_token :: session_token
  nq_limit :: u32

definition encode_lineage_request :: "lineage_request \<Rightarrow> writer \<Rightarrow> writer" where
  "encode_lineage_request v =
     wseq [encode_session_token (nq_token v), w_u32 (nq_limit v)]"

definition decode_lineage_request :: "lineage_request decoder" where
  "decode_lineage_request =
     dbind decode_session_token (\<lambda>token. dbind r_u32 (\<lambda>limit.
     let out = \<lparr>nq_token = token, nq_limit = limit\<rparr> in
     dbind (dguard (\<not> nq_limit out > kMaxLineagePage) O_Oversized) (\<lambda>_. dret out)))"

text \<open>The message codec has its own functions for a lineage entry, beside those of the store.\<close>

definition encode_lineage_item :: "lineage_entry \<Rightarrow> writer \<Rightarrow> writer" where
  "encode_lineage_item v =
     wseq [w_u16 (record_type_code (ln_type v)), w_u64 (ln_seq v), w_i64 (ln_at v), w_u64 (ln_decision v),
       w_u64 (ln_fence v), encode_scope (ln_scope v), encode_generation_vector (ln_gens v),
       w_u8 (outcome_code (ln_outcome v)), w_u16 (classification_code (ln_classification v)),
       w_u16 (reason_code_code (ln_reason v)), w_u64 (ln_boot v), w_u64 (ln_incarnation v),
       w_boolean (ln_from_prior_incarnation v)]"

definition decode_lineage_item :: "lineage_entry decoder" where
  "decode_lineage_item =
     dbind (decode_enum is_valid_record_type record_type_of_code) (\<lambda>type.
     dbind r_u64 (\<lambda>seq. dbind r_i64 (\<lambda>at. dbind r_u64 (\<lambda>decision. dbind r_u64 (\<lambda>fence.
     dbind decode_scope (\<lambda>scope. dbind decode_generation_vector (\<lambda>gens.
     dbind (r_enum8 is_valid_outcome outcome_of_code) (\<lambda>outcome.
     dbind (decode_enum is_valid_classification classification_of_code) (\<lambda>cls.
     dbind (decode_enum is_valid_reason_code reason_code_of_code) (\<lambda>reason.
     dbind r_u64 (\<lambda>boot. dbind r_u64 (\<lambda>incarnation. dbind r_boolean (\<lambda>prior.
     dret \<lparr>ln_type = type, ln_seq = seq, ln_at = at, ln_decision = decision, ln_fence = fence,
       ln_scope = scope, ln_gens = gens, ln_outcome = outcome, ln_classification = cls, ln_reason = reason,
       ln_boot = boot, ln_incarnation = incarnation, ln_from_prior_incarnation = prior\<rparr>)))))))))))))"

text \<open>The two formats are the same.\<close>

lemma lineage_item_agrees: "encode_lineage_item = encode_lineage_entry" "decode_lineage_item = decode_lineage_entry"
  by (simp_all add: encode_lineage_item_def encode_lineage_entry_def decode_lineage_item_def
      decode_lineage_entry_def fun_eq_iff)

record lineage_response =
  ns_outcome :: outcome
  ns_entries :: "lineage_entry list"
  ns_lineage_seen :: u64
  ns_lineage_dropped :: u64

definition encode_lineage_response :: "lineage_response \<Rightarrow> writer \<Rightarrow> writer" where
  "encode_lineage_response v =
     wseq [w_u8 (outcome_code (ns_outcome v)), w_vector encode_lineage_item (ns_entries v),
       w_u64 (ns_lineage_seen v), w_u64 (ns_lineage_dropped v)]"

definition decode_lineage_response :: "lineage_response decoder" where
  "decode_lineage_response =
     dbind (r_enum8 is_valid_outcome outcome_of_code) (\<lambda>outcome.
     dbind (r_vector kMaxLineagePage 32 decode_lineage_item) (\<lambda>entries.
     dbind r_u64 (\<lambda>lineage_seen. dbind r_u64 (\<lambda>lineage_dropped.
     dret \<lparr>ns_outcome = outcome, ns_entries = entries, ns_lineage_seen = lineage_seen,
       ns_lineage_dropped = lineage_dropped\<rparr>))))"

record checkpoint_request =
  kq_token :: session_token

definition encode_checkpoint_request :: "checkpoint_request \<Rightarrow> writer \<Rightarrow> writer" where
  "encode_checkpoint_request v =
     wseq [encode_session_token (kq_token v)]"

definition decode_checkpoint_request :: "checkpoint_request decoder" where
  "decode_checkpoint_request =
     dbind decode_session_token (\<lambda>token.
     dret \<lparr>kq_token = token\<rparr>)"

record checkpoint_response =
  ks_outcome :: outcome
  ks_snapshot_seq :: u64

definition encode_checkpoint_response :: "checkpoint_response \<Rightarrow> writer \<Rightarrow> writer" where
  "encode_checkpoint_response v =
     wseq [w_u8 (outcome_code (ks_outcome v)), w_u64 (ks_snapshot_seq v)]"

definition decode_checkpoint_response :: "checkpoint_response decoder" where
  "decode_checkpoint_response =
     dbind (r_enum8 is_valid_outcome outcome_of_code) (\<lambda>outcome.
     dbind r_u64 (\<lambda>snapshot_seq.
     dret \<lparr>ks_outcome = outcome, ks_snapshot_seq = snapshot_seq\<rparr>))"

record stats_payload =
  sp_evidence_submitted :: u64
  sp_evidence_admitted :: u64
  sp_evidence_rejected :: u64
  sp_evaluations :: u64
  sp_decisions_committed :: u64
  sp_durable_commit_failures :: u64
  sp_fence_intents_issued :: u64
  sp_restorations_authorized :: u64
  sp_restorations_refused :: u64
  sp_refusals_fail_closed :: u64
  sp_ledger_seen :: u64
  sp_ledger_admitted :: u64
  sp_ledger_rejected :: u64
  sp_ledger_retained :: u64
  sp_ledger_dropped :: u64
  sp_fences_issue_attempts :: u64
  sp_fences_issued :: u64
  sp_fences_open :: u64
  sp_fences_revoked :: u64
  sp_fences_expired :: u64
  sp_fences_fenced_by_restart :: u64
  sp_sessions_established :: u64
  sp_sessions_rejected :: u64
  sp_requests_served :: u64
  sp_requests_rejected :: u64
  sp_frames_decoded :: u64
  sp_frames_rejected :: u64
  sp_boot_count :: u64
  sp_open_count :: u64
  sp_epoch :: u64
  sp_policy :: u64
  sp_policy_fingerprint :: u64
  sp_last_record :: u64
  sp_label :: provenance

definition encode_stats_payload :: "stats_payload \<Rightarrow> writer \<Rightarrow> writer" where
  "encode_stats_payload v =
     wseq [w_u64 (sp_evidence_submitted v), w_u64 (sp_evidence_admitted v),
       w_u64 (sp_evidence_rejected v), w_u64 (sp_evaluations v),
       w_u64 (sp_decisions_committed v), w_u64 (sp_durable_commit_failures v),
       w_u64 (sp_fence_intents_issued v), w_u64 (sp_restorations_authorized v),
       w_u64 (sp_restorations_refused v), w_u64 (sp_refusals_fail_closed v),
       w_u64 (sp_ledger_seen v), w_u64 (sp_ledger_admitted v), w_u64 (sp_ledger_rejected v),
       w_u64 (sp_ledger_retained v), w_u64 (sp_ledger_dropped v),
       w_u64 (sp_fences_issue_attempts v), w_u64 (sp_fences_issued v),
       w_u64 (sp_fences_open v), w_u64 (sp_fences_revoked v), w_u64 (sp_fences_expired v),
       w_u64 (sp_fences_fenced_by_restart v), w_u64 (sp_sessions_established v),
       w_u64 (sp_sessions_rejected v), w_u64 (sp_requests_served v),
       w_u64 (sp_requests_rejected v), w_u64 (sp_frames_decoded v),
       w_u64 (sp_frames_rejected v), w_u64 (sp_boot_count v), w_u64 (sp_open_count v),
       w_u64 (sp_epoch v), w_u64 (sp_policy v), w_u64 (sp_policy_fingerprint v),
       w_u64 (sp_last_record v), w_u8 (provenance_code (sp_label v))]"

definition decode_stats_payload :: "stats_payload decoder" where
  "decode_stats_payload =
     dbind r_u64 (\<lambda>evidence_submitted. dbind r_u64 (\<lambda>evidence_admitted.
     dbind r_u64 (\<lambda>evidence_rejected. dbind r_u64 (\<lambda>evaluations.
     dbind r_u64 (\<lambda>decisions_committed. dbind r_u64 (\<lambda>durable_commit_failures.
     dbind r_u64 (\<lambda>fence_intents_issued. dbind r_u64 (\<lambda>restorations_authorized.
     dbind r_u64 (\<lambda>restorations_refused. dbind r_u64 (\<lambda>refusals_fail_closed.
     dbind r_u64 (\<lambda>ledger_seen. dbind r_u64 (\<lambda>ledger_admitted.
     dbind r_u64 (\<lambda>ledger_rejected. dbind r_u64 (\<lambda>ledger_retained.
     dbind r_u64 (\<lambda>ledger_dropped. dbind r_u64 (\<lambda>fences_issue_attempts.
     dbind r_u64 (\<lambda>fences_issued. dbind r_u64 (\<lambda>fences_open.
     dbind r_u64 (\<lambda>fences_revoked. dbind r_u64 (\<lambda>fences_expired.
     dbind r_u64 (\<lambda>fences_fenced_by_restart.
     dbind r_u64 (\<lambda>sessions_established. dbind r_u64 (\<lambda>sessions_rejected.
     dbind r_u64 (\<lambda>requests_served. dbind r_u64 (\<lambda>requests_rejected.
     dbind r_u64 (\<lambda>frames_decoded. dbind r_u64 (\<lambda>frames_rejected.
     dbind r_u64 (\<lambda>boot_count. dbind r_u64 (\<lambda>open_count.
     dbind r_u64 (\<lambda>epoch. dbind r_u64 (\<lambda>policy.
     dbind r_u64 (\<lambda>policy_fingerprint. dbind r_u64 (\<lambda>last_record.
     dbind (r_enum8 is_valid_provenance provenance_of_code) (\<lambda>label.
     dret \<lparr>sp_evidence_submitted = evidence_submitted, sp_evidence_admitted = evidence_admitted,
       sp_evidence_rejected = evidence_rejected, sp_evaluations = evaluations,
       sp_decisions_committed = decisions_committed,
       sp_durable_commit_failures = durable_commit_failures,
       sp_fence_intents_issued = fence_intents_issued,
       sp_restorations_authorized = restorations_authorized,
       sp_restorations_refused = restorations_refused,
       sp_refusals_fail_closed = refusals_fail_closed, sp_ledger_seen = ledger_seen,
       sp_ledger_admitted = ledger_admitted, sp_ledger_rejected = ledger_rejected,
       sp_ledger_retained = ledger_retained, sp_ledger_dropped = ledger_dropped,
       sp_fences_issue_attempts = fences_issue_attempts, sp_fences_issued = fences_issued,
       sp_fences_open = fences_open, sp_fences_revoked = fences_revoked,
       sp_fences_expired = fences_expired,
       sp_fences_fenced_by_restart = fences_fenced_by_restart,
       sp_sessions_established = sessions_established,
       sp_sessions_rejected = sessions_rejected, sp_requests_served = requests_served,
       sp_requests_rejected = requests_rejected, sp_frames_decoded = frames_decoded,
       sp_frames_rejected = frames_rejected, sp_boot_count = boot_count,
       sp_open_count = open_count, sp_epoch = epoch, sp_policy = policy,
       sp_policy_fingerprint = policy_fingerprint, sp_last_record = last_record,
       sp_label = label\<rparr>))))))))))))))))))))))))))))))))))"

record stats_request =
  vq_token :: session_token

definition encode_stats_request :: "stats_request \<Rightarrow> writer \<Rightarrow> writer" where
  "encode_stats_request v =
     wseq [encode_session_token (vq_token v)]"

definition decode_stats_request :: "stats_request decoder" where
  "decode_stats_request =
     dbind decode_session_token (\<lambda>token.
     dret \<lparr>vq_token = token\<rparr>)"

record stats_response =
  vs_outcome :: outcome
  vs_stats :: stats_payload

definition encode_stats_response :: "stats_response \<Rightarrow> writer \<Rightarrow> writer" where
  "encode_stats_response v =
     wseq [w_u8 (outcome_code (vs_outcome v)), encode_stats_payload (vs_stats v)]"

definition decode_stats_response :: "stats_response decoder" where
  "decode_stats_response =
     dbind (r_enum8 is_valid_outcome outcome_of_code) (\<lambda>outcome.
     dbind decode_stats_payload (\<lambda>stats.
     dret \<lparr>vs_outcome = outcome, vs_stats = stats\<rparr>))"

record goodbye_request =
  gq_token :: session_token

definition encode_goodbye_request :: "goodbye_request \<Rightarrow> writer \<Rightarrow> writer" where
  "encode_goodbye_request v =
     wseq [encode_session_token (gq_token v)]"

definition decode_goodbye_request :: "goodbye_request decoder" where
  "decode_goodbye_request =
     dbind decode_session_token (\<lambda>token.
     dret \<lparr>gq_token = token\<rparr>)"

record goodbye_response =
  gs_outcome :: outcome

definition encode_goodbye_response :: "goodbye_response \<Rightarrow> writer \<Rightarrow> writer" where
  "encode_goodbye_response v =
     wseq [w_u8 (outcome_code (gs_outcome v))]"

definition decode_goodbye_response :: "goodbye_response decoder" where
  "decode_goodbye_response =
     dbind (r_enum8 is_valid_outcome outcome_of_code) (\<lambda>outcome.
     dret \<lparr>gs_outcome = outcome\<rparr>)"

record error_response =
  er_outcome :: outcome
  er_reason :: reason_code
  er_detail :: bytes

definition encode_error_response :: "error_response \<Rightarrow> writer \<Rightarrow> writer" where
  "encode_error_response v =
     wseq [w_u8 (outcome_code (er_outcome v)), w_u16 (reason_code_code (er_reason v)),
       w_string (er_detail v) kMaxDetailBytes]"

definition decode_error_response :: "error_response decoder" where
  "decode_error_response =
     dbind (r_enum8 is_valid_outcome outcome_of_code) (\<lambda>outcome.
     dbind (decode_enum is_valid_reason_code reason_code_of_code) (\<lambda>reason.
     dbind (r_string kMaxDetailBytes) (\<lambda>detail.
     dret \<lparr>er_outcome = outcome, er_reason = reason, er_detail = detail\<rparr>)))"


definition sp_accounting_closed :: "stats_payload \<Rightarrow> bool" where
  "sp_accounting_closed s \<longleftrightarrow>
     sp_evidence_submitted s = sp_evidence_admitted s + sp_evidence_rejected s \<and>
     sp_evaluations s = sp_decisions_committed s + sp_durable_commit_failures s \<and>
     sp_ledger_seen s = sp_ledger_admitted s + sp_ledger_rejected s \<and>
     sp_requests_served s + sp_requests_rejected s > 0"

subsection \<open>Wire layout\<close>

definition wire_string :: "bytes \<Rightarrow> bytes" where
  "wire_string s = le_bytes 4 (of_nat (length s) :: u32) @ s"

definition wire_probe :: "hop_probe \<Rightarrow> bytes" where
  "wire_probe p = concat [le_bytes 4 (hp_begin_hop p), le_bytes 4 (hp_end_hop p), [if hp_success p then 1 else 0]]"

definition wire_session_token :: "session_token \<Rightarrow> bytes" where
  "wire_session_token v = concat
    [le_bytes 8 (tk_session v), le_bytes 8 (tk_request v), le_bytes 8 (tk_seq v),
     le_bytes 8 (tk_client_boot v), le_bytes 8 (tk_client_incarnation v)]"

definition wire_hello_request :: "hello_request \<Rightarrow> bytes" where
  "wire_hello_request v = concat
    [wire_session_token (hq_token v), wire_string (hq_client_name v),
     [provenance_code (hq_label v)]]"

definition wire_hello_response :: "hello_response \<Rightarrow> bytes" where
  "wire_hello_response v = concat
    [le_bytes 8 (hs_session v), le_bytes 8 (hs_server_boot v),
     le_bytes 8 (hs_server_incarnation v), le_bytes 8 (hs_epoch v), le_bytes 8 (hs_policy v),
     le_bytes 8 (hs_policy_fingerprint v), le_bytes 2 (hs_protocol_version v),
     [provenance_code (hs_label v)]]"

definition wire_submit_evidence_request :: "submit_evidence_request \<Rightarrow> bytes" where
  "wire_submit_evidence_request v = concat
    [wire_session_token (sq_token v), wire_evidence (sq_evidence v)]"

definition wire_submit_evidence_response :: "submit_evidence_response \<Rightarrow> bytes" where
  "wire_submit_evidence_response v = concat
    [[outcome_code (ss_outcome v)], [admission_code (ss_admission v)],
     le_bytes 2 (reason_code_code (ss_reason v))]"

definition wire_evaluate_request :: "evaluate_request \<Rightarrow> bytes" where
  "wire_evaluate_request v = concat
    [wire_session_token (eq_token v), wire_scope (eq_scope v),
     wire_generation_vector (eq_gens v)]"

definition wire_evaluate_response :: "evaluate_response \<Rightarrow> bytes" where
  "wire_evaluate_response v = concat
    [[outcome_code (es_outcome v)], wire_decision (es_decision v)]"

definition wire_localize_request :: "localize_request \<Rightarrow> bytes" where
  "wire_localize_request v = concat
    [wire_session_token (lq_token v), wire_scope (lq_scope v),
     wire_generation_vector (lq_gens v), le_bytes 4 (lq_hop_count v),
     wire_vector wire_probe (lq_probes v)]"

definition wire_localize_response :: "localize_response \<Rightarrow> bytes" where
  "wire_localize_response v = concat
    [[outcome_code (ls_outcome v)], wire_decision (ls_decision v)]"

definition wire_ack_fence_request :: "ack_fence_request \<Rightarrow> bytes" where
  "wire_ack_fence_request v = concat
    [wire_session_token (aq_token v), le_bytes 8 (aq_fence v), le_bytes 8 (aq_downstream v)]"

definition wire_ack_fence_response :: "ack_fence_response \<Rightarrow> bytes" where
  "wire_ack_fence_response v = concat
    [[outcome_code (as_outcome v)], le_bytes 2 (reason_code_code (as_reason v))]"

definition wire_report_effect_request :: "report_effect_request \<Rightarrow> bytes" where
  "wire_report_effect_request v = concat
    [wire_session_token (rq_token v), le_bytes 8 (rq_fence v), le_bytes 8 (rq_downstream v),
     [if rq_verified v then 1 else 0]]"

definition wire_report_effect_response :: "report_effect_response \<Rightarrow> bytes" where
  "wire_report_effect_response v = concat
    [[outcome_code (rs_outcome v)], le_bytes 2 (reason_code_code (rs_reason v))]"

definition wire_restore_request :: "restore_request \<Rightarrow> bytes" where
  "wire_restore_request v = concat
    [wire_session_token (tq_token v), wire_scope (tq_scope v),
     wire_generation_vector (tq_gens v)]"

definition wire_restore_response :: "restore_response \<Rightarrow> bytes" where
  "wire_restore_response v = concat
    [[outcome_code (ts_outcome v)], wire_decision (ts_decision v)]"

definition wire_lineage_request :: "lineage_request \<Rightarrow> bytes" where
  "wire_lineage_request v = concat
    [wire_session_token (nq_token v), le_bytes 4 (nq_limit v)]"

definition wire_lineage_response :: "lineage_response \<Rightarrow> bytes" where
  "wire_lineage_response v = concat
    [[outcome_code (ns_outcome v)], wire_vector wire_lineage_entry (ns_entries v),
     le_bytes 8 (ns_lineage_seen v), le_bytes 8 (ns_lineage_dropped v)]"

definition wire_checkpoint_request :: "checkpoint_request \<Rightarrow> bytes" where
  "wire_checkpoint_request v = concat
    [wire_session_token (kq_token v)]"

definition wire_checkpoint_response :: "checkpoint_response \<Rightarrow> bytes" where
  "wire_checkpoint_response v = concat
    [[outcome_code (ks_outcome v)], le_bytes 8 (ks_snapshot_seq v)]"

definition wire_stats_payload :: "stats_payload \<Rightarrow> bytes" where
  "wire_stats_payload v = concat
    [le_bytes 8 (sp_evidence_submitted v), le_bytes 8 (sp_evidence_admitted v),
     le_bytes 8 (sp_evidence_rejected v), le_bytes 8 (sp_evaluations v),
     le_bytes 8 (sp_decisions_committed v), le_bytes 8 (sp_durable_commit_failures v),
     le_bytes 8 (sp_fence_intents_issued v), le_bytes 8 (sp_restorations_authorized v),
     le_bytes 8 (sp_restorations_refused v), le_bytes 8 (sp_refusals_fail_closed v),
     le_bytes 8 (sp_ledger_seen v), le_bytes 8 (sp_ledger_admitted v),
     le_bytes 8 (sp_ledger_rejected v), le_bytes 8 (sp_ledger_retained v),
     le_bytes 8 (sp_ledger_dropped v), le_bytes 8 (sp_fences_issue_attempts v),
     le_bytes 8 (sp_fences_issued v), le_bytes 8 (sp_fences_open v),
     le_bytes 8 (sp_fences_revoked v), le_bytes 8 (sp_fences_expired v),
     le_bytes 8 (sp_fences_fenced_by_restart v), le_bytes 8 (sp_sessions_established v),
     le_bytes 8 (sp_sessions_rejected v), le_bytes 8 (sp_requests_served v),
     le_bytes 8 (sp_requests_rejected v), le_bytes 8 (sp_frames_decoded v),
     le_bytes 8 (sp_frames_rejected v), le_bytes 8 (sp_boot_count v),
     le_bytes 8 (sp_open_count v), le_bytes 8 (sp_epoch v), le_bytes 8 (sp_policy v),
     le_bytes 8 (sp_policy_fingerprint v), le_bytes 8 (sp_last_record v),
     [provenance_code (sp_label v)]]"

definition wire_stats_request :: "stats_request \<Rightarrow> bytes" where
  "wire_stats_request v = concat
    [wire_session_token (vq_token v)]"

definition wire_stats_response :: "stats_response \<Rightarrow> bytes" where
  "wire_stats_response v = concat
    [[outcome_code (vs_outcome v)], wire_stats_payload (vs_stats v)]"

definition wire_goodbye_request :: "goodbye_request \<Rightarrow> bytes" where
  "wire_goodbye_request v = concat
    [wire_session_token (gq_token v)]"

definition wire_goodbye_response :: "goodbye_response \<Rightarrow> bytes" where
  "wire_goodbye_response v = concat
    [[outcome_code (gs_outcome v)]]"

definition wire_error_response :: "error_response \<Rightarrow> bytes" where
  "wire_error_response v = concat
    [[outcome_code (er_outcome v)], le_bytes 2 (reason_code_code (er_reason v)),
     wire_string (er_detail v)]"

subsection \<open>Round trips\<close>

lemmas message_limits = kMaxDetailBytes_def kMaxClientNameBytes_def kMaxLineagePage_def kMaxProbesPerRequest_def
  kMaxLocalizationSets_def

lemmas message_enums = store_enums admission_enum.wire_enum_axioms

lemma rt_text [codec_intros]: "length s \<le> m \<Longrightarrow> m < 2 ^ 32 \<Longrightarrow> rt (w_string s m) (r_string m) s (wire_string s)"
  unfolding wire_string_def by (rule rt_string)

lemma rt_probe: "rt (encode_probe v) decode_probe v (wire_probe v)"
  unfolding encode_probe_def decode_probe_def wire_probe_def
  by (rule rt_eq) ((rule codec_intros | simp)+)

lemma dsafe_probes [decoder_safe]: "dsafe decode_probes"
  unfolding decode_probes_def decode_probe_def by (intro decoder_safe)

lemma rt_probes: "length ps \<le> 64 \<Longrightarrow> rt (encode_probes ps) decode_probes ps (wire_vector wire_probe ps)"
proof -
  assume n: "length ps \<le> 64"
  have "rt (w_vector encode_probe ps) (r_vector kMaxProbesPerRequest 9 decode_probe) ps (wire_vector wire_probe ps)"
    by (rule rt_vector_counted) (use n rt_probe in \<open>simp_all add: wire_probe_def message_limits\<close>)
  then show ?thesis using n by (simp add: encode_probes_def decode_probes_def message_limits)
qed

lemma rt_lineage_page: "length es \<le> 512 \<Longrightarrow>
    rt (w_vector encode_lineage_item es) (r_vector kMaxLineagePage 32 decode_lineage_item) es
      (wire_vector wire_lineage_entry es)"
  unfolding lineage_item_agrees
  by (rule rt_vector_counted) (auto simp: message_limits intro: rt_lineage_entry)

lemma session_token_eta:
  "\<lparr>tk_session = tk_session v, tk_request = tk_request v, tk_seq = tk_seq v,
    tk_client_boot = tk_client_boot v, tk_client_incarnation = tk_client_incarnation v\<rparr> = v"
  by simp

lemma rt_session_token [codec_intros]:
  "rt (encode_session_token v) decode_session_token v (wire_session_token v)"
  unfolding encode_session_token_def decode_session_token_def wire_session_token_def Let_def
  by (rule rt_eq) ((rule codec_intros message_enums | simp add: session_token_eta)+)

lemma dsafe_session_token [decoder_safe]: "dsafe decode_session_token"
  unfolding decode_session_token_def Let_def by (intro decoder_safe; simp)

lemma hello_request_eta:
  "\<lparr>hq_token = hq_token v, hq_client_name = hq_client_name v, hq_label = hq_label v\<rparr> = v"
  by simp

lemma rt_hello_request [codec_intros]:
  "length (hq_client_name v) \<le> 64 \<Longrightarrow> rt (encode_hello_request v) decode_hello_request v (wire_hello_request v)"
  unfolding encode_hello_request_def decode_hello_request_def wire_hello_request_def Let_def
  by (rule rt_eq) ((rule codec_intros message_enums | simp add: hello_request_eta message_limits)+)

lemma dsafe_hello_request [decoder_safe]: "dsafe decode_hello_request"
  unfolding decode_hello_request_def Let_def by (intro decoder_safe; simp)

lemma hello_response_eta:
  "\<lparr>hs_session = hs_session v, hs_server_boot = hs_server_boot v,
    hs_server_incarnation = hs_server_incarnation v, hs_epoch = hs_epoch v,
    hs_policy = hs_policy v, hs_policy_fingerprint = hs_policy_fingerprint v,
    hs_protocol_version = hs_protocol_version v, hs_label = hs_label v\<rparr> = v"
  by simp

lemma rt_hello_response [codec_intros]:
  "rt (encode_hello_response v) decode_hello_response v (wire_hello_response v)"
  unfolding encode_hello_response_def decode_hello_response_def wire_hello_response_def Let_def
  by (rule rt_eq) ((rule codec_intros message_enums | simp add: hello_response_eta)+)

lemma dsafe_hello_response [decoder_safe]: "dsafe decode_hello_response"
  unfolding decode_hello_response_def Let_def by (intro decoder_safe; simp)

lemma submit_evidence_request_eta:
  "\<lparr>sq_token = sq_token v, sq_evidence = sq_evidence v\<rparr> = v"
  by simp

lemma rt_submit_evidence_request [codec_intros]:
  "structurally_valid (sq_evidence v) \<Longrightarrow> rt (encode_submit_evidence_request v) decode_submit_evidence_request v (wire_submit_evidence_request v)"
  unfolding encode_submit_evidence_request_def decode_submit_evidence_request_def wire_submit_evidence_request_def Let_def
  by (rule rt_eq) ((rule codec_intros message_enums | simp add: submit_evidence_request_eta)+)

lemma dsafe_submit_evidence_request [decoder_safe]: "dsafe decode_submit_evidence_request"
  unfolding decode_submit_evidence_request_def Let_def by (intro decoder_safe; simp)

lemma submit_evidence_response_eta:
  "\<lparr>ss_outcome = ss_outcome v, ss_admission = ss_admission v, ss_reason = ss_reason v\<rparr> = v"
  by simp

lemma rt_submit_evidence_response [codec_intros]:
  "rt (encode_submit_evidence_response v) decode_submit_evidence_response v (wire_submit_evidence_response v)"
  unfolding encode_submit_evidence_response_def decode_submit_evidence_response_def wire_submit_evidence_response_def Let_def
  by (rule rt_eq) ((rule codec_intros message_enums | simp add: submit_evidence_response_eta)+)

lemma dsafe_submit_evidence_response [decoder_safe]: "dsafe decode_submit_evidence_response"
  unfolding decode_submit_evidence_response_def Let_def by (intro decoder_safe; simp)

lemma evaluate_request_eta:
  "\<lparr>eq_token = eq_token v, eq_scope = eq_scope v, eq_gens = eq_gens v\<rparr> = v"
  by simp

lemma rt_evaluate_request [codec_intros]:
  "rt (encode_evaluate_request v) decode_evaluate_request v (wire_evaluate_request v)"
  unfolding encode_evaluate_request_def decode_evaluate_request_def wire_evaluate_request_def Let_def
  by (rule rt_eq) ((rule codec_intros message_enums | simp add: evaluate_request_eta)+)

lemma dsafe_evaluate_request [decoder_safe]: "dsafe decode_evaluate_request"
  unfolding decode_evaluate_request_def Let_def by (intro decoder_safe; simp)

lemma evaluate_response_eta:
  "\<lparr>es_outcome = es_outcome v, es_decision = es_decision v\<rparr> = v"
  by simp

lemma rt_evaluate_response [codec_intros]:
  "d_admissible (es_decision v) \<Longrightarrow> rt (encode_evaluate_response v) decode_evaluate_response v (wire_evaluate_response v)"
  unfolding encode_evaluate_response_def decode_evaluate_response_def wire_evaluate_response_def Let_def
  by (rule rt_eq) ((rule codec_intros message_enums | simp add: evaluate_response_eta)+)

lemma dsafe_evaluate_response [decoder_safe]: "dsafe decode_evaluate_response"
  unfolding decode_evaluate_response_def Let_def by (intro decoder_safe; simp)

lemma localize_request_eta:
  "\<lparr>lq_token = lq_token v, lq_scope = lq_scope v, lq_gens = lq_gens v,
    lq_hop_count = lq_hop_count v, lq_probes = lq_probes v\<rparr> = v"
  by simp

lemma rt_localize_request [codec_intros]:
  "length (lq_probes v) \<le> 64 \<Longrightarrow> rt (encode_localize_request v) decode_localize_request v (wire_localize_request v)"
  unfolding encode_localize_request_def decode_localize_request_def wire_localize_request_def Let_def
  by (rule rt_eq) ((rule codec_intros rt_probes message_enums | simp add: localize_request_eta)+)

lemma dsafe_localize_request [decoder_safe]: "dsafe decode_localize_request"
  unfolding decode_localize_request_def Let_def by (intro decoder_safe; simp)

lemma localize_response_eta:
  "\<lparr>ls_outcome = ls_outcome v, ls_decision = ls_decision v\<rparr> = v"
  by simp

lemma rt_localize_response [codec_intros]:
  "d_admissible (ls_decision v) \<Longrightarrow> rt (encode_localize_response v) decode_localize_response v (wire_localize_response v)"
  unfolding encode_localize_response_def decode_localize_response_def wire_localize_response_def Let_def
  by (rule rt_eq) ((rule codec_intros message_enums | simp add: localize_response_eta)+)

lemma dsafe_localize_response [decoder_safe]: "dsafe decode_localize_response"
  unfolding decode_localize_response_def Let_def by (intro decoder_safe; simp)

lemma ack_fence_request_eta:
  "\<lparr>aq_token = aq_token v, aq_fence = aq_fence v, aq_downstream = aq_downstream v\<rparr> = v"
  by simp

lemma rt_ack_fence_request [codec_intros]:
  "rt (encode_ack_fence_request v) decode_ack_fence_request v (wire_ack_fence_request v)"
  unfolding encode_ack_fence_request_def decode_ack_fence_request_def wire_ack_fence_request_def Let_def
  by (rule rt_eq) ((rule codec_intros message_enums | simp add: ack_fence_request_eta)+)

lemma dsafe_ack_fence_request [decoder_safe]: "dsafe decode_ack_fence_request"
  unfolding decode_ack_fence_request_def Let_def by (intro decoder_safe; simp)

lemma ack_fence_response_eta:
  "\<lparr>as_outcome = as_outcome v, as_reason = as_reason v\<rparr> = v"
  by simp

lemma rt_ack_fence_response [codec_intros]:
  "rt (encode_ack_fence_response v) decode_ack_fence_response v (wire_ack_fence_response v)"
  unfolding encode_ack_fence_response_def decode_ack_fence_response_def wire_ack_fence_response_def Let_def
  by (rule rt_eq) ((rule codec_intros message_enums | simp add: ack_fence_response_eta)+)

lemma dsafe_ack_fence_response [decoder_safe]: "dsafe decode_ack_fence_response"
  unfolding decode_ack_fence_response_def Let_def by (intro decoder_safe; simp)

lemma report_effect_request_eta:
  "\<lparr>rq_token = rq_token v, rq_fence = rq_fence v, rq_downstream = rq_downstream v,
    rq_verified = rq_verified v\<rparr> = v"
  by simp

lemma rt_report_effect_request [codec_intros]:
  "rt (encode_report_effect_request v) decode_report_effect_request v (wire_report_effect_request v)"
  unfolding encode_report_effect_request_def decode_report_effect_request_def wire_report_effect_request_def Let_def
  by (rule rt_eq) ((rule codec_intros message_enums | simp add: report_effect_request_eta)+)

lemma dsafe_report_effect_request [decoder_safe]: "dsafe decode_report_effect_request"
  unfolding decode_report_effect_request_def Let_def by (intro decoder_safe; simp)

lemma report_effect_response_eta:
  "\<lparr>rs_outcome = rs_outcome v, rs_reason = rs_reason v\<rparr> = v"
  by simp

lemma rt_report_effect_response [codec_intros]:
  "rt (encode_report_effect_response v) decode_report_effect_response v (wire_report_effect_response v)"
  unfolding encode_report_effect_response_def decode_report_effect_response_def wire_report_effect_response_def Let_def
  by (rule rt_eq) ((rule codec_intros message_enums | simp add: report_effect_response_eta)+)

lemma dsafe_report_effect_response [decoder_safe]: "dsafe decode_report_effect_response"
  unfolding decode_report_effect_response_def Let_def by (intro decoder_safe; simp)

lemma restore_request_eta:
  "\<lparr>tq_token = tq_token v, tq_scope = tq_scope v, tq_gens = tq_gens v\<rparr> = v"
  by simp

lemma rt_restore_request [codec_intros]:
  "rt (encode_restore_request v) decode_restore_request v (wire_restore_request v)"
  unfolding encode_restore_request_def decode_restore_request_def wire_restore_request_def Let_def
  by (rule rt_eq) ((rule codec_intros message_enums | simp add: restore_request_eta)+)

lemma dsafe_restore_request [decoder_safe]: "dsafe decode_restore_request"
  unfolding decode_restore_request_def Let_def by (intro decoder_safe; simp)

lemma restore_response_eta:
  "\<lparr>ts_outcome = ts_outcome v, ts_decision = ts_decision v\<rparr> = v"
  by simp

lemma rt_restore_response [codec_intros]:
  "d_admissible (ts_decision v) \<Longrightarrow> rt (encode_restore_response v) decode_restore_response v (wire_restore_response v)"
  unfolding encode_restore_response_def decode_restore_response_def wire_restore_response_def Let_def
  by (rule rt_eq) ((rule codec_intros message_enums | simp add: restore_response_eta)+)

lemma dsafe_restore_response [decoder_safe]: "dsafe decode_restore_response"
  unfolding decode_restore_response_def Let_def by (intro decoder_safe; simp)

lemma lineage_request_eta:
  "\<lparr>nq_token = nq_token v, nq_limit = nq_limit v\<rparr> = v"
  by simp

lemma rt_lineage_request [codec_intros]:
  "nq_limit v \<le> 512 \<Longrightarrow> rt (encode_lineage_request v) decode_lineage_request v (wire_lineage_request v)"
  unfolding encode_lineage_request_def decode_lineage_request_def wire_lineage_request_def Let_def
  by (rule rt_eq) ((rule codec_intros message_enums | simp add: lineage_request_eta message_limits not_less)+)

lemma dsafe_lineage_request [decoder_safe]: "dsafe decode_lineage_request"
  unfolding decode_lineage_request_def Let_def by (intro decoder_safe; simp)

lemma lineage_response_eta:
  "\<lparr>ns_outcome = ns_outcome v, ns_entries = ns_entries v,
    ns_lineage_seen = ns_lineage_seen v, ns_lineage_dropped = ns_lineage_dropped v\<rparr> = v"
  by simp

lemma rt_lineage_response [codec_intros]:
  "length (ns_entries v) \<le> 512 \<Longrightarrow> rt (encode_lineage_response v) decode_lineage_response v (wire_lineage_response v)"
  unfolding encode_lineage_response_def decode_lineage_response_def wire_lineage_response_def Let_def
  by (rule rt_eq) ((rule codec_intros rt_lineage_page message_enums | simp add: lineage_response_eta)+)

lemma dsafe_lineage_response [decoder_safe]: "dsafe decode_lineage_response"
  unfolding decode_lineage_response_def lineage_item_agrees Let_def by (intro decoder_safe; simp)

lemma checkpoint_request_eta:
  "\<lparr>kq_token = kq_token v\<rparr> = v"
  by simp

lemma rt_checkpoint_request [codec_intros]:
  "rt (encode_checkpoint_request v) decode_checkpoint_request v (wire_checkpoint_request v)"
  unfolding encode_checkpoint_request_def decode_checkpoint_request_def wire_checkpoint_request_def Let_def
  by (rule rt_eq) ((rule codec_intros message_enums | simp add: checkpoint_request_eta)+)

lemma dsafe_checkpoint_request [decoder_safe]: "dsafe decode_checkpoint_request"
  unfolding decode_checkpoint_request_def Let_def by (intro decoder_safe; simp)

lemma checkpoint_response_eta:
  "\<lparr>ks_outcome = ks_outcome v, ks_snapshot_seq = ks_snapshot_seq v\<rparr> = v"
  by simp

lemma rt_checkpoint_response [codec_intros]:
  "rt (encode_checkpoint_response v) decode_checkpoint_response v (wire_checkpoint_response v)"
  unfolding encode_checkpoint_response_def decode_checkpoint_response_def wire_checkpoint_response_def Let_def
  by (rule rt_eq) ((rule codec_intros message_enums | simp add: checkpoint_response_eta)+)

lemma dsafe_checkpoint_response [decoder_safe]: "dsafe decode_checkpoint_response"
  unfolding decode_checkpoint_response_def Let_def by (intro decoder_safe; simp)

lemma stats_payload_eta:
  "\<lparr>sp_evidence_submitted = sp_evidence_submitted v,
    sp_evidence_admitted = sp_evidence_admitted v,
    sp_evidence_rejected = sp_evidence_rejected v, sp_evaluations = sp_evaluations v,
    sp_decisions_committed = sp_decisions_committed v,
    sp_durable_commit_failures = sp_durable_commit_failures v,
    sp_fence_intents_issued = sp_fence_intents_issued v,
    sp_restorations_authorized = sp_restorations_authorized v,
    sp_restorations_refused = sp_restorations_refused v,
    sp_refusals_fail_closed = sp_refusals_fail_closed v, sp_ledger_seen = sp_ledger_seen v,
    sp_ledger_admitted = sp_ledger_admitted v, sp_ledger_rejected = sp_ledger_rejected v,
    sp_ledger_retained = sp_ledger_retained v, sp_ledger_dropped = sp_ledger_dropped v,
    sp_fences_issue_attempts = sp_fences_issue_attempts v,
    sp_fences_issued = sp_fences_issued v, sp_fences_open = sp_fences_open v,
    sp_fences_revoked = sp_fences_revoked v, sp_fences_expired = sp_fences_expired v,
    sp_fences_fenced_by_restart = sp_fences_fenced_by_restart v,
    sp_sessions_established = sp_sessions_established v,
    sp_sessions_rejected = sp_sessions_rejected v, sp_requests_served = sp_requests_served v,
    sp_requests_rejected = sp_requests_rejected v, sp_frames_decoded = sp_frames_decoded v,
    sp_frames_rejected = sp_frames_rejected v, sp_boot_count = sp_boot_count v,
    sp_open_count = sp_open_count v, sp_epoch = sp_epoch v, sp_policy = sp_policy v,
    sp_policy_fingerprint = sp_policy_fingerprint v, sp_last_record = sp_last_record v,
    sp_label = sp_label v\<rparr> = v"
  by simp

lemma rt_stats_payload [codec_intros]:
  "rt (encode_stats_payload v) decode_stats_payload v (wire_stats_payload v)"
  unfolding encode_stats_payload_def decode_stats_payload_def wire_stats_payload_def Let_def
  by (rule rt_eq) ((rule codec_intros message_enums | simp add: stats_payload_eta)+)

lemma dsafe_stats_payload [decoder_safe]: "dsafe decode_stats_payload"
  unfolding decode_stats_payload_def Let_def by (intro decoder_safe; simp)

lemma stats_request_eta:
  "\<lparr>vq_token = vq_token v\<rparr> = v"
  by simp

lemma rt_stats_request [codec_intros]:
  "rt (encode_stats_request v) decode_stats_request v (wire_stats_request v)"
  unfolding encode_stats_request_def decode_stats_request_def wire_stats_request_def Let_def
  by (rule rt_eq) ((rule codec_intros message_enums | simp add: stats_request_eta)+)

lemma dsafe_stats_request [decoder_safe]: "dsafe decode_stats_request"
  unfolding decode_stats_request_def Let_def by (intro decoder_safe; simp)

lemma stats_response_eta:
  "\<lparr>vs_outcome = vs_outcome v, vs_stats = vs_stats v\<rparr> = v"
  by simp

lemma rt_stats_response [codec_intros]:
  "rt (encode_stats_response v) decode_stats_response v (wire_stats_response v)"
  unfolding encode_stats_response_def decode_stats_response_def wire_stats_response_def Let_def
  by (rule rt_eq) ((rule codec_intros message_enums | simp add: stats_response_eta)+)

lemma dsafe_stats_response [decoder_safe]: "dsafe decode_stats_response"
  unfolding decode_stats_response_def Let_def by (intro decoder_safe; simp)

lemma goodbye_request_eta:
  "\<lparr>gq_token = gq_token v\<rparr> = v"
  by simp

lemma rt_goodbye_request [codec_intros]:
  "rt (encode_goodbye_request v) decode_goodbye_request v (wire_goodbye_request v)"
  unfolding encode_goodbye_request_def decode_goodbye_request_def wire_goodbye_request_def Let_def
  by (rule rt_eq) ((rule codec_intros message_enums | simp add: goodbye_request_eta)+)

lemma dsafe_goodbye_request [decoder_safe]: "dsafe decode_goodbye_request"
  unfolding decode_goodbye_request_def Let_def by (intro decoder_safe; simp)

lemma goodbye_response_eta:
  "\<lparr>gs_outcome = gs_outcome v\<rparr> = v"
  by simp

lemma rt_goodbye_response [codec_intros]:
  "rt (encode_goodbye_response v) decode_goodbye_response v (wire_goodbye_response v)"
  unfolding encode_goodbye_response_def decode_goodbye_response_def wire_goodbye_response_def Let_def
  by (rule rt_eq) ((rule codec_intros message_enums | simp add: goodbye_response_eta)+)

lemma dsafe_goodbye_response [decoder_safe]: "dsafe decode_goodbye_response"
  unfolding decode_goodbye_response_def Let_def by (intro decoder_safe; simp)

lemma error_response_eta:
  "\<lparr>er_outcome = er_outcome v, er_reason = er_reason v, er_detail = er_detail v\<rparr> = v"
  by simp

lemma rt_error_response [codec_intros]:
  "length (er_detail v) \<le> 192 \<Longrightarrow> rt (encode_error_response v) decode_error_response v (wire_error_response v)"
  unfolding encode_error_response_def decode_error_response_def wire_error_response_def Let_def
  by (rule rt_eq) ((rule codec_intros message_enums | simp add: error_response_eta message_limits)+)

lemma dsafe_error_response [decoder_safe]: "dsafe decode_error_response"
  unfolding decode_error_response_def Let_def by (intro decoder_safe; simp)


subsection \<open>Messages by type\<close>

datatype message =
    HelloRequest hello_request | HelloResponse hello_response
  | SubmitEvidenceRequest submit_evidence_request
  | SubmitEvidenceResponse submit_evidence_response | EvaluateRequest evaluate_request
  | EvaluateResponse evaluate_response | LocalizeRequest localize_request
  | LocalizeResponse localize_response | AckFenceRequest ack_fence_request
  | AckFenceResponse ack_fence_response | ReportEffectRequest report_effect_request
  | ReportEffectResponse report_effect_response | RestoreRequest restore_request
  | RestoreResponse restore_response | LineageRequest lineage_request
  | LineageResponse lineage_response | CheckpointRequest checkpoint_request
  | CheckpointResponse checkpoint_response | StatsRequest stats_request
  | StatsResponse stats_response | GoodbyeRequest goodbye_request
  | GoodbyeResponse goodbye_response | ErrorResponse error_response

fun message_type_of :: "message \<Rightarrow> message_type" where
  "message_type_of (HelloRequest v) = M_HelloRequest"
| "message_type_of (HelloResponse v) = M_HelloResponse"
| "message_type_of (SubmitEvidenceRequest v) = M_SubmitEvidenceRequest"
| "message_type_of (SubmitEvidenceResponse v) = M_SubmitEvidenceResponse"
| "message_type_of (EvaluateRequest v) = M_EvaluateRequest"
| "message_type_of (EvaluateResponse v) = M_EvaluateResponse"
| "message_type_of (LocalizeRequest v) = M_LocalizeRequest"
| "message_type_of (LocalizeResponse v) = M_LocalizeResponse"
| "message_type_of (AckFenceRequest v) = M_AckFenceRequest"
| "message_type_of (AckFenceResponse v) = M_AckFenceResponse"
| "message_type_of (ReportEffectRequest v) = M_ReportEffectRequest"
| "message_type_of (ReportEffectResponse v) = M_ReportEffectResponse"
| "message_type_of (RestoreRequest v) = M_RestoreRequest"
| "message_type_of (RestoreResponse v) = M_RestoreResponse"
| "message_type_of (LineageRequest v) = M_LineageRequest"
| "message_type_of (LineageResponse v) = M_LineageResponse"
| "message_type_of (CheckpointRequest v) = M_CheckpointRequest"
| "message_type_of (CheckpointResponse v) = M_CheckpointResponse"
| "message_type_of (StatsRequest v) = M_StatsRequest"
| "message_type_of (StatsResponse v) = M_StatsResponse"
| "message_type_of (GoodbyeRequest v) = M_GoodbyeRequest"
| "message_type_of (GoodbyeResponse v) = M_GoodbyeResponse"
| "message_type_of (ErrorResponse v) = M_ErrorResponse"

fun encode_message :: "message \<Rightarrow> writer \<Rightarrow> writer" where
  "encode_message (HelloRequest v) = encode_hello_request v"
| "encode_message (HelloResponse v) = encode_hello_response v"
| "encode_message (SubmitEvidenceRequest v) = encode_submit_evidence_request v"
| "encode_message (SubmitEvidenceResponse v) = encode_submit_evidence_response v"
| "encode_message (EvaluateRequest v) = encode_evaluate_request v"
| "encode_message (EvaluateResponse v) = encode_evaluate_response v"
| "encode_message (LocalizeRequest v) = encode_localize_request v"
| "encode_message (LocalizeResponse v) = encode_localize_response v"
| "encode_message (AckFenceRequest v) = encode_ack_fence_request v"
| "encode_message (AckFenceResponse v) = encode_ack_fence_response v"
| "encode_message (ReportEffectRequest v) = encode_report_effect_request v"
| "encode_message (ReportEffectResponse v) = encode_report_effect_response v"
| "encode_message (RestoreRequest v) = encode_restore_request v"
| "encode_message (RestoreResponse v) = encode_restore_response v"
| "encode_message (LineageRequest v) = encode_lineage_request v"
| "encode_message (LineageResponse v) = encode_lineage_response v"
| "encode_message (CheckpointRequest v) = encode_checkpoint_request v"
| "encode_message (CheckpointResponse v) = encode_checkpoint_response v"
| "encode_message (StatsRequest v) = encode_stats_request v"
| "encode_message (StatsResponse v) = encode_stats_response v"
| "encode_message (GoodbyeRequest v) = encode_goodbye_request v"
| "encode_message (GoodbyeResponse v) = encode_goodbye_response v"
| "encode_message (ErrorResponse v) = encode_error_response v"

definition dmap :: "('a \<Rightarrow> 'b) \<Rightarrow> 'a decoder \<Rightarrow> 'b decoder" where
  "dmap f d = dbind d (\<lambda>x. dret (f x))"

fun decode_message :: "message_type \<Rightarrow> message decoder" where
  "decode_message M_HelloRequest = dmap HelloRequest decode_hello_request"
| "decode_message M_HelloResponse = dmap HelloResponse decode_hello_response"
| "decode_message M_SubmitEvidenceRequest = dmap SubmitEvidenceRequest decode_submit_evidence_request"
| "decode_message M_SubmitEvidenceResponse = dmap SubmitEvidenceResponse decode_submit_evidence_response"
| "decode_message M_EvaluateRequest = dmap EvaluateRequest decode_evaluate_request"
| "decode_message M_EvaluateResponse = dmap EvaluateResponse decode_evaluate_response"
| "decode_message M_LocalizeRequest = dmap LocalizeRequest decode_localize_request"
| "decode_message M_LocalizeResponse = dmap LocalizeResponse decode_localize_response"
| "decode_message M_AckFenceRequest = dmap AckFenceRequest decode_ack_fence_request"
| "decode_message M_AckFenceResponse = dmap AckFenceResponse decode_ack_fence_response"
| "decode_message M_ReportEffectRequest = dmap ReportEffectRequest decode_report_effect_request"
| "decode_message M_ReportEffectResponse = dmap ReportEffectResponse decode_report_effect_response"
| "decode_message M_RestoreRequest = dmap RestoreRequest decode_restore_request"
| "decode_message M_RestoreResponse = dmap RestoreResponse decode_restore_response"
| "decode_message M_LineageRequest = dmap LineageRequest decode_lineage_request"
| "decode_message M_LineageResponse = dmap LineageResponse decode_lineage_response"
| "decode_message M_CheckpointRequest = dmap CheckpointRequest decode_checkpoint_request"
| "decode_message M_CheckpointResponse = dmap CheckpointResponse decode_checkpoint_response"
| "decode_message M_StatsRequest = dmap StatsRequest decode_stats_request"
| "decode_message M_StatsResponse = dmap StatsResponse decode_stats_response"
| "decode_message M_GoodbyeRequest = dmap GoodbyeRequest decode_goodbye_request"
| "decode_message M_GoodbyeResponse = dmap GoodbyeResponse decode_goodbye_response"
| "decode_message M_ErrorResponse = dmap ErrorResponse decode_error_response"

fun message_ok :: "message \<Rightarrow> bool" where
  "message_ok (HelloRequest v) \<longleftrightarrow> length (hq_client_name v) \<le> 64"
| "message_ok (HelloResponse v) \<longleftrightarrow> True"
| "message_ok (SubmitEvidenceRequest v) \<longleftrightarrow> structurally_valid (sq_evidence v)"
| "message_ok (SubmitEvidenceResponse v) \<longleftrightarrow> True"
| "message_ok (EvaluateRequest v) \<longleftrightarrow> True"
| "message_ok (EvaluateResponse v) \<longleftrightarrow> d_admissible (es_decision v)"
| "message_ok (LocalizeRequest v) \<longleftrightarrow> length (lq_probes v) \<le> 64"
| "message_ok (LocalizeResponse v) \<longleftrightarrow> d_admissible (ls_decision v)"
| "message_ok (AckFenceRequest v) \<longleftrightarrow> True"
| "message_ok (AckFenceResponse v) \<longleftrightarrow> True"
| "message_ok (ReportEffectRequest v) \<longleftrightarrow> True"
| "message_ok (ReportEffectResponse v) \<longleftrightarrow> True"
| "message_ok (RestoreRequest v) \<longleftrightarrow> True"
| "message_ok (RestoreResponse v) \<longleftrightarrow> d_admissible (ts_decision v)"
| "message_ok (LineageRequest v) \<longleftrightarrow> nq_limit v \<le> 512"
| "message_ok (LineageResponse v) \<longleftrightarrow> length (ns_entries v) \<le> 512"
| "message_ok (CheckpointRequest v) \<longleftrightarrow> True"
| "message_ok (CheckpointResponse v) \<longleftrightarrow> True"
| "message_ok (StatsRequest v) \<longleftrightarrow> True"
| "message_ok (StatsResponse v) \<longleftrightarrow> True"
| "message_ok (GoodbyeRequest v) \<longleftrightarrow> True"
| "message_ok (GoodbyeResponse v) \<longleftrightarrow> True"
| "message_ok (ErrorResponse v) \<longleftrightarrow> length (er_detail v) \<le> 192"

fun wire_message :: "message \<Rightarrow> bytes" where
  "wire_message (HelloRequest v) = wire_hello_request v"
| "wire_message (HelloResponse v) = wire_hello_response v"
| "wire_message (SubmitEvidenceRequest v) = wire_submit_evidence_request v"
| "wire_message (SubmitEvidenceResponse v) = wire_submit_evidence_response v"
| "wire_message (EvaluateRequest v) = wire_evaluate_request v"
| "wire_message (EvaluateResponse v) = wire_evaluate_response v"
| "wire_message (LocalizeRequest v) = wire_localize_request v"
| "wire_message (LocalizeResponse v) = wire_localize_response v"
| "wire_message (AckFenceRequest v) = wire_ack_fence_request v"
| "wire_message (AckFenceResponse v) = wire_ack_fence_response v"
| "wire_message (ReportEffectRequest v) = wire_report_effect_request v"
| "wire_message (ReportEffectResponse v) = wire_report_effect_response v"
| "wire_message (RestoreRequest v) = wire_restore_request v"
| "wire_message (RestoreResponse v) = wire_restore_response v"
| "wire_message (LineageRequest v) = wire_lineage_request v"
| "wire_message (LineageResponse v) = wire_lineage_response v"
| "wire_message (CheckpointRequest v) = wire_checkpoint_request v"
| "wire_message (CheckpointResponse v) = wire_checkpoint_response v"
| "wire_message (StatsRequest v) = wire_stats_request v"
| "wire_message (StatsResponse v) = wire_stats_response v"
| "wire_message (GoodbyeRequest v) = wire_goodbye_request v"
| "wire_message (GoodbyeResponse v) = wire_goodbye_response v"
| "wire_message (ErrorResponse v) = wire_error_response v"


lemma rt_dmap: "rt f d x bs \<Longrightarrow> rt f (dmap g d) (g x) bs"
proof -
  assume a: "rt f d x bs"
  then have "parses (dbind d (\<lambda>x. dret (g x))) (bs @ []) (g x)"
    by (intro parses_dbind [where v = x]) (simp_all add: rt_def parses_dret)
  then show ?thesis using a by (simp add: rt_def dmap_def)
qed

lemma rt_message: "message_ok v \<Longrightarrow> rt (encode_message v) (decode_message (message_type_of v)) v (wire_message v)"
  by (cases v) (auto intro!: rt_dmap intro: codec_intros)

lemma dsafe_message: "dsafe (decode_message t)"
  by (cases t) (simp_all add: dmap_def, (intro decoder_safe)+)

interpretation message_codec: codec encode_message "decode_message t" "\<lambda>v. message_ok v \<and> message_type_of v = t" for t
  by unfold_locales (use rt_message in blast, rule dsafe_message)

text \<open>
  C36. Every request and response survives transport: when a message within its limits fits into the
  frame, sending it through the encoder, the frame and a fresh decoder in any chunks gives a frame
  of its type whose payload decodes to the message, with no byte left over.
\<close>
theorem message_transport:
  assumes "message_ok v" "m < 2 ^ 64" "wok (encode_message v (writer_new m))"
    and "f = \<lparr>fr_type = message_type_of v, fr_flags = 0, fr_payload = wbuf (encode_message v (writer_new m))\<rparr>"
    and "length (fr_payload f) \<le> unat limit" "n < 2 ^ 64" "wok (encode_frame f (writer_new n))"
    and "concat chunks = wbuf (encode_frame f (writer_new n))"
  shows "\<exists>g. next_frame (feed_all chunks (frame_decoder_new limit)) = ((O_Ok, Some g), frame_decoder_new limit) \<and>
    decode_all (decode_message (fr_type g)) (fr_payload g) = Inr v"
proof -
  have "next_frame (feed_all chunks (frame_decoder_new limit)) = ((O_Ok, Some f), frame_decoder_new limit)"
    using assms(4-8) by (intro deliver_frame) (simp_all add: frame_ok_def)
  moreover have "decode_all (decode_message (message_type_of v)) (wbuf (encode_message v (writer_new m))) = Inr v"
    using assms(1-3) by (intro message_codec.decode_document) simp_all
  ultimately show ?thesis using assms(4) by simp
qed

definition sample_message :: message where
  "sample_message = LineageRequest \<lparr>nq_token = \<lparr>tk_session = 1, tk_request = 2, tk_seq = 3, tk_client_boot = 4,
     tk_client_incarnation = 5\<rparr>, nq_limit = 10\<rparr>"

lemma sample_message_encodes:
  "message_ok sample_message" "wok (encode_message sample_message (writer_new 64))"
  "wbuf (encode_message sample_message (writer_new 64)) = wire_message sample_message"
  "length (wire_message sample_message) = 44"
proof -
  show ok: "message_ok sample_message" by (simp add: sample_message_def)
  have e: "emits (encode_message sample_message) (wire_message sample_message)"
    using rt_message [OF ok] by (simp add: rt_def)
  show l: "length (wire_message sample_message) = 44"
    by (simp add: sample_message_def wire_lineage_request_def wire_session_token_def)
  show "wok (encode_message sample_message (writer_new 64))"
    "wbuf (encode_message sample_message (writer_new 64)) = wire_message sample_message"
    using emits_fresh [OF e, of 64] l by simp_all
qed

theorem message_transport_witness:
  "\<exists>g. next_frame (feed_all [wire_frame \<lparr>fr_type = M_LineageRequest, fr_flags = 0,
        fr_payload = wire_message sample_message\<rparr>] (frame_decoder_new 64)) = ((O_Ok, Some g), frame_decoder_new 64) \<and>
    decode_all (decode_message (fr_type g)) (fr_payload g) = Inr sample_message"
proof -
  let ?f = "\<lparr>fr_type = M_LineageRequest, fr_flags = 0, fr_payload = wire_message sample_message\<rparr>"
  have t: "message_type_of sample_message = M_LineageRequest" by (simp add: sample_message_def)
  have "wok (encode_frame ?f (writer_new 100))" "wbuf (encode_frame ?f (writer_new 100)) = wire_frame ?f"
    using emits_fresh [OF encode_frame_emits, of 100 ?f] by (simp_all add: wire_frame_def sample_message_encodes)
  then show ?thesis
    using message_transport [OF sample_message_encodes(1) _ sample_message_encodes(2), of ?f 64 100 "[wire_frame ?f]"]
    by (simp add: sample_message_encodes t)
qed

end
