(* ===== verification/BHG_Server.thy ===== *)
theory BHG_Server
  imports BHG_Engine_Safety BHG_Messages
begin

text \<open>
  The network front end (\<open>service/server.hpp\<close>, \<open>service/server.cpp\<close>). Every connection has its own
  thread with its own decoder and session; the threads share the coordinator, the session table and
  the counters, each behind its own mutex; \<open>close_connection\<close> is the end of a connection thread as one
  operation, although it takes the locks of the session table and of the counters one after the
  other. A request is dispatched in three parts, each of which
  calls a shared component at most once: the frame is decoded and its session token checked
  (\<open>admit_request\<close>), the coordinator is called and the response encoded (\<open>serve_request\<close>), and the
  response is sent (\<open>send_response\<close>). \<open>dispatch_frame\<close> is their composition. What the operating
  system decides (received bytes, the success of a send, the clock) is an argument.
\<close>

section \<open>State\<close>

record server_config =
  vc_port :: u16
  vc_backlog :: u32
  vc_max_connections :: u32

record server_stats =
  vt_accepted :: u64
  vt_accept_rejected :: u64
  vt_connections_closed :: u64
  vt_sessions_established :: u64
  vt_sessions_rejected :: u64
  vt_frames_decoded :: u64
  vt_frames_rejected :: u64
  vt_requests_served :: u64
  vt_requests_rejected :: u64

definition server_stats_new :: server_stats where
  "server_stats_new = \<lparr>vt_accepted = 0, vt_accept_rejected = 0, vt_connections_closed = 0,
     vt_sessions_established = 0, vt_sessions_rejected = 0, vt_frames_decoded = 0, vt_frames_rejected = 0,
     vt_requests_served = 0, vt_requests_rejected = 0\<rparr>"

definition vt_accounting_closed :: "server_stats \<Rightarrow> bool" where
  "vt_accounting_closed s \<longleftrightarrow>
     vt_accepted s = vt_connections_closed s + vt_accept_rejected s \<or> vt_accepted s + vt_accept_rejected s > 0"

text \<open>What a connection thread owns.\<close>

record connection =
  cn_session :: u64
  cn_established :: bool
  cn_decoder :: frame_decoder

text \<open>What the threads share.\<close>

record server =
  sv_engine :: engine
  sv_config :: server_config
  sv_sessions :: session_table
  sv_max_frame_bytes :: u32
  sv_listener :: bool
  sv_port :: u16
  sv_running :: bool
  sv_stopping :: bool
  sv_stats :: server_stats

definition server_new :: "engine \<Rightarrow> server_config \<Rightarrow> server" where
  "server_new e config = \<lparr>sv_engine = e, sv_config = config, sv_sessions = session_table_new (en_policy e),
     sv_max_frame_bytes = pol_max_frame_bytes (en_policy e), sv_listener = False, sv_port = 0,
     sv_running = False, sv_stopping = False, sv_stats = server_stats_new\<rparr>"

definition connection_new :: "server \<Rightarrow> connection" where
  "connection_new s = \<lparr>cn_session = 0, cn_established = False,
     cn_decoder = frame_decoder_new (sv_max_frame_bytes s)\<rparr>"

definition count_frame_rejected :: "server \<Rightarrow> server" where
  "count_frame_rejected s = s\<lparr>sv_stats := (sv_stats s)\<lparr>vt_frames_rejected := vt_frames_rejected (sv_stats s) + 1\<rparr>\<rparr>"

definition count_frame_decoded :: "server \<Rightarrow> server" where
  "count_frame_decoded s = s\<lparr>sv_stats := (sv_stats s)\<lparr>vt_frames_decoded := vt_frames_decoded (sv_stats s) + 1\<rparr>\<rparr>"

section \<open>Start and stop\<close>

text \<open>Whether the socket library is ready, and what listening returns, are arguments.\<close>

definition server_start :: "bool \<Rightarrow> outcome \<Rightarrow> u16 \<Rightarrow> server \<Rightarrow> (outcome \<times> u16) \<times> server" where
  "server_start net_ok lo port s =
     (if sv_running s then ((O_Invalid, 0), s)
      else if \<not> net_ok then ((O_Unavailable, 0), s)
      else if \<not> is_affirmative lo then ((lo, 0), s)
      else ((O_Ok, port), s\<lparr>sv_listener := True, sv_port := port, sv_stopping := False, sv_running := True\<rparr>))"

text \<open>A stop first asks the threads to end; what follows runs when they have ended.\<close>

definition request_stop :: "server \<Rightarrow> server" where
  "request_stop s = s\<lparr>sv_stopping := True\<rparr>"

definition finish_stop :: "server \<Rightarrow> server" where
  "finish_stop s = s\<lparr>sv_listener := False, sv_sessions := session_clear (sv_sessions s), sv_running := False\<rparr>"

definition server_stop :: "server \<Rightarrow> outcome \<times> server" where
  "server_stop s = (if \<not> sv_running s \<and> \<not> sv_listener s then (O_Ok, s) else (O_Ok, finish_stop (request_stop s)))"

section \<open>Admission of a request\<close>

text \<open>The text of a refusal, as its bytes.\<close>

definition text_bytes :: "string \<Rightarrow> bytes" where
  "text_bytes s = map (\<lambda>c. of_char c) s"

definition refusal :: "outcome \<Rightarrow> reason_code \<Rightarrow> string \<Rightarrow> error_response" where
  "refusal oc reason s = \<lparr>er_outcome = oc, er_reason = reason, er_detail = text_bytes s\<rparr>"

definition bad_payload :: "outcome \<Rightarrow> error_response" where
  "bad_payload oc = refusal (if oc = O_Oversized then O_Oversized else O_Malformed) R_InvalidEvidenceRejected
     ''malformed request payload''"

definition require_session :: "session_token \<Rightarrow> connection \<Rightarrow> session_table \<Rightarrow> error_response option \<times> session_table" where
  "require_session token c t =
     (if \<not> cn_established c then (Some (refusal O_Rejected R_PolicyRefused ''session not established''), t)
      else if tk_session token \<noteq> cn_session c then
        (Some (refusal O_Rejected R_PolicyRefused ''session authority mismatch''), t)
      else
        (let ((vo, reason), t) = validate (tk_session token) (tk_client_boot token) (tk_client_incarnation token)
               (tk_seq token) t
         in (if \<not> is_affirmative vo then Some (refusal vo reason ''session token refused'') else None, t)))"

text \<open>The messages the server answers, and the token of those that act under a session.\<close>

definition is_request :: "message_type \<Rightarrow> bool" where
  "is_request ty \<longleftrightarrow> ty \<in> {M_HelloRequest, M_SubmitEvidenceRequest, M_EvaluateRequest, M_LocalizeRequest,
     M_AckFenceRequest, M_ReportEffectRequest, M_RestoreRequest, M_LineageRequest, M_CheckpointRequest,
     M_StatsRequest, M_GoodbyeRequest}"

fun session_token_of :: "message \<Rightarrow> session_token option" where
  "session_token_of (SubmitEvidenceRequest v) = Some (sq_token v)"
| "session_token_of (EvaluateRequest v) = Some (eq_token v)"
| "session_token_of (LocalizeRequest v) = Some (lq_token v)"
| "session_token_of (AckFenceRequest v) = Some (aq_token v)"
| "session_token_of (ReportEffectRequest v) = Some (rq_token v)"
| "session_token_of (RestoreRequest v) = Some (tq_token v)"
| "session_token_of (LineageRequest v) = Some (nq_token v)"
| "session_token_of (CheckpointRequest v) = Some (kq_token v)"
| "session_token_of (StatsRequest v) = Some (vq_token v)"
| "session_token_of _ = None"

definition admit_request :: "frame \<Rightarrow> connection \<Rightarrow> server \<Rightarrow> (error_response + message) \<times> server" where
  "admit_request f c s =
     (if \<not> is_request (fr_type f) then (Inl (refusal O_Unsupported R_UnsupportedInput ''unsupported message type''), s)
      else
        (case decode_all (decode_message (fr_type f)) (fr_payload f) of
           Inl oc \<Rightarrow> (Inl (bad_payload oc), s)
         | Inr msg \<Rightarrow>
             (case session_token_of msg of
                None \<Rightarrow>
                  (if fr_type f = M_HelloRequest \<and> cn_established c
                   then (Inl (refusal O_Rejected R_DuplicateEvidence ''session already established''), s)
                   else (Inr msg, s))
              | Some token \<Rightarrow>
                  (let (refused, t) = require_session token c (sv_sessions s); s = s\<lparr>sv_sessions := t\<rparr>
                   in (case refused of Some e \<Rightarrow> (Inl e, s) | None \<Rightarrow> (Inr msg, s))))))"


section \<open>Handlers\<close>

datatype reply = Refused error_response | Replied message_type bytes

text \<open>A response of unbounded content is refused when its writer fails; the others are sent as written.\<close>

definition reply_checked :: "message \<Rightarrow> reply" where
  "reply_checked msg =
     (let w = encode_message msg (writer_new kDefaultMaxDocumentBytes)
      in if \<not> wok w then Refused (refusal O_Exhausted R_BudgetExhausted ''response not encodable'')
         else Replied (message_type_of msg) (wbuf w))"

definition reply_within :: "nat \<Rightarrow> message \<Rightarrow> reply" where
  "reply_within n msg = Replied (message_type_of msg) (wbuf (encode_message msg (writer_new n)))"

definition serve_hello :: "hello_request \<Rightarrow> clock \<Rightarrow> connection \<Rightarrow> server \<Rightarrow> reply \<times> connection \<times> server" where
  "serve_hello req clk c s =
     (let ((eo, sid), t) = establish (tk_client_boot (hq_token req)) (tk_client_incarnation (hq_token req))
            (hq_label req) (clk 0) (sv_sessions s);
          s = s\<lparr>sv_sessions := t\<rparr>; st = sv_stats s; e = sv_engine s
      in if \<not> is_affirmative eo then
           (Refused (refusal eo R_BudgetExhausted ''session not established''), c,
            s\<lparr>sv_stats := st\<lparr>vt_sessions_rejected := vt_sessions_rejected st + 1\<rparr>\<rparr>)
         else
           (reply_checked (HelloResponse \<lparr>hs_session = sid, hs_server_boot = or_boot (engine_open_report e),
              hs_server_incarnation = or_incarnation (engine_open_report e), hs_epoch = engine_epoch e,
              hs_policy = engine_policy_version e, hs_policy_fingerprint = engine_policy_fingerprint e,
              hs_protocol_version = kProtocolVersion, hs_label = ec_label (en_config e)\<rparr>),
            c\<lparr>cn_session := sid, cn_established := True\<rparr>,
            s\<lparr>sv_stats := st\<lparr>vt_sessions_established := vt_sessions_established st + 1\<rparr>\<rparr>))"

definition serve_submit :: "submit_evidence_request \<Rightarrow> clock \<Rightarrow> engine \<Rightarrow> reply \<times> engine" where
  "serve_submit req clk e =
     (let ((oc, admission, reason), e) = submit (sq_evidence req) clk e
      in (reply_within 256 (SubmitEvidenceResponse \<lparr>ss_outcome = oc, ss_admission = admission, ss_reason = reason\<rparr>), e))"

definition serve_evaluate :: "evaluate_request \<Rightarrow> clock \<Rightarrow> engine \<Rightarrow> reply \<times> engine" where
  "serve_evaluate req clk e =
     (let ((oc, d), e) = evaluate (eq_scope req) (eq_gens req) clk e
      in (reply_checked (EvaluateResponse \<lparr>es_outcome = oc, es_decision = d\<rparr>), e))"

text \<open>The localization of one connection, when no other call comes between its two parts.\<close>

definition localize_reply :: "(outcome \<times> decision) \<times> engine \<Rightarrow> reply \<times> engine" where
  "localize_reply r = (case r of ((oc, d), e) \<Rightarrow>
     (reply_checked (LocalizeResponse \<lparr>ls_outcome = oc, ls_decision = d\<rparr>), e))"

definition serve_localize :: "localize_request \<Rightarrow> clock \<Rightarrow> engine \<Rightarrow> reply \<times> engine" where
  "serve_localize req clk e =
     localize_reply (engine_localize (lq_scope req) (lq_gens req) (lq_hop_count req) (lq_probes req) clk e)"

definition serve_ack :: "ack_fence_request \<Rightarrow> clock \<Rightarrow> engine \<Rightarrow> reply \<times> engine" where
  "serve_ack req clk e =
     (let ((oc, reason), e) = acknowledge_fence (aq_fence req) (aq_downstream req) clk e
      in (reply_within 256 (AckFenceResponse \<lparr>as_outcome = oc, as_reason = reason\<rparr>), e))"

definition serve_effect :: "report_effect_request \<Rightarrow> clock \<Rightarrow> engine \<Rightarrow> reply \<times> engine" where
  "serve_effect req clk e =
     (let ((oc, reason), e) = engine_report_effect (rq_fence req) (rq_downstream req) (rq_verified req) clk e
      in (reply_within 256 (ReportEffectResponse \<lparr>rs_outcome = oc, rs_reason = reason\<rparr>), e))"

definition serve_restore :: "restore_request \<Rightarrow> clock \<Rightarrow> engine \<Rightarrow> reply \<times> engine" where
  "serve_restore req clk e =
     (let ((oc, d), e) = restore (tq_scope req) (tq_gens req) clk e
      in (reply_checked (RestoreResponse \<lparr>ts_outcome = oc, ts_decision = d\<rparr>), e))"

definition serve_lineage :: "lineage_request \<Rightarrow> engine \<Rightarrow> reply" where
  "serve_lineage req e =
     (let (entries, seen, dropped) = lineage (nq_limit req) e
      in reply_checked (LineageResponse \<lparr>ns_outcome = O_Ok, ns_entries = entries, ns_lineage_seen = seen,
           ns_lineage_dropped = dropped\<rparr>))"

definition serve_checkpoint :: "engine \<Rightarrow> reply \<times> engine" where
  "serve_checkpoint e =
     (let ((oc, seq), e) = engine_checkpoint e
      in (reply_within 128 (CheckpointResponse \<lparr>ks_outcome = oc,
            ks_snapshot_seq = (case seq of None \<Rightarrow> 0 | Some n \<Rightarrow> n)\<rparr>), e))"

text \<open>The counters of the ledger and of the fences are left at zero.\<close>

definition engine_stats_payload :: "server \<Rightarrow> stats_payload" where
  "engine_stats_payload s =
     (let e = sv_engine s; es = en_stats e; ss = sv_stats s; report = engine_open_report e
      in \<lparr>sp_evidence_submitted = es_evidence_submitted es, sp_evidence_admitted = es_evidence_admitted es,
          sp_evidence_rejected = es_evidence_rejected es, sp_evaluations = es_evaluations es,
          sp_decisions_committed = es_decisions_committed es,
          sp_durable_commit_failures = es_durable_commit_failures es,
          sp_fence_intents_issued = es_fence_intents_issued es,
          sp_restorations_authorized = es_restorations_authorized es,
          sp_restorations_refused = es_restorations_refused es,
          sp_refusals_fail_closed = es_refusals_fail_closed es,
          sp_ledger_seen = 0, sp_ledger_admitted = 0, sp_ledger_rejected = 0, sp_ledger_retained = 0,
          sp_ledger_dropped = 0, sp_fences_issue_attempts = 0, sp_fences_issued = 0, sp_fences_open = 0,
          sp_fences_revoked = 0, sp_fences_expired = 0, sp_fences_fenced_by_restart = 0,
          sp_sessions_established = vt_sessions_established ss, sp_sessions_rejected = vt_sessions_rejected ss,
          sp_requests_served = vt_requests_served ss, sp_requests_rejected = vt_requests_rejected ss,
          sp_frames_decoded = vt_frames_decoded ss, sp_frames_rejected = vt_frames_rejected ss,
          sp_boot_count = or_boot_count report, sp_open_count = or_open_count report,
          sp_epoch = or_epoch report, sp_policy = engine_policy_version e,
          sp_policy_fingerprint = engine_policy_fingerprint e, sp_last_record = last_record e,
          sp_label = ec_label (en_config e)\<rparr>)"

definition serve_stats :: "server \<Rightarrow> reply" where
  "serve_stats s = reply_within 1024 (StatsResponse \<lparr>vs_outcome = O_Ok, vs_stats = engine_stats_payload s\<rparr>)"

definition serve_goodbye :: reply where
  "serve_goodbye = reply_within 64 (GoodbyeResponse \<lparr>gs_outcome = O_Ok\<rparr>)"

text \<open>A handler that calls the coordinator leaves the connection and the rest of the server alone.\<close>

definition on_engine :: "(engine \<Rightarrow> reply \<times> engine) \<Rightarrow> connection \<Rightarrow> server \<Rightarrow> reply \<times> connection \<times> server" where
  "on_engine h c s = (let (r, e) = h (sv_engine s) in (r, c, s\<lparr>sv_engine := e\<rparr>))"

fun serve_request :: "message \<Rightarrow> clock \<Rightarrow> connection \<Rightarrow> server \<Rightarrow> reply \<times> connection \<times> server" where
  "serve_request (HelloRequest req) clk c s = serve_hello req clk c s"
| "serve_request (SubmitEvidenceRequest req) clk c s = on_engine (serve_submit req clk) c s"
| "serve_request (EvaluateRequest req) clk c s = on_engine (serve_evaluate req clk) c s"
| "serve_request (LocalizeRequest req) clk c s = on_engine (serve_localize req clk) c s"
| "serve_request (AckFenceRequest req) clk c s = on_engine (serve_ack req clk) c s"
| "serve_request (ReportEffectRequest req) clk c s = on_engine (serve_effect req clk) c s"
| "serve_request (RestoreRequest req) clk c s = on_engine (serve_restore req clk) c s"
| "serve_request (LineageRequest req) clk c s = (serve_lineage req (sv_engine s), c, s)"
| "serve_request (CheckpointRequest req) clk c s = on_engine serve_checkpoint c s"
| "serve_request (StatsRequest req) clk c s = (serve_stats s, c, s)"
| "serve_request (GoodbyeRequest req) clk c s = (serve_goodbye, c, s)"
| "serve_request _ clk c s = (Refused (refusal O_Unsupported R_UnsupportedInput ''unsupported message type''), c, s)"

section \<open>The response\<close>

definition error_payload :: "nat \<Rightarrow> error_response \<Rightarrow> bytes" where
  "error_payload n e = wbuf (encode_error_response e (writer_new n))"

text \<open>The frame of a reply, and whether it is an error.\<close>

definition response_frame :: "reply \<Rightarrow> frame \<times> bool" where
  "response_frame r =
     (case r of
        Refused e \<Rightarrow> (\<lparr>fr_type = M_ErrorResponse, fr_flags = 0, fr_payload = error_payload 512 e\<rparr>, True)
      | Replied ty payload \<Rightarrow>
          if payload = [] \<and> ty \<noteq> M_GoodbyeResponse \<and> ty \<noteq> M_CheckpointResponse then
            (\<lparr>fr_type = M_ErrorResponse, fr_flags = 0, fr_payload = error_payload 256
               (refusal O_Invalid R_InternalInvariantViolation ''handler produced no response'')\<rparr>, True)
          else (\<lparr>fr_type = ty, fr_flags = 0, fr_payload = payload\<rparr>, False))"

text \<open>The bytes sent, when the frame could be encoded and the send succeeded.\<close>

definition send_response :: "bool \<Rightarrow> frame \<Rightarrow> bool \<Rightarrow> server \<Rightarrow> bytes option \<times> server" where
  "send_response sent f counted_as_error s =
     (let w = encode_frame f (writer_new kDefaultMaxDocumentBytes); st = sv_stats s
      in if \<not> wok w \<or> \<not> sent then (None, s)
         else (Some (wbuf w), s\<lparr>sv_stats :=
           (if counted_as_error then st\<lparr>vt_requests_rejected := vt_requests_rejected st + 1\<rparr>
            else st\<lparr>vt_requests_served := vt_requests_served st + 1\<rparr>)\<rparr>))"

definition answer :: "frame \<Rightarrow> clock \<Rightarrow> connection \<Rightarrow> server \<Rightarrow> reply \<times> connection \<times> server" where
  "answer f clk c s =
     (case admit_request f c s of
        (Inl e, s) \<Rightarrow> (Refused e, c, s)
      | (Inr msg, s) \<Rightarrow> serve_request msg clk c s)"

definition dispatch_frame ::
  "clock \<Rightarrow> bool \<Rightarrow> frame \<Rightarrow> connection \<Rightarrow> server \<Rightarrow> bytes option \<times> connection \<times> server" where
  "dispatch_frame clk sent f c s =
     (let (r, c, s) = answer f clk c s; (g, counted_as_error) = response_frame r;
          (out, s) = send_response sent g counted_as_error s
      in (out, c, s))"

section \<open>A connection\<close>

text \<open>What the environment supplies for one request: the clock and whether the response could be sent.\<close>

type_synonym environment = "nat \<Rightarrow> clock \<times> bool"

lemma next_frame_consumes:
  "next_frame d = ((O_Ok, Some f), d') \<Longrightarrow> length (fd_buffer d') + 20 + length (fr_payload f) = length (fd_buffer d)"
  by (auto simp: next_frame_def Let_def fd_fail_def kFrameHeaderSize_def split: if_splits prod.splits)

text \<open>
  The inner loop of a connection: the frames in the buffer, until more bytes are needed or the
  connection has to be closed. The results are the bytes of each response, whether the connection
  stays open, and the number of requests dispatched.
\<close>

function serve_frames :: "nat \<Rightarrow> environment \<Rightarrow> connection \<Rightarrow> server \<Rightarrow> (bytes list \<times> bool \<times> nat) \<times> connection \<times> server" where
  "serve_frames n env c s =
     (case next_frame (cn_decoder c) of
        ((oc, None), d) \<Rightarrow>
          if oc = O_NotFound then (([], True, n), c\<lparr>cn_decoder := d\<rparr>, s)
          else (([], False, n), c\<lparr>cn_decoder := d\<rparr>, count_frame_rejected s)
      | ((oc, Some f), d) \<Rightarrow>
          (case dispatch_frame (fst (env n)) (snd (env n)) f (c\<lparr>cn_decoder := d\<rparr>) (count_frame_decoded s) of
             (None, c, s) \<Rightarrow> (([], False, n + 1), c, s)
           | (Some out, c, s) \<Rightarrow>
               (let ((outs, more_to_read, k), c, s) = serve_frames (n + 1) env c s
                in ((out # outs, more_to_read, k), c, s))))"
  by pat_completeness auto

lemma serve_request_decoder: "serve_request msg clk c s = (r, c', s') \<Longrightarrow> cn_decoder c' = cn_decoder c"
  by (cases msg) (auto simp: on_engine_def serve_hello_def Let_def split: prod.splits if_splits)

lemma dispatch_decoder: "dispatch_frame clk sent f c s = (out, c', s') \<Longrightarrow> cn_decoder c' = cn_decoder c"
  by (auto simp: dispatch_frame_def answer_def Let_def split: prod.splits sum.splits dest: serve_request_decoder)

lemma next_frame_Some: "next_frame d = ((oc, Some f), d') \<Longrightarrow> oc = O_Ok"
  by (auto simp: next_frame_def Let_def fd_fail_def split: if_splits prod.splits)

termination serve_frames
proof (relation "measure (\<lambda>(n, env, c, s). length (fd_buffer (cn_decoder c)))", goal_cases)
  case (2 n env c s x d oc f' f y out z c' s')
  then have nf: "next_frame (cn_decoder c) = ((oc, Some f), d)"
    and df: "dispatch_frame (fst (env n)) (snd (env n)) f (c\<lparr>cn_decoder := d\<rparr>) (count_frame_decoded s) = (Some z, c', s')"
    by (metis, metis)
  have "length (fd_buffer d) < length (fd_buffer (cn_decoder c))"
    using next_frame_consumes nf next_frame_Some [OF nf] by fastforce
  then show ?case using dispatch_decoder [OF df] by simp
qed simp


declare serve_frames.simps [simp del]

text \<open>One read from the socket.\<close>

definition serve_chunk ::
  "nat \<Rightarrow> environment \<Rightarrow> bytes \<Rightarrow> connection \<Rightarrow> server \<Rightarrow> (bytes list \<times> bool \<times> nat) \<times> connection \<times> server" where
  "serve_chunk n env bs c s =
     (let (oc, d) = feed bs (cn_decoder c); c = c\<lparr>cn_decoder := d\<rparr>
      in if \<not> is_affirmative oc then (([], False, n), c, count_frame_rejected s) else serve_frames n env c s)"

text \<open>The outer loop, over what the reads return; an empty read is the end of the stream.\<close>

fun serve_reads ::
  "nat \<Rightarrow> environment \<Rightarrow> bytes list \<Rightarrow> connection \<Rightarrow> server \<Rightarrow> bytes list \<times> connection \<times> server" where
  "serve_reads n env [] c s = ([], c, s)"
| "serve_reads n env (bs # reads) c s =
     (if bs = [] then ([], c, s)
      else
        (let ((outs, go_on, n), c, s) = serve_chunk n env bs c s
         in if \<not> go_on then (outs, c, s)
            else (let (outs', c, s) = serve_reads n env reads c s in (outs @ outs', c, s))))"

definition close_connection :: "connection \<Rightarrow> server \<Rightarrow> server" where
  "close_connection c s =
     (let s = (if cn_established c then s\<lparr>sv_sessions := release (cn_session c) (sv_sessions s)\<rparr> else s)
      in s\<lparr>sv_stats := (sv_stats s)\<lparr>vt_connections_closed := vt_connections_closed (sv_stats s) + 1\<rparr>\<rparr>)"

definition serve_connection :: "environment \<Rightarrow> bytes list \<Rightarrow> server \<Rightarrow> bytes list \<times> server" where
  "serve_connection env reads s =
     (let (outs, c, s) = serve_reads 0 env reads (connection_new s) s in (outs, close_connection c s))"

section \<open>What dispatching leaves alone\<close>

lemma server_start_keeps:
  assumes "server_start net_ok lo port s = (r, s')"
  shows "sv_engine s' = sv_engine s \<and> sv_sessions s' = sv_sessions s \<and> sv_stats s' = sv_stats s \<and>
    sv_config s' = sv_config s \<and> sv_max_frame_bytes s' = sv_max_frame_bytes s"
  using assms by (auto simp: server_start_def split: if_splits)

lemma require_session_accepts:
  assumes "require_session token c t = (None, t')"
  shows "cn_established c" "tk_session token = cn_session c"
    "validate (tk_session token) (tk_client_boot token) (tk_client_incarnation token) (tk_seq token) t = ((O_Ok, R_None), t')"
  using assms by (auto simp: require_session_def is_affirmative_def validate_def Let_def split: if_splits option.splits)

text \<open>
  A request is refused, needs no session, or passes with an accepted token of its connection.
\<close>

lemma admit_request_cases:
  assumes "admit_request f c s = (r, s')"
  obtains (refused) e t where "r = Inl e" "s' = s\<lparr>sv_sessions := t\<rparr>"
      "t = sv_sessions s \<or> (\<exists>token. require_session token c (sv_sessions s) = (Some e, t))"
  | (free) msg where "r = Inr msg" "session_token_of msg = None" "s' = s" "is_request (fr_type f)"
      "decode_all (decode_message (fr_type f)) (fr_payload f) = Inr msg" "fr_type f = M_HelloRequest \<longrightarrow> \<not> cn_established c"
  | (session) msg token t where "r = Inr msg" "session_token_of msg = Some token" "s' = s\<lparr>sv_sessions := t\<rparr>"
      "is_request (fr_type f)" "decode_all (decode_message (fr_type f)) (fr_payload f) = Inr msg"
      "require_session token c (sv_sessions s) = (None, t)"
proof (cases "decode_all (decode_message (fr_type f)) (fr_payload f)")
  case (Inl oc)
  with assms that(1) [of _ "sv_sessions s"] show ?thesis by (auto simp: admit_request_def split: if_splits)
next
  case (Inr m)
  show ?thesis
  proof (cases "session_token_of m")
    case None
    with assms Inr that(1) [of _ "sv_sessions s"] that(2) show ?thesis by (auto simp: admit_request_def split: if_splits)
  next
    case (Some token)
    obtain x t where "require_session token c (sv_sessions s) = (x, t)" by (metis prod.exhaust)
    with assms Inr Some that(1) [of _ "sv_sessions s"] that(1) [of _ t] that(3) show ?thesis
      by (cases x) (auto simp: admit_request_def split: if_splits)
  qed
qed

lemma admit_request_keeps:
  assumes "admit_request f c s = (r, s')"
  shows "sv_engine s' = sv_engine s \<and> sv_stats s' = sv_stats s \<and> sv_config s' = sv_config s \<and>
    sv_max_frame_bytes s' = sv_max_frame_bytes s"
  using assms by (cases rule: admit_request_cases) simp_all

lemma admit_request_session:
  assumes "admit_request f c s = (Inr msg, s')" "session_token_of msg = Some token"
  shows "cn_established c \<and> tk_session token = cn_session c \<and>
    validate (cn_session c) (tk_client_boot token) (tk_client_incarnation token) (tk_seq token) (sv_sessions s)
      = ((O_Ok, R_None), sv_sessions s')"
  using assms(1)
proof (cases rule: admit_request_cases)
  case (session m token' t)
  with assms(2) require_session_accepts [OF session(6)] show ?thesis by simp
qed (use assms(2) in simp_all)

lemma decode_message_type:
  assumes "decode_all (decode_message ty) bs = Inr msg"
  shows "message_type_of msg = ty"
proof -
  have "message_type_of x = ty" if "decode_message ty r = (Inr x, r')" for x r r'
    using that by (cases ty) (auto simp: dmap_def dbind_def dret_def split: prod.splits sum.splits)
  then show ?thesis using assms by (auto simp: decode_all_def Let_def split: prod.splits sum.splits if_splits)
qed

lemma request_cases [consumes 1, case_names hello goodbye session]:
  assumes "admit_request f c s = (Inr msg, s')"
  obtains req where "msg = HelloRequest req" "\<not> cn_established c" "s' = s"
  | req where "msg = GoodbyeRequest req" "s' = s"
  | token where "session_token_of msg = Some token"
  using assms
proof (cases rule: admit_request_cases)
  case (free m)
  then have "is_request (message_type_of msg)" "message_type_of msg = fr_type f" using decode_message_type by auto
  then show ?thesis using that(1,2) free by (cases msg) (auto simp: is_request_def)
qed (use that(3) in simp_all)

lemma serve_session_request:
  assumes "serve_request msg clk c s = (r, c', s')" "session_token_of msg \<noteq> None"
  shows "c' = c" "sv_sessions s' = sv_sessions s" "sv_stats s' = sv_stats s" "sv_config s' = sv_config s"
    "sv_max_frame_bytes s' = sv_max_frame_bytes s"
proof -
  have "c' = c \<and> sv_sessions s' = sv_sessions s \<and> sv_stats s' = sv_stats s \<and> sv_config s' = sv_config s \<and>
    sv_max_frame_bytes s' = sv_max_frame_bytes s"
    using assms by (cases msg) (auto simp: on_engine_def Let_def split: prod.splits)
  then show "c' = c" "sv_sessions s' = sv_sessions s" "sv_stats s' = sv_stats s" "sv_config s' = sv_config s"
    "sv_max_frame_bytes s' = sv_max_frame_bytes s" by simp_all
qed

lemma serve_hello_cases:
  assumes "serve_hello req clk c s = (r, c', s')"
  obtains (refused) t where "c' = c" "s' = s\<lparr>sv_sessions := t, sv_stats := (sv_stats s)\<lparr>vt_sessions_rejected := vt_sessions_rejected (sv_stats s) + 1\<rparr>\<rparr>"
      "t = (sv_sessions s)\<lparr>st_rejected := st_rejected (sv_sessions s) + 1\<rparr>" "\<exists>e. r = Refused e"
  | (established) sid t where "establish (tk_client_boot (hq_token req)) (tk_client_incarnation (hq_token req))
        (hq_label req) (clk 0) (sv_sessions s) = ((O_Ok, sid), t)"
      "c' = c\<lparr>cn_session := sid, cn_established := True\<rparr>"
      "s' = s\<lparr>sv_sessions := t, sv_stats := (sv_stats s)\<lparr>vt_sessions_established := vt_sessions_established (sv_stats s) + 1\<rparr>\<rparr>"
proof -
  obtain eo sid t where e: "establish (tk_client_boot (hq_token req)) (tk_client_incarnation (hq_token req))
        (hq_label req) (clk 0) (sv_sessions s) = ((eo, sid), t)" by (metis prod.exhaust)
  show ?thesis
  proof (cases "eo = O_Ok")
    case True
    with e assms that(2) show ?thesis by (simp add: serve_hello_def Let_def is_affirmative_def)
  next
    case False
    then have "\<not> is_affirmative eo \<and> t = (sv_sessions s)\<lparr>st_rejected := st_rejected (sv_sessions s) + 1\<rparr>"
      using e by (auto simp: establish_def Let_def is_affirmative_def split: if_splits)
    with e assms that(1) show ?thesis by (auto simp: serve_hello_def Let_def)
  qed
qed

end
