(* ===== verification/BHG_Server_Steps.thy ===== *)
theory BHG_Server_Steps
  imports BHG_Server
begin

text \<open>
  The threads of the server as one step relation: the accept loop, one thread per connection, and
  the owner of the process, in any order. A step is what a thread does between two points at which
  another thread could see a difference: a call of the coordinator, a check of a token, the counters
  of one response; between two steps of a thread any steps of the others may happen. Accepting a
  connection (its counter under \<open>stats_mutex_\<close>, its slot under \<open>connections_mutex_\<close>) and ending one
  (the release of its session, its counter, the mark that its slot can be reaped) take several locks
  in turn in the code and are one step here, a linearization of those critical sections. Steps are
  labelled with what they mean for the session of a connection, and runs collect the labels.
\<close>

section \<open>Threads\<close>

text \<open>Where a connection thread stands in its loop.\<close>

datatype task =
    Idle | Admitted message | Searching decision u32 "hop_probe list" | Answered reply | Closing

record world =
  wd_server :: server
  wd_connections :: "(nat, connection \<times> task) omap"
  wd_next :: nat

definition world_new :: "engine_config \<Rightarrow> disk \<Rightarrow> server_config \<Rightarrow> world" where
  "world_new config d sc = \<lparr>wd_server = server_new (engine_new config d) sc, wd_connections = [], wd_next = 0\<rparr>"

definition set_connection :: "nat \<Rightarrow> connection \<Rightarrow> task \<Rightarrow> server \<Rightarrow> world \<Rightarrow> world" where
  "set_connection k c t s w = w\<lparr>wd_server := s, wd_connections := omap_put (wd_connections w) k (c, t)\<rparr>"

text \<open>A session handed to a connection with the identity it named, a call of the coordinator, or neither.\<close>

datatype event = Session nat u64 u64 u64 | Call nat message | Quiet

definition count_accepted :: "server \<Rightarrow> server" where
  "count_accepted s = s\<lparr>sv_stats := (sv_stats s)\<lparr>vt_accepted := vt_accepted (sv_stats s) + 1\<rparr>\<rparr>"

definition count_accept_rejected :: "server \<Rightarrow> server" where
  "count_accept_rejected s = s\<lparr>sv_stats := (sv_stats s)\<lparr>vt_accept_rejected := vt_accept_rejected (sv_stats s) + 1\<rparr>\<rparr>"

definition over_capacity :: "world \<Rightarrow> bool" where
  "over_capacity w \<longleftrightarrow> length (wd_connections w) \<ge> unat (vc_max_connections (sv_config (wd_server w)))"

text \<open>The accept loop, after it has reaped the finished connections.\<close>

definition accept_connection :: "world \<Rightarrow> world" where
  "accept_connection w =
     (if over_capacity w then w\<lparr>wd_server := count_accept_rejected (wd_server w)\<rparr>
      else w\<lparr>wd_server := count_accepted (wd_server w),
        wd_connections := omap_put (wd_connections w) (wd_next w) (connection_new (wd_server w), Idle),
        wd_next := Suc (wd_next w)\<rparr>)"

definition live_connections :: "world \<Rightarrow> nat" where
  "live_connections w = length (wd_connections w)"

definition awaits_bytes :: "connection \<Rightarrow> bool" where
  "awaits_bytes c \<longleftrightarrow> fst (fst (next_frame (cn_decoder c))) = O_NotFound"

definition hello_event :: "nat \<Rightarrow> hello_request \<Rightarrow> connection \<Rightarrow> event" where
  "hello_event k req c = (if cn_established c
     then Session k (cn_session c) (tk_client_boot (hq_token req)) (tk_client_incarnation (hq_token req)) else Quiet)"

inductive server_step :: "world \<Rightarrow> event \<Rightarrow> world \<Rightarrow> bool" where
  starting: "server_start net_ok lo port (wd_server w) = (r, s) \<Longrightarrow> server_step w Quiet (w\<lparr>wd_server := s\<rparr>)"
| accepting: "sv_running (wd_server w) \<Longrightarrow> \<not> sv_stopping (wd_server w) \<Longrightarrow> server_step w Quiet (accept_connection w)"
| reading: "omap_find (wd_connections w) k = Some (c, Idle) \<Longrightarrow> awaits_bytes c \<Longrightarrow> feed bs (cn_decoder c) = (oc, d) \<Longrightarrow>
    server_step w Quiet (if is_affirmative oc then set_connection k (c\<lparr>cn_decoder := d\<rparr>) Idle (wd_server w) w
      else set_connection k (c\<lparr>cn_decoder := d\<rparr>) Closing (count_frame_rejected (wd_server w)) w)"
| hanging_up: "omap_find (wd_connections w) k = Some (c, Idle) \<Longrightarrow> awaits_bytes c \<Longrightarrow>
    server_step w Quiet (set_connection k c Closing (wd_server w) w)"
| bad_frame: "omap_find (wd_connections w) k = Some (c, Idle) \<Longrightarrow> next_frame (cn_decoder c) = ((oc, None), d) \<Longrightarrow>
    oc \<noteq> O_NotFound \<Longrightarrow>
    server_step w Quiet (set_connection k (c\<lparr>cn_decoder := d\<rparr>) Closing (count_frame_rejected (wd_server w)) w)"
| admitting: "omap_find (wd_connections w) k = Some (c, Idle) \<Longrightarrow> next_frame (cn_decoder c) = ((oc, Some f), d) \<Longrightarrow>
    admit_request f (c\<lparr>cn_decoder := d\<rparr>) (count_frame_decoded (wd_server w)) = (r, s) \<Longrightarrow>
    server_step w Quiet (set_connection k (c\<lparr>cn_decoder := d\<rparr>)
      (case r of Inl e \<Rightarrow> Answered (Refused e) | Inr msg \<Rightarrow> Admitted msg) s w)"
| greeting: "omap_find (wd_connections w) k = Some (c, Admitted (HelloRequest req)) \<Longrightarrow>
    serve_hello req clk c (wd_server w) = (r, c', s) \<Longrightarrow>
    server_step w (hello_event k req c') (set_connection k c' (Answered r) s w)"
| parting: "omap_find (wd_connections w) k = Some (c, Admitted (GoodbyeRequest req)) \<Longrightarrow>
    server_step w Quiet (set_connection k c (Answered serve_goodbye) (wd_server w) w)"
| serving: "omap_find (wd_connections w) k = Some (c, Admitted msg) \<Longrightarrow> session_token_of msg \<noteq> None \<Longrightarrow>
    message_type_of msg \<noteq> M_LocalizeRequest \<Longrightarrow> serve_request msg clk c (wd_server w) = (r, c', s) \<Longrightarrow>
    server_step w (Call k msg) (set_connection k c' (Answered r) s w)"
| diagnosing: "omap_find (wd_connections w) k = Some (c, Admitted (LocalizeRequest req)) \<Longrightarrow>
    evaluate (lq_scope req) (lq_gens req) clk (sv_engine (wd_server w)) = ((oc, out), e) \<Longrightarrow>
    server_step w (Call k (LocalizeRequest req))
      (set_connection k c (Searching out (lq_hop_count req) (lq_probes req)) ((wd_server w)\<lparr>sv_engine := e\<rparr>) w)"
| localizing: "omap_find (wd_connections w) k = Some (c, Searching out hops probes) \<Longrightarrow>
    localize_reply (localize_finish (localize_search hops probes (en_policy (sv_engine (wd_server w)))) out
      (sv_engine (wd_server w))) = (r, e) \<Longrightarrow>
    server_step w Quiet (set_connection k c (Answered r) ((wd_server w)\<lparr>sv_engine := e\<rparr>) w)"
| responding: "omap_find (wd_connections w) k = Some (c, Answered r) \<Longrightarrow> response_frame r = (f, b) \<Longrightarrow>
    send_response sent f b (wd_server w) = (out, s) \<Longrightarrow>
    server_step w Quiet (set_connection k c (if out = None then Closing else Idle) s w)"
| closing: "omap_find (wd_connections w) k = Some (c, Closing) \<Longrightarrow>
    server_step w Quiet (w\<lparr>wd_server := close_connection c (wd_server w),
      wd_connections := omap_erase (wd_connections w) k\<rparr>)"
| stop_asked: "sv_running (wd_server w) \<or> sv_listener (wd_server w) \<Longrightarrow>
    server_step w Quiet (w\<lparr>wd_server := request_stop (wd_server w)\<rparr>)"
| stopping: "sv_stopping (wd_server w) \<Longrightarrow> wd_connections w = [] \<Longrightarrow>
    server_step w Quiet (w\<lparr>wd_server := finish_stop (wd_server w)\<rparr>)"
| owner_opens: "server_step w Quiet (w\<lparr>wd_server := (wd_server w)
    \<lparr>sv_engine := run_call (Call_Open boot incarnation) clk (sv_engine (wd_server w))\<rparr>\<rparr>)"
| owner_closes: "server_step w Quiet (w\<lparr>wd_server := (wd_server w)
    \<lparr>sv_engine := run_call Call_Close clk (sv_engine (wd_server w))\<rparr>\<rparr>)"

inductive server_run :: "engine_config \<Rightarrow> disk \<Rightarrow> server_config \<Rightarrow> event list \<Rightarrow> world \<Rightarrow> bool" for config d sc where
  started: "server_run config d sc [] (world_new config d sc)"
| stepped: "server_run config d sc tr w \<Longrightarrow> server_step w ev w' \<Longrightarrow> server_run config d sc (tr @ [ev]) w'"

section \<open>The counters of the connections\<close>

lemma set_omap_erase: "set (omap_erase m k) \<subseteq> set m"
  by (auto simp: omap_erase_def)

lemma length_omap_erase:
  assumes "omap_inv m" "omap_find m k = Some v"
  shows "Suc (length (omap_erase m k)) = length m" "add_mset v (omap_vals (omap_erase m k)) = omap_vals m"
proof -
  have none: "\<forall>x \<in> set m. k < fst x \<Longrightarrow> filter (\<lambda>kv. fst kv \<noteq> k) m = m" for m :: "('a \<times> 'b) list"
    by (auto intro!: filter_True)
  have "Suc (length (omap_erase m k)) = length m \<and> add_mset v (omap_vals (omap_erase m k)) = omap_vals m"
    using assms by (induction m) (auto simp: omap_find_def omap_erase_def omap_vals_def none split: if_splits
        simp flip: mset_filter)
  then show "Suc (length (omap_erase m k)) = length m" "add_mset v (omap_vals (omap_erase m k)) = omap_vals m" by simp_all
qed

definition connections_ok :: "world \<Rightarrow> bool" where
  "connections_ok w \<longleftrightarrow> omap_inv (wd_connections w) \<and> (\<forall>k \<in> fst ` set (wd_connections w). k < wd_next w) \<and>
     length (wd_connections w) \<le> unat (vc_max_connections (sv_config (wd_server w))) \<and>
     vt_accepted (sv_stats (wd_server w)) = vt_connections_closed (sv_stats (wd_server w)) + of_nat (length (wd_connections w))"

lemma connections_ok_set:
  assumes "connections_ok w" "omap_find (wd_connections w) k = Some v" "sv_config s = sv_config (wd_server w)"
    "vt_accepted (sv_stats s) = vt_accepted (sv_stats (wd_server w))"
    "vt_connections_closed (sv_stats s) = vt_connections_closed (sv_stats (wd_server w))"
  shows "connections_ok (set_connection k c t s w)"
  using assms length_omap_put_old [OF _ assms(2)] omap_find_Some_in [OF assms(2)]
  by (force simp: connections_ok_def set_connection_def)

lemma connections_ok_server:
  "connections_ok w \<Longrightarrow> sv_config s = sv_config (wd_server w) \<Longrightarrow> sv_stats s = sv_stats (wd_server w) \<Longrightarrow>
    connections_ok (w\<lparr>wd_server := s\<rparr>)"
  by (simp add: connections_ok_def)

lemma counters_kept [simp]:
  "sv_config (count_frame_rejected s) = sv_config s" "sv_config (count_frame_decoded s) = sv_config s"
  "vt_accepted (sv_stats (count_frame_rejected s)) = vt_accepted (sv_stats s)"
  "vt_accepted (sv_stats (count_frame_decoded s)) = vt_accepted (sv_stats s)"
  "vt_connections_closed (sv_stats (count_frame_rejected s)) = vt_connections_closed (sv_stats s)"
  "vt_connections_closed (sv_stats (count_frame_decoded s)) = vt_connections_closed (sv_stats s)"
  by (simp_all add: count_frame_rejected_def count_frame_decoded_def)

lemma connections_ok_step:
  assumes "server_step w ev w'" "connections_ok w"
  shows "connections_ok w'"
  using assms
proof (cases rule: server_step.cases)
  case accepting
  show ?thesis
  proof (cases "over_capacity w")
    case True
    with assms(2) accepting show ?thesis
      by (simp add: connections_ok_def accept_connection_def count_accept_rejected_def)
  next
    case False
    then have "omap_find (wd_connections w) (wd_next w) = None"
      using assms(2) by (fastforce simp: connections_ok_def omap_find_None_iff)
    with False assms(2) accepting length_omap_put_new [OF this] show ?thesis
      by (auto simp: connections_ok_def accept_connection_def count_accepted_def over_capacity_def less_Suc_eq)
  qed
next
  case (admitting k c oc f d r s)
  with admit_request_keeps [OF admitting(5)] counters_kept show ?thesis
    using assms(2) by (auto intro!: connections_ok_set)
next
  case (greeting k c req clk r c' s)
  from greeting(4) show ?thesis
    by (cases rule: serve_hello_cases) (use greeting assms(2) in \<open>auto intro!: connections_ok_set\<close>)
next
  case (serving k c msg clk r c' s)
  with serve_session_request [OF serving(6,4)] assms(2) show ?thesis by (auto intro!: connections_ok_set)
next
  case (responding k c r f b sent out s)
  then have "sv_config s = sv_config (wd_server w) \<and> vt_accepted (sv_stats s) = vt_accepted (sv_stats (wd_server w)) \<and>
    vt_connections_closed (sv_stats s) = vt_connections_closed (sv_stats (wd_server w))"
    by (auto simp: send_response_def Let_def split: if_splits)
  with responding assms(2) show ?thesis by (auto intro!: connections_ok_set)
next
  case (closing k c)
  have inv: "omap_inv (wd_connections w)" using assms(2) by (simp add: connections_ok_def)
  note len = length_omap_erase(1) [OF inv closing(3)]
  have "sv_config (close_connection c (wd_server w)) = sv_config (wd_server w)"
    "vt_accepted (sv_stats (close_connection c (wd_server w))) = vt_accepted (sv_stats (wd_server w))"
    "vt_connections_closed (sv_stats (close_connection c (wd_server w))) = vt_connections_closed (sv_stats (wd_server w)) + 1"
    by (simp_all add: close_connection_def Let_def)
  then show ?thesis
    using assms(2) closing(2) set_omap_erase [of "wd_connections w" k]
    by (auto simp: connections_ok_def len [symmetric] algebra_simps)
qed (use assms(2) in \<open>auto dest!: server_start_keeps intro!: connections_ok_set connections_ok_server
      simp: finish_stop_def request_stop_def\<close>)


section \<open>The coordinator under the server\<close>

text \<open>The localizations that the connections have in flight.\<close>

fun search_of :: "task \<Rightarrow> in_flight multiset" where
  "search_of (Searching out hops probes) = {#(out, hops, probes)#}"
| "search_of _ = {#}"

definition in_flight_of :: "world \<Rightarrow> in_flight multiset" where
  "in_flight_of w = (\<Sum>ct \<in># omap_vals (wd_connections w). search_of (snd ct))"

lemma in_flight_set:
  assumes "connections_ok w" "omap_find (wd_connections w) k = Some (c, t)"
  shows "search_of t + in_flight_of (set_connection k c' t' s w) = search_of t' + in_flight_of w"
proof -
  have "add_mset (c, t) (omap_vals (omap_put (wd_connections w) k (c', t'))) = add_mset (c', t') (omap_vals (wd_connections w))"
    using assms by (intro omap_vals_put_old) (auto simp: connections_ok_def)
  from arg_cong [OF this, of "\<lambda>m. \<Sum>ct \<in># m. search_of (snd ct)"]
  show ?thesis by (simp add: in_flight_of_def set_connection_def)
qed

lemma in_flight_closed:
  assumes "connections_ok w" "omap_find (wd_connections w) k = Some (c, t)" "search_of t = {#}"
  shows "in_flight_of (w\<lparr>wd_server := s, wd_connections := omap_erase (wd_connections w) k\<rparr>) = in_flight_of w"
proof -
  have "add_mset (c, t) (omap_vals (omap_erase (wd_connections w) k)) = omap_vals (wd_connections w)"
    using assms by (intro length_omap_erase(2)) (auto simp: connections_ok_def)
  from arg_cong [OF this, of "\<lambda>m. \<Sum>ct \<in># m. search_of (snd ct)"]
  show ?thesis using assms(3) by (simp add: in_flight_of_def)
qed

definition engine_view :: "world \<Rightarrow> engine \<times> in_flight multiset" where
  "engine_view w = (sv_engine (wd_server w), in_flight_of w)"

lemma engine_view_set:
  "connections_ok w \<Longrightarrow> omap_find (wd_connections w) k = Some (c, t) \<Longrightarrow> search_of t = {#} \<Longrightarrow> search_of t' = {#} \<Longrightarrow>
    engine_view (set_connection k c' t' s w) = (sv_engine s, in_flight_of w)"
  using in_flight_set [of w k c t c' t' s] by (simp add: engine_view_def set_connection_def)

lemma engine_view_server: "engine_view (w\<lparr>wd_server := s\<rparr>) = (sv_engine s, in_flight_of w)"
  by (simp add: engine_view_def in_flight_of_def)

lemma connections_ok_run: "server_run config d sc tr w \<Longrightarrow> connections_ok w"
proof (induction rule: server_run.induct)
  case started
  show ?case by (simp add: connections_ok_def world_new_def server_new_def server_stats_new_def)
qed (rule connections_ok_step)

section \<open>Sessions\<close>

text \<open>What a run shows of one connection: its sessions, with the identities they were given for, and
  its calls; and the session ids handed out at all.\<close>

fun sessions_of :: "nat \<Rightarrow> event list \<Rightarrow> (u64 \<times> u64 \<times> u64) list" where
  "sessions_of k [] = []"
| "sessions_of k (Session j sid boot incarnation # tr) =
     (if j = k then [(sid, boot, incarnation)] else []) @ sessions_of k tr"
| "sessions_of k (_ # tr) = sessions_of k tr"

fun calls_of :: "nat \<Rightarrow> event list \<Rightarrow> message list" where
  "calls_of k [] = []"
| "calls_of k (Call j msg # tr) = (if j = k then [msg] else []) @ calls_of k tr"
| "calls_of k (_ # tr) = calls_of k tr"

fun session_ids :: "event list \<Rightarrow> u64 list" where
  "session_ids [] = []"
| "session_ids (Session j sid boot incarnation # tr) = sid # session_ids tr"
| "session_ids (_ # tr) = session_ids tr"

lemma trace_append [simp]:
  "sessions_of k (tr @ tr') = sessions_of k tr @ sessions_of k tr'" "calls_of k (tr @ tr') = calls_of k tr @ calls_of k tr'"
  "session_ids (tr @ tr') = session_ids tr @ session_ids tr'"
proof -
  show "sessions_of k (tr @ tr') = sessions_of k tr @ sessions_of k tr'"
    by (induction k tr rule: sessions_of.induct) auto
  show "calls_of k (tr @ tr') = calls_of k tr @ calls_of k tr'"
    by (induction k tr rule: calls_of.induct) auto
  show "session_ids (tr @ tr') = session_ids tr @ session_ids tr'"
    by (induction tr rule: session_ids.induct) auto
qed

text \<open>The request that has passed its check and is not yet served.\<close>

fun pending :: "task \<Rightarrow> message list" where
  "pending (Admitted msg) = (if session_token_of msg = None then [] else [msg])"
| "pending _ = []"

text \<open>Requests numbered in order under one session and one identity.\<close>

definition in_order :: "u64 \<times> u64 \<times> u64 \<Rightarrow> message list \<Rightarrow> bool" where
  "in_order i ms \<longleftrightarrow> (\<forall>n < length ms. \<exists>token. session_token_of (ms ! n) = Some token \<and>
     (tk_session token, tk_client_boot token, tk_client_incarnation token) = i \<and> tk_seq token = of_nat (Suc n))"

lemma in_order_snoc:
  "in_order i (ms @ [m]) \<longleftrightarrow> in_order i ms \<and> (\<exists>token. session_token_of m = Some token \<and>
     (tk_session token, tk_client_boot token, tk_client_incarnation token) = i \<and> tk_seq token = of_nat (Suc (length ms)))"
  by (auto simp: in_order_def nth_append less_Suc_eq)

text \<open>The record of a session after the given number of accepted requests.\<close>

definition bound_to :: "u64 \<times> u64 \<times> u64 \<Rightarrow> nat \<Rightarrow> session_table \<Rightarrow> bool" where
  "bound_to i n t \<longleftrightarrow> (\<exists>r. omap_find (st_sessions t) (fst i) = Some r \<and> sn_client_boot r = fst (snd i) \<and>
     sn_client_incarnation r = snd (snd i) \<and> sn_last_seq r = of_nat n)"

text \<open>What holds of a live connection and of one that has ended or not begun.\<close>

definition live_ok :: "event list \<Rightarrow> session_table \<Rightarrow> nat \<Rightarrow> connection \<Rightarrow> task \<Rightarrow> bool" where
  "live_ok tr t k c task \<longleftrightarrow>
     (if cn_established c then \<exists>i. sessions_of k tr = [i] \<and> fst i = cn_session c \<and>
        in_order i (calls_of k tr @ pending task) \<and> bound_to i (length (calls_of k tr @ pending task)) t
      else sessions_of k tr = [] \<and> calls_of k tr @ pending task = []) \<and>
     (\<forall>req. task = Admitted (HelloRequest req) \<longrightarrow> \<not> cn_established c)"

definition past_ok :: "event list \<Rightarrow> nat \<Rightarrow> bool" where
  "past_ok tr k \<longleftrightarrow> calls_of k tr = [] \<or> (\<exists>i. sessions_of k tr = [i] \<and> in_order i (calls_of k tr))"

definition gate_inv :: "event list \<Rightarrow> world \<Rightarrow> bool" where
  "gate_inv tr w \<longleftrightarrow>
     (\<forall>k. case omap_find (wd_connections w) k of
        None \<Rightarrow> past_ok tr k \<and> (k \<ge> wd_next w \<longrightarrow> sessions_of k tr = [] \<and> calls_of k tr = [])
      | Some (c, task) \<Rightarrow> k < wd_next w \<and> live_ok tr (sv_sessions (wd_server w)) k c task) \<and>
     (\<forall>sid. omap_find (st_sessions (sv_sessions (wd_server w))) sid \<noteq> None \<longrightarrow> sid \<in> set (session_ids tr))"

lemma gate_invD:
  assumes "gate_inv tr w"
  shows "omap_find (wd_connections w) k = Some (c, task) \<Longrightarrow> k < wd_next w \<and> live_ok tr (sv_sessions (wd_server w)) k c task"
    "omap_find (wd_connections w) k = None \<Longrightarrow> past_ok tr k \<and> (k \<ge> wd_next w \<longrightarrow> sessions_of k tr = [] \<and> calls_of k tr = [])"
    "omap_find (st_sessions (sv_sessions (wd_server w))) sid \<noteq> None \<Longrightarrow> sid \<in> set (session_ids tr)"
  using assms by (auto simp: gate_inv_def split: option.splits dest: spec [of _ k])

lemma sessions_of_ids: "i \<in> set (sessions_of k tr) \<Longrightarrow> fst i \<in> set (session_ids tr)"
  by (induction k tr rule: sessions_of.induct) (auto split: if_splits)

lemma session_owner:
  "distinct (session_ids tr) \<Longrightarrow> i \<in> set (sessions_of j tr) \<Longrightarrow> i' \<in> set (sessions_of k tr) \<Longrightarrow> fst i = fst i' \<Longrightarrow> j = k"
  by (induction k tr rule: sessions_of.induct) (auto split: if_splits dest: sessions_of_ids)

lemma live_ok_other:
  assumes "live_ok tr t k c task" "sessions_of k [ev] = []" "calls_of k [ev] = []"
    and "cn_established c \<Longrightarrow> omap_find (st_sessions t') (cn_session c) = omap_find (st_sessions t) (cn_session c)"
  shows "live_ok (tr @ [ev]) t' k c task"
  using assms by (auto simp: live_ok_def bound_to_def)

text \<open>A step of one connection that touches at most the record of its own session.\<close>

lemma gate_set:
  assumes inv: "gate_inv tr w" and dist: "distinct (session_ids (tr @ [ev]))"
    and find: "omap_find (wd_connections w) k = Some (c, task)"
    and live: "live_ok (tr @ [ev]) (sv_sessions s) k c' task'"
    and others: "\<And>j. j \<noteq> k \<Longrightarrow> sessions_of j [ev] = [] \<and> calls_of j [ev] = []"
    and table: "\<And>sid. omap_find (st_sessions (sv_sessions s)) sid \<noteq> omap_find (st_sessions (sv_sessions (wd_server w))) sid \<Longrightarrow>
      cn_established c' \<and> sid = cn_session c'"
  shows "gate_inv (tr @ [ev]) (set_connection k c' task' s w)"
proof -
  have own: "\<exists>i \<in> set (sessions_of k (tr @ [ev])). fst i = cn_session c'" if "cn_established c'"
    using live that by (auto simp: live_ok_def simp del: trace_append)
  have "k' < wd_next w \<and> live_ok (tr @ [ev]) (sv_sessions s) k' d t"
    if "omap_find (wd_connections w) k' = Some (d, t)" "k' \<noteq> k" for k' d t
  proof
    note l = gate_invD(1) [OF inv that(1)]
    then show "k' < wd_next w" by simp
    show "live_ok (tr @ [ev]) (sv_sessions s) k' d t"
    proof (rule live_ok_other)
      show "live_ok tr (sv_sessions (wd_server w)) k' d t" using l by simp
      show "sessions_of k' [ev] = []" "calls_of k' [ev] = []" using others [OF that(2)] by auto
      assume "cn_established d"
      with l have "\<exists>i \<in> set (sessions_of k' (tr @ [ev])). fst i = cn_session d" by (fastforce simp: live_ok_def)
      with own session_owner [OF dist] that(2) have "\<not> (cn_established c' \<and> cn_session d = cn_session c')" by metis
      with table show "omap_find (st_sessions (sv_sessions s)) (cn_session d) =
        omap_find (st_sessions (sv_sessions (wd_server w))) (cn_session d)" by metis
    qed
  qed
  moreover have "past_ok (tr @ [ev]) k' \<and> (k' \<ge> wd_next w \<longrightarrow> sessions_of k' (tr @ [ev]) = [] \<and> calls_of k' (tr @ [ev]) = [])"
    if "omap_find (wd_connections w) k' = None" for k'
  proof -
    have "k' \<noteq> k" using that find by auto
    with gate_invD(2) [OF inv that] others show ?thesis by (auto simp: past_ok_def)
  qed
  moreover have "sid \<in> set (session_ids (tr @ [ev]))" if "omap_find (st_sessions (sv_sessions s)) sid \<noteq> None" for sid
    using table [of sid] that gate_invD(3) [OF inv, of sid] own sessions_of_ids [of _ k "tr @ [ev]"] by fastforce
  moreover have "k < wd_next w" using gate_invD(1) [OF inv find] by simp
  ultimately show ?thesis
    using live by (auto simp: gate_inv_def set_connection_def split: option.splits)
qed

lemma gate_inv_Quiet [simp]: "gate_inv (tr @ [Quiet]) w = gate_inv tr w"
  by (simp add: gate_inv_def live_ok_def past_ok_def cong: option.case_cong)

lemma gate_inv_server: "sv_sessions s = sv_sessions (wd_server w) \<Longrightarrow> gate_inv tr (w\<lparr>wd_server := s\<rparr>) = gate_inv tr w"
  by (simp add: gate_inv_def cong: option.case_cong)

lemma gate_quiet:
  assumes "gate_inv tr w" "distinct (session_ids tr)" "omap_find (wd_connections w) k = Some (c, task)"
    "cn_session c' = cn_session c" "cn_established c' = cn_established c" "sv_sessions s = sv_sessions (wd_server w)"
    "pending task' = pending task" "\<And>req. task' = Admitted (HelloRequest req) \<Longrightarrow> \<not> cn_established c"
  shows "gate_inv tr (set_connection k c' task' s w)"
proof -
  have "gate_inv (tr @ [Quiet]) (set_connection k c' task' s w)"
    using gate_invD(1) [OF assms(1,3)] assms
    by (intro gate_set [OF assms(1) _ assms(3)]) (auto simp: live_ok_def bound_to_def)
  then show ?thesis by simp
qed


lemma gate_accepting:
  assumes "gate_inv tr w"
  shows "gate_inv tr (accept_connection w)"
proof (cases "over_capacity w")
  case True
  then show ?thesis using assms by (simp add: accept_connection_def count_accept_rejected_def gate_inv_server)
next
  case False
  let ?n = "wd_next w"
  have "omap_find (wd_connections w) ?n = None"
    using gate_invD(1) [OF assms, of ?n] by (cases "omap_find (wd_connections w) ?n") auto
  then have "live_ok tr t ?n (connection_new s) Idle" for t s
    using gate_invD(2) [OF assms, of ?n] by (simp add: live_ok_def connection_new_def)
  then show ?thesis
    using False gate_invD [OF assms] unfolding gate_inv_def
    by (auto simp: accept_connection_def count_accepted_def less_Suc_eq split: option.splits)
qed

text \<open>A token check touches at most the record of the session of its connection.\<close>

lemma validate_accepts:
  assumes "validate sid boot incarnation seq t = ((O_Ok, reason), t')"
  obtains r where "omap_find (st_sessions t) sid = Some r" "sn_client_boot r = boot" "sn_client_incarnation r = incarnation"
    "seq = sn_last_seq r + 1"
    "omap_find (st_sessions t') = (omap_find (st_sessions t))(sid \<mapsto> r\<lparr>sn_last_seq := seq, sn_requests := sn_requests r + 1\<rparr>)"
  using assms by (auto simp: validate_def fun_eq_iff split: option.splits if_splits)

lemma require_session_refuses:
  assumes "require_session token c t = (Some e, t')"
  obtains (untouched) "t' = t"
  | (counted) r where "cn_established c" "omap_find (st_sessions t) (cn_session c) = Some r"
    "omap_find (st_sessions t') = (omap_find (st_sessions t))(cn_session c \<mapsto> r\<lparr>sn_rejected := sn_rejected r + 1\<rparr>)"
  using assms by (auto simp: require_session_def validate_def session_refuse_def is_affirmative_def Let_def fun_eq_iff
      split: option.splits if_splits)

lemma gate_refused:
  assumes "gate_inv tr w" "distinct (session_ids tr)" "omap_find (wd_connections w) k = Some (c, Idle)"
    "sv_sessions s = sv_sessions (wd_server w) \<or>
      (\<exists>token. require_session token (c\<lparr>cn_decoder := d\<rparr>) (sv_sessions (wd_server w)) = (Some e, sv_sessions s))"
  shows "gate_inv tr (set_connection k (c\<lparr>cn_decoder := d\<rparr>) (Answered reply) s w)"
  using assms(4)
proof
  assume "sv_sessions s = sv_sessions (wd_server w)"
  then show ?thesis using assms by (intro gate_quiet) auto
next
  assume "\<exists>token. require_session token (c\<lparr>cn_decoder := d\<rparr>) (sv_sessions (wd_server w)) = (Some e, sv_sessions s)"
  then obtain token where t: "require_session token (c\<lparr>cn_decoder := d\<rparr>) (sv_sessions (wd_server w)) = (Some e, sv_sessions s)" ..
  then show ?thesis
  proof (cases rule: require_session_refuses)
    case untouched
    then show ?thesis using assms by (intro gate_quiet) auto
  next
    case (counted r)
    then have "gate_inv (tr @ [Quiet]) (set_connection k (c\<lparr>cn_decoder := d\<rparr>) (Answered reply) s w)"
      using gate_invD(1) [OF assms(1,3)] assms(2)
      by (intro gate_set [OF assms(1) _ assms(3)]) (auto simp: live_ok_def bound_to_def split: if_splits)
    then show ?thesis by simp
  qed
qed

lemma gate_admitted:
  assumes "gate_inv tr w" "distinct (session_ids tr)" "omap_find (wd_connections w) k = Some (c, Idle)"
    "session_token_of msg = Some token"
    "require_session token (c\<lparr>cn_decoder := d\<rparr>) (sv_sessions (wd_server w)) = (None, sv_sessions s)"
  shows "gate_inv tr (set_connection k (c\<lparr>cn_decoder := d\<rparr>) (Admitted msg) s w)"
proof -
  from require_session_accepts [OF assms(5)] have est: "cn_established c" "tk_session token = cn_session c"
    and v: "validate (cn_session c) (tk_client_boot token) (tk_client_incarnation token) (tk_seq token)
      (sv_sessions (wd_server w)) = ((O_Ok, R_None), sv_sessions s)" by simp_all
  from v obtain r where r: "omap_find (st_sessions (sv_sessions (wd_server w))) (cn_session c) = Some r"
    "sn_client_boot r = tk_client_boot token" "sn_client_incarnation r = tk_client_incarnation token"
    "tk_seq token = sn_last_seq r + 1"
    "omap_find (st_sessions (sv_sessions s)) = (omap_find (st_sessions (sv_sessions (wd_server w))))
      (cn_session c \<mapsto> r\<lparr>sn_last_seq := tk_seq token, sn_requests := sn_requests r + 1\<rparr>)"
    by (rule validate_accepts)
  from gate_invD(1) [OF assms(1,3)] est(1) obtain i where i: "sessions_of k tr = [i]" "fst i = cn_session c"
    "in_order i (calls_of k tr)" "bound_to i (length (calls_of k tr)) (sv_sessions (wd_server w))"
    by (auto simp: live_ok_def)
  have "tk_seq token = of_nat (Suc (length (calls_of k tr)))"
    "(tk_session token, tk_client_boot token, tk_client_incarnation token) = i"
    using i(2,4) r est(2) by (auto simp: bound_to_def prod_eq_iff)
  with i r est assms(4) have "live_ok (tr @ [Quiet]) (sv_sessions s) k (c\<lparr>cn_decoder := d\<rparr>) (Admitted msg)"
    by (auto simp: live_ok_def bound_to_def in_order_snoc)
  then have "gate_inv (tr @ [Quiet]) (set_connection k (c\<lparr>cn_decoder := d\<rparr>) (Admitted msg) s w)"
    using assms(1-3) est(1) r(5) by (intro gate_set [OF assms(1) _ assms(3)]) (auto split: if_splits)
  then show ?thesis by simp
qed

lemma gate_greeting:
  assumes "gate_inv tr w" "omap_find (wd_connections w) k = Some (c, Admitted (HelloRequest req))"
    "serve_hello req clk c (wd_server w) = (r, c', s)" "distinct (session_ids (tr @ [hello_event k req c']))"
  shows "gate_inv (tr @ [hello_event k req c']) (set_connection k c' (Answered r) s w)"
proof -
  from gate_invD(1) [OF assms(1,2)] have new: "\<not> cn_established c" "sessions_of k tr = []" "calls_of k tr = []"
    by (auto simp: live_ok_def split: if_splits)
  from assms(3) show ?thesis
  proof (cases rule: serve_hello_cases)
    case (refused t)
    with new have "hello_event k req c' = Quiet" by (simp add: hello_event_def)
    moreover from refused have "omap_find (st_sessions (sv_sessions s)) = omap_find (st_sessions (sv_sessions (wd_server w)))" by simp
    ultimately show ?thesis
      using assms refused new by (intro gate_set [OF assms(1) _ assms(2)]) (auto simp: live_ok_def)
  next
    case (established sid t)
    let ?b = "tk_client_boot (hq_token req)" and ?i = "tk_client_incarnation (hq_token req)"
    have ev: "hello_event k req c' = Session k sid ?b ?i" using established by (simp add: hello_event_def)
    with assms(4) gate_invD(3) [OF assms(1), of sid] have none: "omap_find (st_sessions (sv_sessions (wd_server w))) sid = None"
      by (cases "omap_find (st_sessions (sv_sessions (wd_server w))) sid") auto
    obtain rec where "omap_find (st_sessions t) = (omap_find (st_sessions (sv_sessions (wd_server w))))(sid \<mapsto> rec)"
      "sn_client_boot rec = ?b" "sn_client_incarnation rec = ?i" "sn_last_seq rec = 0"
      using established(1) none
      by (auto simp: establish_def omap_emplace_def Let_def fun_eq_iff split: if_splits intro!: that)
    then show ?thesis
      using established ev new assms(4)
      by (intro gate_set [OF assms(1) _ assms(2)])
        (auto simp: live_ok_def bound_to_def in_order_def split: if_splits)
  qed
qed

lemma gate_called:
  assumes "gate_inv tr w" "distinct (session_ids tr)" "omap_find (wd_connections w) k = Some (c, Admitted msg)"
    "session_token_of msg \<noteq> None" "sv_sessions s = sv_sessions (wd_server w)" "pending task' = []"
    "\<And>req. task' \<noteq> Admitted (HelloRequest req)"
  shows "gate_inv (tr @ [Call k msg]) (set_connection k c task' s w)"
  using gate_invD(1) [OF assms(1,3)] assms
  by (intro gate_set [OF assms(1) _ assms(3)]) (auto simp: live_ok_def split: if_splits)

lemma gate_closing:
  assumes "gate_inv tr w" "distinct (session_ids tr)" "omap_find (wd_connections w) k = Some (c, Closing)"
  shows "gate_inv tr (w\<lparr>wd_server := close_connection c (wd_server w),
      wd_connections := omap_erase (wd_connections w) k\<rparr>)"
proof -
  note l = gate_invD(1) [OF assms(1,3)]
  let ?t = "sv_sessions (wd_server w)" and ?t' = "sv_sessions (close_connection c (wd_server w))"
  have rel: "omap_find (st_sessions ?t') sid = (if cn_established c \<and> sid = cn_session c then None else omap_find (st_sessions ?t) sid)" for sid
    by (simp add: close_connection_def release_def Let_def)
  have "past_ok tr k" using l by (auto simp: past_ok_def live_ok_def split: if_splits)
  moreover have "k' < wd_next w \<and> live_ok tr ?t' k' d t"
    if "omap_find (wd_connections w) k' = Some (d, t)" "k' \<noteq> k" for k' d t
  proof -
    note l' = gate_invD(1) [OF assms(1) that(1)]
    have "\<not> (cn_established c \<and> cn_established d \<and> cn_session d = cn_session c)"
      using l l' session_owner [OF assms(2), of _ k' _ k] that(2) by (fastforce simp: live_ok_def)
    then have "live_ok tr ?t' k' d t" using l' rel live_ok_other [of tr ?t k' d t Quiet ?t'] by (auto simp: live_ok_def)
    then show ?thesis using l' by simp
  qed
  ultimately show ?thesis
    using gate_invD(2,3) [OF assms(1)] rel l by (auto simp: gate_inv_def split: option.splits if_splits)
qed

lemma gate_admitting:
  assumes "gate_inv tr w" "distinct (session_ids tr)" "omap_find (wd_connections w) k = Some (c, Idle)"
    and "admit_request f (c\<lparr>cn_decoder := d\<rparr>) (count_frame_decoded (wd_server w)) = (r, s)"
  shows "gate_inv tr (set_connection k (c\<lparr>cn_decoder := d\<rparr>)
    (case r of Inl e \<Rightarrow> Answered (Refused e) | Inr msg \<Rightarrow> Admitted msg) s w)"
  using assms(4)
proof (cases rule: admit_request_cases)
  case (refused e t)
  then show ?thesis using gate_refused [OF assms(1-3), of s d e] by (auto simp: count_frame_decoded_def)
next
  case (free msg)
  then have "\<And>req. msg = HelloRequest req \<Longrightarrow> \<not> cn_established c" using decode_message_type [OF free(5)] by auto
  then show ?thesis using free gate_quiet [OF assms(1-3), of "c\<lparr>cn_decoder := d\<rparr>" s "Admitted msg"]
    by (simp add: count_frame_decoded_def)
next
  case (session msg token t)
  then show ?thesis using gate_admitted [OF assms(1-3), of msg token d s] by (simp add: count_frame_decoded_def)
qed

lemma gate_step:
  assumes "server_step w ev w'" "gate_inv tr w" "distinct (session_ids (tr @ [ev]))"
  shows "gate_inv (tr @ [ev]) w'"
proof -
  have dist: "distinct (session_ids tr)" using assms(3) by simp
  note quiet = gate_quiet [OF assms(2) dist]
  from assms(1) show ?thesis
  proof (cases rule: server_step.cases)
    case accepting
    then show ?thesis using gate_accepting [OF assms(2)] by simp
  next
    case (admitting k c oc f d r s)
    then show ?thesis using gate_admitting [OF assms(2) dist admitting(3,5)] by simp
  next
    case (greeting k c req clk r c' s)
    then show ?thesis using gate_greeting [OF assms(2)] assms(3) by simp
  next
    case (serving k c msg clk r c' s)
    with serve_session_request [OF serving(6,4)] gate_called [OF assms(2) dist serving(3,4)] show ?thesis by simp
  next
    case (diagnosing k c req clk oc out e)
    then show ?thesis using gate_called [OF assms(2) dist diagnosing(3)] by simp
  next
    case (closing k c)
    then show ?thesis using gate_closing [OF assms(2) dist] by simp
  next
    case stopping
    then show ?thesis using assms(2)
      by (auto simp: gate_inv_def finish_stop_def session_clear_def omap_find_def past_ok_def)
  next
    case (responding k c r f b sent out s)
    then have "sv_sessions s = sv_sessions (wd_server w)" by (auto simp: send_response_def Let_def split: if_splits)
    then show ?thesis using responding by (auto intro!: quiet)
  next
    case (owner_opens boot incarnation clk)
    then show ?thesis using assms(2) by (simp add: gate_inv_server)
  next
    case (owner_closes clk)
    then show ?thesis using assms(2) by (simp add: gate_inv_server)
  qed (use assms(2) in \<open>auto dest!: server_start_keeps intro!: quiet simp: count_frame_rejected_def request_stop_def gate_inv_server\<close>)
qed

lemma gate_run:
  assumes "server_run config d sc tr w" "distinct (session_ids tr)"
  shows "gate_inv tr w"
  using assms
proof (induction rule: server_run.induct)
  case started
  then show ?case
    by (simp add: gate_inv_def world_new_def server_new_def session_table_new_def omap_find_def past_ok_def)
next
  case (stepped tr w ev w')
  then show ?case using gate_step by simp
qed


lemma config_step: "server_step w ev w' \<Longrightarrow> sv_config (wd_server w') = sv_config (wd_server w)"
proof (induction rule: server_step.induct)
  case (admitting w k c oc f d r s)
  then show ?case using admit_request_keeps [OF admitting(3)] by (simp add: set_connection_def)
next
  case (greeting w k c req clk r c' s)
  from greeting(2) show ?case by (cases rule: serve_hello_cases) (simp_all add: set_connection_def)
next
  case (serving w k c msg clk r c' s)
  then show ?case using serve_session_request(4) [OF serving(4,2)] by (simp add: set_connection_def)
qed (auto dest!: server_start_keeps simp: set_connection_def accept_connection_def count_accepted_def count_accept_rejected_def close_connection_def
      finish_stop_def request_stop_def send_response_def Let_def split: if_splits)

lemma config_run: "server_run config d sc tr w \<Longrightarrow> sv_config (wd_server w) = sc"
  by (induction rule: server_run.induct) (simp_all add: world_new_def server_new_def config_step)

section \<open>Calls as they were meant\<close>

text \<open>The operation of the coordinator that a request asks for, with its arguments.\<close>

fun call_meant :: "message \<Rightarrow> engine_call option" where
  "call_meant (SubmitEvidenceRequest v) = Some (Call_Submit (sq_evidence v))"
| "call_meant (EvaluateRequest v) = Some (Call_Evaluate (eq_scope v) (eq_gens v))"
| "call_meant (AckFenceRequest v) = Some (Call_Acknowledge (aq_fence v) (aq_downstream v))"
| "call_meant (ReportEffectRequest v) = Some (Call_Effect (rq_fence v) (rq_downstream v) (rq_verified v))"
| "call_meant (RestoreRequest v) = Some (Call_Restore (tq_scope v) (tq_gens v))"
| "call_meant (CheckpointRequest v) = Some Call_Checkpoint"
| "call_meant _ = None"

definition is_query :: "message \<Rightarrow> bool" where
  "is_query msg \<longleftrightarrow> message_type_of msg = M_LineageRequest \<or> message_type_of msg = M_StatsRequest"

text \<open>A connection may call with the token of a session that it was given before.\<close>

definition authorised :: "nat \<Rightarrow> message \<Rightarrow> event list \<Rightarrow> bool" where
  "authorised k msg tr \<longleftrightarrow> (\<exists>token. session_token_of msg = Some token \<and>
     tk_session token \<in> fst ` set (sessions_of k tr))"

text \<open>
  The coordinator conducted by the events of a run: a call event is the operation its request asks
  for and needs a session, a query changes nothing, a localization starts with the evaluation of its
  subject and ends at a later point with what it found; apart from these only the owner acts on the
  coordinator, by opening and closing it.
\<close>

inductive conducted :: "engine_config \<Rightarrow> disk \<Rightarrow> event list \<Rightarrow> engine \<times> in_flight multiset \<Rightarrow> bool" for config d where
  begun: "conducted config d [] (engine_new config d, {#})"
| silent: "conducted config d tr s \<Longrightarrow> conducted config d (tr @ [Quiet]) s"
| greeted: "conducted config d tr s \<Longrightarrow> conducted config d (tr @ [Session k sid boot incarnation]) s"
| owner: "conducted config d tr (e, fl) \<Longrightarrow> c = Call_Open boot incarnation \<or> c = Call_Close \<Longrightarrow>
    conducted config d (tr @ [Quiet]) (run_call c clk e, fl)"
| called: "conducted config d tr (e, fl) \<Longrightarrow> authorised k msg tr \<Longrightarrow> call_meant msg = Some c \<Longrightarrow>
    conducted config d (tr @ [Call k msg]) (run_call c clk e, fl)"
| queried: "conducted config d tr s \<Longrightarrow> authorised k msg tr \<Longrightarrow> is_query msg \<Longrightarrow>
    conducted config d (tr @ [Call k msg]) s"
| diagnosed: "conducted config d tr (e, fl) \<Longrightarrow> authorised k (LocalizeRequest req) tr \<Longrightarrow>
    evaluate (lq_scope req) (lq_gens req) clk e = ((oc, out), e') \<Longrightarrow>
    conducted config d (tr @ [Call k (LocalizeRequest req)]) (e', add_mset (out, lq_hop_count req, lq_probes req) fl)"
| localized: "conducted config d tr (e, add_mset (out, hops, probes) fl) \<Longrightarrow>
    conducted config d (tr @ [Quiet]) (snd (localize_finish (localize_search hops probes (en_policy e)) out e), fl)"

lemma conducted_reachable: "conducted config d tr s \<Longrightarrow> engine_reachable config d s"
  by (induction rule: conducted.induct)
    (auto intro: engine_reachable.start engine_reachable.step engine_step.call engine_step.localize_begin
      engine_step.localize_end simp del: run_call.simps)

lemma serve_request_call:
  assumes "serve_request msg clk c s = (r, c', s')" "message_type_of msg \<noteq> M_LocalizeRequest" "session_token_of msg \<noteq> None"
  shows "(\<exists>call. call_meant msg = Some call \<and> sv_engine s' = run_call call clk (sv_engine s)) \<or>
    is_query msg \<and> sv_engine s' = sv_engine s"
  using assms
  by (cases msg) (auto simp: on_engine_def serve_submit_def serve_evaluate_def serve_ack_def serve_effect_def
      serve_restore_def serve_checkpoint_def is_query_def Let_def split: prod.splits)

text \<open>What a connection may rely on: its session was given to it, and an admitted request names it.\<close>

definition held_ok :: "event list \<Rightarrow> nat \<Rightarrow> connection \<Rightarrow> task \<Rightarrow> bool" where
  "held_ok tr k c t \<longleftrightarrow>
     (cn_established c \<longrightarrow> cn_session c \<in> fst ` set (sessions_of k tr)) \<and>
     (\<forall>msg token. t = Admitted msg \<and> session_token_of msg = Some token \<longrightarrow>
       cn_established c \<and> tk_session token = cn_session c)"

definition held :: "event list \<Rightarrow> world \<Rightarrow> bool" where
  "held tr w \<longleftrightarrow> (\<forall>k c t. omap_find (wd_connections w) k = Some (c, t) \<longrightarrow> held_ok tr k c t)"

lemma held_ok_later: "held_ok tr k c t \<Longrightarrow> held_ok (tr @ [ev]) k c t"
  by (auto simp: held_ok_def image_Un)

lemma held_later: "held tr w \<Longrightarrow> held (tr @ [ev]) w"
  by (auto simp: held_def held_ok_later)

lemma held_server: "held tr (w\<lparr>wd_server := s\<rparr>) = held tr w"
  by (simp add: held_def)

lemma held_set:
  assumes "held tr w" "held_ok (tr @ [ev]) k c t"
  shows "held (tr @ [ev]) (set_connection k c t s w)"
  using assms by (auto simp: held_def set_connection_def held_ok_later)

lemma held_same:
  assumes "held tr w" "omap_find (wd_connections w) k = Some (c, t)" "cn_session c' = cn_session c"
    "cn_established c' = cn_established c" "\<And>msg. t' \<noteq> Admitted msg"
  shows "held (tr @ [ev]) (set_connection k c' t' s w)"
proof (rule held_set [OF assms(1)])
  have "held_ok tr k c t" using assms(1,2) by (simp add: held_def)
  then show "held_ok (tr @ [ev]) k c' t'"
    using assms(3-5) by (auto simp: held_ok_def image_Un)
qed

lemma held_step:
  assumes "server_step w ev w'" "held tr w"
  shows "held (tr @ [ev]) w'"
  using assms(1)
proof (cases rule: server_step.cases)
  case accepting
  have "held_ok (tr @ [Quiet]) k (connection_new s) Idle" for k s by (simp add: held_ok_def connection_new_def)
  then show ?thesis using accepting held_later [OF assms(2), of Quiet] by (auto simp: accept_connection_def held_def)
next
  case (admitting k c oc f d r s)
  have "held_ok tr k c Idle" using assms(2) admitting(3) by (simp add: held_def)
  then have "held_ok (tr @ [Quiet]) k (c\<lparr>cn_decoder := d\<rparr>)
      (case r of Inl e \<Rightarrow> Answered (Refused e) | Inr msg \<Rightarrow> Admitted msg)"
    using admit_request_session [of f "c\<lparr>cn_decoder := d\<rparr>" "count_frame_decoded (wd_server w)" _ s] admitting(5)
    by (auto simp: held_ok_def split: sum.splits)
  from held_set [OF assms(2) this] admitting show ?thesis by simp
next
  case (greeting k c req clk r c' s)
  have h: "held_ok tr k c (Admitted (HelloRequest req))" using assms(2) greeting(3) by (simp add: held_def)
  from greeting(4) have "held_ok (tr @ [ev]) k c' (Answered r)"
    by (cases rule: serve_hello_cases) (use h greeting(1) in \<open>auto simp: held_ok_def hello_event_def\<close>)
  from held_set [OF assms(2) this] greeting show ?thesis by simp
next
  case (serving k c msg clk r c' s)
  then show ?thesis using held_same [OF assms(2) serving(3)] serve_session_request(1) [OF serving(6,4)] by simp
next
  case (closing k c)
  then show ?thesis using held_later [OF assms(2), of Quiet] by (auto simp: held_def)
qed (use assms(2) held_later [OF assms(2), of Quiet] in \<open>auto intro!: held_same simp: held_server\<close>)

lemma held_run: "server_run config d sc tr w \<Longrightarrow> held tr w"
proof (induction rule: server_run.induct)
  case started
  then show ?case by (simp add: held_def world_new_def omap_find_def)
next
  case (stepped tr w ev w')
  then show ?case using held_step by simp
qed

lemma held_authorised:
  assumes "held tr w" "omap_find (wd_connections w) k = Some (c, Admitted msg)" "session_token_of msg \<noteq> None"
  shows "authorised k msg tr"
proof -
  have "held_ok tr k c (Admitted msg)" using assms(1,2) by (simp add: held_def)
  moreover obtain token where "session_token_of msg = Some token" using assms(3) by auto
  ultimately show ?thesis by (simp add: held_ok_def authorised_def)
qed

lemma server_conducts:
  assumes "server_step w ev w'" "connections_ok w" "held tr w" "conducted config d tr (engine_view w)"
  shows "conducted config d (tr @ [ev]) (engine_view w')"
  using assms(1)
proof (cases rule: server_step.cases)
  case accepting
  have "omap_find (wd_connections w) (wd_next w) = None"
    using assms(2) by (fastforce simp: connections_ok_def omap_find_None_iff)
  from omap_vals_put_new [OF this] have "engine_view (accept_connection w) = engine_view w"
    by (simp add: engine_view_def in_flight_of_def accept_connection_def count_accepted_def count_accept_rejected_def)
  with accepting conducted.silent [OF assms(4)] show ?thesis by simp
next
  case (admitting k c oc f d r s)
  with in_flight_set [OF assms(2) admitting(3)] admit_request_keeps [OF admitting(5)] have "engine_view w' = engine_view w"
    by (auto simp: engine_view_def set_connection_def count_frame_decoded_def split: sum.splits)
  with admitting(1) conducted.silent [OF assms(4)] show ?thesis by simp
next
  case (greeting k c req clk r c' s)
  with in_flight_set [OF assms(2) greeting(3)] have "engine_view w' = engine_view w"
    by (auto simp: engine_view_def set_connection_def elim!: serve_hello_cases)
  with greeting(1) conducted.silent [OF assms(4)] conducted.greeted [OF assms(4)] show ?thesis by (simp add: hello_event_def)
next
  case (serving k c msg clk r c' s)
  have "in_flight_of w' = in_flight_of w" using in_flight_set [OF assms(2) serving(3)] serving(2) by simp
  then have view: "engine_view w' = (sv_engine s, in_flight_of w)"
    using serving(2) by (simp add: engine_view_def set_connection_def)
  note auth = held_authorised [OF assms(3) serving(3,4)]
  note before = assms(4) [unfolded engine_view_def]
  from serve_request_call [OF serving(6,5,4)] show ?thesis
    unfolding view serving(1) using conducted.called [OF before auth] conducted.queried [OF before auth] by metis
next
  case (diagnosing k c req clk oc out e)
  have view: "engine_view w' = (e, add_mset (out, lq_hop_count req, lq_probes req) (in_flight_of w))"
    using in_flight_set [OF assms(2) diagnosing(3)] diagnosing(2) by (simp add: engine_view_def set_connection_def)
  have "authorised k (LocalizeRequest req) tr" by (rule held_authorised [OF assms(3) diagnosing(3)]) simp
  from conducted.diagnosed [OF assms(4) [unfolded engine_view_def] this diagnosing(4)] show ?thesis
    unfolding view diagnosing(1) .
next
  case (localizing k c out hops probes r e)
  have fl: "in_flight_of w = add_mset (out, hops, probes) (in_flight_of w')"
    using in_flight_set [OF assms(2) localizing(3)] localizing(2) by simp
  have "e = snd (localize_finish (localize_search hops probes (en_policy (sv_engine (wd_server w)))) out
      (sv_engine (wd_server w)))"
    using localizing(4) by (auto simp: localize_reply_def split: prod.splits)
  then have view: "engine_view w' = (snd (localize_finish (localize_search hops probes (en_policy (sv_engine (wd_server w))))
      out (sv_engine (wd_server w))), in_flight_of w')"
    using localizing(2) by (simp add: engine_view_def set_connection_def)
  show ?thesis
    unfolding view localizing(1) by (rule conducted.localized) (use assms(4) fl in \<open>simp add: engine_view_def\<close>)
next
  case (responding k c r f b sent out s)
  with in_flight_set [OF assms(2) responding(3)] have "engine_view w' = engine_view w"
    by (auto simp: engine_view_def set_connection_def send_response_def Let_def split: if_splits)
  with responding(1) conducted.silent [OF assms(4)] show ?thesis by simp
next
  case (closing k c)
  with in_flight_closed [OF assms(2) closing(3)] have "engine_view w' = engine_view w"
    by (simp add: engine_view_def close_connection_def Let_def)
  with closing(1) conducted.silent [OF assms(4)] show ?thesis by simp
next
  case (owner_opens boot incarnation clk)
  with conducted.owner [OF assms(4) [unfolded engine_view_def], of "Call_Open boot incarnation" boot incarnation clk]
  show ?thesis by (simp add: engine_view_server)
next
  case (owner_closes clk)
  with conducted.owner [OF assms(4) [unfolded engine_view_def], of Call_Close _ _ clk]
  show ?thesis by (simp add: engine_view_server)
qed (use assms(2) engine_view_set [OF assms(2)] engine_view_def [of w] conducted.silent [OF assms(4)] in
    \<open>auto simp: engine_view_server finish_stop_def request_stop_def count_frame_rejected_def dest!: server_start_keeps\<close>)

lemma conducted_run:
  assumes "server_run config d sc tr w"
  shows "conducted config d tr (engine_view w)"
  using assms
proof (induction rule: server_run.induct)
  case started
  then show ?case
    by (simp add: engine_view_def in_flight_of_def omap_vals_def world_new_def server_new_def conducted.begun)
next
  case (stepped tr w ev w')
  from server_conducts [OF stepped(2) connections_ok_run [OF stepped(1)] held_run [OF stepped(1)] stepped(3)]
  show ?case .
qed

end
