(* ===== verification/BHG_Client.thy ===== *)
theory BHG_Client
  imports BHG_Server_Steps
begin

text \<open>
  The client (\<open>service/client.hpp\<close>, \<open>service/client.cpp\<close>): one connection, one session, requests in
  sequence. What the socket does is an argument: the outcome of the send and the results of the
  reads, in order, each with the bytes or the text of its failure. A call that has consumed the reads and still waits for bytes is \<open>None\<close>.
\<close>

section \<open>State\<close>

record client =
  cl_label :: provenance
  cl_decoder :: frame_decoder
  cl_hello :: hello_response
  cl_connected :: bool
  cl_established :: bool
  cl_seq :: u64
  cl_request :: u64
  cl_boot :: u64
  cl_incarnation :: u64
  cl_last_error :: bytes

definition hello_nil :: hello_response where
  "hello_nil = \<lparr>hs_session = 0, hs_server_boot = 0, hs_server_incarnation = 0, hs_epoch = 0, hs_policy = 0,
     hs_policy_fingerprint = 0, hs_protocol_version = 0, hs_label = P_Synthetic\<rparr>"

definition error_nil :: error_response where
  "error_nil = \<lparr>er_outcome = O_Invalid, er_reason = R_None, er_detail = []\<rparr>"

definition kDefaultMaxFrameBytes :: u32 where "kDefaultMaxFrameBytes = 0x100000"

text \<open>The boot and the incarnation come from the nonce source.\<close>

definition client_new :: "provenance \<Rightarrow> u64 \<Rightarrow> u64 \<Rightarrow> client" where
  "client_new label boot incarnation = \<lparr>cl_label = label, cl_decoder = frame_decoder_new kDefaultMaxFrameBytes,
     cl_hello = hello_nil, cl_connected = False, cl_established = False, cl_seq = 0, cl_request = 0,
     cl_boot = boot, cl_incarnation = incarnation, cl_last_error = []\<rparr>"

definition client_close :: "client \<Rightarrow> client" where
  "client_close cl = cl\<lparr>cl_connected := False, cl_established := False\<rparr>"

definition connect_loopback :: "outcome \<Rightarrow> bytes \<Rightarrow> client \<Rightarrow> outcome \<times> client" where
  "connect_loopback oc detail cl =
     (let cl = client_close cl
      in if \<not> is_affirmative oc then (oc, cl\<lparr>cl_last_error := detail\<rparr>)
         else (O_Ok, cl\<lparr>cl_decoder := frame_decoder_new kDefaultMaxFrameBytes, cl_connected := True, cl_seq := 0,
           cl_request := 0\<rparr>))"

definition next_token :: "client \<Rightarrow> session_token \<times> client" where
  "next_token cl =
     (let cl = cl\<lparr>cl_request := cl_request cl + 1, cl_seq := cl_seq cl + 1\<rparr>
      in (\<lparr>tk_session = hs_session (cl_hello cl), tk_request = cl_request cl, tk_seq = cl_seq cl,
           tk_client_boot = cl_boot cl, tk_client_incarnation = cl_incarnation cl\<rparr>, cl))"

section \<open>The exchange\<close>

text \<open>The outcome of a socket operation, with the bytes received or the text of the failure.\<close>

type_synonym io = "outcome \<times> bytes"

definition fail_with :: "outcome \<Rightarrow> string \<Rightarrow> client \<Rightarrow> (outcome \<times> bytes \<times> error_response) option \<times> client" where
  "fail_with oc s cl = (Some (oc, [], error_nil), cl\<lparr>cl_last_error := text_bytes s\<rparr>)"

definition take_response :: "message_type \<Rightarrow> frame \<Rightarrow> client \<Rightarrow> (outcome \<times> bytes \<times> error_response) option \<times> client" where
  "take_response expected f cl =
     (if fr_type f = M_ErrorResponse then
        (case decode_all decode_error_response (fr_payload f) of
           Inl oc \<Rightarrow> (Some (oc, [], error_nil), cl)
         | Inr e \<Rightarrow> (Some (er_outcome e, [], e), cl\<lparr>cl_last_error := er_detail e\<rparr>))
      else if fr_type f \<noteq> expected then fail_with O_Malformed ''unexpected response type'' cl
      else (Some (O_Ok, fr_payload f, error_nil), cl))"

fun await_response ::
  "message_type \<Rightarrow> io list \<Rightarrow> client \<Rightarrow> (outcome \<times> bytes \<times> error_response) option \<times> client" where
  "await_response expected reads cl =
     (case next_frame (cl_decoder cl) of
        ((oc, Some f), d) \<Rightarrow> take_response expected f (cl\<lparr>cl_decoder := d\<rparr>)
      | ((oc, None), d) \<Rightarrow>
          (let cl = cl\<lparr>cl_decoder := d\<rparr> in
           if oc \<noteq> O_NotFound then fail_with oc ''frame rejected'' cl
           else
             (case reads of
                [] \<Rightarrow> (None, cl)
              | (ro, bs) # reads \<Rightarrow>
                  if \<not> is_affirmative ro then (Some (ro, [], error_nil), cl\<lparr>cl_last_error := bs\<rparr>)
                  else if bs = [] then fail_with O_Unavailable ''peer closed'' (cl\<lparr>cl_connected := False\<rparr>)
                  else
                    (let (fo, d) = feed bs (cl_decoder cl); cl = cl\<lparr>cl_decoder := d\<rparr> in
                     if \<not> is_affirmative fo then fail_with fo ''decoder refused bytes'' cl
                     else await_response expected reads cl))))"

definition request_frame :: "message_type \<Rightarrow> bytes \<Rightarrow> writer" where
  "request_frame ty body =
     encode_frame \<lparr>fr_type = ty, fr_flags = 0, fr_payload = body\<rparr> (writer_new kDefaultMaxDocumentBytes)"

definition exchange :: "message_type \<Rightarrow> bytes \<Rightarrow> message_type \<Rightarrow> io \<Rightarrow> io list \<Rightarrow> client
    \<Rightarrow> (outcome \<times> bytes \<times> error_response) option \<times> client" where
  "exchange ty body expected sent reads cl =
     (if \<not> cl_connected cl then fail_with O_Unavailable ''not connected'' cl
      else if \<not> wok (request_frame ty body) then fail_with O_Oversized ''request too large'' cl
      else if \<not> is_affirmative (fst sent) then (Some (fst sent, [], error_nil), cl\<lparr>cl_last_error := snd sent\<rparr>)
      else await_response expected reads cl)"

section \<open>Calls\<close>

text \<open>Encode into a writer of the given size, exchange, decode; the result carries the response.\<close>

definition call :: "nat \<Rightarrow> message \<Rightarrow> message_type \<Rightarrow> io \<Rightarrow> io list \<Rightarrow> client
    \<Rightarrow> (outcome \<times> message option) option \<times> client" where
  "call n msg expected sent reads cl =
     (let w = encode_message msg (writer_new n)
      in if \<not> wok w then (Some (O_Exhausted, None), cl)
         else
           (let (r, cl) = exchange (message_type_of msg) (wbuf w) expected sent reads cl
            in (case r of
                  None \<Rightarrow> (None, cl)
                | Some (oc, body, e) \<Rightarrow>
                    if \<not> is_affirmative oc then (Some (oc, None), cl)
                    else
                      (case decode_all (decode_message expected) body of
                         Inl d \<Rightarrow> (Some (d, None), cl)
                       | Inr m \<Rightarrow> (Some (O_Ok, Some m), cl)))))"

definition client_hello :: "bytes \<Rightarrow> io \<Rightarrow> io list \<Rightarrow> client \<Rightarrow> (outcome \<times> message option) option \<times> client" where
  "client_hello name sent reads cl =
     (let cl = cl\<lparr>cl_request := cl_request cl + 1\<rparr>;
          token = \<lparr>tk_session = 0, tk_request = cl_request cl, tk_seq = 0, tk_client_boot = cl_boot cl,
            tk_client_incarnation = cl_incarnation cl\<rparr>;
          (r, cl) = call 256 (HelloRequest \<lparr>hq_token = token, hq_client_name = take kMaxClientNameBytes name,
            hq_label = cl_label cl\<rparr>) M_HelloResponse sent reads cl
      in (case r of
            Some (oc, Some (HelloResponse out)) \<Rightarrow> (r, cl\<lparr>cl_hello := out, cl_established := True, cl_seq := 0\<rparr>)
          | _ \<Rightarrow> (r, cl)))"

definition token_call :: "nat \<Rightarrow> (session_token \<Rightarrow> message) \<Rightarrow> message_type \<Rightarrow> io \<Rightarrow> io list \<Rightarrow> client
    \<Rightarrow> (outcome \<times> message option) option \<times> client" where
  "token_call n request expected sent reads cl =
     (let (token, cl) = next_token cl in call n (request token) expected sent reads cl)"

definition submit_request :: "delivery_evidence \<Rightarrow> session_token \<Rightarrow> message" where
  "submit_request ev token = SubmitEvidenceRequest \<lparr>sq_token = token, sq_evidence = ev\<rparr>"

definition evaluate_request_of :: "scope \<Rightarrow> generation_vector \<Rightarrow> session_token \<Rightarrow> message" where
  "evaluate_request_of scope gens token = EvaluateRequest \<lparr>eq_token = token, eq_scope = scope, eq_gens = gens\<rparr>"

definition localize_request_of :: "scope \<Rightarrow> generation_vector \<Rightarrow> u32 \<Rightarrow> hop_probe list \<Rightarrow> session_token \<Rightarrow> message" where
  "localize_request_of scope gens hops probes token = LocalizeRequest \<lparr>lq_token = token, lq_scope = scope,
     lq_gens = gens, lq_hop_count = hops, lq_probes = probes\<rparr>"

definition ack_request :: "u64 \<Rightarrow> u64 \<Rightarrow> session_token \<Rightarrow> message" where
  "ack_request k downstream token = AckFenceRequest \<lparr>aq_token = token, aq_fence = k, aq_downstream = downstream\<rparr>"

definition effect_request :: "u64 \<Rightarrow> u64 \<Rightarrow> bool \<Rightarrow> session_token \<Rightarrow> message" where
  "effect_request k downstream verified token = ReportEffectRequest \<lparr>rq_token = token, rq_fence = k,
     rq_downstream = downstream, rq_verified = verified\<rparr>"

definition restore_request_of :: "scope \<Rightarrow> generation_vector \<Rightarrow> session_token \<Rightarrow> message" where
  "restore_request_of scope gens token = RestoreRequest \<lparr>tq_token = token, tq_scope = scope, tq_gens = gens\<rparr>"

definition lineage_request_of :: "u32 \<Rightarrow> session_token \<Rightarrow> message" where
  "lineage_request_of limit token = LineageRequest \<lparr>nq_token = token, nq_limit = limit\<rparr>"

definition client_submit where "client_submit ev = token_call 2048 (submit_request ev) M_SubmitEvidenceResponse"
definition client_evaluate where
  "client_evaluate scope gens = token_call 512 (evaluate_request_of scope gens) M_EvaluateResponse"
definition client_localize where
  "client_localize scope gens hops probes = token_call 4096 (localize_request_of scope gens hops probes) M_LocalizeResponse"
definition client_ack_fence where
  "client_ack_fence k downstream = token_call 256 (ack_request k downstream) M_AckFenceResponse"
definition client_report_effect where
  "client_report_effect k downstream verified = token_call 256 (effect_request k downstream verified) M_ReportEffectResponse"
definition client_restore where
  "client_restore scope gens = token_call 512 (restore_request_of scope gens) M_RestoreResponse"
definition client_lineage where "client_lineage limit = token_call 256 (lineage_request_of limit) M_LineageResponse"
definition client_checkpoint where
  "client_checkpoint = token_call 128 (\<lambda>token. CheckpointRequest \<lparr>kq_token = token\<rparr>) M_CheckpointResponse"
definition client_stats where
  "client_stats = token_call 128 (\<lambda>token. StatsRequest \<lparr>vq_token = token\<rparr>) M_StatsResponse"
definition client_goodbye where
  "client_goodbye = token_call 128 (\<lambda>token. GoodbyeRequest \<lparr>gq_token = token\<rparr>) M_GoodbyeResponse"

declare await_response.simps [simp del]


section \<open>A frame in chunks\<close>

text \<open>Both ends read a frame in chunks: before the last chunk no frame is there, after it the frame is.\<close>

lemma partial_frame:
  assumes "frame_ok limit f" "wire_frame f = pre @ c @ post" "c \<noteq> []"
  defines "d \<equiv> \<lambda>bs. (frame_decoder_new limit)\<lparr>fd_buffer := bs\<rparr>"
  shows "next_frame (d pre) = ((O_NotFound, None), d pre)" "feed c (d pre) = (O_Ok, d (pre @ c))"
    "post = [] \<Longrightarrow> next_frame (d (pre @ c)) = ((O_Ok, Some f), d [])"
proof -
  show "next_frame (d pre) = ((O_NotFound, None), d pre)"
    using assms(1-3) next_frame_short [of "d pre" f "c @ post"] by (simp add: d_def frame_decoder_new_def)
  have "length (wire_frame f) \<le> unat limit + 20" using assms(1) by (simp add: wire_frame_def frame_ok_def)
  then show "feed c (d pre) = (O_Ok, d (pre @ c))"
    using feed_fits [of "d pre" c] assms(2) by (simp add: d_def frame_decoder_new_def)
  assume "post = []"
  then show "next_frame (d (pre @ c)) = ((O_Ok, Some f), d [])"
    using next_frame_on_header [of "d (wire_frame f)" f "frame_integrity (frame_header f) (fr_payload f)" "fr_payload f" "[]"]
      assms(1,2) by (simp add: wire_frame_def d_def frame_decoder_new_def)
qed

lemma wire_frame_not_Nil: "wire_frame f \<noteq> []"
  by (metis append_is_Nil_conv length_frame_header list.size(3) wire_frame_def zero_neq_numeral)

text \<open>The frame in the chunks is answered once, after the last of them.\<close>

lemma serve_reads_frame:
  assumes "frame_ok limit f" "wire_frame f = pre @ concat chunks" "chunks \<noteq> []" "[] \<notin> set chunks"
    and "cn_decoder c = (frame_decoder_new limit)\<lparr>fd_buffer := pre\<rparr>"
    and "dispatch_frame (fst (env n)) (snd (env n)) f (c\<lparr>cn_decoder := frame_decoder_new limit\<rparr>)
      (count_frame_decoded s) = (Some out, c', s')"
  shows "serve_reads n env chunks c s = ([out], c', s')"
  using assms(2-6)
proof (induction chunks arbitrary: pre c)
  case (Cons b bs)
  let ?d = "\<lambda>x. (frame_decoder_new limit)\<lparr>fd_buffer := x\<rparr>"
  have w: "wire_frame f = pre @ b @ concat bs" and b: "b \<noteq> []" using Cons(2,4) by auto
  note p = partial_frame [OF assms(1) w b]
  have new: "?d [] = frame_decoder_new limit" by (simp add: frame_decoder_new_def)
  show ?case
  proof (cases "bs = []")
    case True
    have "cn_decoder c' = frame_decoder_new limit" using dispatch_decoder [OF Cons(6)] by simp
    then have "next_frame (cn_decoder c') = ((O_NotFound, None), cn_decoder c')"
      by (simp add: frame_decoder_new_def next_frame_def kFrameHeaderSize_def Let_def)
    moreover have "c'\<lparr>cn_decoder := cn_decoder c'\<rparr> = c'" by simp
    ultimately have "serve_frames (n + 1) env c' s' = (([], True, n + 1), c', s')"
      by (simp add: serve_frames.simps [of "Suc n"])
    then have "serve_frames n env (c\<lparr>cn_decoder := ?d (pre @ b)\<rparr>) s = (([out], True, n + 1), c', s')"
      using p(3) True Cons(6) by (simp add: serve_frames.simps [of n] new)
    then show ?thesis using p(2) Cons(5) b True by (simp add: serve_chunk_def is_affirmative_def)
  next
    case False
    have "concat bs \<noteq> []" using False Cons(4) by (cases bs) auto
    then have "next_frame (?d (pre @ b)) = ((O_NotFound, None), ?d (pre @ b))"
      using partial_frame(1) [OF assms(1), of "pre @ b" "concat bs" "[]"] w by simp
    then have "serve_frames n env (c\<lparr>cn_decoder := ?d (pre @ b)\<rparr>) s = (([], True, n), c\<lparr>cn_decoder := ?d (pre @ b)\<rparr>, s)"
      by (simp add: serve_frames.simps [of n])
    moreover have "serve_reads n env bs (c\<lparr>cn_decoder := ?d (pre @ b)\<rparr>) s = ([out], c', s')"
      using Cons False w by (intro Cons(1) [of "pre @ b"]) auto
    ultimately show ?thesis using p(2) Cons(5) b by (simp add: serve_chunk_def is_affirmative_def)
  qed
qed simp

lemma await_response_frame:
  assumes "frame_ok limit f" "wire_frame f = pre @ concat chunks" "[] \<notin> set chunks"
    and "cl_decoder cl = (frame_decoder_new limit)\<lparr>fd_buffer := pre\<rparr>"
  shows "await_response expected (map (Pair O_Ok) chunks) cl =
    take_response expected f (cl\<lparr>cl_decoder := frame_decoder_new limit\<rparr>)"
  using assms(2-4)
proof (induction chunks arbitrary: pre cl)
  case Nil
  then show ?case using partial_frame(3) [OF assms(1), of "[]" pre "[]"] wire_frame_not_Nil [of f]
    by (auto simp: await_response.simps frame_decoder_new_def)
next
  case (Cons b bs)
  note p = partial_frame [OF assms(1), of pre b "concat bs"]
  have "await_response expected (map (Pair O_Ok) bs) (cl\<lparr>cl_decoder := (frame_decoder_new limit)\<lparr>fd_buffer := pre @ b\<rparr>\<rparr>) =
      take_response expected f (cl\<lparr>cl_decoder := frame_decoder_new limit\<rparr>)"
    using Cons by (subst Cons(1) [of "pre @ b"]) auto
  then show ?case using p Cons(2-4) by (subst await_response.simps) (auto simp: is_affirmative_def Let_def)
qed


section \<open>A call from end to end\<close>

text \<open>The client and its connection agree on the session, the identity and the last request.\<close>

definition in_step :: "client \<Rightarrow> connection \<Rightarrow> server \<Rightarrow> bool" where
  "in_step cl c s \<longleftrightarrow> cl_connected cl \<and> cl_decoder cl = frame_decoder_new kDefaultMaxFrameBytes \<and>
     cn_decoder c = frame_decoder_new (sv_max_frame_bytes s) \<and> cn_established c \<and>
     hs_session (cl_hello cl) = cn_session c \<and>
     (\<exists>r. omap_find (st_sessions (sv_sessions s)) (cn_session c) = Some r \<and> sn_active r \<and>
        sn_client_boot r = cl_boot cl \<and> sn_client_incarnation r = cl_incarnation cl \<and> sn_last_seq r = cl_seq cl)"

definition after_token :: "client \<Rightarrow> client" where
  "after_token cl = cl\<lparr>cl_request := cl_request cl + 1, cl_seq := cl_seq cl + 1\<rparr>"

lemma next_token_fields:
  "snd (next_token cl) = after_token cl" "tk_session (fst (next_token cl)) = hs_session (cl_hello cl)"
  "tk_seq (fst (next_token cl)) = cl_seq cl + 1" "tk_client_boot (fst (next_token cl)) = cl_boot cl"
  "tk_client_incarnation (fst (next_token cl)) = cl_incarnation cl"
  by (simp_all add: next_token_def after_token_def Let_def)

lemma in_step_accepted:
  assumes "in_step cl c s"
  obtains t where "require_session (fst (next_token cl)) c (sv_sessions s) = (None, t)"
    "\<And>s'. sv_sessions s' = t \<Longrightarrow> sv_max_frame_bytes s' = sv_max_frame_bytes s \<Longrightarrow> in_step (after_token cl) c s'"
proof -
  from assms obtain r where "omap_find (st_sessions (sv_sessions s)) (cn_session c) = Some r" "sn_active r"
    "sn_client_boot r = cl_boot cl" "sn_client_incarnation r = cl_incarnation cl" "sn_last_seq r = cl_seq cl"
    by (auto simp: in_step_def)
  with assms show ?thesis
    by (intro that [of "snd (require_session (fst (next_token cl)) c (sv_sessions s))"])
      (auto simp: require_session_def validate_def next_token_fields in_step_def after_token_def is_affirmative_def)
qed

lemma message_document:
  assumes "message_ok msg" "n < 2 ^ 64" "wok (encode_message msg (writer_new n))"
  shows "wbuf (encode_message msg (writer_new n)) = wire_message msg"
    "decode_all (decode_message (message_type_of msg)) (wire_message msg) = Inr msg"
proof -
  have "emits (encode_message msg) (wire_message msg)" using rt_message [OF assms(1)] by (simp add: rt_def)
  then show w: "wbuf (encode_message msg (writer_new n)) = wire_message msg"
    using emits_fresh [OF _ assms(2)] assms(3) by simp
  show "decode_all (decode_message (message_type_of msg)) (wire_message msg) = Inr msg"
    using message_codec.decode_document [of msg "message_type_of msg" n] assms w by simp
qed

lemma frame_bytes:
  assumes "length (fr_payload f) + 20 \<le> kDefaultMaxDocumentBytes"
  shows "wok (encode_frame f (writer_new kDefaultMaxDocumentBytes))"
    "wbuf (encode_frame f (writer_new kDefaultMaxDocumentBytes)) = wire_frame f"
  using assms emits_fresh [OF encode_frame_emits [of f], of kDefaultMaxDocumentBytes]
  by (simp_all add: wire_frame_def kDefaultMaxDocumentBytes_def)

lemma dispatch_session_request:
  assumes "in_step cl c s" "session_token_of msg = Some (fst (next_token cl))"
    "decode_all (decode_message (message_type_of msg)) payload = Inr msg" "is_request (message_type_of msg)"
    "serve_request msg clk = on_engine h" "h (sv_engine s) = (Replied ty body, e')" "body \<noteq> []"
    "length body + 20 \<le> kDefaultMaxDocumentBytes"
    and f: "f = \<lparr>fr_type = message_type_of msg, fr_flags = 0, fr_payload = payload\<rparr>"
  obtains s' where "dispatch_frame clk True f c (count_frame_decoded s) =
      (Some (wire_frame \<lparr>fr_type = ty, fr_flags = 0, fr_payload = body\<rparr>), c, s')"
    "sv_engine s' = e'" "in_step (after_token cl) c s'"
proof -
  have "in_step cl c (count_frame_decoded s)" using assms(1) by (simp add: in_step_def count_frame_decoded_def)
  then obtain t where t: "require_session (fst (next_token cl)) c (sv_sessions (count_frame_decoded s)) = (None, t)"
    and i: "\<And>s'. sv_sessions s' = t \<Longrightarrow> sv_max_frame_bytes s' = sv_max_frame_bytes (count_frame_decoded s) \<Longrightarrow>
      in_step (after_token cl) c s'" by (rule in_step_accepted) blast
  let ?s = "(count_frame_decoded s)\<lparr>sv_sessions := t\<rparr>"
  have "admit_request f c (count_frame_decoded s) = (Inr msg, ?s)"
    using assms(2-4) f t by (simp add: admit_request_def)
  moreover have "serve_request msg clk c ?s = (Replied ty body, c, ?s\<lparr>sv_engine := e'\<rparr>)"
    using assms(5,6) by (simp add: on_engine_def count_frame_decoded_def)
  ultimately show ?thesis
    using assms(7) frame_bytes [of "\<lparr>fr_type = ty, fr_flags = 0, fr_payload = body\<rparr>"] assms(8)
    by (intro that) (auto simp: dispatch_frame_def answer_def response_frame_def send_response_def Let_def
        intro!: i)
qed


lemma take_expected:
  assumes "fr_type f = expected" "expected \<noteq> M_ErrorResponse"
  shows "take_response expected f cl = (Some (O_Ok, fr_payload f, error_nil), cl)"
  using assms by (simp add: take_response_def)

lemma token_call_answered:
  assumes "in_step cl c s" "msg = request (fst (next_token cl))" "wok (encode_message msg (writer_new n))"
    "wok (request_frame (message_type_of msg) (wbuf (encode_message msg (writer_new n))))"
    "decode_all (decode_message expected) body = Inr resp" "expected \<noteq> M_ErrorResponse"
    "length body + 20 \<le> kDefaultMaxDocumentBytes" "concat down = wire_frame \<lparr>fr_type = expected, fr_flags = 0, fr_payload = body\<rparr>"
    "[] \<notin> set down"
  shows "token_call n request expected (O_Ok, []) (map (Pair O_Ok) down) cl = (Some (O_Ok, Some resp), after_token cl)"
proof -
  let ?f = "\<lparr>fr_type = expected, fr_flags = 0, fr_payload = body\<rparr>"
  have "frame_ok kDefaultMaxFrameBytes ?f"
    using assms(7) by (simp add: frame_ok_def kDefaultMaxFrameBytes_def kDefaultMaxDocumentBytes_def)
  moreover have "cl_decoder (after_token cl) = (frame_decoder_new kDefaultMaxFrameBytes)\<lparr>fd_buffer := []\<rparr>"
    using assms(1) by (simp add: in_step_def after_token_def frame_decoder_new_def)
  ultimately have "await_response expected (map (Pair O_Ok) down) (after_token cl) =
      take_response expected ?f ((after_token cl)\<lparr>cl_decoder := frame_decoder_new kDefaultMaxFrameBytes\<rparr>)"
    using assms(8,9) by (intro await_response_frame [of _ _ "[]"]) simp_all
  moreover have "(after_token cl)\<lparr>cl_decoder := frame_decoder_new kDefaultMaxFrameBytes\<rparr> = after_token cl"
    using assms(1) by (simp add: in_step_def after_token_def)
  moreover have "cl_connected (after_token cl)" using assms(1) by (simp add: in_step_def after_token_def)
  ultimately show ?thesis
    using assms(2-6) take_expected [of ?f expected "after_token cl"]
    by (simp add: token_call_def call_def exchange_def Let_def prod.case_eq_if next_token_fields is_affirmative_def
        request_frame_def [symmetric])
qed

section \<open>A client ahead of its session\<close>

text \<open>Requests sent one after the other on a connection, each with the next token and encoded into a
  writer of the given size: what the server makes of them before it calls the coordinator.\<close>

fun attempts :: "(nat \<times> (session_token \<Rightarrow> message)) list \<Rightarrow> client \<Rightarrow> connection \<Rightarrow> server \<Rightarrow> (error_response + message) list" where
  "attempts [] cl c s = []"
| "attempts ((n, request) # rest) cl c s =
     (let (token, cl) = next_token cl; msg = request token;
          (r, s) = admit_request \<lparr>fr_type = message_type_of msg, fr_flags = 0,
            fr_payload = wbuf (encode_message msg (writer_new n))\<rparr> c s
      in r # attempts rest cl c s)"

definition ahead :: "client \<Rightarrow> connection \<Rightarrow> session_table \<Rightarrow> bool" where
  "ahead cl c t \<longleftrightarrow> cn_established c \<and> hs_session (cl_hello cl) = cn_session c \<and>
     (\<exists>r. omap_find (st_sessions t) (cn_session c) = Some r \<and> sn_active r \<and> sn_client_boot r = cl_boot cl \<and>
        sn_client_incarnation r = cl_incarnation cl \<and> sn_last_seq r < cl_seq cl)"

text \<open>A request the server understands, whatever its token.\<close>

definition understood :: "nat \<Rightarrow> (session_token \<Rightarrow> message) \<Rightarrow> bool" where
  "understood n request \<longleftrightarrow> n < 2 ^ 64 \<and> (\<forall>token. session_token_of (request token) = Some token \<and>
     message_ok (request token) \<and> wok (encode_message (request token) (writer_new n)))"

abbreviation out_of_order :: error_response where
  "out_of_order \<equiv> refusal O_Rejected R_WindowViolation ''session token refused''"

lemma ahead_refused:
  assumes "ahead cl c t" "unat (cl_seq cl) + 1 < 2 ^ 64"
  obtains t' where "require_session (fst (next_token cl)) c t = (Some out_of_order, t')" "ahead (after_token cl) c t'"
proof -
  from assms obtain r where r: "omap_find (st_sessions t) (cn_session c) = Some r" "sn_last_seq r < cl_seq cl"
    "sn_active r" "sn_client_boot r = cl_boot cl" "sn_client_incarnation r = cl_incarnation cl"
    by (auto simp: ahead_def)
  have "unat (cl_seq cl + 1) = unat (cl_seq cl) + 1" using assms(2) by (simp add: unat_word_ariths)
  with r(2) have "sn_last_seq r < cl_seq cl + 1" "\<not> cl_seq cl + 1 \<le> sn_last_seq r" "cl_seq cl + 1 \<noteq> sn_last_seq r + 1"
    by (auto simp: word_less_nat_alt word_le_nat_alt)
  with r assms(1) show ?thesis
    by (intro that [of "session_refuse (cn_session c) r t"])
      (auto simp: require_session_def validate_def session_refuse_def is_affirmative_def ahead_def after_token_def
        next_token_fields)
qed

lemma attempts_ahead:
  assumes "ahead cl c (sv_sessions s)" "unat (cl_seq cl) + length later < 2 ^ 64" "list_all (\<lambda>(n, request). understood n request) later"
  shows "attempts later cl c s = replicate (length later) (Inl out_of_order)"
  using assms
proof (induction later arbitrary: cl s)
  case (Cons p later)
  obtain n request where p: "p = (n, request)" by (cases p)
  let ?msg = "request (fst (next_token cl))"
  have u: "session_token_of ?msg = Some (fst (next_token cl))" "message_ok ?msg" "n < 2 ^ 64"
    "wok (encode_message ?msg (writer_new n))" using Cons(4) p by (auto simp: understood_def)
  have "unat (cl_seq cl) + 1 < 2 ^ 64" using Cons(3) by simp
  from ahead_refused [OF Cons(2) this] obtain t where
    t: "require_session (fst (next_token cl)) c (sv_sessions s) = (Some out_of_order, t)" "ahead (after_token cl) c t" .
  have "is_request (message_type_of ?msg)" using u(1) by (cases ?msg) (auto simp: is_request_def)
  then have a: "admit_request \<lparr>fr_type = message_type_of ?msg, fr_flags = 0,
      fr_payload = wbuf (encode_message ?msg (writer_new n))\<rparr> c s = (Inl out_of_order, s\<lparr>sv_sessions := t\<rparr>)"
    using message_document [OF u(2-4)] u(1) t(1) by (simp add: admit_request_def)
  have "unat (cl_seq (after_token cl)) + length later < 2 ^ 64"
    using Cons(3) by (simp add: after_token_def unat_word_ariths)
  with Cons(1) [of "after_token cl" "s\<lparr>sv_sessions := t\<rparr>"] t(2) Cons(4) p a show ?case
    by (simp add: next_token_fields prod.case_eq_if)
qed simp

end
