(* ===== verification/BHG_Service_Safety.thy ===== *)
theory BHG_Service_Safety
  imports BHG_Client
begin

text \<open>
  What the service guarantees over the network: calls of the coordinator only under sessions, the
  coordinator seen through the server, the bounds and counters of the connections, the work per
  read, and calls from end to end.
\<close>

section \<open>A sample session\<close>

definition sample_server_config :: server_config where
  "sample_server_config = \<lparr>vc_port = 0, vc_backlog = 16, vc_max_connections = 64\<rparr>"

definition sample_client :: client where
  "sample_client = (client_new P_Synthetic 7 9)\<lparr>cl_connected := True\<rparr>"

definition sample_greeting :: message where
  "sample_greeting = HelloRequest \<lparr>hq_token = \<lparr>tk_session = 0, tk_request = 1, tk_seq = 0, tk_client_boot = 7,
     tk_client_incarnation = 9\<rparr>, hq_client_name = [], hq_label = P_Synthetic\<rparr>"

definition sample_id :: u64 where "sample_id = mix64 (mix64 7 9) 1"

text \<open>The client after the greeting.\<close>

definition greeted_client :: client where
  "greeted_client = sample_client\<lparr>cl_established := True, cl_request := 1,
     cl_hello := hello_nil\<lparr>hs_session := sample_id\<rparr>\<rparr>"

definition sample_checkpoint :: "session_token \<Rightarrow> message" where
  "sample_checkpoint token = CheckpointRequest \<lparr>kq_token = token\<rparr>"

text \<open>A frame that arrives in one read is admitted or refused in two steps.\<close>

lemma omap_put_put: "omap_put (omap_put m k v) k v' = omap_put m k v'"
  by (induction m k v rule: omap_put.induct) auto

lemma set_connection_twice: "set_connection k c t s (set_connection k c' t' s' w) = set_connection k c t s w"
  by (simp add: set_connection_def omap_put_put)

lemma receive_frame:
  assumes "server_run config d sc tr w" "omap_find (wd_connections w) k = Some (c, Idle)"
    "cn_decoder c = frame_decoder_new limit" "frame_ok limit f"
    "admit_request f c (count_frame_decoded (wd_server w)) = (r, s)"
  shows "server_run config d sc (tr @ [Quiet, Quiet])
    (set_connection k c (case r of Inl e \<Rightarrow> Answered (Refused e) | Inr msg \<Rightarrow> Admitted msg) s w)"
proof -
  let ?d = "(frame_decoder_new limit)\<lparr>fd_buffer := wire_frame f\<rparr>" and ?n = "frame_decoder_new limit"
  have e: "?n\<lparr>fd_buffer := []\<rparr> = ?n" by (simp add: frame_decoder_new_def)
  note p = partial_frame [OF assms(4), of "[]" "wire_frame f" "[]", simplified e append_Nil append_Nil2, OF refl wire_frame_not_Nil]
  let ?w = "set_connection k (c\<lparr>cn_decoder := ?d\<rparr>) Idle (wd_server w) w"
  have "server_step w Quiet ?w"
    using server_step.reading [OF assms(2), of "wire_frame f" O_Ok ?d] p(1,2) assms(3)
    by (simp add: awaits_bytes_def is_affirmative_def)
  with assms(1) have "server_run config d sc (tr @ [Quiet]) ?w" by (rule server_run.stepped)
  moreover have "c\<lparr>cn_decoder := ?n\<rparr> = c" using assms(3) by simp
  then have "server_step ?w Quiet (set_connection k c (case r of Inl e \<Rightarrow> Answered (Refused e) | Inr msg \<Rightarrow> Admitted msg) s ?w)"
    using server_step.admitting [of ?w k "c\<lparr>cn_decoder := ?d\<rparr>" O_Ok f ?n r s] p(3) assms(5)
    by (simp add: set_connection_def)
  ultimately have "server_run config d sc ((tr @ [Quiet]) @ [Quiet])
    (set_connection k c (case r of Inl e \<Rightarrow> Answered (Refused e) | Inr msg \<Rightarrow> Admitted msg) s ?w)"
    by (rule server_run.stepped)
  then show ?thesis by (simp add: set_connection_twice)
qed


lemma sample_establish:
  "establish 7 9 P_Synthetic now (session_table_new default_policy) =
    ((O_Ok, sample_id), (session_table_new default_policy)\<lparr>st_counter := 1, st_established := 1,
      st_sessions := [(sample_id, \<lparr>sn_id = sample_id, sn_client_boot = 7, sn_client_incarnation = 9, sn_last_seq = 0,
        sn_established = now, sn_label = P_Synthetic, sn_requests = 0, sn_rejected = 0, sn_active = True\<rparr>)]\<rparr>)"
  by (simp add: establish_def session_table_new_def default_policy_def omap_emplace_def omap_find_def sample_id_def Let_def)

definition sample_trace :: "event list" where
  "sample_trace = [Quiet, Quiet, Quiet, Quiet, Session 0 sample_id 7 9, Quiet]"

abbreviation sample_run :: "event list \<Rightarrow> world \<Rightarrow> bool" where
  "sample_run \<equiv> server_run sample_engine_config empty_disk sample_server_config"

lemma sample_accepted:
  obtains c w where "sample_run [Quiet, Quiet] w" "omap_find (wd_connections w) 0 = Some (c, Idle)"
    "c = \<lparr>cn_session = 0, cn_established = False, cn_decoder = frame_decoder_new (pol_max_frame_bytes default_policy)\<rparr>"
    "sv_engine (wd_server w) = engine_new sample_engine_config empty_disk"
    "sv_sessions (wd_server w) = session_table_new default_policy"
    "sv_max_frame_bytes (wd_server w) = pol_max_frame_bytes default_policy"
proof (rule that)
  let ?start = "world_new sample_engine_config empty_disk sample_server_config"
  let ?w = "?start\<lparr>wd_server := snd (server_start True O_Ok 4000 (wd_server ?start))\<rparr>"
  have on: "sv_running (wd_server ?w)" "\<not> sv_stopping (wd_server ?w)"
    by (simp_all add: server_start_def world_new_def server_new_def is_affirmative_def)
  have "server_step ?start Quiet ?w"
    by (rule server_step.starting [where net_ok = True and lo = O_Ok and port = 4000]) (rule prod.collapse [symmetric])
  from server_run.stepped [OF server_run.stepped [OF server_run.started this] server_step.accepting [OF on]]
  show "sample_run [Quiet, Quiet] (accept_connection ?w)" by simp
  have "\<not> over_capacity ?w"
    by (simp add: over_capacity_def world_new_def server_new_def sample_server_config_def server_start_def is_affirmative_def)
  then show "omap_find (wd_connections (accept_connection ?w)) 0 = Some (connection_new (wd_server ?w), Idle)"
    by (simp add: accept_connection_def) (simp add: world_new_def omap_find_def)
  show "connection_new (wd_server ?w) = \<lparr>cn_session = 0, cn_established = False,
      cn_decoder = frame_decoder_new (pol_max_frame_bytes default_policy)\<rparr>"
    by (simp add: connection_new_def world_new_def server_new_def engine_new_def sample_engine_config_def server_start_def
        is_affirmative_def)
qed (simp_all add: accept_connection_def world_new_def server_new_def count_accepted_def count_accept_rejected_def
      engine_new_def sample_engine_config_def server_start_def is_affirmative_def)

lemma sample_greeting_document:
  "message_ok sample_greeting" "length (wire_message sample_greeting) = 45"
  "decode_all (decode_message M_HelloRequest) (wire_message sample_greeting) = Inr sample_greeting"
proof -
  show ok: "message_ok sample_greeting" by (simp add: sample_greeting_def)
  show l: "length (wire_message sample_greeting) = 45"
    by (simp add: sample_greeting_def wire_hello_request_def wire_session_token_def wire_string_def)
  have "wok (encode_message sample_greeting (writer_new 64))"
    using rt_message [OF ok] emits_fresh(1) [of "encode_message sample_greeting" "wire_message sample_greeting" 64] l
    by (simp add: rt_def)
  from message_document(2) [OF ok _ this] show
    "decode_all (decode_message M_HelloRequest) (wire_message sample_greeting) = Inr sample_greeting"
    by (simp add: sample_greeting_def)
qed

lemma hello_reply:
  obtains body where "reply_checked (HelloResponse v) = Replied M_HelloResponse body" "length body = 51"
proof -
  have ok: "message_ok (HelloResponse v)" by simp
  have l: "length (wire_message (HelloResponse v)) = 51" by (simp add: wire_hello_response_def)
  have "emits (encode_message (HelloResponse v)) (wire_message (HelloResponse v))" using rt_message [OF ok] by (simp add: rt_def)
  from emits_fresh [OF this, of kDefaultMaxDocumentBytes] l show ?thesis
    by (intro that [of "wire_message (HelloResponse v)"]) (simp_all add: reply_checked_def kDefaultMaxDocumentBytes_def)
qed

lemma sample_greeted:
  obtains c w s body where "sample_run [Quiet, Quiet, Quiet, Quiet, Session 0 sample_id 7 9]
      (set_connection 0 c (Answered (Replied M_HelloResponse body)) s w)" "length body = 51"
    "cn_session c = sample_id" "cn_established c" "cn_decoder c = frame_decoder_new (pol_max_frame_bytes default_policy)"
    "sv_sessions s = snd (establish 7 9 P_Synthetic 1 (session_table_new default_policy))"
    "sv_engine s = engine_new sample_engine_config empty_disk" "sv_max_frame_bytes s = pol_max_frame_bytes default_policy"
proof -
  let ?f = "\<lparr>fr_type = M_HelloRequest, fr_flags = 0, fr_payload = wire_message sample_greeting\<rparr>"
  obtain c w where 1: "sample_run [Quiet, Quiet] w" "omap_find (wd_connections w) 0 = Some (c, Idle)"
    and c: "c = \<lparr>cn_session = 0, cn_established = False, cn_decoder = frame_decoder_new (pol_max_frame_bytes default_policy)\<rparr>"
    and w: "sv_engine (wd_server w) = engine_new sample_engine_config empty_disk"
      "sv_sessions (wd_server w) = session_table_new default_policy"
      "sv_max_frame_bytes (wd_server w) = pol_max_frame_bytes default_policy" by (rule sample_accepted)
  let ?s = "count_frame_decoded (wd_server w)" and ?max = "pol_max_frame_bytes default_policy"
  have "frame_ok ?max ?f" using sample_greeting_document(2) by (simp add: frame_ok_def default_policy_def)
  moreover have "admit_request ?f c ?s = (Inr sample_greeting, ?s)"
    using sample_greeting_document(3) by (simp add: admit_request_def is_request_def c sample_greeting_def)
  ultimately have 2: "sample_run ([Quiet, Quiet] @ [Quiet, Quiet]) (set_connection 0 c (Admitted sample_greeting) ?s w)"
    using receive_frame [OF 1, of ?max ?f "Inr sample_greeting" ?s] c by simp
  obtain req where req: "sample_greeting = HelloRequest req" "tk_client_boot (hq_token req) = 7"
    "tk_client_incarnation (hq_token req) = 9" "hq_label req = P_Synthetic" by (simp add: sample_greeting_def)
  obtain r s' where h: "serve_hello req tick c ?s = (r, c\<lparr>cn_session := sample_id, cn_established := True\<rparr>, s')"
      "sv_sessions s' = snd (establish 7 9 P_Synthetic 1 (session_table_new default_policy))"
      "sv_engine s' = engine_new sample_engine_config empty_disk" "sv_max_frame_bytes s' = ?max"
      "\<exists>v. r = reply_checked (HelloResponse v)"
    using sample_establish [of 1] w req
    by (auto simp: serve_hello_def count_frame_decoded_def tick_def is_affirmative_def Let_def)
  let ?c = "c\<lparr>cn_session := sample_id, cn_established := True\<rparr>"
  let ?w2 = "set_connection 0 c (Admitted sample_greeting) ?s w"
  have "server_step ?w2 (Session 0 sample_id 7 9) (set_connection 0 ?c (Answered r) s' ?w2)"
    using server_step.greeting [of ?w2 0 c req tick r ?c s'] h(1) req
    by (simp add: set_connection_def hello_event_def)
  from server_run.stepped [OF 2 this] have 3: "sample_run [Quiet, Quiet, Quiet, Quiet, Session 0 sample_id 7 9] (set_connection 0 ?c (Answered r) s' w)"
    by (simp add: set_connection_twice)
  obtain body where body: "r = Replied M_HelloResponse body" "length body = 51" using h(5) hello_reply by metis
  show ?thesis using 3 body h(2-4) c by (intro that [of ?c body s' w]) simp_all
qed

lemma sample_session:
  obtains c w where "sample_run sample_trace w" "omap_find (wd_connections w) 0 = Some (c, Idle)"
    "in_step greeted_client c (wd_server w)" "sv_engine (wd_server w) = engine_new sample_engine_config empty_disk"
    "sv_max_frame_bytes (wd_server w) = pol_max_frame_bytes default_policy"
proof -
  obtain c w s body where run: "sample_run [Quiet, Quiet, Quiet, Quiet, Session 0 sample_id 7 9]
      (set_connection 0 c (Answered (Replied M_HelloResponse body)) s w)" and body: "length body = 51"
    and c: "cn_session c = sample_id" "cn_established c" "cn_decoder c = frame_decoder_new (pol_max_frame_bytes default_policy)"
    and s: "sv_sessions s = snd (establish 7 9 P_Synthetic 1 (session_table_new default_policy))"
      "sv_engine s = engine_new sample_engine_config empty_disk" "sv_max_frame_bytes s = pol_max_frame_bytes default_policy"
    by (rule sample_greeted)
  let ?r = "Replied M_HelloResponse body"
  let ?w = "set_connection 0 c (Answered ?r) s w" and ?g = "\<lparr>fr_type = M_HelloResponse, fr_flags = 0, fr_payload = body\<rparr>"
  have g: "response_frame ?r = (?g, False)" using body by (auto simp: response_frame_def)
  have "wok (encode_frame ?g (writer_new kDefaultMaxDocumentBytes))"
    by (rule frame_bytes(1)) (simp add: body kDefaultMaxDocumentBytes_def)
  then obtain out s' where o: "send_response True ?g False s = (Some out, s')"
    "sv_sessions s' = sv_sessions s" "sv_engine s' = sv_engine s" "sv_max_frame_bytes s' = sv_max_frame_bytes s"
    by (simp add: send_response_def Let_def)
  have "server_step ?w Quiet (set_connection 0 c Idle s' ?w)"
    using server_step.responding [of ?w 0 c ?r ?g False True "Some out" s'] g o(1) by (simp add: set_connection_def)
  from server_run.stepped [OF run this] have "sample_run sample_trace (set_connection 0 c Idle s' w)"
    by (simp add: set_connection_twice sample_trace_def)
  moreover have "in_step greeted_client c s'"
    using o s c by (simp add: in_step_def greeted_client_def sample_client_def client_new_def sample_establish omap_find_def)
  ultimately show ?thesis
    using o s by (intro that [of "set_connection 0 c Idle s' w" c]) (simp_all add: set_connection_def)
qed


text \<open>The first call of the sample session: a checkpoint.\<close>

lemma sample_checkpoint_document:
  "message_ok (sample_checkpoint token)" "length (wire_message (sample_checkpoint token)) = 40"
  "wok (encode_message (sample_checkpoint token) (writer_new 128))"
  "decode_all (decode_message M_CheckpointRequest) (wire_message (sample_checkpoint token)) = Inr (sample_checkpoint token)"
proof -
  show ok: "message_ok (sample_checkpoint token)" by (simp add: sample_checkpoint_def)
  show l: "length (wire_message (sample_checkpoint token)) = 40"
    by (simp add: sample_checkpoint_def wire_checkpoint_request_def wire_session_token_def)
  have "emits (encode_message (sample_checkpoint token)) (wire_message (sample_checkpoint token))"
    using rt_message [OF ok] by (simp add: rt_def)
  from emits_fresh(1) [OF this, of 128] l show w: "wok (encode_message (sample_checkpoint token) (writer_new 128))" by simp
  from message_document(2) [OF ok _ w] show
    "decode_all (decode_message M_CheckpointRequest) (wire_message (sample_checkpoint token)) = Inr (sample_checkpoint token)"
    by (simp add: sample_checkpoint_def)
qed

definition called_trace :: "event list" where
  "called_trace = sample_trace @ [Quiet, Quiet, Call 0 (sample_checkpoint (fst (next_token greeted_client)))]"

lemma called_run:
  obtains w where "sample_run called_trace w"
proof -
  obtain c w where 1: "sample_run sample_trace w" "omap_find (wd_connections w) 0 = Some (c, Idle)"
    and i: "in_step greeted_client c (wd_server w)" and e: "sv_engine (wd_server w) = engine_new sample_engine_config empty_disk"
    and m: "sv_max_frame_bytes (wd_server w) = pol_max_frame_bytes default_policy" by (rule sample_session)
  let ?token = "fst (next_token greeted_client)" and ?s = "count_frame_decoded (wd_server w)"
  let ?msg = "sample_checkpoint ?token"
  let ?f = "\<lparr>fr_type = M_CheckpointRequest, fr_flags = 0, fr_payload = wire_message ?msg\<rparr>"
  have "in_step greeted_client c ?s" using i by (simp add: in_step_def count_frame_decoded_def)
  then obtain t where "require_session ?token c (sv_sessions ?s) = (None, t)" by (rule in_step_accepted)
  then have a: "admit_request ?f c ?s = (Inr ?msg, ?s\<lparr>sv_sessions := t\<rparr>)"
    using sample_checkpoint_document(4) by (simp add: admit_request_def is_request_def sample_checkpoint_def)
  have "cn_decoder c = frame_decoder_new (pol_max_frame_bytes default_policy)" using i m by (simp add: in_step_def)
  moreover have "frame_ok (pol_max_frame_bytes default_policy) ?f"
    using sample_checkpoint_document(2) by (simp add: frame_ok_def default_policy_def)
  ultimately have 2: "sample_run (sample_trace @ [Quiet, Quiet]) (set_connection 0 c (Admitted ?msg) (?s\<lparr>sv_sessions := t\<rparr>) w)"
    using receive_frame [OF 1 _ _ a] by simp
  let ?w = "set_connection 0 c (Admitted ?msg) (?s\<lparr>sv_sessions := t\<rparr>) w"
  obtain r c' s' where "serve_request ?msg tick c (wd_server ?w) = (r, c', s')" by (metis prod.exhaust)
  then have "server_step ?w (Call 0 ?msg) (set_connection 0 c' (Answered r) s' ?w)"
    by (intro server_step.serving) (auto simp: set_connection_def sample_checkpoint_def)
  from server_run.stepped [OF 2 this] show ?thesis using that by (simp add: called_trace_def)
qed

section \<open>Sessions\<close>

text \<open>
  C7. The coordinator is called only under a session: in every interleaving of the threads of the
  server in which no session id was handed out twice, a connection that called the coordinator had
  been given exactly one session, and its n-th call was a request with the id of that session, the
  identity the session was given for, and sequence number n. So a connection acts neither without a
  session nor under that of another, and no request is served twice or out of order.
\<close>
theorem calls_under_session:
  assumes "server_run config d sc tr w" "distinct (session_ids tr)" "calls_of k tr \<noteq> []"
  shows "\<exists>i. sessions_of k tr = [i] \<and> in_order i (calls_of k tr)"
proof -
  note inv = gate_run [OF assms(1,2)]
  show ?thesis
  proof (cases "omap_find (wd_connections w) k")
    case None
    then show ?thesis using gate_invD(2) [OF inv None] assms(3) by (simp add: past_ok_def)
  next
    case (Some ct)
    then obtain c t where "omap_find (wd_connections w) k = Some (c, t)" by (cases ct) simp
    from gate_invD(1) [OF inv this] assms(3) show ?thesis
      by (auto simp: live_ok_def in_order_def nth_append split: if_splits)
        (metis fst_conv length_append nth_append trans_less_add1)
  qed
qed

theorem calls_under_session_witness:
  "calls_of 0 called_trace \<noteq> [] \<and> (\<exists>i. sessions_of 0 called_trace = [i] \<and> in_order i (calls_of 0 called_trace))"
proof -
  obtain w where w: "sample_run called_trace w" by (rule called_run)
  have "distinct (session_ids called_trace)" "calls_of 0 called_trace \<noteq> []"
    by (simp_all add: called_trace_def sample_trace_def)
  with calls_under_session [OF w this] show ?thesis by simp
qed

text \<open>
  C8. The server does to the coordinator what its clients asked for and nothing else. Over any run,
  whatever the threads do and whatever bytes the clients send, the state of the coordinator and of the
  localizations in flight is the one that the events of the run conduct: each call event acts as the
  operation its request names, with the arguments of the request, on the state at that point, and its
  connection had been given the session the request carries; a query changes nothing; a localization
  begins with the evaluation of its subject and ends later with what it found; between the calls only
  the owner acts, by opening and closing. So it is also a state that interleaved calls reach, and what
  holds in every reachable state of the coordinator holds of a coordinator on the network.
\<close>
theorem server_refines_engine:
  assumes "server_run config d sc tr w"
  shows "conducted config d tr (sv_engine (wd_server w), in_flight_of w) \<and>
    engine_reachable config d (sv_engine (wd_server w), in_flight_of w)"
  using conducted_run [OF assms] conducted_reachable [OF conducted_run [OF assms]] by (simp add: engine_view_def)

theorem server_refines_engine_witness:
  "\<exists>w. sample_run called_trace w \<and>
    conducted sample_engine_config empty_disk called_trace (sv_engine (wd_server w), in_flight_of w)"
proof -
  obtain w where "sample_run called_trace w" by (rule called_run)
  with server_refines_engine [OF this] show ?thesis by blast
qed




section \<open>Work per read\<close>

lemma next_frame_None_buffer: "next_frame d = ((oc, None), d') \<Longrightarrow> fd_buffer d' = fd_buffer d"
  by (auto simp: next_frame_def fd_fail_def Let_def split: if_splits prod.splits)

lemma next_frame_again: "next_frame d = ((O_NotFound, None), d') \<Longrightarrow> d' = d"
  by (auto simp: next_frame_def fd_fail_def Let_def split: if_splits prod.splits)

lemma serve_frames_bounded:
  "serve_frames n env c s = ((outs, go_on, m), c', s') \<Longrightarrow>
    n \<le> m \<and> length outs \<le> m - n \<and> 20 * (m - n) + length (fd_buffer (cn_decoder c')) \<le> length (fd_buffer (cn_decoder c)) \<and>
    (go_on \<longrightarrow> length outs = m - n \<and> awaits_bytes c')"
proof (induction n env c s arbitrary: outs go_on m c' s' rule: serve_frames.induct)
  case (1 n env c s)
  obtain oc fo d where nf: "next_frame (cn_decoder c) = ((oc, fo), d)" by (metis prod.exhaust)
  show ?case
  proof (cases fo)
    case None
    then show ?thesis
      using 1(2) nf next_frame_None_buffer [of "cn_decoder c" oc d] next_frame_again [of "cn_decoder c" d]
      by (auto simp: serve_frames.simps [of n] awaits_bytes_def split: if_splits)
  next
    case (Some f)
    let ?D = "dispatch_frame (fst (env n)) (snd (env n)) f (c\<lparr>cn_decoder := d\<rparr>) (count_frame_decoded s)"
    obtain out c1 s1 where D: "?D = (out, c1, s1)" by (metis prod.exhaust)
    have len: "length (fd_buffer d) + 20 \<le> length (fd_buffer (cn_decoder c))" and c1: "cn_decoder c1 = d"
      using nf Some next_frame_consumes next_frame_Some dispatch_decoder [OF D] by fastforce+
    show ?thesis
    proof (cases out)
      case None
      then show ?thesis using 1(2) nf Some D len c1 by (auto simp: serve_frames.simps [of n])
    next
      case (Some out')
      obtain outs' go k c2 s2 where R: "serve_frames (n + 1) env c1 s1 = ((outs', go, k), c2, s2)" by (metis prod.exhaust)
      note IH = 1(1) [OF nf [symmetric] refl \<open>fo = Some f\<close> D [symmetric] Some refl R]
      have "outs = out' # outs' \<and> go_on = go \<and> m = k \<and> c' = c2"
        using 1(2) nf \<open>fo = Some f\<close> D Some R by (simp add: serve_frames.simps [of n])
      then show ?thesis using IH len c1 by auto
    qed
  qed
qed

text \<open>
  C11. Every read is worked off: for any bytes from any client the loop over the received frames ends,
  after at most one request per twenty bytes buffered. While the connection stays open, every request
  was answered with one response and the thread waits for more bytes, so that its buffer is bounded by
  the frame limit.
\<close>
theorem reads_worked_off:
  assumes "serve_chunk n env bs c s = ((outs, go_on, m), c', s')"
  shows "n \<le> m \<and> 20 * (m - n) + length (fd_buffer (cn_decoder c')) \<le> length (fd_buffer (cn_decoder c)) + length bs \<and>
    (go_on \<longrightarrow> length outs = m - n \<and> awaits_bytes c' \<and>
      length (fd_buffer (cn_decoder c')) \<le> unat (fd_max (cn_decoder c)) + 20)"
proof -
  obtain oc d where f: "feed bs (cn_decoder c) = (oc, d)" by (metis prod.exhaust)
  show ?thesis
  proof (cases "is_affirmative oc")
    case True
    then have d: "d = (cn_decoder c)\<lparr>fd_buffer := fd_buffer (cn_decoder c) @ bs\<rparr>"
      and l: "length (fd_buffer (cn_decoder c) @ bs) \<le> unat (fd_max (cn_decoder c)) + 20"
      using f by (auto simp: feed_def fd_fail_def is_affirmative_def kFrameHeaderSize_def Let_def split: if_splits)
    have "serve_frames n env (c\<lparr>cn_decoder := d\<rparr>) s = ((outs, go_on, m), c', s')"
      using assms f True by (simp add: serve_chunk_def)
    from serve_frames_bounded [OF this] d l show ?thesis by auto
  next
    case False
    then show ?thesis using assms f by (auto simp: serve_chunk_def feed_def fd_fail_def Let_def split: if_splits)
  qed
qed

theorem reads_worked_off_witness:
  "\<exists>outs go_on m c' s'. serve_chunk 0 (\<lambda>_. (tick, True)) [1, 2, 3]
      (connection_new (server_new (engine_new sample_engine_config empty_disk) sample_server_config))
      (server_new (engine_new sample_engine_config empty_disk) sample_server_config) = ((outs, go_on, m), c', s') \<and>
    20 * m + length (fd_buffer (cn_decoder c')) \<le> 3"
proof -
  let ?s = "server_new (engine_new sample_engine_config empty_disk) sample_server_config"
  obtain outs go_on m c' s' where r: "serve_chunk 0 (\<lambda>_. (tick, True)) [1, 2, 3] (connection_new ?s) ?s = ((outs, go_on, m), c', s')"
    by (metis prod.exhaust)
  have "fd_buffer (cn_decoder (connection_new ?s)) = []" by (simp add: connection_new_def frame_decoder_new_def)
  with reads_worked_off [OF r] r show ?thesis by auto
qed

section \<open>Calls\<close>

text \<open>
  C10. A call works from end to end. Suppose that the client and its connection are in step; that the
  request carries the client's next token, is within the limits of its type, and its document fits
  the client's writer, the frame limit of the server and the size limit of documents; that it is one
  of those whose handler calls the coordinator (not the statistics or the lineage, which only read);
  that the coordinator answers with a response that is no error response, is within the limits of its
  type and fits a document; and that the server's send succeeds. Then the request, sent in any chunks,
  reaches the coordinator as the call the client meant, and the response comes back through any chunks
  as the result of the call. The two are in step again afterwards, so the next call works too. A
  decision about a subject with an invalid scope is not within the limits of its type: the client
  cannot decode that response.
\<close>
theorem call_end_to_end:
  assumes "in_step cl c s" "msg = request (fst (next_token cl))" "session_token_of msg = Some (fst (next_token cl))"
    and "message_ok msg" "n < 2 ^ 64" "wok (encode_message msg (writer_new n))"
    and "length (wire_message msg) \<le> unat (sv_max_frame_bytes s)"
    and "length (wire_message msg) + 20 \<le> kDefaultMaxDocumentBytes"
    and "serve_request msg (fst (env k)) = on_engine h" "snd (env k)"
    and "h (sv_engine s) = (Replied (message_type_of resp) (wire_message resp), e')"
    and "message_ok resp" "wire_message resp \<noteq> []" "length (wire_message resp) + 20 \<le> kDefaultMaxDocumentBytes"
    and "message_type_of resp \<noteq> M_ErrorResponse"
    and "concat up = wbuf (request_frame (message_type_of msg) (wbuf (encode_message msg (writer_new n))))" "[] \<notin> set up"
  shows "\<exists>out s'. serve_reads k env up c s = ([out], c, s') \<and> sv_engine s' = e' \<and>
    (\<forall>down. concat down = out \<and> [] \<notin> set down \<longrightarrow>
       token_call n request (message_type_of resp) (O_Ok, []) (map (Pair O_Ok) down) cl =
         (Some (O_Ok, Some resp), after_token cl)) \<and>
    in_step (after_token cl) c s'"
proof -
  let ?f = "\<lparr>fr_type = message_type_of msg, fr_flags = 0, fr_payload = wire_message msg\<rparr>"
  let ?g = "\<lparr>fr_type = message_type_of resp, fr_flags = 0, fr_payload = wire_message resp\<rparr>"
  note doc = message_document [OF assms(4,5,6)]
  have up: "concat up = wire_frame ?f" "wok (request_frame (message_type_of msg) (wbuf (encode_message msg (writer_new n))))"
    using frame_bytes [of ?f] assms(8,16) doc(1) by (simp_all add: request_frame_def)
  have "is_request (message_type_of msg)" using assms(3) by (cases msg) (auto simp: is_request_def)
  from dispatch_session_request [where h = h, OF assms(1,3) doc(2) this assms(9,11,13,14) refl] obtain s' where
    s': "dispatch_frame (fst (env k)) True ?f c (count_frame_decoded s) = (Some (wire_frame ?g), c, s')"
      "sv_engine s' = e'" "in_step (after_token cl) c s'" .
  have dec: "cn_decoder c = frame_decoder_new (sv_max_frame_bytes s)" using assms(1) by (simp add: in_step_def)
  moreover have "c\<lparr>cn_decoder := cn_decoder c\<rparr> = c" by simp
  ultimately have c: "c\<lparr>cn_decoder := frame_decoder_new (sv_max_frame_bytes s)\<rparr> = c" by simp
  have disp: "dispatch_frame (fst (env k)) (snd (env k)) ?f (c\<lparr>cn_decoder := frame_decoder_new (sv_max_frame_bytes s)\<rparr>)
      (count_frame_decoded s) = (Some (wire_frame ?g), c, s')"
    using s'(1) c assms(10) by simp
  have "serve_reads k env up c s = ([wire_frame ?g], c, s')"
    by (rule serve_reads_frame [where pre = "[]" and env = env and n = k, OF _ _ _ _ _ disp])
      (use assms(7,17) up(1) dec wire_frame_not_Nil [of ?f] in \<open>auto simp: frame_ok_def frame_decoder_new_def\<close>)
  moreover have "decode_all (decode_message (message_type_of resp)) (wire_message resp) = Inr resp"
  proof (rule message_document(2) [OF assms(12)])
    show "length (wire_message resp) < 2 ^ 64" using assms(14) by (simp add: kDefaultMaxDocumentBytes_def)
    then show "wok (encode_message resp (writer_new (length (wire_message resp))))"
      using rt_message [OF assms(12)] emits_fresh(1) by (auto simp: rt_def)
  qed
  ultimately show ?thesis
    using s'(2,3) token_call_answered [where request = request, OF assms(1,2,6) up(2) _ assms(15,14)] by blast
qed

theorem call_end_to_end_witness:
  "\<exists>c s out s'. in_step greeted_client c s \<and>
    serve_reads 0 (\<lambda>_. (tick, True)) [wire_frame \<lparr>fr_type = M_CheckpointRequest, fr_flags = 0,
      fr_payload = wire_message (sample_checkpoint (fst (next_token greeted_client)))\<rparr>] c s = ([out], c, s') \<and>
    (\<forall>down. concat down = out \<and> [] \<notin> set down \<longrightarrow>
       client_checkpoint (O_Ok, []) (map (Pair O_Ok) down) greeted_client =
         (Some (O_Ok, Some (CheckpointResponse \<lparr>ks_outcome = O_Unavailable, ks_snapshot_seq = 0\<rparr>)), after_token greeted_client))"
proof -
  let ?token = "fst (next_token greeted_client)" and ?resp = "CheckpointResponse \<lparr>ks_outcome = O_Unavailable, ks_snapshot_seq = 0\<rparr>"
  let ?msg = "sample_checkpoint ?token"
  let ?f = "\<lparr>fr_type = M_CheckpointRequest, fr_flags = 0, fr_payload = wire_message ?msg\<rparr>"
  obtain c w where "sample_run sample_trace w" "omap_find (wd_connections w) 0 = Some (c, Idle)"
    and i: "in_step greeted_client c (wd_server w)"
    and e: "sv_engine (wd_server w) = engine_new sample_engine_config empty_disk"
    and m: "sv_max_frame_bytes (wd_server w) = pol_max_frame_bytes default_policy" by (rule sample_session)
  note d = sample_checkpoint_document [of ?token]
  have l: "length (wire_message ?resp) = 9" by (simp add: wire_checkpoint_response_def)
  have "emits (encode_message ?resp) (wire_message ?resp)" using rt_message [of ?resp] by (simp add: rt_def)
  from emits_fresh [OF this, of 128] have h: "serve_checkpoint (sv_engine (wd_server w)) =
      (Replied (message_type_of ?resp) (wire_message ?resp), sv_engine (wd_server w))"
    using l e by (simp add: serve_checkpoint_def engine_checkpoint_def engine_new_def reply_within_def)
  have up: "wbuf (request_frame (message_type_of ?msg) (wbuf (encode_message ?msg (writer_new 128)))) = wire_frame ?f"
    using frame_bytes(2) [of ?f] d(2) message_document(1) [OF d(1) _ d(3)]
    by (simp add: request_frame_def sample_checkpoint_def kDefaultMaxDocumentBytes_def)
  have "\<exists>out s'. serve_reads 0 (\<lambda>_. (tick, True)) [wire_frame ?f] c (wd_server w) = ([out], c, s') \<and>
      sv_engine s' = sv_engine (wd_server w) \<and>
      (\<forall>down. concat down = out \<and> [] \<notin> set down \<longrightarrow>
        token_call 128 sample_checkpoint (message_type_of ?resp) (O_Ok, []) (map (Pair O_Ok) down) greeted_client =
          (Some (O_Ok, Some ?resp), after_token greeted_client)) \<and> in_step (after_token greeted_client) c s'"
    by (rule call_end_to_end [where h = serve_checkpoint and msg = ?msg and resp = ?resp, OF i _ _ d(1) _ d(3) _ _ _ _ h])
      (use d(2) l m up wire_frame_not_Nil [of ?f] in \<open>auto simp: sample_checkpoint_def default_policy_def
        kDefaultMaxDocumentBytes_def fun_eq_iff\<close>)
  moreover have "token_call 128 sample_checkpoint (message_type_of ?resp) = client_checkpoint"
    by (simp add: client_checkpoint_def sample_checkpoint_def [abs_def])
  ultimately show ?thesis using i by metis
qed



section \<open>A session that ends too early\<close>

text \<open>
  C40. A request that the server cannot decode ends the use of the session: the server refuses it
  before it looks at the token, the client has counted it, and from then on every later request of
  the client that carries its token and that the server understands (its document decodes to it) is
  refused as out of order, as long as the client's 64-bit counter does not wrap. A lineage request for
  more than 512 entries is such an undecodable request, and so is the submission of a structurally
  invalid observation. A goodbye, whose token is not checked, is still accepted, and a second hello and
  further undecodable requests are refused for their own reasons.
\<close>
theorem undecodable_request_ends_session:
  assumes "in_step cl c s" "msg = request (fst (next_token cl))" "is_request (message_type_of msg)"
    and "decode_all (decode_message (message_type_of msg)) (wbuf (encode_message msg (writer_new n))) = Inl oc"
    and "list_all (\<lambda>(n, request). understood n request) later" "unat (cl_seq cl) + length later + 1 < 2 ^ 64"
  shows "attempts ((n, request) # later) cl c s =
    Inl (bad_payload oc) # replicate (length later) (Inl (refusal O_Rejected R_WindowViolation ''session token refused''))"
proof -
  have "unat (cl_seq (after_token cl)) = unat (cl_seq cl) + 1"
    using assms(6) by (simp add: after_token_def unat_word_ariths)
  moreover from this have "cl_seq cl < cl_seq (after_token cl)" by (simp add: word_less_nat_alt)
  then have "ahead (after_token cl) c (sv_sessions s)"
    using assms(1) by (auto simp: ahead_def in_step_def after_token_def)
  ultimately have "attempts later (after_token cl) c s = replicate (length later) (Inl out_of_order)"
    using assms(5,6) by (intro attempts_ahead) simp_all
  then show ?thesis using assms(2-4) by (simp add: next_token_fields prod.case_eq_if admit_request_def)
qed

lemma oversized_lineage:
  "decode_all (decode_message M_LineageRequest) (wbuf (encode_message (lineage_request_of 513 (fst (next_token greeted_client)))
    (writer_new 256))) = Inl O_Oversized"
  by code_simp

theorem undecodable_request_ends_session_witness:
  "\<exists>c s. in_step greeted_client c s \<and>
    attempts [(256, lineage_request_of 513), (128, sample_checkpoint), (128, sample_checkpoint)] greeted_client c s =
      [Inl (bad_payload O_Oversized), Inl (refusal O_Rejected R_WindowViolation ''session token refused''),
       Inl (refusal O_Rejected R_WindowViolation ''session token refused'')]"
proof -
  obtain c w where "sample_run sample_trace w" "omap_find (wd_connections w) 0 = Some (c, Idle)"
    and i: "in_step greeted_client c (wd_server w)" by (rule sample_session)
  let ?msg = "lineage_request_of 513 (fst (next_token greeted_client))"
  let ?later = "[(128 :: nat, sample_checkpoint), (128, sample_checkpoint)]"
  have t: "message_type_of ?msg = M_LineageRequest" by (simp add: lineage_request_of_def)
  have u: "understood 128 sample_checkpoint"
    using sample_checkpoint_document by (simp add: understood_def sample_checkpoint_def)
  have "attempts ((256, lineage_request_of 513) # ?later) greeted_client c (wd_server w) =
      Inl (bad_payload O_Oversized) # replicate (length ?later) (Inl (refusal O_Rejected R_WindowViolation ''session token refused''))"
    by (rule undecodable_request_ends_session [where msg = ?msg and request = "lineage_request_of 513", OF i refl])
      (use u t oversized_lineage in \<open>simp_all add: is_request_def greeted_client_def sample_client_def client_new_def\<close>)
  with i show ?thesis by (auto simp: numeral_2_eq_2 simp del: attempts.simps)
qed

end
