(* ===== verification/BHG_Typing.thy ===== *)
theory BHG_Typing
  imports BHG_Service_Safety
begin

text \<open>
  Untrusted bytes yield well-formed values only. Every decoder checks the limits and the validity of
  what it has read, so a document that decodes at all decodes to a message within the limits under
  which messages are encoded; and the coordinator behind the server is called with such requests only.
\<close>

section \<open>What a decoder yields\<close>

definition yields :: "'a decoder \<Rightarrow> ('a \<Rightarrow> bool) \<Rightarrow> bool" where
  "yields d P \<longleftrightarrow> (\<forall>r x r'. d r = (Inr x, r') \<longrightarrow> P x)"

lemma yields_any: "yields d (\<lambda>_. True)"
  by (simp add: yields_def)

lemma yields_mono: "yields d P \<Longrightarrow> (\<And>x. P x \<Longrightarrow> Q x) \<Longrightarrow> yields d Q"
  by (auto simp: yields_def)

lemma yields_dret: "P x \<Longrightarrow> yields (dret x) P"
  by (simp add: yields_def dret_def)

lemma yields_dbind:
  assumes "yields d P" "\<And>x. P x \<Longrightarrow> yields (k x) Q"
  shows "yields (dbind d k) Q"
  using assms unfolding yields_def dbind_def by (fastforce split: prod.splits sum.splits)

lemma yields_dguard: "yields (dguard b e) (\<lambda>_. b)"
  by (auto simp: yields_def dguard_def)

lemma yields_dfail_unless: "yields (dfail_unless b e) (\<lambda>_. b)"
  by (auto simp: yields_def dfail_unless_def Let_def prod.case_eq_if split: if_splits)

text \<open>A value that is returned once it has passed a check.\<close>

lemma yields_checked: "(b \<Longrightarrow> P x) \<Longrightarrow> yields (dbind (dguard b e) (\<lambda>_. dret x)) P"
  by (rule yields_dbind [OF yields_dguard]) (rule yields_dret)

lemma yields_then: "(\<And>x. yields (k x) Q) \<Longrightarrow> yields (dbind d k) Q"
  by (rule yields_dbind [OF yields_any])

lemma yields_string: "m < 2 ^ 32 \<Longrightarrow> yields (r_string m) (\<lambda>s. length s \<le> m)"
  unfolding r_string_def
  by (rule yields_then, rule yields_dbind [OF yields_dfail_unless])
    (auto simp: yields_def r_raw_def Let_def split: prod.splits if_splits)

lemma yields_dreplicate: "yields (dreplicate n d) (\<lambda>xs. length xs = n)"
proof (induction n)
  case (Suc n)
  show ?case unfolding dreplicate.simps
    by (rule yields_then, rule yields_dbind [OF Suc], rule yields_dret) simp
qed (simp add: yields_dret)

lemma yields_vector: "yields (r_vector m width d) (\<lambda>xs. length xs \<le> unat m)"
  unfolding r_vector_def
  by (rule yields_then, rule yields_dbind [OF yields_dguard], rule yields_then, rule yields_then,
      rule yields_mono [OF yields_dreplicate]) (simp add: word_le_nat_alt not_less)

lemma yields_when: "yields d P \<Longrightarrow> yields (r_when b d a) (\<lambda>x. if b then P x else x = a)"
  by (auto simp: r_when_def yields_def dret_def)

section \<open>Documents\<close>

lemma yields_localization: "yields decode_localization (\<lambda>l. length (lr_elements l) \<le> 64)"
  unfolding decode_localization_def
  by (rule yields_then, rule yields_dbind [OF yields_vector], (rule yields_then)+, rule yields_dret) simp

lemma yields_evidence: "yields decode_evidence structurally_valid"
  unfolding decode_evidence_def Let_def by ((rule yields_checked | rule yields_then)+, simp)

lemma yields_decision: "yields decode_decision d_admissible"
  unfolding decode_decision_def Let_def
  by ((rule yields_checked | rule yields_dbind [OF yields_vector] | rule yields_dbind [OF yields_when [OF yields_localization]]
      | rule yields_dbind [OF yields_when [OF yields_any]] | rule yields_then)+)
    (auto simp: d_admissible_def split: if_splits)

lemma yields_dmap: "yields d P \<Longrightarrow> (\<And>x. P x \<Longrightarrow> Q (f x)) \<Longrightarrow> yields (dmap f d) Q"
  unfolding dmap_def by (rule yields_dbind [of d P]) (auto intro: yields_dret)

section \<open>Messages\<close>

lemma yields_hello_request: "yields decode_hello_request (\<lambda>v. length (hq_client_name v) \<le> 64)"
  unfolding decode_hello_request_def
  by (rule yields_then, rule yields_dbind [OF yields_string], simp add: message_limits, rule yields_then, rule yields_dret)
    (simp add: message_limits)

lemma yields_submit_request: "yields decode_submit_evidence_request (\<lambda>v. structurally_valid (sq_evidence v))"
  unfolding decode_submit_evidence_request_def
  by (rule yields_then, rule yields_dbind [OF yields_evidence], rule yields_dret) simp

lemma yields_localize_request: "yields decode_localize_request (\<lambda>v. length (lq_probes v) \<le> 64)"
  unfolding decode_localize_request_def decode_probes_def
  by ((rule yields_dbind [OF yields_vector] | rule yields_then)+, rule yields_dret)
    (simp add: message_limits kMaxLocalizationSets_def)

lemma yields_lineage_request: "yields decode_lineage_request (\<lambda>v. nq_limit v \<le> 512)"
  unfolding decode_lineage_request_def Let_def
  by (rule yields_then, rule yields_then, rule yields_checked) (simp add: message_limits not_less)

lemma yields_lineage_response: "yields decode_lineage_response (\<lambda>v. length (ns_entries v) \<le> 512)"
  unfolding decode_lineage_response_def
  by (rule yields_then, rule yields_dbind [OF yields_vector], (rule yields_then)+, rule yields_dret)
    (simp add: message_limits)

lemma yields_error_response: "yields decode_error_response (\<lambda>v. length (er_detail v) \<le> 192)"
  unfolding decode_error_response_def
  by (rule yields_then, rule yields_then, rule yields_dbind [OF yields_string], simp add: message_limits, rule yields_dret)
    (simp add: message_limits)

lemma yields_decision_responses:
  "yields decode_evaluate_response (\<lambda>v. d_admissible (es_decision v))"
  "yields decode_localize_response (\<lambda>v. d_admissible (ls_decision v))"
  "yields decode_restore_response (\<lambda>v. d_admissible (ts_decision v))"
  unfolding decode_evaluate_response_def decode_localize_response_def decode_restore_response_def
  by (rule yields_then, rule yields_dbind [OF yields_decision], rule yields_dret, simp)+

lemmas message_yields = yields_hello_request yields_submit_request yields_localize_request yields_lineage_request
  yields_lineage_response yields_error_response yields_decision_responses

lemma yields_message: "yields (decode_message t) (\<lambda>m. message_ok m \<and> message_type_of m = t)"
  by (cases t) (simp_all, (rule yields_dmap, rule message_yields, simp | rule yields_dmap, rule yields_any, simp)+)

lemma decode_all_yields:
  assumes "yields d P" "decode_all d bs = Inr x"
  shows "P x"
  using assms by (auto simp: decode_all_def yields_def Let_def split: prod.splits sum.splits if_splits)


lemma decoded_message:
  assumes "decode_all (decode_message t) bs = Inr m"
  shows "message_ok m" "message_type_of m = t"
  using decode_all_yields [OF yields_message assms] by simp_all

section \<open>Requests behind the server\<close>

definition requests_ok :: "event list \<Rightarrow> world \<Rightarrow> bool" where
  "requests_ok tr w \<longleftrightarrow> (\<forall>k. \<forall>msg \<in> set (calls_of k tr). message_ok msg) \<and>
     (\<forall>k c msg. omap_find (wd_connections w) k = Some (c, Admitted msg) \<longrightarrow> message_ok msg)"

lemma requests_ok_Quiet [simp]: "requests_ok (tr @ [Quiet]) w = requests_ok tr w"
  by (simp add: requests_ok_def)

lemma requests_ok_server [simp]: "requests_ok tr (w\<lparr>wd_server := s\<rparr>) = requests_ok tr w"
  by (simp add: requests_ok_def)

lemma requests_ok_set:
  assumes "requests_ok tr w" "\<And>msg. task = Admitted msg \<Longrightarrow> message_ok msg"
  shows "requests_ok tr (set_connection k c task s w)"
  using assms by (auto simp: requests_ok_def set_connection_def split: if_splits)

lemma requests_ok_called:
  assumes "requests_ok tr w" "omap_find (wd_connections w) k = Some (c, Admitted msg)" "\<And>msg. task \<noteq> Admitted msg"
  shows "requests_ok (tr @ [Call k msg]) (set_connection k c' task s w)"
  using assms by (auto simp: requests_ok_def set_connection_def split: if_splits)

lemma requests_ok_step:
  assumes "server_step w ev w'" "requests_ok tr w"
  shows "requests_ok (tr @ [ev]) w'"
  using assms(1)
proof (cases rule: server_step.cases)
  case (admitting k c oc f d r s)
  have "message_ok msg" if "r = Inr msg" for msg
    using admitting(5) that by (cases rule: admit_request_cases) (auto dest: decoded_message)
  with admitting assms(2) show ?thesis by (auto intro!: requests_ok_set split: sum.splits)
next
  case (greeting k c req clk r c' s)
  then have "requests_ok (tr @ [ev]) w" using assms(2) by (simp add: hello_event_def requests_ok_def)
  then show ?thesis unfolding greeting(2) by (rule requests_ok_set) simp
next
  case (serving k c msg clk r c' s)
  then show ?thesis using requests_ok_called [OF assms(2)] by simp
next
  case (diagnosing k c req clk oc out e)
  then show ?thesis using requests_ok_called [OF assms(2)] by simp
next
  case accepting
  then show ?thesis using assms(2) by (auto simp: requests_ok_def accept_connection_def split: if_splits)
next
  case (closing k c)
  then show ?thesis using assms(2) by (auto simp: requests_ok_def split: if_splits)
qed (use assms(2) in \<open>auto intro!: requests_ok_set\<close>)

text \<open>
  C9. Only well-formed requests reach the coordinator: whatever bytes the clients send and however the
  threads interleave, every request with which a connection calls it is within the limits of its
  type, an observation that is submitted is structurally valid, a localization has at most 64 probes, a
  page of lineage at most 512 entries.
\<close>
theorem calls_well_formed:
  assumes "server_run config d sc tr w" "msg \<in> set (calls_of k tr)"
  shows "message_ok msg"
proof -
  have "requests_ok tr w" using assms(1)
  proof (induction rule: server_run.induct)
    case started
    then show ?case by (simp add: requests_ok_def world_new_def omap_find_def)
  qed (rule requests_ok_step)
  then show ?thesis using assms(2) by (auto simp: requests_ok_def)
qed

theorem calls_well_formed_witness:
  "calls_of 0 called_trace \<noteq> [] \<and> list_all message_ok (calls_of 0 called_trace)"
proof -
  obtain w where "sample_run called_trace w" by (rule called_run)
  from calls_well_formed [OF this] show ?thesis by (auto simp: called_trace_def sample_trace_def list_all_iff)
qed

end
