(* ===== verification/BHG_Platform.thy ===== *)
theory BHG_Platform
  imports BHG_Canonical
begin

text \<open>
  The rest of the core layer: identifiers and their texts (\<open>ids.hpp\<close>, \<open>ids.cpp\<close>), instants and the
  manual clock (\<open>time.hpp\<close>, \<open>time.cpp\<close>), the nonce source of a process (\<open>nonce.cpp\<close>), hashes of text
  (\<open>hash.cpp\<close>), and the directory operations (\<open>path.cpp\<close>) on a model of the file system. What the
  operating system answers, the time, the process id and the address of a stack slot, is an argument.
\<close>

section \<open>Identifiers\<close>

text \<open>\<open>StrongId\<close>, \<open>Generation\<close> and \<open>Sequence\<close> wrap a 64-bit value; their tags are types only.\<close>

datatype strong_ordering = Less | Equal | Greater

definition is_nil :: "u64 \<Rightarrow> bool" where "is_nil v \<longleftrightarrow> v = 0"

definition compare_ids :: "u64 \<Rightarrow> u64 \<Rightarrow> strong_ordering" where
  "compare_ids a b = (if a < b then Less else if a > b then Greater else Equal)"

definition generation_next :: "u64 \<Rightarrow> u64" where "generation_next g = g + 1"

definition id_hash :: "u64 \<Rightarrow> u64" where "id_hash v = v * 0x9E3779B97F4A7C15"

definition encode_id :: "u64 \<Rightarrow> writer \<Rightarrow> writer" where "encode_id v = w_u64 v"

definition decode_id :: "u64 decoder" where "decode_id = dbind r_u64 (\<lambda>raw. dret raw)"

text \<open>The hash of an identifier is a bijection, so identifiers collide in no full-width table.\<close>

lemma id_hash_inject: "id_hash a = id_hash b \<longleftrightarrow> a = b"
  by (simp add: id_hash_def mix_units)

lemma compare_ids_cases:
  "compare_ids a b = Equal \<longleftrightarrow> a = b" "compare_ids a b = Less \<longleftrightarrow> compare_ids b a = Greater"
  by (auto simp: compare_ids_def)

text \<open>A generation grows until the counter wraps; the last one is followed by the nil generation.\<close>

lemma generation_next_wraps: "is_nil (generation_next g) \<longleftrightarrow> g = - 1"
  by (simp add: is_nil_def generation_next_def eq_neg_iff_add_eq_0)

lemma generation_next_greater: "g \<noteq> - 1 \<Longrightarrow> compare_ids g (generation_next g) = Less"
  by (simp add: compare_ids_def generation_next_def word_less_nat_alt unatSuc eq_neg_iff_add_eq_0
      add.commute [of _ 1])

subsection \<open>Texts of identifiers\<close>

definition digit_char :: "nat \<Rightarrow> char" where
  "digit_char n = char_of (if n < 10 then 48 + n else 87 + n)"

text \<open>\<open>%016llx\<close>: sixteen hexadecimal digits, the most significant first.\<close>

definition hex16 :: "u64 \<Rightarrow> string" where
  "hex16 v = map (\<lambda>i. digit_char (unat v div 16 ^ i mod 16)) (rev [0..<16])"

text \<open>\<open>%llu\<close>.\<close>

fun decimal :: "nat \<Rightarrow> string" where
  "decimal n = (if n < 10 then [digit_char n] else decimal (n div 10) @ [digit_char (n mod 10)])"

declare decimal.simps [simp del]

definition hex_dec :: "u64 \<Rightarrow> string" where "hex_dec v = decimal (unat v)"

datatype ident =
    NodeId u64 | LinkId u64 | PathId u64 | EvidenceSourceId u64 | FenceId u64 | DecisionId u64
  | SessionId u64 | BootId u64 | IncarnationId u64 | PathGeneration u64 | TopologyGeneration u64
  | LinkStateGeneration u64 | CoordinatorEpoch u64 | PolicyVersion u64

fun to_text :: "ident \<Rightarrow> string" where
  "to_text (NodeId v) = ''node:'' @ hex16 v"
| "to_text (LinkId v) = ''link:'' @ hex16 v"
| "to_text (PathId v) = ''path:'' @ hex16 v"
| "to_text (EvidenceSourceId v) = ''src:'' @ hex16 v"
| "to_text (FenceId v) = ''fence:'' @ hex16 v"
| "to_text (DecisionId v) = ''dec:'' @ hex16 v"
| "to_text (SessionId v) = ''sess:'' @ hex16 v"
| "to_text (BootId v) = ''boot:'' @ hex16 v"
| "to_text (IncarnationId v) = ''inc:'' @ hex16 v"
| "to_text (PathGeneration v) = ''pg'' @ hex_dec v"
| "to_text (TopologyGeneration v) = ''tg'' @ hex_dec v"
| "to_text (LinkStateGeneration v) = ''lg'' @ hex_dec v"
| "to_text (CoordinatorEpoch v) = ''ep'' @ hex_dec v"
| "to_text (PolicyVersion v) = ''pol:'' @ hex16 v"

definition digit_value :: "char \<Rightarrow> nat" where
  "digit_value c = (if of_char c < (58 :: nat) then of_char c - 48 else of_char c - 87)"

lemma digit_value_char: "n < 16 \<Longrightarrow> digit_value (digit_char n) = n"
  by (auto simp: digit_value_def digit_char_def)

lemma digit_char_inject: "m < 16 \<Longrightarrow> n < 16 \<Longrightarrow> digit_char m = digit_char n \<longleftrightarrow> m = n"
  by (metis digit_value_char)

text \<open>The digits of a number below \<open>16\<^sup>k\<close> determine it.\<close>

lemma hex_digits_inject:
  "\<lbrakk>m < 16 ^ k; n < 16 ^ k; \<And>i. i < k \<Longrightarrow> m div 16 ^ i mod 16 = n div 16 ^ i mod 16\<rbrakk> \<Longrightarrow> m = n" for m n :: nat
proof (induction k arbitrary: m n)
  case (Suc k)
  have "m div 16 = n div 16"
  proof (rule Suc.IH)
    show "m div 16 < 16 ^ k" "n div 16 < 16 ^ k" using Suc.prems(1,2) by (simp_all add: less_mult_imp_div_less mult.commute)
    show "m div 16 div 16 ^ i mod 16 = n div 16 div 16 ^ i mod 16" if "i < k" for i
      using Suc.prems(3) [of "Suc i"] that by (simp add: div_mult2_eq)
  qed
  moreover have "m mod 16 = n mod 16" using Suc.prems(3) [of 0] by simp
  ultimately show ?case by (metis div_mult_mod_eq)
qed simp

lemma hex16_inject: "hex16 v = hex16 w \<longleftrightarrow> v = w"
proof
  assume "hex16 v = hex16 w"
  then have "unat v div 16 ^ i mod 16 = unat w div 16 ^ i mod 16" if "i < 16" for i
    using that by (auto simp: hex16_def digit_char_inject)
  moreover have width: "(16 :: nat) ^ 16 = 2 ^ 64" by simp
  have bound: "unat u < 16 ^ 16" for u :: u64
    unfolding width using unsigned_less [of u, where ?'a = nat] by simp
  ultimately have "unat v = unat w"
    by (intro hex_digits_inject [OF bound bound])
  then show "v = w" by (simp add: word_unat_eq_iff)
qed simp

lemma decimal_inject: "decimal m = decimal n \<longleftrightarrow> m = n"
proof
  assume "decimal m = decimal n"
  then show "m = n"
  proof (induction m arbitrary: n rule: decimal.induct)
    case (1 m)
    have ne: "decimal k \<noteq> []" "[] \<noteq> decimal k" for k by (subst decimal.simps; simp)+
    show ?case
    proof (cases "m < 10 \<or> n < 10")
      case True
      then show ?thesis using "1.prems" ne decimal.simps [of m] decimal.simps [of n]
        by (auto simp: digit_char_inject split: if_splits)
    next
      case False
      with "1.prems" have "decimal (m div 10) = decimal (n div 10)" "m mod 10 = n mod 10"
        using decimal.simps [of m] decimal.simps [of n] by (auto simp: digit_char_inject)
      with "1.IH" [of "n div 10"] False show ?thesis by (metis div_mult_mod_eq)
    qed
  qed
qed simp

text \<open>The text of an identifier names its kind and its value: no two identifiers share a text.\<close>

lemma to_text_inject: "to_text a = to_text b \<longleftrightarrow> a = b"
  by (cases a; cases b; simp add: hex16_inject hex_dec_def decimal_inject word_unat_eq_iff)

section \<open>Instants and clocks\<close>

definition compare_instants :: "i64 \<Rightarrow> i64 \<Rightarrow> strong_ordering" where
  "compare_instants a b = (if a <s b then Less else if b <s a then Greater else Equal)"

definition instant_is_zero :: "i64 \<Rightarrow> bool" where "instant_is_zero t \<longleftrightarrow> t = 0"

definition duration_is_positive :: "i64 \<Rightarrow> bool" where "duration_is_positive d \<longleftrightarrow> 0 <s d"

definition kNsPerMilli :: i64 where "kNsPerMilli = 1000000"

definition millis :: "i64 \<Rightarrow> i64" where "millis n = n * kNsPerMilli"

definition compare_windows :: "freshness_window \<Rightarrow> freshness_window \<Rightarrow> strong_ordering" where
  "compare_windows a b =
     (if fw_open a \<noteq> fw_open b then compare_instants (fw_open a) (fw_open b)
      else compare_instants (fw_close a) (fw_close b))"

definition encode_instant :: "i64 \<Rightarrow> writer \<Rightarrow> writer" where "encode_instant t = w_i64 t"

definition decode_instant :: "i64 decoder" where "decode_instant = r_i64"

lemma compare_instants_sint:
  "compare_instants a b =
     (if sint a < sint b then Less else if sint a = sint b then Equal else Greater)"
  by (auto simp: compare_instants_def word_sless_alt)

lemma compare_windows_Equal: "compare_windows a b = Equal \<longleftrightarrow> a = b" for a b :: freshness_window
  by (cases a; cases b) (auto simp: compare_windows_def compare_instants_sint signed_word_eqI split: if_splits)

text \<open>\<open>ManualClock\<close>: the wall clock may be set, the monotonic one only moves with \<open>advance\<close>.\<close>

record manual_clock =
  mc_wall :: i64
  mc_mono :: i64

definition manual_clock_new :: "i64 \<Rightarrow> manual_clock" where
  "manual_clock_new wall_start = \<lparr>mc_wall = wall_start, mc_mono = 0\<rparr>"

definition clock_wall_now :: "manual_clock \<Rightarrow> i64" where "clock_wall_now c = mc_wall c"

definition clock_mono_now :: "manual_clock \<Rightarrow> i64" where "clock_mono_now c = mc_mono c"

definition clock_advance :: "i64 \<Rightarrow> manual_clock \<Rightarrow> manual_clock" where
  "clock_advance d c = c\<lparr>mc_wall := mc_wall c + d, mc_mono := mc_mono c + d\<rparr>"

definition clock_set_wall :: "i64 \<Rightarrow> manual_clock \<Rightarrow> manual_clock" where
  "clock_set_wall t c = c\<lparr>mc_wall := t\<rparr>"

datatype clock_op = Advance i64 | Set_wall i64

primrec clock_step :: "clock_op \<Rightarrow> manual_clock \<Rightarrow> manual_clock" where
  "clock_step (Advance d) = clock_advance d"
| "clock_step (Set_wall t) = clock_set_wall t"

primrec advanced :: "clock_op \<Rightarrow> i64" where
  "advanced (Advance d) = d"
| "advanced (Set_wall t) = 0"

text \<open>The monotonic instant is what the clock was advanced by, however the wall clock was set.\<close>

lemma mono_is_advanced:
  "clock_mono_now (fold clock_step ops c) = clock_mono_now c + sum_list (map advanced ops)"
proof (induction ops arbitrary: c)
  case (Cons p ops)
  then show ?case
    by (cases p) (simp_all add: clock_mono_now_def clock_advance_def clock_set_wall_def add.assoc)
qed simp

section \<open>The nonce source of a process\<close>

record system_nonce_source =
  ns_counter :: u64
  ns_seed :: u64

definition system_nonce_new :: "i64 \<Rightarrow> u64 \<Rightarrow> u64 \<Rightarrow> system_nonce_source" where
  "system_nonce_new wall pid stack_marker =
     (let entropy = mix64 wall pid in \<lparr>ns_counter = 0, ns_seed = mix64 entropy stack_marker\<rparr>)"

definition system_nonce_next :: "system_nonce_source \<Rightarrow> u64 \<times> system_nonce_source" where
  "system_nonce_next s =
     (let counter = ns_counter s + 1; seed = mix64 (ns_seed s) counter in
      (seed, \<lparr>ns_counter = counter, ns_seed = seed\<rparr>))"

fun system_nonces :: "nat \<Rightarrow> system_nonce_source \<Rightarrow> u64 list" where
  "system_nonces 0 s = []"
| "system_nonces (Suc n) s = (let (v, s') = system_nonce_next s in v # system_nonces n s')"

lemma system_nonces_length: "length (system_nonces n s) = n"
  by (induction n arbitrary: s) (simp_all add: system_nonce_next_def Let_def)

lemma system_nonces_differ:
  "\<lbrakk>ns_counter s = ns_counter t; ns_seed s \<noteq> ns_seed t; i < n\<rbrakk> \<Longrightarrow> system_nonces n s ! i \<noteq> system_nonces n t ! i"
proof (induction n arbitrary: s t i)
  case (Suc n)
  then show ?case by (cases i) (simp_all add: system_nonce_next_def Let_def mix64_inject_left)
qed simp

text \<open>Two starts of the process that differ in one of time, process id and stack address alone never
  draw the same nonce at the same position, so their incarnations are told apart.\<close>

lemma starts_told_apart:
  assumes "(w \<noteq> w' \<and> p = p' \<and> m = m') \<or> (w = w' \<and> p \<noteq> p' \<and> m = m') \<or> (w = w' \<and> p = p' \<and> m \<noteq> m')" and "i < n"
  shows "system_nonces n (system_nonce_new w p m) ! i \<noteq> system_nonces n (system_nonce_new w' p' m') ! i"
  using assms by (intro system_nonces_differ)
    (auto simp: system_nonce_new_def Let_def mix64_inject_left mix64_inject_right)

section \<open>Hashes of text\<close>

definition view_bytes :: "string \<Rightarrow> bytes" where "view_bytes = map of_char"

definition crc32c_text :: "string \<Rightarrow> u32 \<Rightarrow> u32" where
  "crc32c_text text seed = crc32c (view_bytes text) seed"

definition fnv1a64_text :: "string \<Rightarrow> u64" where "fnv1a64_text text = fnv1a64 (view_bytes text)"

lemma of_char_u8_inject: "of_char c = (of_char d :: u8) \<longleftrightarrow> c = d"
proof -
  have "unat (of_char e :: u8) = of_char e" for e
    by (subst of_nat_of_char [symmetric], subst unat_of_nat) simp
  then show ?thesis by (metis of_char_eq_iff)
qed

text \<open>Changing one character of a text changes its fingerprint.\<close>

lemma fnv1a64_text_character: "c \<noteq> d \<Longrightarrow> fnv1a64_text (pre @ c # post) \<noteq> fnv1a64_text (pre @ d # post)"
  unfolding fnv1a64_text_def view_bytes_def
  by (simp add: fnv1a64_byte of_char_u8_inject)

section \<open>Directories and files (path.cpp)\<close>

text \<open>
  The file system is a state \<open>'s\<close> behind the calls of \<open>std::filesystem\<close>: \<open>create_directories\<close> answers
  whether its error code was set, \<open>remove\<close> changes the state, and \<open>status\<close> answers the type of an
  entry, with \<open>Unreadable\<close> for the status that could not be determined (\<open>file_type::none\<close>), for which
  \<open>exists\<close>, \<open>is_directory\<close> and \<open>is_regular_file\<close> are all false.
\<close>

datatype entry_status = Unreadable | Not_found | Directory | Regular | Special

record 's file_calls =
  call_create_directories :: "string \<Rightarrow> 's \<Rightarrow> bool \<times> 's"
  call_remove :: "string \<Rightarrow> 's \<Rightarrow> 's"
  call_status :: "string \<Rightarrow> 's \<Rightarrow> entry_status"

definition entry_exists :: "entry_status \<Rightarrow> bool" where
  "entry_exists st \<longleftrightarrow> st \<noteq> Unreadable \<and> st \<noteq> Not_found"

definition is_directory :: "'s file_calls \<Rightarrow> string \<Rightarrow> 's \<Rightarrow> bool" where
  "is_directory os path s \<longleftrightarrow> call_status os path s = Directory"

definition is_regular_file :: "'s file_calls \<Rightarrow> string \<Rightarrow> 's \<Rightarrow> bool" where
  "is_regular_file os path s \<longleftrightarrow> call_status os path s = Regular"

definition ensure_directory :: "'s file_calls \<Rightarrow> string \<Rightarrow> 's \<Rightarrow> bool \<times> 's" where
  "ensure_directory os dir s =
     (if dir = [] then (False, s)
      else case call_create_directories os dir s of
        (ec, s') \<Rightarrow> if ec then (False, s') else (call_status os dir s' = Directory, s'))"

definition remove_file :: "'s file_calls \<Rightarrow> string \<Rightarrow> 's \<Rightarrow> bool \<times> 's" where
  "remove_file os path s =
     (let s' = call_remove os path s in (\<not> entry_exists (call_status os path s'), s'))"

lemma ensure_directory_holds:
  "ensure_directory os dir s = (True, s') \<Longrightarrow> dir \<noteq> [] \<and> is_directory os dir s'"
  by (auto simp: ensure_directory_def is_directory_def split: if_splits prod.splits)

text \<open>\<open>remove_file\<close> answers true for a file that is gone, and also for one whose status cannot be read
  afterwards, which may still be there.\<close>

lemma remove_file_reports:
  "fst (remove_file os path s) \<longleftrightarrow>
     call_status os path (call_remove os path s) \<in> {Not_found, Unreadable}"
  by (auto simp: remove_file_def entry_exists_def Let_def)

end
