(* ===== verification/BHG_Net.thy ===== *)
theory BHG_Net
  imports BHG_Platform
begin

text \<open>
  The socket wrapper (\<open>service/net.hpp\<close>, \<open>service/net.cpp\<close>), in its POSIX form. The operating system
  is a state \<open>'s\<close> behind the calls the wrapper makes; what the wrapper relies on, the documented
  behaviour of a stream socket, is stated by the predicates \<open>sends_on\<close>, \<open>receives\<close> and \<open>tracks_handles\<close>.
  The calls return: the signal \<open>SIGPIPE\<close>, which \<open>send\<close> raises on a connection closed by its peer unless the
  process ignores it, is outside the model.
\<close>

section \<open>The calls\<close>

type_synonym handle = int

definition kInvalidSocketHandle :: handle where "kInvalidSocketHandle = - 1"

text \<open>Port and address are in network byte order, as in \<open>sockaddr_in\<close>; the host is little-endian.\<close>

record sockaddr_in =
  sin_port :: u16
  sin_addr :: u32

definition htons :: "u16 \<Rightarrow> u16" where "htons v = (push_bit 8 v) OR (drop_bit 8 v)"

definition htonl :: "u32 \<Rightarrow> u32" where
  "htonl v = push_bit 24 v OR (push_bit 8 v AND 0xFF0000) OR (drop_bit 8 v AND 0xFF00) OR drop_bit 24 v"

definition loopback :: "u16 \<Rightarrow> sockaddr_in" where
  "loopback port = \<lparr>sin_port = htons port, sin_addr = htonl 0x7F000001\<rparr>"

record 's socket_calls =
  sk_socket :: "'s \<Rightarrow> handle \<times> 's"
  sk_reuse_address :: "handle \<Rightarrow> 's \<Rightarrow> 's"
  sk_bind :: "handle \<Rightarrow> sockaddr_in \<Rightarrow> 's \<Rightarrow> int \<times> 's"
  sk_listen :: "handle \<Rightarrow> int \<Rightarrow> 's \<Rightarrow> int \<times> 's"
  sk_connect :: "handle \<Rightarrow> sockaddr_in \<Rightarrow> 's \<Rightarrow> int \<times> 's"
  sk_accept :: "handle \<Rightarrow> 's \<Rightarrow> handle \<times> 's"
  sk_getsockname :: "handle \<Rightarrow> 's \<Rightarrow> int \<times> sockaddr_in"
  sk_send :: "handle \<Rightarrow> bytes \<Rightarrow> 's \<Rightarrow> int \<times> 's"
  sk_recv :: "handle \<Rightarrow> nat \<Rightarrow> 's \<Rightarrow> int \<times> bytes \<times> 's"
  sk_select :: "handle \<Rightarrow> nat \<Rightarrow> nat \<Rightarrow> 's \<Rightarrow> int \<times> bool"
  sk_shutdown :: "handle \<Rightarrow> 's \<Rightarrow> 's"
  sk_close :: "handle \<Rightarrow> 's \<Rightarrow> 's"
  sk_error :: "'s \<Rightarrow> int"

definition int_text :: "int \<Rightarrow> string" where
  "int_text n = (if n < 0 then ''-'' @ decimal (nat (- n)) else decimal (nat n))"

definition socket_error_text :: "int \<Rightarrow> string" where
  "socket_error_text code = ''socket error '' @ int_text code"

section \<open>Operations\<close>

definition net_shutdown :: "'s socket_calls \<Rightarrow> handle \<Rightarrow> 's \<Rightarrow> 's" where
  "net_shutdown os h s = (if h = kInvalidSocketHandle then s else sk_shutdown os h s)"

text \<open>The handle after the call: closing twice closes once.\<close>

definition net_close :: "'s socket_calls \<Rightarrow> handle \<Rightarrow> 's \<Rightarrow> handle \<times> 's" where
  "net_close os h s = (if h = kInvalidSocketHandle then (h, s) else (kInvalidSocketHandle, sk_close os h s))"

definition net_local_port :: "'s socket_calls \<Rightarrow> handle \<Rightarrow> 's \<Rightarrow> outcome + u16" where
  "net_local_port os h s =
     (case sk_getsockname os h s of (rc, addr) \<Rightarrow>
        if rc \<noteq> 0 then Inl O_Unavailable else Inr (htons (sin_port addr)))"

record listen_result =
  lis_outcome :: outcome
  lis_handle :: handle
  lis_port :: u16
  lis_detail :: string

definition listen_failed :: "string \<Rightarrow> listen_result" where
  "listen_failed detail =
     \<lparr>lis_outcome = O_Rejected, lis_handle = kInvalidSocketHandle, lis_port = 0, lis_detail = detail\<rparr>"

definition net_listen_loopback ::
  "'s socket_calls \<Rightarrow> bool \<Rightarrow> u16 \<Rightarrow> u32 \<Rightarrow> 's \<Rightarrow> listen_result \<times> 's" where
  "net_listen_loopback os runtime_ok port backlog s =
     (if \<not> runtime_ok then (listen_failed ''socket runtime unavailable'', s)
      else let (h, s) = sk_socket os s in
        if h = kInvalidSocketHandle then (listen_failed (socket_error_text (sk_error os s)), s)
        else let s = sk_reuse_address os h s; (rc, s) = sk_bind os h (loopback port) s in
          if rc \<noteq> 0 then
            (listen_failed (''bind failed: '' @ socket_error_text (sk_error os s)), snd (net_close os h s))
          else let (rc, s) = sk_listen os h (sint backlog) s in
            if rc \<noteq> 0 then
              (listen_failed (''listen failed: '' @ socket_error_text (sk_error os s)), snd (net_close os h s))
            else (case net_local_port os h s of
                Inl _ \<Rightarrow> (listen_failed ''getsockname failed'', snd (net_close os h s))
              | Inr bound \<Rightarrow>
                  (\<lparr>lis_outcome = O_Ok, lis_handle = h, lis_port = bound, lis_detail = ''listening''\<rparr>, s)))"

definition net_connect_loopback ::
  "'s socket_calls \<Rightarrow> bool \<Rightarrow> u16 \<Rightarrow> 's \<Rightarrow> (outcome \<times> handle \<times> string) \<times> 's" where
  "net_connect_loopback os runtime_ok port s =
     (if \<not> runtime_ok then ((O_Unavailable, kInvalidSocketHandle, ''socket runtime unavailable''), s)
      else let (h, s) = sk_socket os s in
        if h = kInvalidSocketHandle then
          ((O_Unavailable, kInvalidSocketHandle, socket_error_text (sk_error os s)), s)
        else let (rc, s) = sk_connect os h (loopback port) s in
          if rc \<noteq> 0 then
            ((O_Unavailable, kInvalidSocketHandle, ''connect failed: '' @ socket_error_text (sk_error os s)),
             snd (net_close os h s))
          else ((O_Ok, h, ''connected''), s))"

definition net_accept :: "'s socket_calls \<Rightarrow> handle \<Rightarrow> 's \<Rightarrow> (outcome \<times> handle \<times> string) \<times> 's" where
  "net_accept os listener s =
     (let (h, s) = sk_accept os listener s in
      if h = kInvalidSocketHandle then
        ((O_Unavailable, kInvalidSocketHandle, socket_error_text (sk_error os s)), s)
      else ((O_Ok, h, ''accepted''), s))"

definition kMaxChunk :: nat where "kMaxChunk = 2 ^ 20"

text \<open>The loop offers what is left, at most a chunk, and drops what was taken.\<close>

function net_send_all :: "'s socket_calls \<Rightarrow> handle \<Rightarrow> bytes \<Rightarrow> 's \<Rightarrow> (outcome \<times> string) \<times> 's" where
  "net_send_all os h data s =
     (if data = [] then ((O_Ok, []), s)
      else case sk_send os h (take kMaxChunk data) s of (n, s') \<Rightarrow>
        if n \<le> 0 then ((O_Rejected, ''send failed: '' @ socket_error_text (sk_error os s')), s')
        else net_send_all os h (drop (nat n) data) s')"
  by pat_completeness auto
termination by (relation "measure (\<lambda>(_, _, data, _). length data)") auto

declare net_send_all.simps [simp del]

definition net_recv_some ::
  "'s socket_calls \<Rightarrow> handle \<Rightarrow> nat \<Rightarrow> 's \<Rightarrow> (outcome \<times> bytes \<times> string) \<times> 's" where
  "net_recv_some os h room s =
     (if room = 0 then ((O_Invalid, [], ''empty receive buffer''), s)
      else let (n, bs, s) = sk_recv os h (min room kMaxChunk) s in
        if n < 0 then ((O_Rejected, [], ''recv failed: '' @ socket_error_text (sk_error os s)), s)
        else ((O_Ok, take (nat n) bs, []), s))"

definition net_wait_readable :: "'s socket_calls \<Rightarrow> handle \<Rightarrow> u32 \<Rightarrow> 's \<Rightarrow> outcome \<times> bool" where
  "net_wait_readable os h timeout_ms s =
     (let (rc, is_set) = sk_select os h (unat (timeout_ms div 1000)) (unat ((timeout_ms mod 1000) * 1000)) s in
      if rc < 0 then (O_Rejected, False) else (O_Ok, rc > 0 \<and> is_set))"

section \<open>What a stream socket promises\<close>

text \<open>\<open>send\<close> takes a prefix of what it is offered, in order, or fails and takes nothing.\<close>

definition sends_on :: "'s socket_calls \<Rightarrow> handle \<Rightarrow> ('s \<Rightarrow> bytes) \<Rightarrow> bool" where
  "sends_on os h out \<longleftrightarrow> (\<forall>bs s n s'. sk_send os h bs s = (n, s') \<longrightarrow>
     (if n \<le> 0 then out s' = out s else nat n \<le> length bs \<and> out s' = out s @ take (nat n) bs))"

text \<open>\<open>recv\<close> gives the next bytes of the stream, no more than there is room for.\<close>

definition receives :: "'s socket_calls \<Rightarrow> handle \<Rightarrow> ('s \<Rightarrow> bytes) \<Rightarrow> bool" where
  "receives os h pending \<longleftrightarrow> (\<forall>room s n bs s'. sk_recv os h room s = (n, bs, s') \<longrightarrow>
     (if n < 0 then pending s' = pending s
      else nat n \<le> room \<and> length bs = nat n \<and> pending s = bs @ pending s'))"

text \<open>\<open>socket\<close> opens a new handle, \<open>close\<close> closes it, and the other calls open and close none.\<close>

definition tracks_handles :: "'s socket_calls \<Rightarrow> ('s \<Rightarrow> handle set) \<Rightarrow> bool" where
  "tracks_handles os opened \<longleftrightarrow>
     (\<forall>s. if fst (sk_socket os s) = kInvalidSocketHandle then opened (snd (sk_socket os s)) = opened s
          else fst (sk_socket os s) \<notin> opened s \<and>
            opened (snd (sk_socket os s)) = insert (fst (sk_socket os s)) (opened s)) \<and>
     (\<forall>h s. opened (sk_close os h s) = opened s - {h}) \<and>
     (\<forall>h s. opened (sk_reuse_address os h s) = opened s) \<and>
     (\<forall>h a s. opened (snd (sk_bind os h a s)) = opened s) \<and>
     (\<forall>h k s. opened (snd (sk_listen os h k s)) = opened s) \<and>
     (\<forall>h a s. opened (snd (sk_connect os h a s)) = opened s)"

subsection \<open>Sending and receiving\<close>

text \<open>All bytes are sent, in order, when the outcome is \<open>Ok\<close>; otherwise only some first part of them.\<close>

lemma net_send_all_stream:
  assumes "sends_on os h out" and "net_send_all os h data s = ((oc, detail), s')"
  shows "(oc = O_Ok \<and> out s' = out s @ data) \<or>
    (oc = O_Rejected \<and> (\<exists>k < length data. out s' = out s @ take k data))"
  using assms(2)
proof (induction data arbitrary: s rule: length_induct)
  case (1 data)
  show ?case
  proof (cases "data = []")
    case False
    obtain n t where t: "sk_send os h (take kMaxChunk data) s = (n, t)" by force
    show ?thesis
    proof (cases "n \<le> 0")
      case True
      with 1 False t have "oc = O_Rejected" "out s' = out s"
        using assms(1) by (auto simp: net_send_all.simps [of _ _ data] sends_on_def)
      then show ?thesis using False by (intro disjI2 conjI exI [of _ 0]) auto
    next
      case n: False
      have "nat n \<le> length (take kMaxChunk data) \<and> out t = out s @ take (nat n) (take kMaxChunk data)"
        using assms(1) t n unfolding sends_on_def by metis
      then have taken: "nat n \<le> length data" "out t = out s @ take (nat n) data"
        by (auto simp: min_def split: if_splits)
      have "net_send_all os h (drop (nat n) data) t = ((oc, detail), s')"
        using 1(2) t n False by (simp add: net_send_all.simps [of _ _ data])
      moreover have "length (drop (nat n) data) < length data" using False n by simp
      ultimately have "(oc = O_Ok \<and> out s' = out t @ drop (nat n) data) \<or>
          (oc = O_Rejected \<and> (\<exists>k < length (drop (nat n) data). out s' = out t @ take k (drop (nat n) data)))"
        using 1(1) by blast
      then show ?thesis
      proof (elim disjE conjE exE)
        fix k assume "oc = O_Rejected" "k < length (drop (nat n) data)" "out s' = out t @ take k (drop (nat n) data)"
        then show ?thesis using taken by (intro disjI2 conjI exI [of _ "nat n + k"]) (auto simp: take_add)
      qed (use taken in simp)
    qed
  qed (use 1 in \<open>simp add: net_send_all.simps\<close>)
qed

text \<open>A socket that takes at least one byte whenever it is offered some takes them all.\<close>

lemma net_send_all_ok:
  assumes "\<And>bs t. bs \<noteq> [] \<Longrightarrow> 0 < fst (sk_send os h bs t)"
  shows "fst (fst (net_send_all os h data s)) = O_Ok"
proof (induction data arbitrary: s rule: length_induct)
  case (1 data)
  show ?case
  proof (cases "data = []")
    case False
    then have "0 < fst (sk_send os h (take kMaxChunk data) s)" by (intro assms) (simp add: kMaxChunk_def)
    with 1 False show ?thesis by (auto simp: net_send_all.simps [of _ _ data] split: prod.split)
  qed (simp add: net_send_all.simps)
qed

text \<open>A read gives the next bytes, within the room of the buffer; no bytes are lost by a failed read.\<close>

lemma net_recv_some_stream:
  assumes "receives os h pending" and "net_recv_some os h room s = ((oc, bs, detail), s')"
  shows "pending s = bs @ pending s'" "length bs \<le> room" "\<not> is_affirmative oc \<Longrightarrow> bs = []"
proof -
  obtain n rs t where t: "sk_recv os h (min room kMaxChunk) s = (n, rs, t)" by (metis prod_cases3)
  with assms(1) have r: "if n < 0 then pending t = pending s
      else nat n \<le> min room kMaxChunk \<and> length rs = nat n \<and> pending s = rs @ pending t"
    unfolding receives_def by blast
  show "pending s = bs @ pending s'" "length bs \<le> room" "\<not> is_affirmative oc \<Longrightarrow> bs = []"
    using assms(2) t r by (auto simp: net_recv_some_def Let_def is_affirmative_def split: if_splits)
qed

text \<open>The time to wait, in seconds and microseconds, is the time in milliseconds; neither overflows.\<close>

lemma wait_timeout:
  "unat (ms div 1000) * 1000000 + unat ((ms mod 1000) * 1000) = unat ms * 1000" for ms :: u32
proof -
  have "unat (ms mod 1000) < 1000" by (simp add: unat_mod)
  then have "unat ((ms mod 1000) * 1000) = unat (ms mod 1000) * 1000"
    by (subst unat_mult_lem [THEN iffD1]) auto
  then have "unat ((ms mod 1000) * 1000) = (unat ms mod 1000) * 1000" by (simp add: unat_mod)
  moreover have "unat (ms div 1000) = unat ms div 1000" by (simp add: unat_div)
  ultimately show ?thesis using div_mult_mod_eq [of "unat ms" 1000] by linarith
qed

subsection \<open>Handles\<close>

lemma net_close_twice: "net_close os (fst (net_close os h s)) s' = (kInvalidSocketHandle, s')"
  by (simp add: net_close_def)

lemma tracks_handles_simps:
  assumes "tracks_handles os opened"
  shows "fst (sk_socket os s) = kInvalidSocketHandle \<Longrightarrow> opened (snd (sk_socket os s)) = opened s"
    "fst (sk_socket os s) \<noteq> kInvalidSocketHandle \<Longrightarrow>
       opened (snd (sk_socket os s)) = insert (fst (sk_socket os s)) (opened s)"
    "fst (sk_socket os s) \<noteq> kInvalidSocketHandle \<Longrightarrow> fst (sk_socket os s) \<notin> opened s"
    "opened (sk_close os h s) = opened s - {h}" "opened (sk_reuse_address os h s) = opened s"
    "opened (snd (sk_bind os h a s)) = opened s" "opened (snd (sk_listen os h k s)) = opened s"
    "opened (snd (sk_connect os h a s)) = opened s"
  using assms unfolding tracks_handles_def by meson+

text \<open>A listener or a connection that could not be set up leaves no handle open; one that could leaves
  exactly its own.\<close>

lemma listen_handles:
  assumes "tracks_handles os opened" "net_listen_loopback os ok port backlog s = (r, s')"
  shows "if is_affirmative (lis_outcome r) then lis_handle r \<notin> opened s \<and> opened s' = insert (lis_handle r) (opened s)
    else lis_handle r = kInvalidSocketHandle \<and> opened s' = opened s"
  using assms(2)
  by (auto simp: net_listen_loopback_def listen_failed_def net_close_def is_affirmative_def Let_def
      case_prod_beta tracks_handles_simps [OF assms(1)] split: if_splits sum.splits)

lemma connect_handles:
  assumes "tracks_handles os opened" "net_connect_loopback os ok port s = ((oc, h, detail), s')"
  shows "if is_affirmative oc then h \<notin> opened s \<and> opened s' = insert h (opened s)
    else h = kInvalidSocketHandle \<and> opened s' = opened s"
  using assms(2)
  by (auto simp: net_connect_loopback_def net_close_def is_affirmative_def Let_def
      case_prod_beta tracks_handles_simps [OF assms(1)] split: if_splits)

subsection \<open>Loopback only\<close>

lemma htons_involutive: "htons (htons p) = p"
  by (rule bit_eqI) (auto simp: htons_def bit_simps)

text \<open>The wrapper never names another address: two systems that answer alike for loopback addresses
  are not told apart.\<close>

lemma loopback_only:
  assumes "\<And>h a s. sin_addr a = 0x0100007F \<Longrightarrow> bind' h a s = sk_bind os h a s"
    and "\<And>h a s. sin_addr a = 0x0100007F \<Longrightarrow> connect' h a s = sk_connect os h a s"
  defines "os' \<equiv> os\<lparr>sk_bind := bind', sk_connect := connect'\<rparr>"
  shows "net_listen_loopback os' ok port backlog s = net_listen_loopback os ok port backlog s"
    "net_connect_loopback os' ok port s = net_connect_loopback os ok port s"
proof -
  have l: "sin_addr (loopback port) = 0x0100007F" by (simp add: loopback_def htonl_def)
  show "net_listen_loopback os' ok port backlog s = net_listen_loopback os ok port backlog s"
    by (simp add: net_listen_loopback_def os'_def assms(1) [OF l] net_close_def net_local_port_def
        Let_def case_prod_beta)
  show "net_connect_loopback os' ok port s = net_connect_loopback os ok port s"
    by (simp add: net_connect_loopback_def os'_def assms(2) [OF l] net_close_def Let_def case_prod_beta)
qed

section \<open>A socket of short writes\<close>

text \<open>
  A system with one stream: \<open>send\<close> takes at most \<open>k\<close> bytes at a time and fails once \<open>limit\<close> bytes were
  taken, \<open>recv\<close> gives them back at most \<open>k\<close> at a time, and port 0 cannot be bound or reached.
\<close>

record pipe =
  pp_next :: handle
  pp_open :: "handle list"
  pp_stream :: bytes
  pp_sent :: nat

definition pipe_new :: pipe where "pipe_new = \<lparr>pp_next = 3, pp_open = [], pp_stream = [], pp_sent = 0\<rparr>"

definition pipe_calls :: "nat \<Rightarrow> nat \<Rightarrow> pipe socket_calls" where
  "pipe_calls k limit = \<lparr>
     sk_socket = (\<lambda>s. (pp_next s, s\<lparr>pp_next := pp_next s + 1, pp_open := pp_next s # pp_open s\<rparr>)),
     sk_reuse_address = (\<lambda>h s. s),
     sk_bind = (\<lambda>h a s. (if sin_port a = 0 then - 1 else 0, s)),
     sk_listen = (\<lambda>h n s. (0, s)),
     sk_connect = (\<lambda>h a s. (if sin_port a = 0 then - 1 else 0, s)),
     sk_accept = (\<lambda>h s. (- 1, s)),
     sk_getsockname = (\<lambda>h s. (0, loopback 4711)),
     sk_send = (\<lambda>h bs s. let n = min k (min (length bs) (limit - pp_sent s)) in
        (if n = 0 then - 1 else int n, s\<lparr>pp_stream := pp_stream s @ take n bs, pp_sent := pp_sent s + n\<rparr>)),
     sk_recv = (\<lambda>h room s. let n = min k (min room (length (pp_stream s))) in
        (int n, take n (pp_stream s), s\<lparr>pp_stream := drop n (pp_stream s)\<rparr>)),
     sk_select = (\<lambda>h sec usec s. (if pp_stream s = [] then 0 else 1, pp_stream s \<noteq> [])),
     sk_shutdown = (\<lambda>h s. s),
     sk_close = (\<lambda>h s. s\<lparr>pp_open := removeAll h (pp_open s)\<rparr>),
     sk_error = (\<lambda>s. 98)\<rparr>"

lemma pipe_sends: "sends_on (pipe_calls k limit) h pp_stream"
  by (auto simp: sends_on_def pipe_calls_def Let_def)

lemma pipe_receives: "receives (pipe_calls k limit) h pp_stream"
  by (auto simp: receives_def pipe_calls_def Let_def)

section \<open>Properties\<close>

text \<open>
  C12. Sending is all or a first part: whatever pieces the system takes, \<open>net_send_all\<close> returns, with
  \<open>Ok\<close> exactly when every byte was handed over, in order and once, and otherwise with \<open>Rejected\<close> after
  a proper first part of them.
\<close>
theorem send_all_or_prefix:
  assumes "sends_on os h out"
  shows "\<exists>k \<le> length data.
    out (snd (net_send_all os h data s)) = out s @ take k data \<and>
    fst (fst (net_send_all os h data s)) = (if k = length data then O_Ok else O_Rejected)"
  using net_send_all_stream [OF assms, of data s] by (metis less_irrefl less_imp_le order_refl prod.collapse take_all)

theorem send_all_or_prefix_witness:
  "sends_on (pipe_calls 2 3) 3 pp_stream \<and>
   fst (fst (net_send_all (pipe_calls 2 3) 3 [1, 2, 3, 4, 5] pipe_new)) = O_Rejected \<and>
   (\<exists>k \<le> length [1, 2, 3, 4, 5 :: u8].
     pp_stream (snd (net_send_all (pipe_calls 2 3) 3 [1, 2, 3, 4, 5] pipe_new)) = pp_stream pipe_new @ take k [1, 2, 3, 4, 5] \<and>
     fst (fst (net_send_all (pipe_calls 2 3) 3 [1, 2, 3, 4, 5] pipe_new)) =
       (if k = length [1, 2, 3, 4, 5 :: u8] then O_Ok else O_Rejected))"
proof (intro conjI)
  show "fst (fst (net_send_all (pipe_calls 2 3) 3 [1, 2, 3, 4, 5] pipe_new)) = O_Rejected"
    by (simp add: net_send_all.simps pipe_calls_def pipe_new_def kMaxChunk_def)
qed (rule pipe_sends send_all_or_prefix)+

end
