(* ===== verification/BHG_Cli.thy ===== *)
theory BHG_Cli
  imports BHG_Typing BHG_Net
begin

text \<open>
  The operator's command line (\<open>tools/bhg_cli.cpp\<close>): its arguments, the commands \<open>demo\<close>, \<open>report\<close> and
  \<open>serve\<close>, and the dispatch of \<open>main\<close>. A command is a function from the arguments, the process's nonce
  source, the clock readings of its calls and the disk under each state root to the exit code and the
  lines it prints. The network of \<open>serve\<close> is the wrapper of \<open>BHG_Net\<close>.
\<close>

section \<open>Arguments\<close>

type_synonym args = "string \<rightharpoonup> string"

definition args_has :: "args \<Rightarrow> string \<Rightarrow> bool" where "args_has a k \<longleftrightarrow> a k \<noteq> None"

definition args_get :: "args \<Rightarrow> string \<Rightarrow> string \<Rightarrow> string" where
  "args_get a k fallback = (case a k of None \<Rightarrow> fallback | Some v \<Rightarrow> v)"

text \<open>\<open>strtoull\<close> in base 10: white space, a sign, the digits; too large is the largest value.\<close>

definition is_space :: "char \<Rightarrow> bool" where
  "is_space c \<longleftrightarrow> c = CHR '' '' \<or> (9 \<le> (of_char c :: nat) \<and> (of_char c :: nat) \<le> 13)"

definition is_digit :: "char \<Rightarrow> bool" where
  "is_digit c \<longleftrightarrow> 48 \<le> (of_char c :: nat) \<and> (of_char c :: nat) \<le> 57"

definition digits_value :: "string \<Rightarrow> nat" where
  "digits_value = foldl (\<lambda>n c. n * 10 + digit_value c) 0"

definition strtoull :: "string \<Rightarrow> u64" where
  "strtoull text =
     (let body = dropWhile is_space text;
          (negative, ds) = (case body of
             [] \<Rightarrow> (False, [])
           | c # cs \<Rightarrow> if c = CHR ''-'' then (True, cs) else if c = CHR ''+'' then (False, cs) else (False, body));
          n = digits_value (takeWhile is_digit ds)
      in if n \<ge> 2 ^ 64 then - 1 else if negative then - of_nat n else of_nat n)"

definition args_number :: "args \<Rightarrow> string \<Rightarrow> u64 \<Rightarrow> u64" where
  "args_number a k fallback = (let v = args_get a k [] in if v = [] then fallback else strtoull v)"

text \<open>\<open>parse\<close>: pairs from the third word on; a later pair replaces an earlier one, a last single word
  is ignored.\<close>

fun parse_pairs :: "string list \<Rightarrow> args \<Rightarrow> args" where
  "parse_pairs (k # v # rest) a = parse_pairs rest (a(k \<mapsto> v))"
| "parse_pairs _ a = a"

definition parse_args :: "string list \<Rightarrow> args" where
  "parse_args argv = parse_pairs (drop 2 argv) Map.empty"

definition label_of :: "args \<Rightarrow> provenance" where
  "label_of a = (if args_get a ''--label'' ''synthetic'' = ''real'' then P_Real else P_Synthetic)"

section \<open>Inputs of the demonstration\<close>

definition path_scope_of :: "u64 \<Rightarrow> scope" where
  "path_scope_of path = scope_nil\<lparr>sc_kind := SK_Path, sc_path := path\<rparr>"

definition gens_of :: "u64 \<Rightarrow> u64 \<Rightarrow> u64 \<Rightarrow> u64 \<Rightarrow> generation_vector" where
  "gens_of path_gen topo link epoch =
     \<lparr>gv_path = path_gen, gv_topology = topo, gv_link_state = link, gv_epoch = epoch\<rparr>"

definition failure_from :: "u64 \<Rightarrow> scope \<Rightarrow> generation_vector \<Rightarrow> u64 \<Rightarrow> i64 \<Rightarrow> u64 \<Rightarrow> delivery_evidence" where
  "failure_from source scope g seq at n =
     (let e = \<lparr>ev_id = 0,
        ev_source = \<lparr>sr_source = source, sr_boot = source * 31 + 1, sr_incarnation = source, sr_epoch = 1\<rparr>,
        ev_scope = scope, ev_gens = g, ev_seq = seq, ev_attempt = seq, ev_kind = K_DeliveryFailure,
        ev_quality = Q_Exact, ev_provenance = P_Synthetic, ev_attempts = n, ev_failures = n,
        ev_loss_ppm = kLossTotalPpm, ev_rtt_us = 0, ev_observed_at = at,
        ev_fresh = \<lparr>fw_open = at, fw_close = at + 600 * kNsPerSecond\<rparr>, ev_external_owner = 0\<rparr>
      in e\<lparr>ev_id := derive_evidence_id e\<rparr>)"

section \<open>Output\<close>

datatype line = Out string | Err string

definition flag :: "bool \<Rightarrow> string" where "flag b = (if b then ''1'' else ''0'')"

definition signed_text :: "i64 \<Rightarrow> string" where "signed_text v = int_text (sint v)"

fun comma_separated :: "string list \<Rightarrow> string" where
  "comma_separated [] = []"
| "comma_separated [x] = x"
| "comma_separated (x # xs) = x @ '','' @ comma_separated xs"

definition print_decision :: "decision \<Rightarrow> string \<Rightarrow> line list" where
  "print_decision d prefix =
     [Out (prefix @ '' kind='' @ decision_kind_to_string (d_kind d) @ '' outcome='' @ outcome_to_string (d_outcome d) @
        '' classification='' @ classification_to_string (d_classification d) @
        '' authority='' @ authority_stage_to_string (av_stage (d_authority d)) @
        '' corroborated='' @ flag (d_corroborated d) @ '' intent='' @ flag (d_has_intent d)),
      Out (prefix @ '' decision='' @ to_text (DecisionId (d_id d)) @ '' reason='' @ reason_code_to_string (d_primary_reason d) @
        '' evidence(fresh='' @ decimal (unat (ce_fresh_current (d_census d))) @
        '' complete_failures='' @ decimal (unat (ce_complete_failures (d_census d))) @
        '' success='' @ decimal (unat (ce_clean_successes (d_census d))) @ '')'')] @
     (if d_has_localization d then
        [Out (prefix @ '' localization='' @ localization_status_to_string (lr_status (d_localization d)) @
           '' size='' @ decimal (unat (lr_optimal_size (d_localization d))) @
           '' proven='' @ flag (lr_optimality_proven (d_localization d)) @
           '' ambiguous_truncated='' @ flag (lr_solutions_truncated (d_localization d)) @
           '' elements=['' @ comma_separated (map (\<lambda>x. decimal (unat x)) (lr_elements (d_localization d))) @ '']'')]
      else []) @
     (if d_has_intent d then
        [Out (prefix @ '' fence='' @ to_text (FenceId (fi_id (d_intent d))) @
           '' scope_kind='' @ scope_kind_to_string (sc_kind (fi_scope (d_intent d))) @
           '' expires_at='' @ signed_text (fi_expires_at (d_intent d)))]
      else [])"

definition open_failed :: "outcome \<Rightarrow> line" where
  "open_failed oc = Err (''open failed: '' @ outcome_to_string oc)"

section \<open>Commands\<close>

text \<open>The engine of a command, on the disk under its state root.\<close>

definition cli_engine :: "provenance \<Rightarrow> disk \<Rightarrow> engine" where
  "cli_engine label d = engine_new \<lparr>ec_store = default_store_config, ec_policy = default_policy,
     ec_label = label, ec_role = ''coordinator''\<rparr> d"

definition cli_open :: "provenance \<Rightarrow> system_nonce_source \<Rightarrow> clock \<Rightarrow> disk \<Rightarrow> outcome \<times> engine" where
  "cli_open label nonces clk d =
     (let (boot, nonces) = system_nonce_next nonces; (incarnation, nonces) = system_nonce_next nonces
      in engine_open boot incarnation clk (cli_engine label d))"

text \<open>The downstream owner acknowledges the intent of the last decision and reports its effect.\<close>

definition demo_downstream :: "(nat \<Rightarrow> clock) \<Rightarrow> decision \<Rightarrow> engine \<Rightarrow> line list \<times> engine" where
  "demo_downstream clks d e =
     (if d_has_intent d then
        let ((_, _), e) = acknowledge_fence (fi_id (d_intent d)) 99 (clks 0) e;
            ((_, ack_reason), e) = engine_report_effect (fi_id (d_intent d)) 99 True (clks 1) e
        in ([Out (''[downstream] ack+effect reported by owner 99 ('' @ reason_code_to_string ack_reason @ '')'')], e)
      else ([], e))"

definition demo_probes :: "hop_probe list" where
  "demo_probes = [\<lparr>hp_begin_hop = 0, hp_end_hop = 2, hp_success = True\<rparr>,
     \<lparr>hp_begin_hop = 2, hp_end_hop = 6, hp_success = False\<rparr>, \<lparr>hp_begin_hop = 4, hp_end_hop = 6, hp_success = False\<rparr>]"

definition stats_line :: "engine_stats \<Rightarrow> line" where
  "stats_line s = Out (''[stats] submitted='' @ hex_dec (es_evidence_submitted s) @
     '' admitted='' @ hex_dec (es_evidence_admitted s) @ '' rejected='' @ hex_dec (es_evidence_rejected s) @
     '' evaluations='' @ hex_dec (es_evaluations s) @ '' committed='' @ hex_dec (es_decisions_committed s) @
     '' fenced='' @ hex_dec (es_fence_intents_issued s) @ '' closed='' @ flag (es_accounting_closed s))"

definition demo_run :: "(nat \<Rightarrow> clock) \<Rightarrow> engine \<Rightarrow> line list \<times> engine" where
  "demo_run clks e =
     (let scope = path_scope_of 1; gens = gens_of 1 1 1 1; at = clks 0 0;
          ((_, d), e) = evaluate scope gens (clks 1) e; l1 = print_decision d ''[no-evidence]'';
          (_, e) = submit (failure_from 1 scope gens 1 at 32) (clks 2) e;
          ((_, d), e) = evaluate scope gens (clks 3) e; l2 = print_decision d ''[one-source]'';
          (_, e) = submit (failure_from 2 scope gens 1 at 32) (clks 4) e;
          ((_, d), e) = evaluate scope gens (clks 5) e; l3 = print_decision d ''[corroborated]'';
          (l4, e) = demo_downstream (\<lambda>n. clks (6 + n)) d e;
          ((_, d), e) = engine_localize scope gens 6 demo_probes (clks 8) e; l5 = print_decision d ''[localized]'';
          ((_, restored), e) = restore scope gens (clks 9) e; l6 = print_decision restored ''[restore-refused]'';
          ((oc, snapshot), e) = engine_checkpoint e;
          l7 = [Out (''[checkpoint] outcome='' @ outcome_to_string oc @
            '' snapshot_seq='' @ hex_dec (case snapshot of None \<Rightarrow> 0 | Some v \<Rightarrow> v))]
      in (l1 @ l2 @ l3 @ l4 @ l5 @ l6 @ l7 @ [stats_line (en_stats e)], e))"

definition demo_header :: "engine \<Rightarrow> line" where
  "demo_header e = (let r = engine_open_report e in
     Out (''boot='' @ to_text (BootId (or_boot r)) @ '' incarnation='' @ to_text (IncarnationId (or_incarnation r)) @
       '' epoch='' @ hex_dec (or_epoch r) @ '' policy_fingerprint='' @ hex_dec (engine_policy_fingerprint e)))"

definition cmd_demo ::
  "args \<Rightarrow> system_nonce_source \<Rightarrow> (nat \<Rightarrow> clock) \<Rightarrow> (string \<Rightarrow> disk) \<Rightarrow> (nat \<times> line list) \<times> engine" where
  "cmd_demo a nonces clks disks =
     (let (oc, e) = cli_open (label_of a) nonces (clks 0) (disks (args_get a ''--root'' ''./bhg-demo-state'')) in
      if \<not> is_affirmative oc then ((3, [open_failed oc]), e)
      else
        let header = demo_header e; (ls, e) = demo_run (\<lambda>n. clks (Suc n)) e; stats = en_stats e;
            (_, e) = engine_close e
        in ((if es_accounting_closed stats then 0 else 4, header # ls), e))"

text \<open>\<open>report\<close>: what the open found, and the last 64 entries of the lineage.\<close>

definition report_header :: "open_report \<Rightarrow> line list" where
  "report_header r =
     [Out (''outcome='' @ outcome_to_string (or_outcome r) @ '' detail='' @ or_detail r),
      Out (''boot='' @ to_text (BootId (or_boot r)) @ '' incarnation='' @ to_text (IncarnationId (or_incarnation r)) @
        '' epoch='' @ hex_dec (or_epoch r) @ '' boots='' @ hex_dec (or_boot_count r) @ '' opens='' @ hex_dec (or_open_count r)),
      Out (''restart_detected='' @ flag (or_restart_detected r) @ '' snapshot_present='' @ flag (or_snapshot_present r) @
        '' torn_tail='' @ flag (or_torn_tail_recovered r) @ '' reclaimed_bytes='' @ hex_dec (or_reclaimed_tail_bytes r) @
        '' policy_restored='' @ flag (or_policy_restored r) @
        '' fenced_prior_fences='' @ hex_dec (or_fenced_prior_fences r))]"

definition report_closed :: "lineage_entry list \<times> u64 \<times> u64 \<Rightarrow> bool" where
  "report_closed l = (case l of (entries, seen, dropped) \<Rightarrow> seen = of_nat (length entries) + dropped)"

definition entry_line :: "lineage_entry \<Rightarrow> line" where
  "entry_line e = Out (''  seq='' @ hex_dec (ln_seq e) @ '' type='' @ record_type_to_string (ln_type e) @
     '' outcome='' @ outcome_to_string (ln_outcome e) @ '' classification='' @ classification_to_string (ln_classification e) @
     '' reason='' @ reason_code_to_string (ln_reason e) @ '' prior='' @ flag (ln_from_prior_incarnation e) @
     '' decision='' @ to_text (DecisionId (ln_decision e)))"

definition cmd_report ::
  "args \<Rightarrow> system_nonce_source \<Rightarrow> (nat \<Rightarrow> clock) \<Rightarrow> (string \<Rightarrow> disk) \<Rightarrow> (nat \<times> line list) \<times> engine" where
  "cmd_report a nonces clks disks =
     (let (oc, e) = cli_open P_Synthetic nonces (clks 0) (disks (args_get a ''--root'' ''./bhg-demo-state'')) in
      if \<not> is_affirmative oc then ((3, [open_failed oc]), e)
      else
        let (entries, seen, dropped) = lineage 64 e;
            summary = Out (''lineage seen='' @ hex_dec seen @ '' dropped='' @ hex_dec dropped @
              '' shown='' @ decimal (length entries) @ '' closed='' @ flag (report_closed (entries, seen, dropped)))
        in ((0, report_header (engine_open_report e) @ summary # map entry_line entries), snd (engine_close e)))"

text \<open>
  \<open>serve\<close>: what the server's threads do between its start and their end, with the sockets they use, is
  the argument \<open>served\<close>. The listener comes from \<open>net_listen_loopback\<close>; \<open>Server::stop\<close> wakes the accept
  thread by a connection of its own and closes the listener.
\<close>

definition serve_config :: "args \<Rightarrow> server_config" where
  "serve_config a = \<lparr>vc_port = ucast (args_number a ''--port'' 0), vc_backlog = 16, vc_max_connections = 64\<rparr>"

definition serve_start ::
  "'s socket_calls \<Rightarrow> bool \<Rightarrow> server \<Rightarrow> 's \<Rightarrow> (outcome \<times> u16 \<times> handle) \<times> server \<times> 's" where
  "serve_start os runtime_ok sv s =
     (if sv_running sv \<or> \<not> runtime_ok then
        let ((oc, bound), sv) = server_start runtime_ok O_Rejected 0 sv in ((oc, bound, kInvalidSocketHandle), sv, s)
      else
        let (r, s) = net_listen_loopback os runtime_ok (vc_port (sv_config sv)) (vc_backlog (sv_config sv)) s;
            ((oc, bound), sv) = server_start runtime_ok (lis_outcome r) (lis_port r) sv
        in ((oc, bound, lis_handle r), sv, s))"

definition serve_stop :: "'s socket_calls \<Rightarrow> bool \<Rightarrow> handle \<Rightarrow> server \<Rightarrow> 's \<Rightarrow> server \<times> 's" where
  "serve_stop os runtime_ok listener sv s =
     (let ((oc, wake, _), s) = net_connect_loopback os runtime_ok (sv_port sv) s;
          s = (if is_affirmative oc then snd (net_close os wake s) else s)
      in (snd (server_stop sv), snd (net_close os listener s)))"

definition served_line :: "server_stats \<Rightarrow> line" where
  "served_line s = Out (''served='' @ hex_dec (vt_requests_served s) @ '' rejected='' @ hex_dec (vt_requests_rejected s) @
     '' frames='' @ hex_dec (vt_frames_decoded s) @ '' frames_rejected='' @ hex_dec (vt_frames_rejected s))"

definition cmd_serve ::
  "args \<Rightarrow> system_nonce_source \<Rightarrow> (nat \<Rightarrow> clock) \<Rightarrow> (string \<Rightarrow> disk) \<Rightarrow> 's socket_calls \<Rightarrow> bool
     \<Rightarrow> (server \<Rightarrow> 's \<Rightarrow> server \<times> 's) \<Rightarrow> 's \<Rightarrow> (nat \<times> line list) \<times> engine \<times> 's" where
  "cmd_serve a nonces clks disks os runtime_ok served s =
     (let (oc, e) = cli_open (label_of a) nonces (clks 0) (disks (args_get a ''--root'' ''./bhg-state'')) in
      if \<not> is_affirmative oc then ((3, [open_failed oc]), e, s)
      else
        let ((so, bound, listener), sv, s) = serve_start os runtime_ok (server_new e (serve_config a)) s in
        if \<not> is_affirmative so then ((4, [Err ''listen failed'']), sv_engine sv, s)
        else
          let (sv, s) = served sv s; (sv, s) = serve_stop os runtime_ok listener sv s in
          ((0, [Out (''listening on 127.0.0.1:'' @ decimal (unat bound) @ '' (close stdin to stop)''),
             served_line (sv_stats sv)]), snd (engine_close (sv_engine sv)), s))"

definition kProductName :: string where "kProductName = ''Blackhole Guard''"

definition kVersionString :: string where "kVersionString = ''1.0.1''"

definition usage :: "nat \<times> line list" where
  "usage = (2, [Err (kProductName @ '' '' @ kVersionString), Err ''usage:'', Err ''  bhg-cli version'',
     Err ''  bhg-cli demo   --root DIR [--label synthetic|real]'', Err ''  bhg-cli report --root DIR'',
     Err ''  bhg-cli serve  --root DIR [--port N]''])"

text \<open>\<open>main\<close>: exit code and output; a command that opens no engine leaves none.\<close>

definition cli_main ::
  "string list \<Rightarrow> system_nonce_source \<Rightarrow> (nat \<Rightarrow> clock) \<Rightarrow> (string \<Rightarrow> disk) \<Rightarrow> 's socket_calls \<Rightarrow> bool
     \<Rightarrow> (server \<Rightarrow> 's \<Rightarrow> server \<times> 's) \<Rightarrow> 's \<Rightarrow> (nat \<times> line list) \<times> engine option \<times> 's" where
  "cli_main argv nonces clks disks os runtime_ok served s =
     (if length argv < 2 then (usage, None, s)
      else let mode = argv ! 1; a = parse_args argv in
        if mode = ''version'' then
          ((0, [Out (kProductName @ '' '' @ kVersionString @ '' (format '' @ decimal (unat kFormatVersion) @
             '', protocol '' @ decimal (unat kProtocolVersion) @ '')'')]), None, s)
        else if mode = ''demo'' then let (r, e) = cmd_demo a nonces clks disks in (r, Some e, s)
        else if mode = ''report'' then let (r, e) = cmd_report a nonces clks disks in (r, Some e, s)
        else if mode = ''serve'' then
          let (r, e, s) = cmd_serve a nonces clks disks os runtime_ok served s in (r, Some e, s)
        else (usage, None, s))"

section \<open>Numbers in the arguments\<close>

lemma digit_char_class: "n < 10 \<Longrightarrow> is_digit (digit_char n) \<and> \<not> is_space (digit_char n) \<and>
    digit_char n \<noteq> CHR ''-'' \<and> digit_char n \<noteq> CHR ''+''"
proof -
  assume n: "n < 10"
  have "(of_char (digit_char n) :: nat) = 48 + n" using n by (simp add: digit_char_def)
  moreover have "digit_char n \<noteq> c" if "of_char c \<noteq> 48 + n" for c using calculation that by auto
  ultimately show ?thesis using n by (auto simp: is_digit_def is_space_def)
qed

lemma decimal_digits: "list_all is_digit (decimal n)"
  by (induction n rule: decimal.induct) (subst decimal.simps, simp add: digit_char_class)

lemma digits_value_decimal: "digits_value (decimal n) = n"
proof (induction n rule: decimal.induct)
  case (1 n)
  then show ?case
    by (subst decimal.simps) (auto simp: digits_value_def digit_value_char)
qed

text \<open>A printed number is read back, up to the width of a word.\<close>

lemma strtoull_decimal:
  assumes "n < 2 ^ 64"
  shows "strtoull (decimal n) = of_nat n"
proof -
  obtain c cs where d: "decimal n = c # cs" by (metis decimal.elims neq_Nil_conv snoc_eq_iff_butlast)
  then have "is_digit c" using decimal_digits [of n] by simp
  then have "\<not> is_space c" "c \<noteq> CHR ''-''" "c \<noteq> CHR ''+''" by (auto simp: is_digit_def is_space_def)
  moreover have "takeWhile is_digit (c # cs) = c # cs"
    using decimal_digits [of n] d by (simp add: takeWhile_eq_all_conv list_all_iff)
  ultimately show ?thesis
    using assms digits_value_decimal [of n] d by (simp add: strtoull_def Let_def)
qed

text \<open>The port is cut to sixteen bits: a number too large for a port names another port.\<close>

lemma serve_port_wraps:
  assumes "a ''--port'' = Some (decimal n)" "n < 2 ^ 64"
  shows "unat (vc_port (serve_config a)) = n mod 2 ^ 16"
proof -
  have "decimal n \<noteq> []" by (metis decimal.elims list.distinct(1) snoc_eq_iff_butlast)
  with assms have "vc_port (serve_config a) = ucast (of_nat n :: u64)"
    by (simp add: serve_config_def args_number_def args_get_def strtoull_decimal)
  then show ?thesis using assms(2) by (simp add: unsigned_ucast_eq unat_of_nat take_bit_eq_mod)
qed

section \<open>Exit codes and accounts\<close>

lemma cli_engine_ok: "engine_ok 0 (cli_engine label d)"
  by (simp add: cli_engine_def engine_new_ok default_policy_valid)

lemma cli_open_ok: "engine_ok 0 (snd (cli_open label nonces clk d))"
  by (simp add: cli_open_def Let_def case_prod_beta engine_open_ok cli_engine_ok)

lemma snd_evaluate_ok: "engine_ok 0 e \<Longrightarrow> engine_ok 0 (snd (evaluate scope gens clk e))"
  by (metis evaluate_ok prod.collapse)

lemma snd_restore_ok: "engine_ok 0 e \<Longrightarrow> engine_ok 0 (snd (restore scope gens clk e))"
  by (metis restore_ok prod.collapse)

lemma engine_localize_ok: "engine_ok 0 e \<Longrightarrow> engine_ok 0 (snd (engine_localize scope gens hops probes clk e))"
  by (simp add: engine_localize_def Let_def case_prod_beta localize_finish_ok snd_evaluate_ok)

lemma demo_downstream_ok: "engine_ok 0 e \<Longrightarrow> engine_ok 0 (snd (demo_downstream clks d e))"
  by (simp add: demo_downstream_def Let_def case_prod_beta acknowledge_fence_ok engine_report_effect_ok)

lemma demo_run_ok: "engine_ok 0 e \<Longrightarrow> engine_ok 0 (snd (demo_run clks e))"
  by (simp add: demo_run_def Let_def case_prod_beta engine_checkpoint_ok snd_restore_ok engine_localize_ok
      demo_downstream_ok snd_evaluate_ok submit_ok)

text \<open>
  The flag \<open>closed\<close> of a report compares what was seen with the entries shown, of which there are at
  most 64: the accounts of a longer lineage are reported open although they are closed.
\<close>

lemma report_closed_flag:
  assumes "lineage_accounting_closed (en_store e)" "length (ds_lineage (so_state (en_store e))) < 2 ^ 64"
  shows "report_closed (lineage 64 e) \<longleftrightarrow> length (ds_lineage (so_state (en_store e))) \<le> 64"
proof -
  let ?n = "length (ds_lineage (so_state (en_store e)))"
  have "report_closed (lineage 64 e) \<longleftrightarrow> (of_nat ?n :: u64) = of_nat (min 64 ?n)"
    using assms(1) by (auto simp: report_closed_def lineage_def Let_def lineage_accounting_closed_def)
  also have "\<dots> \<longleftrightarrow> ?n = min 64 ?n"
    using assms(2) by (auto simp: word_unat_eq_iff unat_of_nat min_def)
  finally show ?thesis by auto
qed

subsection \<open>Handles of the server command\<close>

lemma serve_start_handles:
  assumes "tracks_handles os opened" "serve_start os ok sv s = ((oc, bound, h), sv', s')"
  shows "if is_affirmative oc then h \<notin> opened s \<and> opened s' = insert h (opened s) else opened s' = opened s"
proof (cases "sv_running sv \<or> \<not> ok")
  case True
  then show ?thesis using assms(2)
    by (auto simp: serve_start_def server_start_def is_affirmative_def split: if_splits)
next
  case False
  obtain r t where r: "net_listen_loopback os ok (vc_port (sv_config sv)) (vc_backlog (sv_config sv)) s = (r, t)"
    by force
  with False assms(2) have "is_affirmative oc = is_affirmative (lis_outcome r)" "h = lis_handle r" "s' = t"
    by (auto simp: serve_start_def server_start_def is_affirmative_def split: if_splits)
  then show ?thesis using listen_handles [OF assms(1) r] by (auto split: if_splits)
qed

lemma serve_stop_handles:
  assumes "tracks_handles os opened" "opened s = insert h X" "h \<notin> X" "h \<noteq> kInvalidSocketHandle"
  shows "opened (snd (serve_stop os ok h sv s)) = X"
proof -
  obtain oc w d t where c: "net_connect_loopback os ok (sv_port sv) s = ((oc, w, d), t)" by (metis prod.exhaust)
  note conn = connect_handles [OF assms(1) c]
  have "w \<noteq> kInvalidSocketHandle" if "is_affirmative oc"
    using c that by (auto simp: net_connect_loopback_def is_affirmative_def Let_def case_prod_beta split: if_splits)
  then show ?thesis using conn assms(2-4)
    by (auto simp: serve_stop_def c Let_def net_close_def tracks_handles_simps [OF assms(1)] split: if_splits)
qed

lemma serve_start_valid: "serve_start os ok sv s = ((oc, bound, h), sv', s') \<Longrightarrow> is_affirmative oc \<Longrightarrow> h \<noteq> kInvalidSocketHandle"
  by (auto simp: serve_start_def server_start_def net_listen_loopback_def listen_failed_def is_affirmative_def Let_def
      case_prod_beta split: if_splits sum.splits)

text \<open>However the command ends, no handle it opened stays open, when its threads close theirs.\<close>

lemma cmd_serve_handles:
  assumes "tracks_handles os opened" and threads: "\<And>sv t. opened (snd (served sv t)) = opened t"
  shows "opened (snd (snd (cmd_serve a nonces clks disks os ok served s))) = opened s"
proof -
  obtain oe e where o: "cli_open (label_of a) nonces (clks 0) (disks (args_get a ''--root'' ''./bhg-state'')) = (oe, e)"
    by force
  obtain oc bound h sv t where st: "serve_start os ok (server_new e (serve_config a)) s = ((oc, bound, h), sv, t)"
    by (metis prod.exhaust)
  note start = serve_start_handles [OF assms(1) st]
  obtain sv' t' where th: "served sv t = (sv', t')" by force
  show ?thesis
  proof (cases "is_affirmative oe \<and> is_affirmative oc")
    case True
    then have "opened t' = insert h (opened s)" "h \<notin> opened s" "h \<noteq> kInvalidSocketHandle"
      using start threads [of sv t] th serve_start_valid [OF st] by auto
    from serve_stop_handles [OF assms(1) this] True show ?thesis
      by (simp add: cmd_serve_def o st th Let_def case_prod_beta)
  next
    case False
    then show ?thesis using start by (auto simp: cmd_serve_def o st)
  qed
qed

section \<open>The example programs\<close>

text \<open>\<open>examples/observe_and_fence.cpp\<close>: two sources report a failure, the intent is acknowledged and its
  effect reported, and the failure is localized.\<close>

definition evidence_of :: "u64 \<Rightarrow> scope \<Rightarrow> generation_vector \<Rightarrow> u64 \<Rightarrow> i64 \<Rightarrow> bool \<Rightarrow> delivery_evidence" where
  "evidence_of source scope g seq at failure =
     (let e = \<lparr>ev_id = 0,
        ev_source = \<lparr>sr_source = source, sr_boot = source, sr_incarnation = source, sr_epoch = 1\<rparr>,
        ev_scope = scope, ev_gens = g, ev_seq = seq, ev_attempt = seq,
        ev_kind = (if failure then K_DeliveryFailure else K_DeliverySuccess),
        ev_quality = Q_Exact, ev_provenance = P_Synthetic, ev_attempts = 64, ev_failures = (if failure then 64 else 0),
        ev_loss_ppm = (if failure then kLossTotalPpm else 0), ev_rtt_us = 0, ev_observed_at = at,
        ev_fresh = \<lparr>fw_open = at, fw_close = at + 300 * kNsPerSecond\<rparr>, ev_external_owner = 0\<rparr>
      in e\<lparr>ev_id := derive_evidence_id e\<rparr>)"

definition example_probes :: "hop_probe list" where
  "example_probes = [\<lparr>hp_begin_hop = 0, hp_end_hop = 3, hp_success = True\<rparr>,
     \<lparr>hp_begin_hop = 3, hp_end_hop = 8, hp_success = False\<rparr>, \<lparr>hp_begin_hop = 5, hp_end_hop = 8, hp_success = False\<rparr>]"

definition example_downstream :: "(nat \<Rightarrow> clock) \<Rightarrow> decision \<Rightarrow> engine \<Rightarrow> line list \<times> engine" where
  "example_downstream clks d e =
     (if d_has_intent d then
        let (_, e) = acknowledge_fence (fi_id (d_intent d)) 7 (clks 0) e;
            (_, e) = engine_report_effect (fi_id (d_intent d)) 7 True (clks 1) e
        in ([Out (''fence intent '' @ to_text (FenceId (fi_id (d_intent d))) @ '' emitted for epoch '' @
           hex_dec (gv_epoch (fi_gens (d_intent d))) @ ''; the route owner decides whether to apply it'')], e)
      else ([], e))"

definition example_localized :: "decision \<Rightarrow> line list" where
  "example_localized d =
     (if d_has_localization d then
        [Out (''localization='' @ localization_status_to_string (lr_status (d_localization d)) @
           '' size='' @ decimal (unat (lr_optimal_size (d_localization d))) @
           '' proven='' @ flag (lr_optimality_proven (d_localization d)) @
           '' elements=['' @ comma_separated (map (\<lambda>x. decimal (unat x)) (lr_elements (d_localization d))) @ '']'')]
      else [])"

definition example_run :: "(nat \<Rightarrow> clock) \<Rightarrow> engine \<Rightarrow> line list \<times> engine" where
  "example_run clks e =
     (let scope = path_scope_of 1; gens = gens_of 1 1 1 1; at = clks 0 0;
          (_, e) = submit (evidence_of 1 scope gens 1 at True) (clks 1) e;
          (_, e) = submit (evidence_of 2 scope gens 1 at True) (clks 2) e;
          ((_, d), e) = evaluate scope gens (clks 3) e;
          l1 = Out (''classification='' @ classification_to_string (d_classification d) @
            '' authority='' @ authority_stage_to_string (av_stage (d_authority d)) @
            '' corroborated='' @ flag (d_corroborated d));
          (l2, e) = example_downstream (\<lambda>n. clks (4 + n)) d e;
          ((_, d), e) = engine_localize scope gens 8 example_probes (clks 6) e; s = en_stats e;
          l4 = Out (''accounting_closed='' @ flag (es_accounting_closed s) @ '' evaluations='' @ hex_dec (es_evaluations s) @
            '' committed='' @ hex_dec (es_decisions_committed s))
      in (l1 # l2 @ example_localized d @ [l4], e))"

definition state_root :: "string list \<Rightarrow> string" where
  "state_root argv = (if length argv > 1 then argv ! 1 else ''./bhg-example-state'')"

definition observe_and_fence ::
  "string list \<Rightarrow> system_nonce_source \<Rightarrow> (nat \<Rightarrow> clock) \<Rightarrow> (string \<Rightarrow> disk) \<Rightarrow> (nat \<times> line list) \<times> engine" where
  "observe_and_fence argv nonces clks disks =
     (let (oc, e) = cli_open P_Synthetic nonces (clks 0) (disks (state_root argv)) in
      if \<not> is_affirmative oc then ((1, [Err (''engine open failed: '' @ outcome_to_string oc)]), e)
      else
        let (ls, e) = example_run (\<lambda>n. clks (Suc n)) e; stats = en_stats e; (_, e) = engine_close e
        in ((if es_accounting_closed stats then 0 else 2, ls), e))"

lemma observe_and_fence_exit:
  "fst (fst (observe_and_fence argv nonces clks disks)) =
     (if is_affirmative (fst (cli_open P_Synthetic nonces (clks 0) (disks (state_root argv)))) then 0 else 1)"
proof -
  obtain oc e where o: "cli_open P_Synthetic nonces (clks 0) (disks (state_root argv)) = (oc, e)" by force
  have "engine_ok 0 (snd (example_downstream clks' d e'))" if "engine_ok 0 e'" for clks' d e'
    using that by (simp add: example_downstream_def Let_def case_prod_beta acknowledge_fence_ok engine_report_effect_ok)
  moreover have "engine_ok 0 e" using cli_open_ok o by (metis snd_conv)
  ultimately have "engine_ok 0 (snd (example_run (\<lambda>n. clks (Suc n)) e))"
    by (simp add: example_run_def Let_def case_prod_beta engine_localize_ok snd_evaluate_ok submit_ok)
  then show ?thesis by (simp add: observe_and_fence_def o Let_def case_prod_beta accounts_closed engine_ok_def)
qed

text \<open>\<open>examples/query_lineage.cpp\<close>: the store alone is opened and its report printed.\<close>

definition query_lineage ::
  "string list \<Rightarrow> system_nonce_source \<Rightarrow> clock \<Rightarrow> (string \<Rightarrow> disk) \<Rightarrow> (nat \<times> line list) \<times> store" where
  "query_lineage argv nonces clk disks =
     (let (boot, nonces) = system_nonce_next nonces; (incarnation, nonces) = system_nonce_next nonces;
          (oc, st) = store_open boot incarnation (clk 0) P_Synthetic
            (store_new default_store_config default_policy (disks (state_root argv))) in
      if \<not> is_affirmative oc then ((1, [Err (''store open failed: '' @ outcome_to_string oc)]), st)
      else
        let r = so_report st; ds = so_state st in
        ((0, [Out (''boot_count='' @ hex_dec (or_boot_count r) @ '' open_count='' @ hex_dec (or_open_count r) @
             '' epoch='' @ hex_dec (or_epoch r) @ '' fenced_prior_fences='' @ hex_dec (or_fenced_prior_fences r)),
           Out (''snapshot_present='' @ flag (or_snapshot_present r) @ '' restart_detected='' @ flag (or_restart_detected r) @
             '' torn_tail='' @ flag (or_torn_tail_recovered r) @ '' reclaimed='' @ hex_dec (or_reclaimed_tail_bytes r)),
           Out (''lineage retained='' @ decimal (length (ds_lineage ds)) @ '' seen='' @ hex_dec (ds_lineage_seen ds) @
             '' dropped='' @ hex_dec (ds_lineage_dropped ds) @ '' closed='' @ flag (lineage_accounting_closed st))]),
         snd (store_close st)))"

section \<open>Properties\<close>

text \<open>
  C13. The demonstration ends well whenever the engine opens: on any disk, with any faults, clock and
  arguments, the exit code is 3 if the state root could not be opened and 0 otherwise; the code 4, open
  accounts, never occurs.
\<close>
theorem demo_exit_code:
  "fst (fst (cmd_demo a nonces clks disks)) =
     (if is_affirmative (fst (cli_open (label_of a) nonces (clks 0) (disks (args_get a ''--root'' ''./bhg-demo-state''))))
      then 0 else 3)"
proof -
  obtain oc e where o: "cli_open (label_of a) nonces (clks 0) (disks (args_get a ''--root'' ''./bhg-demo-state'')) = (oc, e)"
    by force
  then have "engine_ok 0 e" using cli_open_ok by (metis snd_conv)
  then have "es_accounting_closed (en_stats (snd (demo_run (\<lambda>n. clks (Suc n)) e)))"
    using demo_run_ok by (simp add: accounts_closed engine_ok_def)
  then show ?thesis by (simp add: cmd_demo_def o Let_def case_prod_beta)
qed

end
