(* ===== verification/Spec2Isabelle.thy ===== *)
theory Spec2Isabelle
  imports BHG_Recovery_Limits BHG_Cli
begin

text \<open>
  Blackhole-Guard is a coordinator that decides, from delivery evidence, whether a network subject
  silently drops traffic, issues fencing intents against it, and withdraws them on evidence of
  recovery. This development models the library, the service and the tools of \<open>src/\<close>, from the byte
  codec to the server, its client and the command line, and proves what makes them safe to rely on.

  \<^bold>\<open>The parts and how they interact.\<close> Clients submit observations over framed, checksummed
  connections. The server gives every connection a session and passes its requests to the coordinator.
  The coordinator keeps admitted observations in a bounded ledger, classifies the evidence of a
  subject, stages a fence in a registry when a blackhole is corroborated, and makes decisions and
  fences durable in a store, a journal of records with snapshots, before they confer authority.
  Localization searches the smallest sets of hops that explain failed probes. After a restart nothing
  of the earlier authority is in force.

  \<^bold>\<open>Theories and sources.\<close> Each theory models one component in the order of its source, one
  definition per type, operation, branch or loop, under the name of the source where that is free.
  \<^item> \<open>BHG_Prelude\<close>: machine words, ordered maps (\<open>std::map\<close>), shared lemmas and collections.
  \<^item> \<open>BHG_Core\<close> (\<open>core/\<close>): outcomes, checked arithmetic, bounded containers, freshness windows, bits,
    path names. The locale \<open>wire_enum\<close> is the contract of an enumeration on the wire, \<open>bounded_log\<close>
    that of a log that counts what it dropped.
  \<^item> \<open>BHG_Hash\<close> (\<open>hash.cpp\<close>, \<open>nonce.cpp\<close>): CRC-32C, FNV-1a, \<open>mix64\<close>, the seeded nonce source.
  \<^item> \<open>BHG_Canonical\<close> (\<open>canonical.cpp\<close>): bounded writer, latching reader, and the calculus of codecs;
    the locale \<open>codec\<close> is interpreted for every document of the program.
  \<^item> \<open>BHG_Platform\<close> (\<open>ids.cpp\<close>, \<open>time.cpp\<close>, \<open>nonce.cpp\<close>, \<open>path.cpp\<close>): identifiers and their texts, instants and
    the manual clock, the nonce source of a process, hashes of text, directories and files.
  \<^item> \<open>BHG_Domain\<close> (\<open>domain/\<close>): evidence, scopes, generations, policy, path structure.
  \<^item> \<open>BHG_Ledger\<close> (\<open>evidence/ledger.cpp\<close>), \<open>BHG_Classifier\<close> (\<open>diagnosis/classifier.cpp\<close>),
    \<open>BHG_Localizer\<close> (\<open>localize/localizer.cpp\<close>).
  \<^item> \<open>BHG_Fences\<close>, \<open>BHG_Decision\<close> (\<open>authority/authority.cpp\<close>): the registry of intents, the restoration
    gate, decisions with their identity and codec; the locale \<open>record_lifecycle\<close> lifts what one
    operation does to a record to sequences of operations.
  \<^item> \<open>BHG_Frame\<close>, \<open>BHG_Session\<close>, \<open>BHG_Messages\<close> (\<open>protocol/\<close>).
  \<^item> \<open>BHG_Record\<close>, \<open>BHG_Journal\<close>, \<open>BHG_Snapshot\<close>, \<open>BHG_Store\<close> (\<open>persist/\<close>); \<open>BHG_Recovery\<close> proves crash
    safety, \<open>BHG_Recovery_Limits\<close> shows where recovery refuses files the store wrote.
  \<^item> \<open>BHG_Engine\<close> (\<open>service/engine.cpp\<close>) is the coordinator; \<open>BHG_Engine_Steps\<close> its invariant and the
    interleaving of its calls, \<open>BHG_Engine_Progress\<close> when a fence is issued, \<open>BHG_Engine_Safety\<close> its
    guarantees.
  \<^item> \<open>BHG_Server\<close>, \<open>BHG_Client\<close> (\<open>service/server.cpp\<close>, \<open>service/client.cpp\<close>); \<open>BHG_Server_Steps\<close> the
    interleaving of the threads, \<open>BHG_Service_Safety\<close> the guarantees over the network, \<open>BHG_Typing\<close>
    that only well-formed requests reach the coordinator.
  \<^item> \<open>BHG_Net\<close> (\<open>service/net.cpp\<close>): the socket wrapper over the calls of the operating system.
  \<^item> \<open>BHG_Cli\<close> (\<open>tools/bhg_cli.cpp\<close>, \<open>examples/\<close>): arguments, commands, output and exit codes.

  \<^bold>\<open>State, effects and failures.\<close> A class is a record, an operation a function that returns its
  results and the changed record. Integers have the width of the source and wrap as there; signed
  values are read with \<open>sint\<close>. An outcome other than success is an explicit value on every branch.
  What the program takes from outside is an argument: readings of the clock (\<open>clk n\<close> is the n-th of a
  call), the process id, the bytes and results of socket calls. \<open>BHG_Net\<close> takes the socket calls
  themselves as arguments over a state of the system; its lemmas name what they rely on (\<open>sends_on\<close>,
  \<open>receives\<close>, \<open>tracks_handles\<close>), which a stream socket documents. The files of the store are part of its state,
  and the operating system fails any read, write, flush, truncation or renaming it likes: \<open>dk_faults\<close> says
  after how many bytes; queries of the status of a file answer truthfully. A mutex makes
  the code between its acquisition and release one step. The calls of the coordinator interleave
  arbitrarily, with a localization in two steps because it releases the mutex while it searches
  (\<open>engine_step\<close>). The threads of the server interleave between their calls of the coordinator, token
  checks, responses, and the acceptances and ends of connections, each of which is one step although
  it may take several locks in turn (\<open>server_step\<close>); runs are labelled with the sessions given and the
  calls made.

  \<^bold>\<open>What the lemmas show.\<close>
  \<^item> Authority: a fence appears only on usable complete failures of at least two source incarnations and
    enough sources; a decision at the intent stage has its fence open and on record; a fence that
    has not lapsed is closed by a restoration only on fresh successes without usable failures; a restart
    confers nothing; conversely, under conditions that are spelt out (room, a healthy disk, no other fence
    lapsing, usable ids), a corroborated blackhole gets its fence. The counters of the registry are those
    of all records ever made, also across clearings.
  \<^item> Evidence: admission is characterised exactly, a replay gets through only behind a counted rollover,
    bounds and counters hold. The classifier follows the rules documented for it outside two cases that are
    named; its blackhole verdict is characterised exactly, and corroboration lies between the documented
    conditions and what the code counts.
  \<^item> Localization: the result is optimal, claims of uniqueness and infeasibility are right.
  \<^item> Durability: after operations that the store can keep and a crash in the middle of a commit, within the
    bounds that recovery applies to the journal, the store recovers the committed state; corruption of up to four bytes is refused; a snapshot is replaced atomically.
  \<^item> Protocol: every document and message survives encoding, framing and chunking. The coordinator is
    called only under the session of the connection, in order and with well-formed requests, each call is
    the operation its request names and nothing else acts on the coordinator, every read is worked off in bounded time, the number of connections is
    bounded and accounted for, and a call of a client returns what the coordinator answered.
  \<^item> Platform and tools: texts and hashes of identifiers are injective, the nonces of two starts of a
    process differ, sending hands over all bytes or reports failure after a first part, no socket
    handle is lost, only loopback addresses are named, the demonstration ends with closed accounts.
  \<^item> Limits: where the code does not do what its comments or its purpose say, a theorem shows it.

  \<^bold>\<open>Bounds and fuel.\<close> No function takes fuel. The loops over containers are structural; the searches of
  the localizer, the loop over the frames in a buffer and the scan of a journal have measures. The
  client's loop recurses over the results of its reads and is \<open>None\<close> when they are used up. Widths and
  limits are those of the source; samples in the witnesses are small so that they evaluate.

  \<^bold>\<open>Not modelled.\<close> The Windows branches of \<open>net.cpp\<close> and \<open>path.cpp\<close>; \<open>sync_directory\<close>, which only flushes.
  Thread creation, joining and the poll slices of the server have no counterpart beyond the
  interleaving; a finished connection gives up its slot at once, as the accept loop reaps before it
  counts. Signals (\<open>SIGPIPE\<close> on a send to a closed peer) and errors of status queries are outside the model.
  The memory of the file cache below \<open>fsync\<close> is not modelled beyond unflushed buffers and
  failing calls. The files of the store are one disk per state root: the operations of \<open>path.cpp\<close> on
  names are modelled in \<open>BHG_Platform\<close> and not threaded through the store. The tests drive the
  library with assertions and hold no logic of their own.
\<close>

end
